(* ===== verification/Prelude.thy ===== *)
theory Prelude
  imports Main "HOL-Library.Word"
begin

text \<open>
  Shared vocabulary of the development: the shape of a fallible Rust function that mutates
  its receiver (\<open>cmd\<close>), the pieces of Rust's standard string library the sources call, the
  decimal rendering behind \<open>format!\<close>, and generic list lemmas. A Rust \<open>String\<close> is the list
  of its UTF-8 bytes, so \<open>length\<close> is Rust's \<open>len\<close>; \<open>chars\<close> is counted with
  \<open>utf8_take\<close>. \<open>i64\<close> values that only carry times, row ids and counters are \<open>int\<close>;
  where a width matters the definition uses a \<open>word\<close>.
\<close>

named_theorems cmd_simps \<open>unfolding of the error-and-state combinators\<close>

section \<open>Fallible functions over a mutable receiver\<close>

text \<open>
  \<open>fn f(&mut self) -> Result<T, E>\<close>: the answer and the receiver afterwards. An error keeps
  whatever the function had already written, as \<open>?\<close> does in Rust. Most errors here are texts.
\<close>

type_synonym ('s, 'e, 'a) fallible = "'s \<Rightarrow> ('e + 'a) \<times> 's"

type_synonym ('s, 'a) cmd = "('s, string, 'a) fallible"

definition okE :: "'a \<Rightarrow> ('s, 'e, 'a) fallible" where
  "okE x s = (Inr x, s)"

definition failE :: "'e \<Rightarrow> ('s, 'e, 'a) fallible" where
  "failE e s = (Inl e, s)"

definition bindE :: "('s, 'e, 'a) fallible \<Rightarrow> ('a \<Rightarrow> ('s, 'e, 'b) fallible) \<Rightarrow> ('s, 'e, 'b) fallible" where
  "bindE m f s = (case m s of (Inl e, s') \<Rightarrow> (Inl e, s') | (Inr x, s') \<Rightarrow> f x s')"

definition thenE :: "('s, 'e, 'a) fallible \<Rightarrow> ('s, 'e, 'b) fallible \<Rightarrow> ('s, 'e, 'b) fallible" where
  "thenE m k = bindE m (\<lambda>_. k)"

definition readE :: "('s \<Rightarrow> 'a) \<Rightarrow> ('s, 'e, 'a) fallible" where
  "readE f s = (Inr (f s), s)"

definition writeE :: "('s \<Rightarrow> 's) \<Rightarrow> ('s, 'e, unit) fallible" where
  "writeE f s = (Inr (), f s)"

text \<open>\<open>map_err\<close>: the error text is rewritten, the state is what the call left.\<close>

definition map_errE :: "('e \<Rightarrow> 'f) \<Rightarrow> ('s, 'e, 'a) fallible \<Rightarrow> ('s, 'f, 'a) fallible" where
  "map_errE g m s = (case m s of (Inl e, s') \<Rightarrow> (Inl (g e), s') | (Inr x, s') \<Rightarrow> (Inr x, s'))"

declare okE_def [cmd_simps] failE_def [cmd_simps] readE_def [cmd_simps] writeE_def [cmd_simps]

lemma bindE_Inl [simp]: "m s = (Inl e, s') \<Longrightarrow> bindE m f s = (Inl e, s')"
  by (simp add: bindE_def)

lemma bindE_Inr [simp]: "m s = (Inr x, s') \<Longrightarrow> bindE m f s = f x s'"
  by (simp add: bindE_def)

lemma bindE_okE [simp]: "bindE (okE x) f = f x"
  by (rule ext) (simp add: bindE_def okE_def)

lemma bindE_failE [simp]: "bindE (failE e) f = failE e"
  by (rule ext) (simp add: bindE_def failE_def)

lemma bindE_readE [simp]: "bindE (readE g) f s = f (g s) s"
  by (simp add: bindE_def readE_def)

lemma bindE_writeE [simp]: "bindE (writeE g) f s = f () (g s)"
  by (simp add: bindE_def writeE_def)

lemma bindE_assoc: "bindE (bindE m f) g = bindE m (\<lambda>x. bindE (f x) g)"
  by (rule ext) (simp add: bindE_def split: prod.split sum.split)

lemma thenE_apply [cmd_simps]: "thenE m k s = bindE m (\<lambda>_. k) s"
  by (simp add: thenE_def)

text \<open>A state property that both halves of a sequence keep is kept by the sequence.\<close>

definition keeps :: "('s \<Rightarrow> bool) \<Rightarrow> ('s, 'e, 'a) fallible \<Rightarrow> bool" where
  "keeps P m \<longleftrightarrow> (\<forall>s. P s \<longrightarrow> P (snd (m s)))"

lemma keepsI [intro?]: "(\<And>s. P s \<Longrightarrow> P (snd (m s))) \<Longrightarrow> keeps P m"
  by (simp add: keeps_def)

lemma keepsD: "keeps P m \<Longrightarrow> P s \<Longrightarrow> P (snd (m s))"
  by (simp add: keeps_def)

lemma keeps_bindE: "keeps P m \<Longrightarrow> (\<And>x. keeps P (f x)) \<Longrightarrow> keeps P (bindE m f)"
  by (fastforce simp: keeps_def bindE_def split: prod.splits sum.splits)

lemma keeps_thenE: "keeps P m \<Longrightarrow> keeps P k \<Longrightarrow> keeps P (thenE m k)"
  by (simp add: thenE_def keeps_bindE)

lemma keeps_okE [simp]: "keeps P (okE x)"
  by (simp add: keeps_def okE_def)

lemma keeps_failE [simp]: "keeps P (failE e)"
  by (simp add: keeps_def failE_def)

lemma keeps_readE [simp]: "keeps P (readE g)"
  by (simp add: keeps_def readE_def)

lemma keeps_writeE: "(\<And>s. P s \<Longrightarrow> P (g s)) \<Longrightarrow> keeps P (writeE g)"
  by (simp add: keeps_def writeE_def)

lemma keeps_map_errE: "keeps P m \<Longrightarrow> keeps P (map_errE g m)"
  by (auto simp: keeps_def map_errE_def split: prod.splits sum.splits)

lemma keeps_case_option: "(x = None \<Longrightarrow> keeps P m) \<Longrightarrow> (\<And>y. x = Some y \<Longrightarrow> keeps P (f y)) \<Longrightarrow>
   keeps P (case x of None \<Rightarrow> m | Some y \<Rightarrow> f y)"
  by (cases x) auto

lemma keeps_case_sum: "(\<And>y. x = Inl y \<Longrightarrow> keeps P (g y)) \<Longrightarrow> (\<And>y. x = Inr y \<Longrightarrow> keeps P (f y)) \<Longrightarrow>
   keeps P (case x of Inl y \<Rightarrow> g y | Inr y \<Rightarrow> f y)"
  by (cases x) auto

text \<open>What becomes of a request: carried out, refused, or carried out with the answer lost.\<close>

datatype 'e sent = Applied | Refused 'e | Lost 'e

definition through :: "'e sent \<Rightarrow> ('s, 'e, 'a) fallible \<Rightarrow> ('s, 'e, 'a) fallible" where
  "through w m s = (case w of Applied \<Rightarrow> m s | Refused e \<Rightarrow> (Inl e, s) | Lost e \<Rightarrow> (Inl e, snd (m s)))"

lemma keeps_through: "keeps P m \<Longrightarrow> keeps P (through w m)"
  by (auto simp: keeps_def through_def split: sent.split)

text \<open>Total correctness: from every state in \<open>P\<close> the call answers, in a state \<open>Q\<close> relates to
  the answer.\<close>

definition ensures :: "('s \<Rightarrow> bool) \<Rightarrow> ('s, 'e, 'a) fallible \<Rightarrow> ('a \<Rightarrow> 's \<Rightarrow> bool) \<Rightarrow> bool" where
  "ensures P m Q \<longleftrightarrow> (\<forall>s. P s \<longrightarrow> (\<exists>x s'. m s = (Inr x, s') \<and> Q x s'))"

lemma ensuresI [intro?]: "(\<And>s. P s \<Longrightarrow> \<exists>x s'. m s = (Inr x, s') \<and> Q x s') \<Longrightarrow> ensures P m Q"
  by (simp add: ensures_def)

lemma ensuresD: "ensures P m Q \<Longrightarrow> P s \<Longrightarrow> \<exists>x s'. m s = (Inr x, s') \<and> Q x s'"
  by (simp add: ensures_def)

lemma ensures_okE: "(\<And>s. P s \<Longrightarrow> Q x s) \<Longrightarrow> ensures P (okE x) Q"
  by (simp add: ensures_def okE_def)

lemma ensures_readE: "(\<And>s. P s \<Longrightarrow> Q (g s) s) \<Longrightarrow> ensures P (readE g) Q"
  by (simp add: ensures_def readE_def)

lemma ensures_bindE:
  assumes "ensures P m Q" and "\<And>x. ensures (Q x) (f x) R"
  shows "ensures P (bindE m f) R"
proof
  fix s
  assume "P s"
  with assms(1) obtain x s' where "m s = (Inr x, s')" "Q x s'" by (auto simp: ensures_def)
  then show "\<exists>y t. bindE m f s = (Inr y, t) \<and> R y t"
    using ensuresD [OF assms(2)] by simp
qed

lemma ensures_thenE: "ensures P m (\<lambda>_. Q) \<Longrightarrow> ensures Q k R \<Longrightarrow> ensures P (thenE m k) R"
  unfolding thenE_def by (rule ensures_bindE)

lemma ensures_weaken:
  "ensures P m Q \<Longrightarrow> (\<And>s. P' s \<Longrightarrow> P s) \<Longrightarrow> (\<And>x s. Q x s \<Longrightarrow> Q' x s) \<Longrightarrow> ensures P' m Q'"
  unfolding ensures_def by blast

lemma ensures_ex: "(\<And>a. ensures (P a) m Q) \<Longrightarrow> ensures (\<lambda>s. \<exists>a. P a s) m Q"
  unfolding ensures_def by blast

lemma ensures_conj: "(A \<Longrightarrow> ensures P m Q) \<Longrightarrow> ensures (\<lambda>s. A \<and> P s) m Q"
  unfolding ensures_def by blast

section \<open>Strings\<close>

fun starts_with :: "string \<Rightarrow> string \<Rightarrow> bool" where
  "starts_with s [] = True"
| "starts_with [] (p # ps) = False"
| "starts_with (c # cs) (p # ps) = (c = p \<and> starts_with cs ps)"

fun strip_prefix :: "string \<Rightarrow> string \<Rightarrow> string option" where
  "strip_prefix s [] = Some s"
| "strip_prefix [] (p # ps) = None"
| "strip_prefix (c # cs) (p # ps) = (if c = p then strip_prefix cs ps else None)"

definition strip_suffix :: "string \<Rightarrow> string \<Rightarrow> string option" where
  "strip_suffix s p = map_option rev (strip_prefix (rev s) (rev p))"

definition ends_with :: "string \<Rightarrow> string \<Rightarrow> bool" where
  "ends_with s p = starts_with (rev s) (rev p)"

text \<open>\<open>split_once\<close>: the text before the first separator and the text after it.\<close>

fun split_once :: "char \<Rightarrow> string \<Rightarrow> (string \<times> string) option" where
  "split_once d [] = None"
| "split_once d (c # cs) =
     (if c = d then Some ([], cs)
      else (case split_once d cs of None \<Rightarrow> None | Some (a, b) \<Rightarrow> Some (c # a, b)))"

text \<open>\<open>split\<close>: every piece between separators; always at least one.\<close>

fun split_char :: "char \<Rightarrow> string \<Rightarrow> string list" where
  "split_char d [] = [[]]"
| "split_char d (c # cs) =
     (if c = d then [] # split_char d cs
      else (case split_char d cs of [] \<Rightarrow> [[c]] | p # ps \<Rightarrow> (c # p) # ps))"

text \<open>\<open>join\<close>.\<close>

fun join :: "string \<Rightarrow> string list \<Rightarrow> string" where
  "join sep [] = []"
| "join sep [x] = x"
| "join sep (x # y # ys) = x @ sep @ join sep (y # ys)"

text \<open>ASCII white space, the part of Unicode's that single bytes can carry.\<close>

definition is_space :: "char \<Rightarrow> bool" where
  "is_space c = (of_char c \<in> {9, 10, 11, 12, 13, 32 :: nat})"

definition trim_start :: "string \<Rightarrow> string" where
  "trim_start s = dropWhile is_space s"

definition trim :: "string \<Rightarrow> string" where
  "trim s = rev (dropWhile is_space (rev (dropWhile is_space s)))"

text \<open>UTF-8: a continuation byte is \<open>10xxxxxx\<close>; \<open>chars().take(n)\<close> keeps \<open>n\<close> leading bytes
  with their continuations.\<close>

definition is_cont :: "char \<Rightarrow> bool" where
  "is_cont c = ((of_char c :: nat) div 64 = 2)"

fun utf8_take :: "nat \<Rightarrow> string \<Rightarrow> string" where
  "utf8_take n [] = []"
| "utf8_take n (b # bs) =
     (if is_cont b then b # utf8_take n bs
      else (case n of 0 \<Rightarrow> [] | Suc m \<Rightarrow> b # utf8_take m bs))"

definition utf8_len :: "string \<Rightarrow> nat" where
  "utf8_len s = length (filter (\<lambda>c. \<not> is_cont c) s)"

text \<open>Decimal rendering, what \<open>{}\<close> prints for an integer.\<close>

definition digit_char :: "nat \<Rightarrow> char" where
  "digit_char d = char_of (48 + d)"

fun show_nat :: "nat \<Rightarrow> string" where
  "show_nat n = (if n < 10 then [digit_char n] else show_nat (n div 10) @ [digit_char (n mod 10)])"

declare show_nat.simps [simp del]

definition show_int :: "int \<Rightarrow> string" where
  "show_int i = (if i < 0 then CHR ''-'' # show_nat (nat (- i)) else show_nat (nat i))"

text \<open>A name between apostrophes, as the error texts print it.\<close>

definition quoted :: "string \<Rightarrow> string" where
  "quoted s = [CHR 0x27] @ s @ [CHR 0x27]"

subsection \<open>String lemmas\<close>

lemma starts_with_append [simp]: "starts_with (p @ s) p"
  by (induction p) auto

lemma starts_with_iff: "starts_with s p \<longleftrightarrow> (\<exists>r. s = p @ r)"
  by (induction s p rule: starts_with.induct) auto

lemma strip_prefix_Some_iff: "strip_prefix s p = Some r \<longleftrightarrow> s = p @ r"
  by (induction s p rule: strip_prefix.induct) auto

lemma strip_prefix_append [simp]: "strip_prefix (p @ s) p = Some s"
  by (simp add: strip_prefix_Some_iff)

lemma split_once_None_iff: "split_once d s = None \<longleftrightarrow> d \<notin> set s"
  by (induction s) (auto split: option.splits)

lemma split_once_Some_iff: "split_once d s = Some (a, b) \<longleftrightarrow> s = a @ d # b \<and> d \<notin> set a"
proof (induction s arbitrary: a)
  case (Cons c cs)
  show ?case
  proof (cases a)
    case Nil
    then show ?thesis by (auto split: option.split)
  next
    case (Cons x xs)
    then show ?thesis using Cons.IH [of xs] by (auto split: option.split)
  qed
qed simp

lemma split_char_ne [simp]: "split_char d s \<noteq> []"
  by (induction s) (auto split: list.splits)

lemma split_char_join: "join [d] (split_char d s) = s"
proof (induction s)
  case (Cons c cs)
  then show ?case
    by (cases "split_char d cs"; cases "tl (split_char d cs)") auto
qed simp

lemma split_char_no_sep: "p \<in> set (split_char d s) \<Longrightarrow> d \<notin> set p"
  by (induction s arbitrary: p) (auto split: if_splits list.splits)

lemma utf8_take_length: "length (utf8_take n s) \<le> length s"
  by (induction n s rule: utf8_take.induct) (auto split: nat.splits)

lemma utf8_take_chars: "utf8_len (utf8_take n s) \<le> n"
  by (induction n s rule: utf8_take.induct) (auto simp: utf8_len_def split: nat.splits)

lemma utf8_take_prefix: "\<exists>r. s = utf8_take n s @ r"
  by (induction n s rule: utf8_take.induct) (auto split: nat.splits)

section \<open>Tables kept in row order\<close>

text \<open>\<open>ORDER BY\<close> on a table already in that order changes nothing.\<close>

lemma sort_key_sorted: "sorted (map f xs) \<Longrightarrow> sort_key f xs = xs"
proof (induction xs)
  case (Cons x xs)
  then show ?case by (cases xs) auto
qed simp

lemma sorted_map_filter: "sorted (map f xs) \<Longrightarrow> sorted (map f (filter P xs))"
  by (induction xs) auto

lemma sorted_wrt_map_filter: "sorted_wrt R (map f xs) \<Longrightarrow> sorted_wrt R (map f (filter P xs))"
  by (induction xs) auto

lemma sorted_wrt_less_snoc:
  "sorted_wrt (<) (map f xs) \<Longrightarrow> (\<And>x. x \<in> set xs \<Longrightarrow> f x < f y) \<Longrightarrow> sorted_wrt (<) (map f (xs @ [y]))"
  by (induction xs) auto

lemma distinct_map_filter: "distinct (map f xs) \<Longrightarrow> distinct (map f (filter P xs))"
  by (induction xs) auto

end
