(* ===== verification/Json.thy ===== *)
theory Json
  imports Prelude
begin

text \<open>
  The values that cross every boundary of the platform: \<open>serde_json::Value\<close>. Objects are
  key/value lists in key order (serde's default map is ordered, \<open>json!\<close> builds no
  duplicates); a float is carried as its 64 bits and never computed with. Text encoding is
  serde's own code and enters the model as a parameter, a \<open>codec\<close>.
\<close>

datatype json =
    JNull
  | JBool bool
  | JInt int
  | JFloat "64 word"
  | JStr string
  | JArr "json list"
  | JObj "(string \<times> json) list"

text \<open>\<open>value[key]\<close>: null when the value is no object or lacks the key.\<close>

fun jget :: "json \<Rightarrow> string \<Rightarrow> json" where
  "jget (JObj kvs) k = (case map_of kvs k of Some v \<Rightarrow> v | None \<Rightarrow> JNull)"
| "jget _ k = JNull"

fun as_str :: "json \<Rightarrow> string option" where
  "as_str (JStr s) = Some s"
| "as_str _ = None"

text \<open>\<open>as_i64\<close>: a number held as \<open>u64\<close> above \<open>i64::MAX\<close> is none.\<close>

fun as_i64 :: "json \<Rightarrow> int option" where
  "as_i64 (JInt i) = (if - (2 ^ 63) \<le> i \<and> i < 2 ^ 63 then Some i else None)"
| "as_i64 _ = None"

fun as_bool :: "json \<Rightarrow> bool option" where
  "as_bool (JBool b) = Some b"
| "as_bool _ = None"

fun as_array :: "json \<Rightarrow> json list option" where
  "as_array (JArr xs) = Some xs"
| "as_array _ = None"

definition jopt :: "('a \<Rightarrow> json) \<Rightarrow> 'a option \<Rightarrow> json" where
  "jopt f x = (case x of None \<Rightarrow> JNull | Some v \<Rightarrow> f v)"

text \<open>\<open>args.first().cloned().unwrap_or(Null)\<close> and its kin.\<close>

definition arg :: "nat \<Rightarrow> json list \<Rightarrow> json option" where
  "arg n xs = (if n < length xs then Some (xs ! n) else None)"

definition arg_or_null :: "nat \<Rightarrow> json list \<Rightarrow> json" where
  "arg_or_null n xs = (case arg n xs of Some v \<Rightarrow> v | None \<Rightarrow> JNull)"

text \<open>serde's text form of a value, and its parser, as the sources call them.\<close>

record codec =
  to_text :: "json \<Rightarrow> string"
  from_text :: "string \<Rightarrow> json option"

text \<open>The values whose text serde documents to read back unchanged: no floats.\<close>

fun float_free :: "json \<Rightarrow> bool" where
  "float_free (JFloat w) = False"
| "float_free (JArr xs) = list_all float_free xs"
| "float_free (JObj kvs) = list_all (\<lambda>kv. float_free (snd kv)) kvs"
| "float_free _ = True"

definition codec_round_trips :: "codec \<Rightarrow> bool" where
  "codec_round_trips c \<longleftrightarrow> (\<forall>v. float_free v \<longrightarrow> from_text c (to_text c v) = Some v)"

lemma arg_Cons_0 [simp]: "arg 0 (x # xs) = Some x"
  by (simp add: arg_def)

lemma arg_Cons_Suc [simp]: "arg (Suc n) (x # xs) = arg n xs"
  by (simp add: arg_def)

lemma arg_Nil [simp]: "arg n [] = None"
  by (simp add: arg_def)

end
