(* ===== verification/Storage.thy ===== *)
theory Storage
  imports Json "HOL-Library.List_Lexorder" "HOL-Library.Char_ord" "HOL-Library.Product_Lexorder"
begin

text \<open>
  \<open>SqliteStorage\<close> (\<open>actias-worker-core/src/storage.rs\<close>): one SQLite file per object. The file
  is a record of the platform's reserved tables, the version cell and the script's own tables
  (the parameter type \<open>'u\<close>). A connection holds the committed file, the view of the open
  transaction if there is one, and SQLite's count of changed rows, which a rollback does not
  undo. What SQLite does when its disk fails is not modelled; every refusal the SQL itself
  can cause is.
\<close>

section \<open>The file\<close>

type_synonym alarm_row = "int \<times> string \<times> string \<times> string"

record message_row =
  m_id :: int
  m_payload :: string
  m_attempts :: int
  m_next_at :: int
  m_enqueued_at :: int

record dead_row =
  d_id :: int
  d_payload :: string
  d_attempts :: int
  d_enqueued_at :: int
  d_died_at :: int

record event_row =
  e_seq :: int
  e_at :: int
  e_kind :: string
  e_detail :: string

record journal_row =
  j_seq :: int
  j_at :: int
  j_kind :: string
  j_data :: string
  j_format :: int

text \<open>A table is \<open>None\<close> until its DDL ran. \<open>messages_seq\<close> and \<open>journal_seq\<close> are the rows of
  \<open>sqlite_sequence\<close> behind the two \<open>AUTOINCREMENT\<close> keys.\<close>

record 'u db =
  user_version :: int
  alarm_table :: "alarm_row list option"
  migrations_table :: "string list option"
  queue_messages :: "message_row list option"
  messages_seq :: int
  queue_dead :: "dead_row list option"
  queue_events :: "event_row list option"
  wf_journal :: "journal_row list option"
  journal_seq :: int
  wf_secrets :: "(string \<times> int) list option"
  user_tables :: 'u

record 'u sqlite =
  committed :: "'u db"
  working :: "'u db option"
  changes :: int

definition fresh_db :: "'u \<Rightarrow> 'u db" where
  "fresh_db u = \<lparr>user_version = 0, alarm_table = None, migrations_table = None,
     queue_messages = None, messages_seq = 0, queue_dead = None, queue_events = None,
     wf_journal = None, journal_seq = 0, wf_secrets = None, user_tables = u\<rparr>"

text \<open>Opening a file: no transaction, nothing changed yet on this connection.\<close>

definition open_file :: "'u db \<Rightarrow> 'u sqlite" where
  "open_file d = \<lparr>committed = d, working = None, changes = 0\<rparr>"

text \<open>What a statement sees and writes: the transaction when one is open, else the file itself
  (autocommit).\<close>

definition view :: "'u sqlite \<Rightarrow> 'u db" where
  "view st = (case working st of Some d \<Rightarrow> d | None \<Rightarrow> committed st)"

definition put :: "'u db \<Rightarrow> 'u sqlite \<Rightarrow> 'u sqlite" where
  "put d st = (case working st of Some _ \<Rightarrow> st\<lparr>working := Some d\<rparr> | None \<Rightarrow> st\<lparr>committed := d\<rparr>)"

definition in_txn :: "'u sqlite \<Rightarrow> bool" where
  "in_txn st = (working st \<noteq> None)"

text \<open>One platform statement: new contents and the rows it changed.\<close>

definition stmt :: "('u db \<Rightarrow> 'u db) \<Rightarrow> nat \<Rightarrow> 'u sqlite \<Rightarrow> 'u sqlite" where
  "stmt f n st = (let st' = put (f (view st)) st in st'\<lparr>changes := changes st + int n\<rparr>)"

section \<open>Transactions\<close>

definition begin_txn :: "('u sqlite, unit) cmd" where
  "begin_txn st = (if in_txn st then (Inl ''cannot start a transaction within a transaction'', st)
                   else (Inr (), st\<lparr>working := Some (committed st)\<rparr>))"

definition commit :: "('u sqlite, unit) cmd" where
  "commit st = (case working st of
      None \<Rightarrow> (Inl ''cannot commit - no transaction is active'', st)
    | Some d \<Rightarrow> (Inr (), st\<lparr>committed := d, working := None\<rparr>))"

definition rollback :: "('u sqlite, unit) cmd" where
  "rollback st = (case working st of
      None \<Rightarrow> (Inl ''cannot rollback - no transaction is active'', st)
    | Some d \<Rightarrow> (Inr (), st\<lparr>working := None\<rparr>))"

text \<open>\<open>PRAGMA wal_checkpoint\<close> moves committed pages from the log into the file; contents stay.\<close>

definition checkpoint :: "('u sqlite, unit) cmd" where
  "checkpoint st = (Inr (), st)"

definition total_changes :: "('u sqlite, int) cmd" where
  "total_changes = readE changes"

section \<open>The version cell\<close>

definition schema_version :: "('u sqlite, int) cmd" where
  "schema_version = readE (\<lambda>st. user_version (view st))"

definition set_schema_version :: "int \<Rightarrow> ('u sqlite, unit) cmd" where
  "set_schema_version v = writeE (stmt (\<lambda>d. d\<lparr>user_version := v\<rparr>) 0)"

definition is_fresh :: "('u sqlite, bool) cmd" where
  "is_fresh = readE (\<lambda>st. user_version (view st) = 0)"

definition mark_initialized :: "('u sqlite, unit) cmd" where
  "mark_initialized = writeE (stmt (\<lambda>d. d\<lparr>user_version := 1\<rparr>) 0)"

section \<open>The alarm row\<close>

definition ensure_meta :: "('u sqlite, unit) cmd" where
  "ensure_meta = writeE (stmt (\<lambda>d. if alarm_table d = None then d\<lparr>alarm_table := Some []\<rparr> else d) 0)"

definition load_alarm_row :: "'u sqlite \<Rightarrow> alarm_row option" where
  "load_alarm_row st = (case alarm_table (view st) of Some (r # _) \<Rightarrow> Some r | _ \<Rightarrow> None)"

definition load_alarm :: "('u sqlite, alarm_row option) cmd" where
  "load_alarm = thenE ensure_meta (readE load_alarm_row)"

definition peek_alarm :: "('u sqlite, alarm_row option) cmd" where
  "peek_alarm = readE (\<lambda>st. if alarm_table (view st) = None then None else load_alarm_row st)"

definition delete_alarms :: "'u sqlite \<Rightarrow> 'u sqlite" where
  "delete_alarms st =
     stmt (\<lambda>d. d\<lparr>alarm_table := Some []\<rparr>)
       (case alarm_table (view st) of Some rs \<Rightarrow> length rs | None \<Rightarrow> 0) st"

definition insert_alarm :: "alarm_row \<Rightarrow> 'u sqlite \<Rightarrow> 'u sqlite" where
  "insert_alarm r = stmt (\<lambda>d. d\<lparr>alarm_table := map_option (\<lambda>rs. rs @ [r]) (alarm_table d)\<rparr>) 1"

definition save_alarm :: "int \<Rightarrow> string \<Rightarrow> string \<Rightarrow> string \<Rightarrow> ('u sqlite, unit) cmd" where
  "save_alarm due cls nm key =
     thenE ensure_meta (thenE (writeE delete_alarms) (writeE (insert_alarm (due, cls, nm, key))))"

definition clear_alarm_rows :: "('u sqlite, unit) cmd" where
  "clear_alarm_rows = thenE ensure_meta (writeE delete_alarms)"

section \<open>Migrations\<close>

definition applied_migrations :: "('u sqlite, string list) cmd" where
  "applied_migrations =
     thenE (writeE (stmt (\<lambda>d. if migrations_table d = None then d\<lparr>migrations_table := Some []\<rparr> else d) 0))
       (readE (\<lambda>st. case migrations_table (view st) of Some ns \<Rightarrow> sort ns | None \<Rightarrow> []))"

definition record_migration :: "string \<Rightarrow> ('u sqlite, unit) cmd" where
  "record_migration nm st =
     (case migrations_table (view st) of
        None \<Rightarrow> (Inl ''no such table: __actias_migrations'', st)
      | Some ns \<Rightarrow>
          if nm \<in> set ns then (Inl ''UNIQUE constraint failed: __actias_migrations.name'', st)
          else (Inr (), stmt (\<lambda>d. d\<lparr>migrations_table := Some (ns @ [nm])\<rparr>) 1 st))"

section \<open>The size limit\<close>

text \<open>\<open>bytes as i64 / page_size.max(1)\<close>, at least one page: the \<open>u64\<close> argument is reinterpreted
  as signed and \<open>i64\<close> division truncates towards zero.\<close>

definition trunc_div :: "int \<Rightarrow> int \<Rightarrow> int" where
  "trunc_div a b = sgn a * sgn b * (\<bar>a\<bar> div \<bar>b\<bar>)"

definition size_limit_pages :: "64 word \<Rightarrow> int \<Rightarrow> int" where
  "size_limit_pages bytes page_size = max (trunc_div (sint bytes) (max page_size 1)) 1"

section \<open>What script SQL may do\<close>

text \<open>The statement actions SQLite asks the authorizer about, as \<open>rusqlite\<close> names them; the
  ones the guard does not list fall into its last arm.\<close>

datatype auth_action =
    Attach string
  | Detach string
  | Transaction string
  | Pragma string
  | Read string string
  | Insert string
  | Update string string
  | Delete string
  | CreateTable string
  | CreateIndex string string
  | CreateTrigger string string
  | DropTable string
  | DropIndex string string
  | DropTrigger string string
  | AlterTable string
  | CreateTempTrigger string string
  | CreateView string
  | Select
  | OtherAction

datatype authorization = Allow | Deny

definition guard_table :: "string \<Rightarrow> authorization" where
  "guard_table t = (if starts_with t ''__actias_'' then Deny else Allow)"

fun script_authorizer :: "auth_action \<Rightarrow> authorization" where
  "script_authorizer (Attach _) = Deny"
| "script_authorizer (Detach _) = Deny"
| "script_authorizer (Transaction _) = Deny"
| "script_authorizer (Pragma _) = Deny"
| "script_authorizer (Read t c) = guard_table t"
| "script_authorizer (Insert t) = guard_table t"
| "script_authorizer (Update t c) = guard_table t"
| "script_authorizer (Delete t) = guard_table t"
| "script_authorizer (CreateTable t) = guard_table t"
| "script_authorizer (CreateIndex i t) = guard_table t"
| "script_authorizer (CreateTrigger g t) = guard_table t"
| "script_authorizer (DropTable t) = guard_table t"
| "script_authorizer (DropIndex i t) = guard_table t"
| "script_authorizer (DropTrigger g t) = guard_table t"
| "script_authorizer (AlterTable t) = guard_table t"
| "script_authorizer _ = Allow"

text \<open>The table an action reads, writes or reshapes, when there is one.\<close>

fun action_table :: "auth_action \<Rightarrow> string option" where
  "action_table (Read t c) = Some t"
| "action_table (Insert t) = Some t"
| "action_table (Update t c) = Some t"
| "action_table (Delete t) = Some t"
| "action_table (CreateTable t) = Some t"
| "action_table (CreateIndex i t) = Some t"
| "action_table (CreateTrigger g t) = Some t"
| "action_table (DropTable t) = Some t"
| "action_table (DropIndex i t) = Some t"
| "action_table (DropTrigger g t) = Some t"
| "action_table (AlterTable t) = Some t"
| "action_table _ = None"

section \<open>Parameters in, values out\<close>

datatype sql_value = SqlNull | SqlInteger int | SqlReal "64 word" | SqlText string | SqlBlob "8 word list"

text \<open>\<open>as_f64\<close> of an integer beyond \<open>i64\<close> and the rendering of a refused value are the
  parameters \<open>f64_of\<close> and \<open>shown\<close>.\<close>

definition bind_value :: "(int \<Rightarrow> 64 word) \<Rightarrow> (json \<Rightarrow> string) \<Rightarrow> json \<Rightarrow> string + sql_value" where
  "bind_value f64_of shown v =
     (case v of
        JNull \<Rightarrow> Inr SqlNull
      | JBool b \<Rightarrow> Inr (SqlInteger (if b then 1 else 0))
      | JInt i \<Rightarrow> (case as_i64 (JInt i) of Some n \<Rightarrow> Inr (SqlInteger n) | None \<Rightarrow> Inr (SqlReal (f64_of i)))
      | JFloat w \<Rightarrow> Inr (SqlReal w)
      | JStr s \<Rightarrow> Inr (SqlText s)
      | other \<Rightarrow> Inl (''Parameter '' @ shown other
           @ '' is not bindable; pass strings, numbers, booleans or nil.''))"

text \<open>\<open>String::from_utf8_lossy\<close> is the parameter \<open>lossy\<close>; a float that is not finite has no JSON
  number and becomes null, which \<open>finite64\<close> decides.\<close>

definition unbind_value :: "(64 word \<Rightarrow> bool) \<Rightarrow> (string \<Rightarrow> string) \<Rightarrow> sql_value \<Rightarrow> json" where
  "unbind_value finite64 lossy v =
     (case v of
        SqlNull \<Rightarrow> JNull
      | SqlInteger i \<Rightarrow> JInt i
      | SqlReal w \<Rightarrow> (if finite64 w then JFloat w else JNull)
      | SqlText t \<Rightarrow> JStr (lossy t)
      | SqlBlob bs \<Rightarrow> JArr (map (\<lambda>b. JInt (uint b)) bs))"

section \<open>Lemmas\<close>

lemma view_put [simp]: "view (put d st) = d"
  by (simp add: view_def put_def split: option.split)

lemma view_stmt [simp]: "view (stmt f n st) = f (view st)"
  by (simp add: stmt_def Let_def view_def put_def split: option.split)

lemma in_txn_stmt [simp]: "in_txn (stmt f n st) = in_txn st"
  by (simp add: stmt_def Let_def in_txn_def put_def split: option.split)

lemma committed_stmt [simp]: "in_txn st \<Longrightarrow> committed (stmt f n st) = committed st"
  by (auto simp: stmt_def Let_def in_txn_def put_def split: option.split)

lemma changes_stmt [simp]: "changes (stmt f n st) = changes st + int n"
  by (simp add: stmt_def Let_def put_def split: option.split)

lemma view_not_in_txn: "\<not> in_txn st \<Longrightarrow> view st = committed st"
  by (simp add: in_txn_def view_def)

lemmas storage_ops = begin_txn_def commit_def rollback_def checkpoint_def total_changes_def
  schema_version_def set_schema_version_def is_fresh_def mark_initialized_def ensure_meta_def
  load_alarm_def peek_alarm_def save_alarm_def clear_alarm_rows_def delete_alarms_def
  insert_alarm_def

lemma save_alarm_view:
  "save_alarm due cls nm key st = (Inr (), st') \<Longrightarrow> alarm_table (view st') = Some [(due, cls, nm, key)]"
  by (auto simp: save_alarm_def ensure_meta_def delete_alarms_def insert_alarm_def cmd_simps)

lemma save_alarm_ok: "\<exists>st'. save_alarm due cls nm key st = (Inr (), st')"
  by (simp add: save_alarm_def ensure_meta_def cmd_simps)

lemma clear_alarm_view: "alarm_table (view (snd (clear_alarm_rows st))) = Some []"
  by (auto simp: clear_alarm_rows_def ensure_meta_def delete_alarms_def cmd_simps)

end
