(* ===== verification/Home.thy ===== *)
theory Home
  imports Storage
begin

text \<open>
  The object substrate of \<open>actias-worker-core/src/objects.rs\<close>: the \<open>ObjectHome\<close> a pinned task
  owns (storage, alarm cell, shipping mark), the guarded dispatch around every call, the firing
  of a due alarm, the call chain that refuses cycles, and the per-node registry of live tasks.
  The wall clock is a sequence of readings that \<open>unix_now_ms\<close> consumes one by one; nothing is
  assumed about it, so the results hold for a clock that jumps.
\<close>

section \<open>State\<close>

record pending_alarm =
  pa_due_ms :: int
  pa_class :: string
  pa_name :: string
  pa_own_key :: string

text \<open>\<open>backoff_base_ms\<close> is an \<open>i64\<close> that a shift multiplies, so it keeps its width.\<close>

record queue_policy =
  max_attempts :: int
  backoff_base_ms :: "64 word"

record prepared_revision =
  revision_id :: string
  revision_files :: "(string \<times> string) list"

record 'u home =
  storage :: "'u sqlite option"
  alarm :: "pending_alarm option"
  ship_mark :: int
  migrations_checked :: bool
  home_policy :: queue_policy
  home_revision :: "prepared_revision option"
  alarm_sync :: bool
  mirrored :: "int option list"
  shipped :: "'u db list"
  fired :: "(string \<times> json) list"
  reading :: "nat \<Rightarrow> int"
  ticks :: nat
  ran :: "(string \<times> int) list"
  routed :: "(string \<times> string \<times> string \<times> json list) list"
  state_made :: bool

text \<open>\<open>PreparedRevision::migrations\<close>: the bundle's SQL files under the database's directory, in path
  order. A file is its path and its text (the lossy UTF-8 reading of its bytes).\<close>

definition migrations :: "string \<Rightarrow> prepared_revision \<Rightarrow> (string \<times> string) list" where
  "migrations database rv =
     sort (filter (\<lambda>(path, _). starts_with path (''migrations/'' @ database @ ''/'') \<and> ends_with path ''.sql'')
       (revision_files rv))"

datatype object_error = Call string | Gone

text \<open>The default queue policy.\<close>

definition default_policy :: queue_policy where
  "default_policy = \<lparr>max_attempts = 5, backoff_base_ms = 2000\<rparr>"

section \<open>Clock, storage access, alarm cells\<close>

definition unix_now_ms :: "('u home, int) cmd" where
  "unix_now_ms h = (Inr (reading h (ticks h)), h\<lparr>ticks := Suc (ticks h)\<rparr>)"

definition has_storage :: "'u home \<Rightarrow> bool" where
  "has_storage h = (storage h \<noteq> None)"

definition with_storage :: "('u sqlite, 'a) cmd \<Rightarrow> ('u home, 'a) cmd" where
  "with_storage operation h =
     (case storage h of
        None \<Rightarrow> (Inl ''This object has no durable storage.'', h)
      | Some st \<Rightarrow> (case operation st of (r, st') \<Rightarrow> (r, h\<lparr>storage := Some st'\<rparr>)))"

definition mirror_alarm :: "int option \<Rightarrow> 'u home \<Rightarrow> 'u home" where
  "mirror_alarm due h = (if alarm_sync h then h\<lparr>mirrored := mirrored h @ [due]\<rparr> else h)"

definition set_alarm :: "pending_alarm \<Rightarrow> ('u home, unit) cmd" where
  "set_alarm a h =
     bindE (if has_storage h
            then with_storage (save_alarm (pa_due_ms a) (pa_class a) (pa_name a) (pa_own_key a))
            else okE ())
       (\<lambda>_. writeE (\<lambda>h. (mirror_alarm (Some (pa_due_ms a)) h)\<lparr>alarm := Some a\<rparr>)) h"

definition of_row :: "alarm_row \<Rightarrow> pending_alarm" where
  "of_row r = (case r of (due, cls, nm, key) \<Rightarrow>
     \<lparr>pa_due_ms = due, pa_class = cls, pa_name = nm, pa_own_key = key\<rparr>)"

text \<open>\<open>clear_alarm\<close>: cell, mirror, file; a storage refusal is only logged.\<close>

definition clear_alarm :: "'u home \<Rightarrow> 'u home" where
  "clear_alarm h =
     (let h1 = mirror_alarm None (h\<lparr>alarm := None\<rparr>)
      in if has_storage h1 then snd (with_storage clear_alarm_rows h1) else h1)"

definition resync_alarm_from_storage :: "'u home \<Rightarrow> 'u home" where
  "resync_alarm_from_storage h =
     (case with_storage load_alarm h of (r, h1) \<Rightarrow>
       let persisted = (case r of Inr (Some row) \<Rightarrow> Some (of_row row) | _ \<Rightarrow> None)
       in (mirror_alarm (map_option pa_due_ms persisted) h1)\<lparr>alarm := persisted\<rparr>)"

definition writes_advanced :: "'u home \<Rightarrow> bool \<times> 'u home" where
  "writes_advanced h =
     (let current = (case with_storage total_changes h of (Inr n, _) \<Rightarrow> n | (Inl _, _) \<Rightarrow> 0)
      in if current = ship_mark h then (False, h) else (True, h\<lparr>ship_mark := current\<rparr>))"

definition mark_migrations_checked :: "'u home \<Rightarrow> 'u home" where
  "mark_migrations_checked h = h\<lparr>migrations_checked := True\<rparr>"

text \<open>\<open>ObjectHome::new\<close> as \<open>spawn_object_task\<close> calls it: the persisted alarm re-arms the cell
  and the mirror is told what the file holds.\<close>

definition spawn_home :: "'u sqlite option \<Rightarrow> queue_policy \<Rightarrow> prepared_revision option \<Rightarrow> bool
    \<Rightarrow> (nat \<Rightarrow> int) \<Rightarrow> 'u home" where
  "spawn_home st pol rv sync rd =
     (let (pending, st') = (case st of
             None \<Rightarrow> (None, None)
           | Some s \<Rightarrow> (case load_alarm s of
                 (Inr (Some row), s') \<Rightarrow> (Some (of_row row), Some s')
               | (_, s') \<Rightarrow> (None, Some s')))
      in mirror_alarm (map_option pa_due_ms pending)
        \<lparr>storage = st', alarm = pending, ship_mark = 0, migrations_checked = False,
         home_policy = pol, home_revision = rv, alarm_sync = sync, mirrored = [], shipped = [],
         fired = [], reading = rd, ticks = 0, ran = [], routed = [], state_made = False\<rparr>)"

section \<open>Guarded dispatch\<close>

type_synonym 'u method_body = "'u home \<Rightarrow> (object_error + json) \<times> 'u home"

text \<open>The output gate: the file as it is committed leaves the node.\<close>

definition after_write :: "'u home \<Rightarrow> 'u home" where
  "after_write h = (case storage h of
      Some st \<Rightarrow> h\<lparr>shipped := shipped h @ [committed st]\<rparr> | None \<Rightarrow> h)"

definition settle :: "bool \<Rightarrow> (object_error + json) \<Rightarrow> 'u home \<Rightarrow> (object_error + json) \<times> 'u home" where
  "settle gate r h =
     (let h1 = snd (with_storage checkpoint h);
          (adv, h2) = (if gate then writes_advanced h1 else (False, h1))
      in (r, if adv then after_write h2 else h2))"

definition guarded_dispatch :: "bool \<Rightarrow> 'u method_body \<Rightarrow> 'u method_body" where
  "guarded_dispatch gate body h =
     (if \<not> has_storage h then body h
      else case with_storage begin_txn h of
        (Inl e, h1) \<Rightarrow> (Inl (Call (''The call's transaction could not open: '' @ e)), h1)
      | (Inr _, h1) \<Rightarrow>
          (case body h1 of
             (Inr v, h2) \<Rightarrow>
               (case with_storage commit h2 of
                  (Inl e, h3) \<Rightarrow> (Inl (Call (''The call's writes could not commit: '' @ e)), h3)
                | (Inr _, h3) \<Rightarrow> settle gate (Inr v) h3)
           | (Inl e, h2) \<Rightarrow>
               settle gate (Inl e)
                 (resync_alarm_from_storage (snd (with_storage rollback h2)))))"

text \<open>A due alarm: cleared first, in its own committed write, then dispatched; a failure is
  logged and dropped.\<close>

definition alarm_payload :: "pending_alarm \<Rightarrow> json" where
  "alarm_payload a = JObj [(''args'', JArr []), (''chain'', JArr [JStr (pa_own_key a)]),
     (''class'', JStr (pa_class a)), (''method'', JStr ''alarm''), (''name'', JStr (pa_name a))]"

definition fire_alarm :: "bool \<Rightarrow> (json \<Rightarrow> 'u method_body) \<Rightarrow> pending_alarm \<Rightarrow> 'u home \<Rightarrow> 'u home" where
  "fire_alarm gate dispatch a h =
     snd (guarded_dispatch gate (dispatch (alarm_payload a)) (clear_alarm h))"

section \<open>Call chains\<close>

definition extend_call_chain :: "string list \<Rightarrow> string \<Rightarrow> string + string list" where
  "extend_call_chain chain key =
     (if key \<in> set chain
      then Inl (''Reentrant object call refused: '' @ join '' -> '' chain @ '' -> '' @ key @ '' would deadlock.'')
      else Inr (chain @ [key]))"

section \<open>The registry of live tasks\<close>

text \<open>A handle is a number; \<open>closed\<close> says its task has ended (hibernated or dropped).\<close>

record host =
  tasks :: "string \<rightharpoonup> string \<times> nat"
  closed :: "nat \<Rightarrow> bool"
  next_handle :: nat

definition get_or_spawn :: "string \<Rightarrow> string \<Rightarrow> string option \<Rightarrow> host \<Rightarrow> (string + nat) \<times> host" where
  "get_or_spawn oid marker factory_error hs =
     (case tasks hs oid of
        Some (held, handle) \<Rightarrow>
          if held = marker \<and> \<not> closed hs handle then (Inr handle, hs)
          else (case factory_error of Some e \<Rightarrow> (Inl e, hs)
                | None \<Rightarrow> (Inr (next_handle hs),
                    hs\<lparr>tasks := (tasks hs)(oid \<mapsto> (marker, next_handle hs)),
                       closed := (closed hs)(next_handle hs := False),
                       next_handle := Suc (next_handle hs)\<rparr>))
      | None \<Rightarrow> (case factory_error of Some e \<Rightarrow> (Inl e, hs)
                | None \<Rightarrow> (Inr (next_handle hs),
                    hs\<lparr>tasks := (tasks hs)(oid \<mapsto> (marker, next_handle hs)),
                       closed := (closed hs)(next_handle hs := False),
                       next_handle := Suc (next_handle hs)\<rparr>)))"

definition is_resident :: "string \<Rightarrow> host \<Rightarrow> bool" where
  "is_resident oid hs = (case tasks hs oid of Some (_, handle) \<Rightarrow> \<not> closed hs handle | None \<Rightarrow> False)"

definition resident_count :: "host \<Rightarrow> nat" where
  "resident_count hs = card {oid. is_resident oid hs}"

definition evict :: "string \<Rightarrow> host \<Rightarrow> host" where
  "evict oid hs = hs\<lparr>tasks := (tasks hs)(oid := None)\<rparr>"

definition task_ends :: "nat \<Rightarrow> host \<Rightarrow> host" where
  "task_ends handle hs = hs\<lparr>closed := (closed hs)(handle := True)\<rparr>"

section \<open>What a home keeps true between calls\<close>

definition home_view :: "'u home \<Rightarrow> 'u db option" where
  "home_view h = map_option view (storage h)"

definition home_committed :: "'u home \<Rightarrow> 'u db option" where
  "home_committed h = map_option committed (storage h)"

definition home_in_txn :: "'u home \<Rightarrow> bool" where
  "home_in_txn h = (case storage h of Some st \<Rightarrow> in_txn st | None \<Rightarrow> False)"

text \<open>The alarm cell and the persisted row tell the same story.\<close>

definition alarm_synced :: "'u home \<Rightarrow> bool" where
  "alarm_synced h = (case storage h of
      None \<Rightarrow> True
    | Some st \<Rightarrow> alarm h = map_option of_row (load_alarm_row st))"

definition quiescent :: "'u home \<Rightarrow> bool" where
  "quiescent h \<longleftrightarrow> alarm_synced h \<and> \<not> home_in_txn h"

text \<open>What a method body must keep: the storage it was given, an open transaction, the alarm
  cell beside its row.\<close>

definition body_ok :: "'u home \<Rightarrow> bool" where
  "body_ok h \<longleftrightarrow> has_storage h \<and> home_in_txn h \<and> alarm_synced h"

section \<open>Lemmas: alarm cells\<close>

lemma with_storage_None [simp]:
  "storage h = None \<Longrightarrow> with_storage f h = (Inl ''This object has no durable storage.'', h)"
  by (simp add: with_storage_def)

lemma with_storage_Some:
  "storage h = Some st \<Longrightarrow> with_storage f h = (fst (f st), h\<lparr>storage := Some (snd (f st))\<rparr>)"
  by (simp add: with_storage_def split: prod.split)

lemma mirror_alarm_simps [simp]:
  "storage (mirror_alarm x h) = storage h" "alarm (mirror_alarm x h) = alarm h"
  "ship_mark (mirror_alarm x h) = ship_mark h" "reading (mirror_alarm x h) = reading h"
  "ticks (mirror_alarm x h) = ticks h" "fired (mirror_alarm x h) = fired h"
  "home_policy (mirror_alarm x h) = home_policy h" "shipped (mirror_alarm x h) = shipped h"
  "home_revision (mirror_alarm x h) = home_revision h"
  by (simp_all add: mirror_alarm_def)

lemma unix_now_ms_simps [simp]:
  "fst (unix_now_ms h) = Inr (reading h (ticks h))"
  "snd (unix_now_ms h) = h\<lparr>ticks := Suc (ticks h)\<rparr>"
  by (simp_all add: unix_now_ms_def)

lemma save_alarm_snd:
  "alarm_table (view (snd (save_alarm due cls nm key st))) = Some [(due, cls, nm, key)]"
  by (auto simp: save_alarm_def ensure_meta_def delete_alarms_def insert_alarm_def cmd_simps)

lemma save_alarm_fst [simp]: "fst (save_alarm due cls nm key st) = Inr ()"
  by (simp add: save_alarm_def ensure_meta_def cmd_simps)

lemma save_alarm_txn [simp]:
  "in_txn (snd (save_alarm due cls nm key st)) = in_txn st"
  by (simp add: save_alarm_def ensure_meta_def delete_alarms_def insert_alarm_def cmd_simps)

lemma save_alarm_committed [simp]:
  "in_txn st \<Longrightarrow> committed (snd (save_alarm due cls nm key st)) = committed st"
  by (simp add: save_alarm_def ensure_meta_def delete_alarms_def insert_alarm_def cmd_simps)

text \<open>Saving the alarm touches the alarm table and nothing else of the file.\<close>

lemma save_alarm_frame:
  "view (snd (save_alarm due cls nm key st)) = (view st)\<lparr>alarm_table := Some [(due, cls, nm, key)]\<rparr>"
  by (simp add: save_alarm_def ensure_meta_def delete_alarms_def insert_alarm_def cmd_simps)

lemma set_alarm_apply:
  "storage h = Some st \<Longrightarrow> set_alarm a h =
     (Inr (), (mirror_alarm (Some (pa_due_ms a))
        (h\<lparr>storage := Some (snd (save_alarm (pa_due_ms a) (pa_class a) (pa_name a) (pa_own_key a) st))\<rparr>))
          \<lparr>alarm := Some a\<rparr>)"
  by (simp add: set_alarm_def has_storage_def with_storage_Some bindE_def writeE_def)

lemma set_alarm_ok [simp]: "fst (set_alarm a h) = Inr ()"
  by (cases "storage h") (simp_all add: set_alarm_apply, simp add: set_alarm_def has_storage_def writeE_def)

lemma set_alarm_cell [simp]: "alarm (snd (set_alarm a h)) = Some a"
  by (cases "storage h") (simp_all add: set_alarm_apply, simp add: set_alarm_def has_storage_def writeE_def)

lemma set_alarm_synced: "alarm_synced (snd (set_alarm a h))"
proof (cases "storage h")
  case None
  then show ?thesis by (simp add: set_alarm_def has_storage_def alarm_synced_def writeE_def)
next
  case (Some st)
  then show ?thesis
    by (simp add: set_alarm_apply alarm_synced_def load_alarm_row_def save_alarm_snd of_row_def)
qed

lemma set_alarm_body_ok: "keeps body_ok (set_alarm a)"
proof
  fix h :: "'u home"
  assume ok: "body_ok h"
  then obtain st where st: "storage h = Some st" by (auto simp: body_ok_def has_storage_def)
  from ok st have "in_txn st" by (simp add: body_ok_def home_in_txn_def)
  moreover have "alarm_synced (snd (set_alarm a h))" by (rule set_alarm_synced)
  ultimately show "body_ok (snd (set_alarm a h))"
    using st by (simp add: body_ok_def set_alarm_apply has_storage_def home_in_txn_def)
qed

lemma clear_alarm_apply:
  "storage h = Some st \<Longrightarrow> clear_alarm h =
     (mirror_alarm None (h\<lparr>alarm := None\<rparr>))\<lparr>storage := Some (snd (clear_alarm_rows st))\<rparr>"
  by (simp add: clear_alarm_def Let_def has_storage_def with_storage_Some)

lemma clear_alarm_rows_txn [simp]: "in_txn (snd (clear_alarm_rows st)) = in_txn st"
  by (simp add: clear_alarm_rows_def ensure_meta_def delete_alarms_def cmd_simps)

lemma clear_alarm_rows_frame:
  "view (snd (clear_alarm_rows st)) = (view st)\<lparr>alarm_table := Some []\<rparr>"
  by (simp add: clear_alarm_rows_def ensure_meta_def delete_alarms_def cmd_simps)

lemma clear_alarm_quiescent: "quiescent h \<Longrightarrow> quiescent (clear_alarm h)"
proof (cases "storage h")
  case None
  then show "quiescent h \<Longrightarrow> ?thesis"
    by (simp add: clear_alarm_def Let_def has_storage_def quiescent_def alarm_synced_def home_in_txn_def)
next
  case (Some st)
  then show "quiescent h \<Longrightarrow> ?thesis"
    by (simp add: clear_alarm_apply quiescent_def alarm_synced_def home_in_txn_def
        load_alarm_row_def clear_alarm_view)
qed

lemma load_alarm_row_meta: "load_alarm_row (snd (ensure_meta st)) = load_alarm_row st"
  by (simp add: load_alarm_row_def ensure_meta_def cmd_simps)

lemma load_alarm_apply: "load_alarm st = (Inr (load_alarm_row st), snd (ensure_meta st))"
  using load_alarm_row_meta [of st] by (simp add: load_alarm_def ensure_meta_def cmd_simps)

lemma ensure_meta_txn [simp]: "in_txn (snd (ensure_meta st)) = in_txn st"
  by (simp add: ensure_meta_def cmd_simps)

lemma resync_apply:
  "storage h = Some st \<Longrightarrow> resync_alarm_from_storage h =
     (mirror_alarm (map_option (pa_due_ms \<circ> of_row) (load_alarm_row st))
        (h\<lparr>storage := Some (snd (ensure_meta st))\<rparr>))\<lparr>alarm := map_option of_row (load_alarm_row st)\<rparr>"
  by (simp add: resync_alarm_from_storage_def with_storage_Some load_alarm_apply Let_def
      option.map_comp split: option.split)

lemma resync_synced: "storage h = Some st \<Longrightarrow> alarm_synced (resync_alarm_from_storage h)"
  by (simp add: resync_apply alarm_synced_def load_alarm_row_meta)

lemma spawn_home_quiescent:
  "(\<And>s. st = Some s \<Longrightarrow> \<not> in_txn s) \<Longrightarrow> quiescent (spawn_home st pol rv sync rd)"
  by (cases st) (auto simp: spawn_home_def quiescent_def alarm_synced_def home_in_txn_def Let_def
      load_alarm_apply load_alarm_row_meta split: option.split)

section \<open>Lemmas: guarded dispatch\<close>

lemma settle_apply:
  "storage h = Some st \<Longrightarrow> fst (settle gate r h) = r \<and>
     (\<exists>st'. storage (snd (settle gate r h)) = Some st' \<and> st' = st) \<and>
     alarm (snd (settle gate r h)) = alarm h"
  by (auto simp: settle_def Let_def with_storage_Some checkpoint_def writes_advanced_def
      after_write_def split: option.splits prod.splits if_splits)

lemma settle_result [simp]: "has_storage h \<Longrightarrow> fst (settle gate r h) = r"
  using settle_apply by (fastforce simp: has_storage_def)

lemma settle_storage: "has_storage h \<Longrightarrow> storage (snd (settle gate r h)) = storage h"
  using settle_apply by (fastforce simp: has_storage_def)

lemma settle_alarm: "has_storage h \<Longrightarrow> alarm (snd (settle gate r h)) = alarm h"
  using settle_apply by (fastforce simp: has_storage_def)

end
