(* ===== verification/Dispatch.thy ===== *)
theory Dispatch
  imports Home
begin

text \<open>
  What the guard of \<open>objects.rs\<close> promises whatever the method body is, stated as interfaces: a
  body that keeps the alarm cell beside its row and leaves the call's transaction open
  (\<open>object_body\<close>), and one that in addition never commits itself (\<open>atomic_body\<close>). The
  platform classes are instances. The task loop of \<open>spawn_object_task\<close> is a step relation over
  the mailbox, the home and the answers given.
\<close>

section \<open>The task loop\<close>

type_synonym queued_call = "nat \<times> string \<times> json"

record 'u task =
  t_home :: "'u home"
  mailbox :: "queued_call list"
  answered :: "(nat \<times> (object_error + json)) list"
  sent :: "queued_call list"
  alive :: bool

definition MAILBOX_DEPTH :: nat where
  "MAILBOX_DEPTH = 128"

text \<open>The head of the loop: a pending alarm makes it read the clock for the wait.\<close>

definition poll :: "'u home \<Rightarrow> 'u home" where
  "poll h = (case alarm h of Some a \<Rightarrow> snd (unix_now_ms h) | None \<Rightarrow> h)"

lemma poll_simps [simp]:
  "storage (poll h) = storage h" "alarm (poll h) = alarm h"
  by (simp_all add: poll_def split: option.split)

text \<open>\<open>send\<close>: a caller enqueues (backpressure, never a drop). \<open>receive\<close>: one call, fully guarded,
  then its answer. \<open>fire\<close>: the timer branch of \<open>select!\<close>. \<open>hibernate\<close>: the idle branch, taken
  only with no alarm pending; calls that were queued when the task ended hear \<open>Gone\<close>.
  \<open>close\<close>: every handle was dropped.\<close>

inductive task_step :: "(string \<Rightarrow> json \<Rightarrow> 'u method_body) \<Rightarrow> bool \<Rightarrow> bool \<Rightarrow> 'u task \<Rightarrow> 'u task \<Rightarrow> bool"
  for disp gate hib where
  send: "alive t \<Longrightarrow> length (mailbox t) < MAILBOX_DEPTH \<Longrightarrow>
     task_step disp gate hib t (t\<lparr>mailbox := mailbox t @ [(i, m, p)], sent := sent t @ [(i, m, p)]\<rparr>)"
| receive: "alive t \<Longrightarrow> mailbox t = (i, m, p) # cs \<Longrightarrow>
     guarded_dispatch gate (disp m p) (poll (t_home t)) = (r, h) \<Longrightarrow>
     task_step disp gate hib t
       (t\<lparr>mailbox := cs, t_home := h, answered := answered t @ [(i, r)]\<rparr>)"
| fire: "alive t \<Longrightarrow> alarm (t_home t) = Some a \<Longrightarrow>
     task_step disp gate hib t
       (t\<lparr>t_home := fire_alarm gate (disp ''__dispatch'') a (poll (t_home t))\<rparr>)"
| hibernate: "alive t \<Longrightarrow> hib \<Longrightarrow> alarm (t_home t) = None \<Longrightarrow>
     task_step disp gate hib t
       (t\<lparr>alive := False, mailbox := [],
          answered := answered t @ map (\<lambda>c. (fst c, Inl Gone)) (mailbox t)\<rparr>)"
| close: "alive t \<Longrightarrow> mailbox t = [] \<Longrightarrow> task_step disp gate hib t (t\<lparr>alive := False\<rparr>)"

definition task_start :: "'u home \<Rightarrow> 'u task" where
  "task_start h = \<lparr>t_home = h, mailbox = [], answered = [], sent = [], alive = True\<rparr>"

inductive task_reach :: "(string \<Rightarrow> json \<Rightarrow> 'u method_body) \<Rightarrow> bool \<Rightarrow> bool \<Rightarrow> 'u home \<Rightarrow> 'u task \<Rightarrow> bool"
  for disp gate hib h0 where
  start: "task_reach disp gate hib h0 (task_start h0)"
| step: "task_reach disp gate hib h0 t \<Longrightarrow> task_step disp gate hib t t' \<Longrightarrow> task_reach disp gate hib h0 t'"

inductive_cases task_stepE: "task_step disp gate hib t t'"

text \<open>Every call is answered exactly once, in arrival order; the ones not answered yet are the
  mailbox.\<close>

definition calls_inv :: "'u task \<Rightarrow> bool" where
  "calls_inv t \<longleftrightarrow> (\<exists>done. sent t = done @ mailbox t \<and> map fst (answered t) = map fst done)"

lemma calls_inv_step: "task_step disp gate hib t t' \<Longrightarrow> calls_inv t \<Longrightarrow> calls_inv t'"
  by (induction rule: task_step.induct) (auto simp: calls_inv_def comp_def)

lemma task_reach_calls: "task_reach disp gate hib h0 t \<Longrightarrow> calls_inv t"
  by (induction rule: task_reach.induct)
     (simp add: calls_inv_def task_start_def, blast intro: calls_inv_step)

lemma sent_grows: "task_step disp gate hib t t' \<Longrightarrow> set (sent t) \<subseteq> set (sent t')"
  by (induction rule: task_step.induct) auto

text \<open>An invariant of the home that every admissible call and every firing of the pending alarm
  keeps holds whenever the task is between two calls.\<close>

locale task_invariant =
  fixes disp :: "string \<Rightarrow> json \<Rightarrow> 'u method_body" and gate :: bool
    and admissible :: "string \<Rightarrow> json \<Rightarrow> bool" and inv :: "'u home \<Rightarrow> bool"
  assumes poll_keeps: "inv h \<Longrightarrow> inv (poll h)"
    and call_keeps: "admissible m p \<Longrightarrow> inv h \<Longrightarrow> inv (snd (guarded_dispatch gate (disp m p) h))"
    and fire_keeps: "inv h \<Longrightarrow> alarm h = Some a \<Longrightarrow> inv (fire_alarm gate (disp ''__dispatch'') a h)"
begin

lemma task_step_keeps:
  "task_step disp gate hib t t' \<Longrightarrow> calls_inv t \<Longrightarrow> inv (t_home t) \<Longrightarrow>
   \<forall>(i, m, p) \<in> set (sent t). admissible m p \<Longrightarrow> inv (t_home t')"
proof (induction rule: task_step.induct)
  case (receive t i m p cs r h)
  have "(i, m, p) \<in> set (sent t)" using receive.hyps(2) receive.prems(1) by (auto simp: calls_inv_def)
  with receive.prems(3) have "admissible m p" by blast
  from call_keeps [OF this poll_keeps [OF receive.prems(2)]] receive.hyps(3) show ?case by simp
next
  case (fire t a)
  from fire_keeps [OF poll_keeps [OF fire.prems(2)]] fire.hyps(2) show ?case by simp
qed auto

lemma task_reach_keeps:
  "task_reach disp gate hib h0 t \<Longrightarrow> inv h0 \<Longrightarrow> \<forall>(i, m, p) \<in> set (sent t). admissible m p \<Longrightarrow> inv (t_home t)"
proof (induction rule: task_reach.induct)
  case (step t t')
  have adm: "\<forall>(i, m, p) \<in> set (sent t). admissible m p"
    using step.prems(2) sent_grows [OF step.hyps(2)] by blast
  from step.IH [OF step.prems(1) adm] show ?case
    by (rule task_step_keeps [OF step.hyps(2) task_reach_calls [OF step.hyps(1)] _ adm])
qed (simp add: task_start_def)

end

section \<open>The state inside the guard\<close>

definition begun :: "'u home \<Rightarrow> 'u home" where
  "begun h = h\<lparr>storage := map_option (\<lambda>st. st\<lparr>working := Some (committed st)\<rparr>) (storage h)\<rparr>"

text \<open>The file with the alarm table created, what reading the alarm leaves behind.\<close>

definition with_meta :: "'u db \<Rightarrow> 'u db" where
  "with_meta d = (if alarm_table d = None then d\<lparr>alarm_table := Some []\<rparr> else d)"

lemma quiescent_poll [simp]: "quiescent (poll h) = quiescent h"
  by (simp add: quiescent_def alarm_synced_def home_in_txn_def split: option.split)

lemma begin_begun:
  "has_storage h \<Longrightarrow> \<not> home_in_txn h \<Longrightarrow> with_storage begin_txn h = (Inr (), begun h)"
  by (auto simp: has_storage_def home_in_txn_def with_storage_Some begin_txn_def begun_def)

lemma begun_view [simp]: "home_view (begun h) = home_committed h"
  by (cases "storage h") (simp_all add: begun_def home_view_def home_committed_def view_def)

lemma begun_committed [simp]: "home_committed (begun h) = home_committed h"
  by (cases "storage h") (simp_all add: begun_def home_committed_def)

lemma begun_body_ok: "quiescent h \<Longrightarrow> has_storage h \<Longrightarrow> body_ok (begun h)"
  by (auto simp: quiescent_def has_storage_def body_ok_def begun_def alarm_synced_def
      home_in_txn_def in_txn_def load_alarm_row_def view_def split: option.splits)

lemma ensure_meta_committed:
  "\<not> in_txn st \<Longrightarrow> committed (snd (ensure_meta st)) = with_meta (committed st)"
  by (simp add: ensure_meta_def writeE_def stmt_def Let_def put_def view_def in_txn_def with_meta_def)

section \<open>The interface of a method body\<close>

locale object_body =
  fixes body :: "'u method_body"
  assumes body_keeps: "body_ok h \<Longrightarrow> body_ok (snd (body h))"
    and body_no_storage: "storage h = None \<Longrightarrow> storage (snd (body h)) = None"
begin

lemma guarded_ok:
  assumes "quiescent h" "has_storage h" "body (begun h) = (Inr v, h2)"
  shows "fst (guarded_dispatch gate body h) = Inr v
    \<and> home_committed (snd (guarded_dispatch gate body h)) = home_view h2
    \<and> quiescent (snd (guarded_dispatch gate body h))"
proof -
  have "body_ok h2" using body_keeps [OF begun_body_ok [OF assms(1,2)]] assms(3) by simp
  then obtain st d where st: "storage h2 = Some st" "working st = Some d"
    by (auto simp: body_ok_def has_storage_def home_in_txn_def in_txn_def)
  let ?h3 = "h2\<lparr>storage := Some (st\<lparr>committed := d, working := None\<rparr>)\<rparr>"
  have c: "with_storage commit h2 = (Inr (), ?h3)"
    using st by (simp add: with_storage_Some commit_def)
  have g: "guarded_dispatch gate body h = settle gate (Inr v) ?h3"
    using assms c by (simp add: guarded_dispatch_def begin_begun quiescent_def)
  have hs: "has_storage ?h3" by (simp add: has_storage_def)
  have sync: "alarm h2 = map_option of_row (load_alarm_row st)"
    using \<open>body_ok h2\<close> st by (simp add: body_ok_def alarm_synced_def)
  show ?thesis
    unfolding g using settle_storage [OF hs] settle_alarm [OF hs] settle_result [OF hs] st sync
    by (simp add: home_committed_def home_view_def view_def quiescent_def alarm_synced_def
        home_in_txn_def in_txn_def load_alarm_row_def)
qed

lemma guarded_err:
  assumes "quiescent h" "has_storage h" "body (begun h) = (Inl e, h2)"
  shows "fst (guarded_dispatch gate body h) = Inl e
    \<and> home_committed (snd (guarded_dispatch gate body h)) = map_option with_meta (home_committed h2)
    \<and> quiescent (snd (guarded_dispatch gate body h))"
proof -
  have "body_ok h2" using body_keeps [OF begun_body_ok [OF assms(1,2)]] assms(3) by simp
  then obtain st d where st: "storage h2 = Some st" "working st = Some d"
    by (auto simp: body_ok_def has_storage_def home_in_txn_def in_txn_def)
  let ?st = "st\<lparr>working := None\<rparr>"
  let ?h3 = "h2\<lparr>storage := Some ?st\<rparr>"
  let ?h4 = "resync_alarm_from_storage ?h3"
  have r: "with_storage rollback h2 = (Inr (), ?h3)"
    using st by (simp add: with_storage_Some rollback_def)
  have g: "guarded_dispatch gate body h = settle gate (Inl e) ?h4"
    using assms r by (simp add: guarded_dispatch_def begin_begun quiescent_def)
  have h4: "storage ?h4 = Some (snd (ensure_meta ?st))"
    by (simp add: resync_apply)
  have hs: "has_storage ?h4" using h4 by (simp add: has_storage_def)
  have sync: "alarm_synced ?h4" by (rule resync_synced) simp
  have nt: "\<not> in_txn ?st" by (simp add: in_txn_def)
  show ?thesis
    unfolding g using settle_storage [OF hs] settle_alarm [OF hs] settle_result [OF hs] st h4 sync nt
    by (simp add: home_committed_def quiescent_def alarm_synced_def home_in_txn_def
        ensure_meta_committed)
qed

lemma guarded_quiescent: "quiescent h \<Longrightarrow> quiescent (snd (guarded_dispatch gate body h))"
proof (cases "has_storage h")
  case False
  then have "storage (snd (body h)) = None" by (auto simp: has_storage_def intro: body_no_storage)
  with False show "quiescent h \<Longrightarrow> ?thesis"
    by (simp add: guarded_dispatch_def quiescent_def alarm_synced_def home_in_txn_def)
next
  case True
  assume q: "quiescent h"
  obtain r h2 where b: "body (begun h) = (r, h2)" by force
  show ?thesis
  proof (cases r)
    case (Inl e)
    with guarded_err [OF q True] b show ?thesis by simp
  next
    case (Inr v)
    with guarded_ok [OF q True] b show ?thesis by simp
  qed
qed

end

text \<open>In a quiescent home the alarm cell is a function of the file.\<close>

definition alarm_of :: "'u db \<Rightarrow> pending_alarm option" where
  "alarm_of d = (case alarm_table d of Some (r # _) \<Rightarrow> Some (of_row r) | _ \<Rightarrow> None)"

lemma quiescent_alarm: "quiescent h \<Longrightarrow> home_committed h = Some d \<Longrightarrow> alarm h = alarm_of d"
  by (auto simp: quiescent_def alarm_synced_def home_committed_def home_in_txn_def load_alarm_row_def
      view_not_in_txn alarm_of_def split: option.splits list.splits)

lemma body_alarm: "body_ok h \<Longrightarrow> home_view h = Some d \<Longrightarrow> alarm h = alarm_of d"
  by (auto simp: body_ok_def alarm_synced_def home_view_def load_alarm_row_def alarm_of_def
      split: option.splits list.splits)

lemma alarm_of_with_meta [simp]: "alarm_of (with_meta d) = alarm_of d"
  by (simp add: alarm_of_def with_meta_def)

locale atomic_body = object_body +
  assumes body_frame: "body_ok h \<Longrightarrow> home_committed (snd (body h)) = home_committed h"
begin

text \<open>All or nothing: what is committed after the call is the body's own view when it answered,
  and the file from before (with its alarm table in place) when it failed.\<close>

lemma guarded_atomic:
  assumes "quiescent h" "has_storage h"
  shows "home_committed (snd (guarded_dispatch gate body h)) =
     (case body (begun h) of
        (Inr v, h2) \<Rightarrow> home_view h2
      | (Inl e, h2) \<Rightarrow> map_option with_meta (home_committed h))"
proof -
  obtain r h2 where b: "body (begun h) = (r, h2)" by force
  have "home_committed h2 = home_committed h"
    using body_frame [OF begun_body_ok [OF assms]] b by simp
  then show ?thesis
    using guarded_ok [OF assms] guarded_err [OF assms] b by (cases r) simp_all
qed

text \<open>A property of the file that the body's successful answers keep is kept by the call.\<close>

lemma guarded_file:
  assumes "quiescent h" "home_committed h = Some d" "I (with_meta d)"
    and "\<And>v h2. body (begun h) = (Inr v, h2) \<Longrightarrow> body_ok h2 \<Longrightarrow> \<exists>d'. home_view h2 = Some d' \<and> I d'"
  shows "\<exists>d'. home_committed (snd (guarded_dispatch gate body h)) = Some d' \<and> I d'"
proof -
  have hs: "has_storage h" using assms(2) by (auto simp: home_committed_def has_storage_def)
  obtain r h2 where b: "body (begun h) = (r, h2)" by force
  have "body_ok h2" using body_keeps [OF begun_body_ok [OF assms(1) hs]] b by simp
  with guarded_atomic [OF assms(1) hs] b assms(2-4) show ?thesis by (cases r) auto
qed

end

locale object_task =
  fixes disp :: "string \<Rightarrow> json \<Rightarrow> 'u method_body"
  assumes disp_body: "object_body (disp m p)"
begin

lemma fire_quiescent: "quiescent h \<Longrightarrow> quiescent (fire_alarm gate (disp m) a h)"
  by (simp add: fire_alarm_def object_body.guarded_quiescent [OF disp_body] clear_alarm_quiescent)

end

text \<open>Whatever is sent, the alarm cell and the file agree between calls and no transaction stays
  open.\<close>

sublocale object_task \<subseteq> settled_task: task_invariant disp gate "\<lambda>_ _. True" quiescent for gate
  by unfold_locales (simp_all add: object_body.guarded_quiescent [OF disp_body] fire_quiescent)

end
