(* ===== verification/Platform.thy ===== *)
theory Platform
  imports Dispatch
begin

text \<open>
  The platform classes' common ground (\<open>actias-worker-core/src/platform/mod.rs\<close>,
  \<open>actias-common/src/classes.rs\<close>): the decoded call, the context a method may touch, firing a
  script listener, arming the object's alarm, and which payloads never enter the vm. Script
  code is a parameter: a runtime says which listeners are registered and what each firing
  answers.
\<close>

named_theorems keeps_intros \<open>what every platform operation keeps\<close>

section \<open>Names\<close>

definition QUEUE_CLASS :: string where "QUEUE_CLASS = ''__queue''"
definition DATABASE_CLASS :: string where "DATABASE_CLASS = ''__database''"
definition CRON_CLASS :: string where "CRON_CLASS = ''__cron''"
definition WORKFLOW_CLASS :: string where "WORKFLOW_CLASS = ''__workflow''"

section \<open>Calls\<close>

record caller =
  cl_script :: string
  cl_revision :: string

record call =
  c_class :: string
  c_method :: string
  c_name :: string
  c_args :: "json list"
  c_chain :: "string list"
  c_caller :: "caller option"

record platform_context =
  cx_name :: string
  cx_own_key :: string

text \<open>The serde decoding of a call: \<open>class\<close> and \<open>method\<close> are required strings, everything else
  defaults when absent. serde's own error text is the parameter \<open>why\<close>.\<close>

fun str_list :: "json list \<Rightarrow> string list option" where
  "str_list [] = Some []"
| "str_list (v # vs) = (case (as_str v, str_list vs) of (Some s, Some ss) \<Rightarrow> Some (s # ss) | _ \<Rightarrow> None)"

fun decode_caller :: "json \<Rightarrow> caller option option" where
  "decode_caller JNull = Some None"
| "decode_caller (JObj kvs) =
     (case (as_str (jget (JObj kvs) ''script''), as_str (jget (JObj kvs) ''revision'')) of
        (Some s, Some r) \<Rightarrow> Some (Some \<lparr>cl_script = s, cl_revision = r\<rparr>) | _ \<Rightarrow> None)"
| "decode_caller _ = None"

definition has_key :: "json \<Rightarrow> string \<Rightarrow> bool" where
  "has_key v k = (case v of JObj kvs \<Rightarrow> map_of kvs k \<noteq> None | _ \<Rightarrow> False)"

definition decode_call :: "(json \<Rightarrow> string) \<Rightarrow> json \<Rightarrow> string + call" where
  "decode_call why v =
     (let name = (if has_key v ''name'' then as_str (jget v ''name'') else Some '''');
          args = (if has_key v ''args'' then as_array (jget v ''args'') else Some []);
          chain = (if has_key v ''chain'' then Option.bind (as_array (jget v ''chain'')) str_list else Some []);
          clr = decode_caller (jget v ''caller'')
      in case (as_str (jget v ''class''), as_str (jget v ''method''), name, args, chain, clr) of
           (Some c, Some m, Some n, Some a, Some ch, Some cl) \<Rightarrow>
             Inr \<lparr>c_class = c, c_method = m, c_name = n, c_args = a, c_chain = ch, c_caller = cl\<rparr>
         | _ \<Rightarrow> Inl (''Malformed object call: '' @ why v))"

definition last_or_empty :: "string list \<Rightarrow> string" where
  "last_or_empty xs = (if xs = [] then '''' else last xs)"

definition call_context :: "call \<Rightarrow> platform_context" where
  "call_context c = \<lparr>cx_name = c_name c, cx_own_key = last_or_empty (c_chain c)\<rparr>"

text \<open>Whether a payload targets a platform class.\<close>

definition handles :: "string \<Rightarrow> json \<Rightarrow> bool" where
  "handles m payload = (m = ''__dispatch'' \<and>
     (case as_str (jget payload ''class'') of Some c \<Rightarrow> starts_with c ''__'' | None \<Rightarrow> False))"

section \<open>Dashboard reads\<close>

datatype platform_read = QueueStats | QueueEvents int | QueueMessages | DatabaseOverview
  | Query string | WorkflowStatus | WorkflowJournal int

definition stats_for_class :: "string \<Rightarrow> platform_read option" where
  "stats_for_class c =
     (if c = QUEUE_CLASS then Some QueueStats
      else if c = WORKFLOW_CLASS then Some WorkflowStatus
      else if c = DATABASE_CLASS then Some DatabaseOverview
      else if starts_with c ''__'' then None
      else Some DatabaseOverview)"

section \<open>Listeners and the alarm\<close>

text \<open>A registered listener answers the n-th firing in this home with an error text or success;
  \<open>rt_to_value\<close> is the payload conversion into the vm, which may refuse.\<close>

record runtime =
  rt_listener :: "string \<Rightarrow> (nat \<Rightarrow> json \<Rightarrow> string option) option"
  rt_to_value :: "json \<Rightarrow> string option"

definition fire_listener :: "runtime \<Rightarrow> string \<Rightarrow> json \<Rightarrow> ('u home, unit) cmd" where
  "fire_listener rt event payload h =
     (case rt_listener rt event of
        None \<Rightarrow> (Inl (''no listener registered for '' @ quoted event), h)
      | Some f \<Rightarrow>
          (case rt_to_value rt payload of
             Some e \<Rightarrow> (Inl (''event payload did not convert: '' @ e), h)
           | None \<Rightarrow>
               (let h' = h\<lparr>fired := fired h @ [(event, payload)]\<rparr>
                in case f (length (fired h)) payload of
                     Some e \<Rightarrow> (Inl e, h')
                   | None \<Rightarrow> (Inr (), h'))))"

definition platform_set_alarm :: "platform_context \<Rightarrow> string \<Rightarrow> int \<Rightarrow> ('u home, unit) cmd" where
  "platform_set_alarm cx cls delay =
     bindE unix_now_ms (\<lambda>now. set_alarm
       \<lparr>pa_due_ms = now + max delay 0, pa_class = cls, pa_name = cx_name cx,
        pa_own_key = cx_own_key cx\<rparr>)"

section \<open>What every platform method keeps\<close>

text \<open>\<open>inside c\<close>: a call's transaction is open over the committed file \<open>c\<close> and the alarm cell
  matches its row. \<open>bare\<close>: an object without a durable half.\<close>

definition inside :: "'u db option \<Rightarrow> 'u home \<Rightarrow> bool" where
  "inside c h \<longleftrightarrow> body_ok h \<and> home_committed h = c"

definition bare :: "'u home \<Rightarrow> bool" where
  "bare h \<longleftrightarrow> storage h = None"

lemma body_ok_inside: "body_ok h \<Longrightarrow> inside (home_committed h) h"
  by (simp add: inside_def)

lemma keeps_unix_now_inside [keeps_intros]: "keeps (inside c) unix_now_ms"
  by (auto simp: keeps_def inside_def body_ok_def has_storage_def home_in_txn_def alarm_synced_def
      home_committed_def split: option.splits)

lemma keeps_unix_now_bare [keeps_intros]: "keeps bare unix_now_ms"
  by (simp add: keeps_def bare_def)

lemma keeps_fire_inside [keeps_intros]: "keeps (inside c) (fire_listener rt event payload)"
  by (auto simp: keeps_def fire_listener_def Let_def inside_def body_ok_def has_storage_def
      home_in_txn_def alarm_synced_def home_committed_def split: option.splits)

lemma keeps_fire_bare [keeps_intros]: "keeps bare (fire_listener rt event payload)"
  by (auto simp: keeps_def bare_def fire_listener_def Let_def split: option.splits)

lemma keeps_set_alarm_inside [keeps_intros]: "keeps (inside c) (set_alarm a)"
proof
  fix h
  assume i: "inside c h"
  then obtain st where st: "storage h = Some st" "in_txn st"
    by (auto simp: inside_def body_ok_def has_storage_def home_in_txn_def)
  have "body_ok (snd (set_alarm a h))"
    using i keepsD [OF set_alarm_body_ok] by (auto simp: inside_def)
  with i st show "inside c (snd (set_alarm a h))"
    by (simp add: inside_def set_alarm_apply home_committed_def)
qed

lemma keeps_set_alarm_bare [keeps_intros]: "keeps bare (set_alarm a)"
  by (simp add: keeps_def bare_def set_alarm_def has_storage_def writeE_def)

lemma keeps_with_storage_bare [keeps_intros]: "keeps bare (with_storage m)"
  by (simp add: keeps_def bare_def)

text \<open>A storage operation is safe inside a call when it neither ends the transaction nor touches
  the committed file or the alarm rows.\<close>

definition txn_safe :: "('u sqlite, 'a) cmd \<Rightarrow> bool" where
  "txn_safe m \<longleftrightarrow> (\<forall>st. in_txn st \<longrightarrow> in_txn (snd (m st)) \<and> committed (snd (m st)) = committed st
     \<and> load_alarm_row (snd (m st)) = load_alarm_row st)"

lemma keeps_with_storage_inside: "txn_safe m \<Longrightarrow> keeps (inside c) (with_storage m)"
  by (auto simp: keeps_def txn_safe_def inside_def body_ok_def has_storage_def home_in_txn_def
      alarm_synced_def home_committed_def with_storage_Some)

lemma txn_safe_stmt: "(\<And>d. alarm_table (f d) = alarm_table d) \<Longrightarrow> txn_safe (writeE (stmt f n))"
  by (auto simp: txn_safe_def writeE_def load_alarm_row_def)

lemma txn_safe_readE [simp]: "txn_safe (readE g)"
  by (simp add: txn_safe_def readE_def)

lemma txn_safe_okE [simp]: "txn_safe (okE x)"
  by (simp add: txn_safe_def okE_def)

lemma txn_safe_failE [simp]: "txn_safe (failE x)"
  by (simp add: txn_safe_def failE_def)

lemma txn_safe_bindE:
  assumes m: "txn_safe m" and f: "\<And>x. txn_safe (f x)"
  shows "txn_safe (bindE m f)"
  unfolding txn_safe_def
proof (intro allI impI)
  fix st :: "'a sqlite"
  assume t: "in_txn st"
  obtain r st1 where 1: "m st = (r, st1)" by force
  with m t have s1: "in_txn st1" "committed st1 = committed st" "load_alarm_row st1 = load_alarm_row st"
    by (auto simp: txn_safe_def)
  show "in_txn (snd (bindE m f st)) \<and> committed (snd (bindE m f st)) = committed st
     \<and> load_alarm_row (snd (bindE m f st)) = load_alarm_row st"
  proof (cases r)
    case (Inl e)
    with 1 s1 show ?thesis by simp
  next
    case (Inr x)
    with 1 s1 f [of x] show ?thesis by (simp add: txn_safe_def)
  qed
qed

lemma txn_safe_thenE: "txn_safe m \<Longrightarrow> txn_safe k \<Longrightarrow> txn_safe (thenE m k)"
  by (simp add: thenE_def txn_safe_bindE)

lemma txn_safe_if: "(b \<Longrightarrow> txn_safe m) \<Longrightarrow> (\<not> b \<Longrightarrow> txn_safe k) \<Longrightarrow> txn_safe (if b then m else k)"
  by simp

lemmas txn_safe_intros = txn_safe_bindE txn_safe_thenE txn_safe_if

lemma txn_safe_version: "txn_safe schema_version" "txn_safe (set_schema_version v)"
  by (simp_all add: schema_version_def set_schema_version_def txn_safe_stmt)

lemma keeps_platform_set_alarm [keeps_intros]:
  "keeps (inside c) (platform_set_alarm cx cls delay)"
  "keeps bare (platform_set_alarm cx cls delay)"
  by (auto simp: platform_set_alarm_def intro!: keeps_bindE keeps_intros)

lemma keeps_if: "(b \<Longrightarrow> keeps P m) \<Longrightarrow> (\<not> b \<Longrightarrow> keeps P k) \<Longrightarrow> keeps P (if b then m else k)"
  by simp

lemmas keeps_seq = keeps_bindE keeps_thenE keeps_if keeps_with_storage_inside

text \<open>A method as the guard sees it: \<open>result.map_err(ObjectError::Call)\<close>.\<close>

definition as_body :: "('u home, json) cmd \<Rightarrow> 'u method_body" where
  "as_body m h = (case m h of (Inl e, h') \<Rightarrow> (Inl (Call e), h') | (Inr v, h') \<Rightarrow> (Inr v, h'))"

lemma snd_as_body [simp]: "snd (as_body m h) = snd (m h)"
  by (simp add: as_body_def split: prod.split sum.split)

lemma atomic_as_body:
  assumes "\<And>c. keeps (inside c) m" "keeps bare m"
  shows "atomic_body (as_body m)"
proof
  fix h :: "'a home"
  assume "body_ok h"
  then have "inside (home_committed h) (snd (m h))"
    using assms(1) by (auto intro: keepsD body_ok_inside)
  then show "body_ok (snd (as_body m h))" "home_committed (snd (as_body m h)) = home_committed h"
    by (simp_all add: inside_def)
next
  fix h :: "'a home"
  assume "storage h = None"
  with assms(2) show "storage (snd (as_body m h)) = None"
    by (simp add: keeps_def bare_def)
qed

end
