(* ===== verification/Queue.thy ===== *)
theory Queue
  imports Platform
begin

text \<open>
  The \<open>__queue\<close> platform class (\<open>actias-worker-core/src/platform/queue.rs\<close>): a durable queue
  whose SQLite tables are the message store and whose alarm loop is the delivery loop. Every
  method is here: the schema ladder, \<open>send\<close>, the delivery batch with its three verdicts, the
  dead-letter controls, and the read paths of the inspector.
\<close>

section \<open>Constants\<close>

definition QUEUE_SCHEMA_VERSION :: int where "QUEUE_SCHEMA_VERSION = 2"
definition DELIVERY_BATCH :: nat where "DELIVERY_BATCH = 16"
definition EVENT_RING :: int where "EVENT_RING = 300"
definition PREVIEW_CHARS :: nat where "PREVIEW_CHARS = 120"

definition preview :: "string \<Rightarrow> string" where
  "preview payload = utf8_take PREVIEW_CHARS payload"

section \<open>Tables\<close>

definition max_id :: "int list \<Rightarrow> int" where
  "max_id ids = foldr max ids 0"

definition no_messages :: string where
  "no_messages = ''no such table: __actias_queue_messages''"

definition no_dead :: string where
  "no_dead = ''no such table: __actias_queue_dead''"

text \<open>\<open>INSERT INTO __actias_queue_messages\<close>: an \<open>AUTOINCREMENT\<close> id is one past everything the
  table or its sequence row ever held.\<close>

definition next_message_id :: "'u db \<Rightarrow> message_row list \<Rightarrow> int" where
  "next_message_id d ms = max (messages_seq d) (max_id (map m_id ms)) + 1"

definition insert_message_db :: "string \<Rightarrow> int \<Rightarrow> int \<Rightarrow> 'u db \<Rightarrow> 'u db" where
  "insert_message_db text next enq d =
     (case queue_messages d of
        None \<Rightarrow> d
      | Some ms \<Rightarrow>
          (let i = next_message_id d ms
           in d\<lparr>queue_messages := Some (ms @ [\<lparr>m_id = i, m_payload = text, m_attempts = 0,
                  m_next_at = next, m_enqueued_at = enq\<rparr>]), messages_seq := i\<rparr>))"

definition insert_message :: "string \<Rightarrow> int \<Rightarrow> ('u sqlite, int) cmd" where
  "insert_message text now st =
     (case queue_messages (view st) of
        None \<Rightarrow> (Inl no_messages, st)
      | Some ms \<Rightarrow> (Inr (next_message_id (view st) ms), stmt (insert_message_db text now now) 1 st))"

definition delete_message_db :: "int \<Rightarrow> 'u db \<Rightarrow> 'u db" where
  "delete_message_db i d =
     d\<lparr>queue_messages := map_option (filter (\<lambda>m. m_id m \<noteq> i)) (queue_messages d)\<rparr>"

text \<open>\<open>DELETE\<close> answers how many rows went.\<close>

definition delete_message :: "int \<Rightarrow> ('u sqlite, nat) cmd" where
  "delete_message i st =
     (case queue_messages (view st) of
        None \<Rightarrow> (Inl no_messages, st)
      | Some ms \<Rightarrow> (let n = length (filter (\<lambda>m. m_id m = i) ms)
                    in (Inr n, stmt (delete_message_db i) n st)))"

definition delete_dead_db :: "int option \<Rightarrow> 'u db \<Rightarrow> 'u db" where
  "delete_dead_db i d =
     d\<lparr>queue_dead := map_option (filter (\<lambda>r. case i of Some k \<Rightarrow> d_id r \<noteq> k | None \<Rightarrow> False)) (queue_dead d)\<rparr>"

definition dead_matching :: "int option \<Rightarrow> dead_row list \<Rightarrow> dead_row list" where
  "dead_matching i ds = filter (\<lambda>r. case i of Some k \<Rightarrow> d_id r = k | None \<Rightarrow> True) ds"

definition delete_dead :: "int option \<Rightarrow> ('u sqlite, nat) cmd" where
  "delete_dead i st =
     (case queue_dead (view st) of
        None \<Rightarrow> (Inl no_dead, st)
      | Some ds \<Rightarrow> (let n = length (dead_matching i ds)
                    in (Inr n, stmt (delete_dead_db i) n st)))"

text \<open>\<open>INSERT INTO __actias_queue_dead SELECT \<dots> FROM messages WHERE id = ?\<close>.\<close>

definition bury_db :: "int \<Rightarrow> int \<Rightarrow> 'u db \<Rightarrow> 'u db" where
  "bury_db now i d =
     d\<lparr>queue_dead := map_option (\<lambda>ds. ds @
        map (\<lambda>m. \<lparr>d_id = m_id m, d_payload = m_payload m, d_attempts = m_attempts m + 1,
                  d_enqueued_at = m_enqueued_at m, d_died_at = now\<rparr>)
          (filter (\<lambda>m. m_id m = i) (case queue_messages d of Some ms \<Rightarrow> ms | None \<Rightarrow> [])))
        (queue_dead d)\<rparr>"

definition bury :: "int \<Rightarrow> int \<Rightarrow> ('u sqlite, unit) cmd" where
  "bury now i st =
     (case (queue_messages (view st), queue_dead (view st)) of
        (Some ms, Some ds) \<Rightarrow> (Inr (), stmt (bury_db now i) (length (filter (\<lambda>m. m_id m = i) ms)) st)
      | (None, _) \<Rightarrow> (Inl no_messages, st)
      | (_, None) \<Rightarrow> (Inl no_dead, st))"

definition postpone_db :: "int \<Rightarrow> int \<Rightarrow> 'u db \<Rightarrow> 'u db" where
  "postpone_db next i d =
     d\<lparr>queue_messages := map_option (map (\<lambda>m. if m_id m = i
         then m\<lparr>m_attempts := m_attempts m + 1, m_next_at := next\<rparr> else m)) (queue_messages d)\<rparr>"

definition postpone :: "int \<Rightarrow> int \<Rightarrow> ('u sqlite, unit) cmd" where
  "postpone next i st =
     (case queue_messages (view st) of
        None \<Rightarrow> (Inl no_messages, st)
      | Some ms \<Rightarrow> (Inr (), stmt (postpone_db next i) (length (filter (\<lambda>m. m_id m = i) ms)) st))"

definition select_due :: "int \<Rightarrow> ('u sqlite, message_row list) cmd" where
  "select_due now st =
     (case queue_messages (view st) of
        None \<Rightarrow> (Inl no_messages, st)
      | Some ms \<Rightarrow> (Inr (take DELIVERY_BATCH (sort_key m_id (filter (\<lambda>m. m_next_at m \<le> now) ms))), st))"

text \<open>\<open>SELECT MIN(next_at)\<close>: null over no rows.\<close>

definition min_opt :: "int list \<Rightarrow> int option" where
  "min_opt xs = (case xs of [] \<Rightarrow> None | y # ys \<Rightarrow> Some (foldr min ys y))"

definition earliest :: "('u sqlite, int option) cmd" where
  "earliest st =
     (case queue_messages (view st) of
        None \<Rightarrow> (Inl no_messages, st)
      | Some ms \<Rightarrow> (Inr (min_opt (map m_next_at ms)), st))"

section \<open>The journal ring\<close>

definition max_seq :: "event_row list \<Rightarrow> int" where
  "max_seq es = max_id (map e_seq es)"

definition create_events_db :: "'u db \<Rightarrow> 'u db" where
  "create_events_db d = (if queue_events d = None then d\<lparr>queue_events := Some []\<rparr> else d)"

definition append_event_db :: "int \<Rightarrow> string \<Rightarrow> string \<Rightarrow> 'u db \<Rightarrow> 'u db" where
  "append_event_db at kind detail d =
     d\<lparr>queue_events := map_option (\<lambda>es. es @ [\<lparr>e_seq = max_seq es + 1, e_at = at, e_kind = kind,
        e_detail = detail\<rparr>]) (queue_events d)\<rparr>"

definition trim_events_db :: "'u db \<Rightarrow> 'u db" where
  "trim_events_db d =
     d\<lparr>queue_events := map_option (\<lambda>es. filter (\<lambda>e. \<not> e_seq e \<le> max_seq es - EVENT_RING) es)
        (queue_events d)\<rparr>"

definition trimmed :: "'u db \<Rightarrow> nat" where
  "trimmed d = (case queue_events d of
      Some es \<Rightarrow> length (filter (\<lambda>e. e_seq e \<le> max_seq es - EVENT_RING) es) | None \<Rightarrow> 0)"

definition record_event :: "codec \<Rightarrow> string \<Rightarrow> json \<Rightarrow> ('u home, unit) cmd" where
  "record_event J kind detail =
     thenE (with_storage (writeE (stmt create_events_db 0)))
       (bindE unix_now_ms (\<lambda>at.
          thenE (with_storage (writeE (stmt (append_event_db at kind (to_text J detail)) 1)))
                (with_storage (writeE (\<lambda>st. stmt trim_events_db (trimmed (view st)) st)))))"

section \<open>The schema ladder\<close>

definition create_tables_db :: "'u db \<Rightarrow> 'u db" where
  "create_tables_db d =
     (let d1 = (if queue_messages d = None then d\<lparr>queue_messages := Some []\<rparr> else d)
      in if queue_dead d1 = None then d1\<lparr>queue_dead := Some []\<rparr> else d1)"

text \<open>v1 to v2: the rows move into a table whose ids never reuse; its sequence row starts at the
  highest id carried over.\<close>

definition rebuild_messages_db :: "'u db \<Rightarrow> 'u db" where
  "rebuild_messages_db d =
     d\<lparr>messages_seq := (case queue_messages d of Some ms \<Rightarrow> max_id (map m_id ms) | None \<Rightarrow> messages_seq d)\<rparr>"

definition migrate_queue :: "('u sqlite, unit) cmd" where
  "migrate_queue =
     bindE schema_version (\<lambda>version.
       if version \<ge> QUEUE_SCHEMA_VERSION then okE ()
       else thenE
         (if version = 0 then writeE (stmt create_tables_db 0)
          else (\<lambda>st. case queue_messages (view st) of
                  None \<Rightarrow> (Inl no_messages, st)
                | Some ms \<Rightarrow> (Inr (), stmt rebuild_messages_db (length ms) st)))
         (set_schema_version QUEUE_SCHEMA_VERSION))"

section \<open>Sending\<close>

definition enqueued_detail :: "int \<Rightarrow> string \<Rightarrow> caller option \<Rightarrow> json" where
  "enqueued_detail i text clr = JObj [(''id'', JInt i), (''preview'', JStr (preview text)),
     (''producer_revision'', jopt (JStr \<circ> cl_revision) clr),
     (''producer_script'', jopt (JStr \<circ> cl_script) clr), (''size'', JInt (int (length text)))]"

definition queue_send :: "codec \<Rightarrow> platform_context \<Rightarrow> json \<Rightarrow> caller option \<Rightarrow> ('u home, json) cmd" where
  "queue_send J cx payload clr =
     (let text = to_text J payload in
      bindE unix_now_ms (\<lambda>now.
      bindE (with_storage (insert_message text now)) (\<lambda>i.
      thenE (record_event J ''enqueued'' (enqueued_detail i text clr))
      (thenE (platform_set_alarm cx QUEUE_CLASS 0)
      (okE (JBool True))))))"

section \<open>Delivery\<close>

text \<open>\<open>(policy.backoff_base_ms << attempts).min(3_600_000)\<close> on \<open>i64\<close>: the shift distance is
  masked to six bits, the shifted value is signed, and only the upper side is capped.\<close>

definition backoff :: "64 word \<Rightarrow> int \<Rightarrow> int" where
  "backoff base attempts = min (sint (push_bit (nat (attempts mod 64)) base)) 3600000"

definition apply_verdict :: "codec \<Rightarrow> queue_policy \<Rightarrow> message_row \<Rightarrow> string + unit \<Rightarrow> ('u home, unit) cmd" where
  "apply_verdict J policy m verdict =
     (let attempt = m_attempts m + 1 in
      case verdict of
        Inr _ \<Rightarrow>
          thenE (with_storage (delete_message (m_id m)))
            (record_event J ''delivered'' (JObj [(''attempt'', JInt attempt), (''id'', JInt (m_id m))]))
      | Inl error \<Rightarrow>
          if attempt \<ge> max_attempts policy then
            bindE unix_now_ms (\<lambda>now.
            thenE (with_storage (bury now (m_id m)))
            (thenE (with_storage (delete_message (m_id m)))
            (record_event J ''dead-lettered'' (JObj [(''attempt'', JInt attempt),
               (''error'', JStr error), (''id'', JInt (m_id m))]))))
          else
            bindE unix_now_ms (\<lambda>now.
            let next_ms = now + backoff (backoff_base_ms policy) (m_attempts m) in
            thenE (with_storage (postpone next_ms (m_id m)))
            (record_event J ''retried'' (JObj [(''attempt'', JInt attempt), (''error'', JStr error),
               (''id'', JInt (m_id m)), (''next_ms'', JInt next_ms)]))))"

definition deliver_one :: "codec \<Rightarrow> runtime \<Rightarrow> queue_policy \<Rightarrow> string \<Rightarrow> message_row \<Rightarrow> ('u home, unit) cmd" where
  "deliver_one J rt policy event m h =
     (let payload = (case from_text J (m_payload m) of Some v \<Rightarrow> v | None \<Rightarrow> JNull)
      in case fire_listener rt event payload h of
           (verdict, h1) \<Rightarrow> apply_verdict J policy m verdict h1)"

fun deliver_all :: "codec \<Rightarrow> runtime \<Rightarrow> queue_policy \<Rightarrow> string \<Rightarrow> message_row list \<Rightarrow> ('u home, unit) cmd" where
  "deliver_all J rt policy event [] = okE ()"
| "deliver_all J rt policy event (m # ms) =
     thenE (deliver_one J rt policy event m) (deliver_all J rt policy event ms)"

definition rearm :: "platform_context \<Rightarrow> ('u home, json) cmd" where
  "rearm cx =
     bindE (with_storage earliest) (\<lambda>next.
       case next of
         None \<Rightarrow> okE JNull
       | Some at \<Rightarrow> bindE unix_now_ms (\<lambda>now.
           thenE (platform_set_alarm cx QUEUE_CLASS (at - now)) (okE JNull)))"

definition deliver :: "codec \<Rightarrow> runtime \<Rightarrow> platform_context \<Rightarrow> ('u home, json) cmd" where
  "deliver J rt cx =
     bindE (readE home_policy) (\<lambda>policy.
     bindE unix_now_ms (\<lambda>now.
     bindE (with_storage (select_due now)) (\<lambda>due.
     thenE (deliver_all J rt policy (''queue:'' @ cx_name cx) due)
     (rearm cx))))"

section \<open>Dead-letter controls\<close>

fun requeue_db :: "int \<Rightarrow> dead_row list \<Rightarrow> 'u db \<Rightarrow> 'u db" where
  "requeue_db now [] d = d"
| "requeue_db now (r # rs) d = requeue_db now rs (insert_message_db (d_payload r) now (d_enqueued_at r) d)"

definition requeue :: "int option \<Rightarrow> int \<Rightarrow> ('u sqlite, nat) cmd" where
  "requeue i now st =
     (case (queue_messages (view st), queue_dead (view st)) of
        (Some ms, Some ds) \<Rightarrow>
          (let rows = dead_matching i ds
           in (Inr (length rows), stmt (requeue_db now rows) (length rows) st))
      | (None, _) \<Rightarrow> (Inl no_messages, st)
      | (_, None) \<Rightarrow> (Inl no_dead, st))"

definition retry_dead :: "codec \<Rightarrow> platform_context \<Rightarrow> int option \<Rightarrow> ('u home, json) cmd" where
  "retry_dead J cx i =
     bindE unix_now_ms (\<lambda>now.
     bindE (with_storage (requeue i now)) (\<lambda>moved.
     thenE (if moved > 0
            then thenE (with_storage (delete_dead i))
                   (record_event J ''requeued'' (JObj [(''count'', JInt (int moved)), (''id'', jopt JInt i)]))
            else okE ())
     (thenE (if moved > 0 then platform_set_alarm cx QUEUE_CLASS 0 else okE ())
     (okE (JInt (int moved))))))"

definition drop_message :: "codec \<Rightarrow> int \<Rightarrow> ('u home, json) cmd" where
  "drop_message J i =
     bindE (with_storage (delete_message i)) (\<lambda>live.
     bindE (with_storage (delete_dead (Some i))) (\<lambda>dead.
     thenE (if live + dead > 0 then record_event J ''dropped'' (JObj [(''id'', JInt i)]) else okE ())
     (okE (JBool (live + dead > 0)))))"

section \<open>Reads\<close>

record stats =
  st_depth :: int
  st_in_flight :: int
  st_oldest_pending :: "int option"
  st_dead_letters :: int

definition read_stats :: "int \<Rightarrow> 'u db \<Rightarrow> stats" where
  "read_stats now d =
     (let (depth, flight, oldest) = (case queue_messages d of
             Some ms \<Rightarrow> (int (length ms), int (length (filter (\<lambda>m. m_next_at m \<le> now) ms)),
                         min_opt (map m_enqueued_at ms))
           | None \<Rightarrow> (0, 0, None));
          dead = (case queue_dead d of Some ds \<Rightarrow> int (length ds) | None \<Rightarrow> 0)
      in \<lparr>st_depth = depth, st_in_flight = flight, st_oldest_pending = oldest, st_dead_letters = dead\<rparr>)"

definition stats_json :: "stats \<Rightarrow> json" where
  "stats_json s = JObj [(''dead_letters'', JInt (st_dead_letters s)), (''depth'', JInt (st_depth s)),
     (''in_flight'', JInt (st_in_flight s)), (''oldest_pending'', jopt JInt (st_oldest_pending s))]"

definition queue_stats :: "('u home, json) cmd" where
  "queue_stats =
     bindE (with_storage (readE view)) (\<lambda>d.
       bindE (if queue_messages d = None then okE 0 else unix_now_ms) (\<lambda>now.
         okE (stats_json (read_stats now d))))"

record message_view =
  v_id :: int
  v_state :: string
  v_attempts :: int
  v_preview :: string
  v_payload :: string
  v_size :: int
  v_enqueued_ms :: int
  v_next_ms :: "int option"
  v_died_ms :: "int option"

definition live_view :: "int \<Rightarrow> message_row \<Rightarrow> message_view" where
  "live_view now m = \<lparr>v_id = m_id m, v_state = (if m_next_at m \<le> now then ''in-flight'' else ''pending''),
     v_attempts = m_attempts m, v_preview = preview (m_payload m), v_payload = m_payload m,
     v_size = int (length (m_payload m)), v_enqueued_ms = m_enqueued_at m,
     v_next_ms = Some (m_next_at m), v_died_ms = None\<rparr>"

definition dead_view :: "dead_row \<Rightarrow> message_view" where
  "dead_view r = \<lparr>v_id = d_id r, v_state = ''dead'', v_attempts = d_attempts r,
     v_preview = preview (d_payload r), v_payload = d_payload r,
     v_size = int (length (d_payload r)), v_enqueued_ms = d_enqueued_at r, v_next_ms = None,
     v_died_ms = Some (d_died_at r)\<rparr>"

text \<open>\<open>ORDER BY id DESC LIMIT 200\<close> per table, then the stable sort: newest enqueued first, the
  higher id first among equals.\<close>

definition read_messages :: "int \<Rightarrow> 'u db \<Rightarrow> message_view list" where
  "read_messages now d =
     (let live = (case queue_messages d of
            Some ms \<Rightarrow> map (live_view now) (take 200 (sort_key (\<lambda>m. - m_id m) ms)) | None \<Rightarrow> []);
          dead = (case queue_dead d of
            Some ds \<Rightarrow> map dead_view (take 200 (sort_key (\<lambda>r. - d_id r) ds)) | None \<Rightarrow> [])
      in sort_key (\<lambda>v. - v_enqueued_ms v) (sort_key (\<lambda>v. - v_id v) (live @ dead)))"

definition message_json :: "message_view \<Rightarrow> json" where
  "message_json v = JObj ([(''attempts'', JInt (v_attempts v))]
     @ (case v_died_ms v of Some t \<Rightarrow> [(''died_ms'', JInt t)] | None \<Rightarrow> [])
     @ [(''enqueued_ms'', JInt (v_enqueued_ms v)), (''id'', JInt (v_id v))]
     @ (case v_next_ms v of Some t \<Rightarrow> [(''next_ms'', JInt t)] | None \<Rightarrow> [])
     @ [(''payload'', JStr (v_payload v)), (''preview'', JStr (v_preview v)),
        (''size'', JInt (v_size v)), (''state'', JStr (v_state v))])"

definition queue_list_messages :: "('u home, json) cmd" where
  "queue_list_messages =
     bindE unix_now_ms (\<lambda>now.
     bindE (with_storage (readE view)) (\<lambda>d. okE (JArr (map message_json (read_messages now d)))))"

text \<open>Journal rows after a cursor, oldest first, at most 200; a detail that does not parse reads as
  the plain text.\<close>

definition read_events :: "int \<Rightarrow> 'u db \<Rightarrow> event_row list" where
  "read_events since d = (case queue_events d of
      None \<Rightarrow> [] | Some es \<Rightarrow> take 200 (sort_key e_seq (filter (\<lambda>e. e_seq e > since) es)))"

definition event_json :: "codec \<Rightarrow> event_row \<Rightarrow> json" where
  "event_json J e = JObj [(''at'', JInt (e_at e)),
     (''detail'', case from_text J (e_detail e) of Some v \<Rightarrow> v | None \<Rightarrow> JStr (e_detail e)),
     (''kind'', JStr (e_kind e)), (''seq'', JInt (e_seq e))]"

definition queue_list_events :: "codec \<Rightarrow> int \<Rightarrow> ('u home, json) cmd" where
  "queue_list_events J since =
     bindE (with_storage (readE view)) (\<lambda>d. okE (JArr (map (event_json J) (read_events since d))))"

section \<open>Routing a method\<close>

definition require_id :: "call \<Rightarrow> string + int" where
  "require_id c = (case Option.bind (arg 0 (c_args c)) as_i64 of
      Some i \<Rightarrow> Inr i | None \<Rightarrow> Inl ''The message id must be a number.'')"

definition queue_dispatch :: "codec \<Rightarrow> runtime \<Rightarrow> platform_context \<Rightarrow> call \<Rightarrow> ('u home, json) cmd" where
  "queue_dispatch J rt cx c =
     thenE (with_storage migrate_queue)
       (if c_method c = ''send'' then queue_send J cx (arg_or_null 0 (c_args c)) (c_caller c)
        else if c_method c = ''alarm'' then deliver J rt cx
        else if c_method c = ''stats'' then queue_stats
        else if c_method c = ''events'' then
          queue_list_events J (case Option.bind (arg 0 (c_args c)) as_i64 of Some i \<Rightarrow> i | None \<Rightarrow> 0)
        else if c_method c = ''messages'' then queue_list_messages
        else if c_method c = ''retry_dead'' then retry_dead J cx None
        else if c_method c = ''retry_message'' then
          (case require_id c of Inl e \<Rightarrow> failE e | Inr i \<Rightarrow> retry_dead J cx (Some i))
        else if c_method c = ''drop_message'' then
          (case require_id c of Inl e \<Rightarrow> failE e | Inr i \<Rightarrow> drop_message J i)
        else failE (''Object class '' @ quoted QUEUE_CLASS @ '' has no method '' @ quoted (c_method c) @ ''.''))"

end
