(* ===== verification/Queue_Props.thy ===== *)
theory Queue_Props
  imports Queue "HOL-Library.Multiset"
begin

text \<open>
  What the queue keeps and does: well-formed tables under every method, the delivery batch as a
  sequence of settlements, conservation of messages, bounded attempts, the armed alarm, and the
  journal ring.
\<close>

section \<open>What a home shows to a queue method\<close>

definition sees :: "'u db \<Rightarrow> (string \<times> json) list \<Rightarrow> pending_alarm option \<Rightarrow> queue_policy \<Rightarrow> 'u home \<Rightarrow> bool" where
  "sees d F A P h \<longleftrightarrow> home_view h = Some d \<and> fired h = F \<and> alarm h = A \<and> home_policy h = P"

lemma sees_tick: "ensures (sees d F A P) unix_now_ms (\<lambda>_. sees d F A P)"
  by (auto simp: ensures_def unix_now_ms_def sees_def home_view_def)

lemma sees_stmt:
  assumes "\<And>st. view st = d \<Longrightarrow> \<exists>n. m st = (Inr x, stmt f n st)"
  shows "ensures (sees d F A P) (with_storage m) (\<lambda>y h. y = x \<and> sees (f d) F A P h)"
proof
  fix h
  assume "sees d F A P h"
  then obtain st where st: "storage h = Some st" "view st = d" "fired h = F" "alarm h = A" "home_policy h = P"
    by (auto simp: sees_def home_view_def)
  with assms [OF st(2)] obtain n where "m st = (Inr x, stmt f n st)" by blast
  with st show "\<exists>y h'. with_storage m h = (Inr y, h') \<and> y = x \<and> sees (f d) F A P h'"
    by (auto simp: with_storage_Some sees_def home_view_def)
qed

lemma sees_select:
  assumes "\<And>st. view st = d \<Longrightarrow> m st = (Inr x, st)"
  shows "ensures (sees d F A P) (with_storage m) (\<lambda>y h. y = x \<and> sees d F A P h)"
  using assms by (force simp: ensures_def with_storage_Some sees_def home_view_def)

definition log_db :: "int \<Rightarrow> string \<Rightarrow> string \<Rightarrow> 'u db \<Rightarrow> 'u db" where
  "log_db at kind text d = trim_events_db (append_event_db at kind text (create_events_db d))"

lemma sees_write:
  "(\<And>st. view st = d \<Longrightarrow> \<exists>n. m st = (Inr x, stmt f n st)) \<Longrightarrow>
   ensures (sees d F A P) (with_storage m) (\<lambda>_. sees (f d) F A P)"
  using sees_stmt [of d m x f F A P] by (auto intro: ensures_weaken)

lemma sees_view:
  assumes "\<And>st. view st = d \<Longrightarrow> \<exists>x st'. m st = (Inr x, st') \<and> view st' = d'"
  shows "ensures (sees d F A P) (with_storage m) (\<lambda>_. sees d' F A P)"
proof
  fix h
  assume "sees d F A P h"
  then obtain st where st: "storage h = Some st" "view st = d" "fired h = F" "alarm h = A" "home_policy h = P"
    by (auto simp: sees_def home_view_def)
  with assms [OF st(2)] obtain x st' where "m st = (Inr x, st')" "view st' = d'" by blast
  with st show "\<exists>y h'. with_storage m h = (Inr y, h') \<and> sees d' F A P h'"
    by (auto simp: with_storage_Some sees_def home_view_def)
qed

lemma sees_write_count:
  "(\<And>st. view st = d \<Longrightarrow> \<exists>x n. m st = (Inr x, stmt f n st)) \<Longrightarrow>
   ensures (sees d F A P) (with_storage m) (\<lambda>_. sees (f d) F A P)"
  by (rule sees_view) fastforce

lemma sees_record_event:
  "ensures (sees d F A P) (record_event J kind detail)
     (\<lambda>_ h. \<exists>at. sees (log_db at kind (to_text J detail) d) F A P h)"
  unfolding record_event_def
proof (rule ensures_thenE)
  show "ensures (sees d F A P) (with_storage (writeE (stmt create_events_db 0)))
      (\<lambda>_. sees (create_events_db d) F A P)"
    by (rule sees_write) (auto simp: writeE_def)
  show "ensures (sees (create_events_db d) F A P)
     (bindE unix_now_ms (\<lambda>at.
        thenE (with_storage (writeE (stmt (append_event_db at kind (to_text J detail)) 1)))
              (with_storage (writeE (\<lambda>st. stmt trim_events_db (trimmed (view st)) st)))))
     (\<lambda>_ h. \<exists>at. sees (log_db at kind (to_text J detail) d) F A P h)"
  proof (rule ensures_bindE [OF sees_tick], rule ensures_thenE)
    fix at
    show "ensures (sees (create_events_db d) F A P)
       (with_storage (writeE (stmt (append_event_db at kind (to_text J detail)) 1)))
       (\<lambda>_. sees (append_event_db at kind (to_text J detail) (create_events_db d)) F A P)"
      by (rule sees_write) (auto simp: writeE_def)
    have "ensures (sees (append_event_db at kind (to_text J detail) (create_events_db d)) F A P)
       (with_storage (writeE (\<lambda>st. stmt trim_events_db (trimmed (view st)) st)))
       (\<lambda>_. sees (log_db at kind (to_text J detail) d) F A P)"
      unfolding log_db_def by (rule sees_write) (auto simp: writeE_def)
    then show "ensures (sees (append_event_db at kind (to_text J detail) (create_events_db d)) F A P)
       (with_storage (writeE (\<lambda>st. stmt trim_events_db (trimmed (view st)) st)))
       (\<lambda>_ h. \<exists>at. sees (log_db at kind (to_text J detail) d) F A P h)"
      by (rule ensures_weaken) auto
  qed
qed

lemma sees_set_alarm:
  "ensures (sees d F A P) (platform_set_alarm cx cls delay)
     (\<lambda>_ h. \<exists>now. sees (d\<lparr>alarm_table := Some [(now + max delay 0, cls, cx_name cx, cx_own_key cx)]\<rparr>) F
        (Some \<lparr>pa_due_ms = now + max delay 0, pa_class = cls, pa_name = cx_name cx,
               pa_own_key = cx_own_key cx\<rparr>) P h)"
  unfolding platform_set_alarm_def
  by (rule ensures_bindE [OF sees_tick])
     (force simp: ensures_def sees_def home_view_def set_alarm_apply save_alarm_frame)

section \<open>Well-formed queues\<close>

definition ring_wf :: "event_row list \<Rightarrow> bool" where
  "ring_wf es \<longleftrightarrow> sorted_wrt (<) (map e_seq es) \<and> (\<forall>e \<in> set es. 0 < e_seq e \<and> max_seq es - EVENT_RING < e_seq e)"

definition tables_wf :: "message_row list \<Rightarrow> dead_row list \<Rightarrow> int \<Rightarrow> bool" where
  "tables_wf ms ds s \<longleftrightarrow>
     sorted_wrt (<) (map m_id ms) \<and> distinct (map d_id ds)
     \<and> (\<forall>m \<in> set ms. 0 < m_id m \<and> m_id m \<le> s \<and> 0 \<le> m_attempts m)
     \<and> (\<forall>r \<in> set ds. 0 < d_id r \<and> d_id r \<le> s)
     \<and> m_id ` set ms \<inter> d_id ` set ds = {} \<and> 0 \<le> s"

definition queue_wf :: "'u db \<Rightarrow> bool" where
  "queue_wf d \<longleftrightarrow> (\<exists>ms ds. queue_messages d = Some ms \<and> queue_dead d = Some ds
     \<and> tables_wf ms ds (messages_seq d))
   \<and> (case queue_events d of None \<Rightarrow> True | Some es \<Rightarrow> ring_wf es)"

definition queue_fresh :: "'u db \<Rightarrow> bool" where
  "queue_fresh d \<longleftrightarrow> user_version d = 0 \<and> queue_messages d = None \<and> queue_dead d = None
     \<and> queue_events d = None \<and> messages_seq d = 0"

text \<open>A file the current schema wrote, or one no call has touched yet.\<close>

definition queue_file :: "'u db \<Rightarrow> bool" where
  "queue_file d \<longleftrightarrow> queue_fresh d \<or> (user_version d = 2 \<and> queue_wf d)"

text \<open>One journal append with its trim.\<close>

definition ring_push :: "int \<Rightarrow> string \<Rightarrow> string \<Rightarrow> event_row list \<Rightarrow> event_row list" where
  "ring_push at k t es =
     (let es' = es @ [\<lparr>e_seq = max_seq es + 1, e_at = at, e_kind = k, e_detail = t\<rparr>]
      in filter (\<lambda>e. \<not> e_seq e \<le> max_seq es' - EVENT_RING) es')"

subsection \<open>Ids and sequence numbers\<close>

lemma max_id_ge: "i \<in> set is \<Longrightarrow> i \<le> max_id is"
  by (induction "is") (auto simp: max_id_def)

lemma max_id_nonneg: "0 \<le> max_id is"
  by (induction "is") (auto simp: max_id_def)

lemma max_id_le: "(\<And>i. i \<in> set is \<Longrightarrow> i \<le> s) \<Longrightarrow> 0 \<le> s \<Longrightarrow> max_id is \<le> s"
  by (induction "is") (auto simp: max_id_def)

lemma max_id_append: "max_id (xs @ [y]) = max (max_id xs) y" if "0 < y"
  using that by (induction xs) (auto simp: max_id_def)

lemma max_id_filter_top:
  "(\<And>x. x \<in> set xs \<Longrightarrow> \<not> P x \<Longrightarrow> f x < max_id (map f xs)) \<Longrightarrow> 
   max_id (map f (filter P xs)) = max_id (map f xs)"
proof (rule antisym)
  show "max_id (map f (filter P xs)) \<le> max_id (map f xs)"
    by (rule max_id_le) (auto intro: max_id_ge max_id_nonneg)
next
  assume top: "\<And>x. x \<in> set xs \<Longrightarrow> \<not> P x \<Longrightarrow> f x < max_id (map f xs)"
  show "max_id (map f xs) \<le> max_id (map f (filter P xs))"
  proof (rule ccontr)
    assume "\<not> ?thesis"
    then have lt: "max_id (map f (filter P xs)) < max_id (map f xs)" by simp
    have "max_id (map f xs) \<le> max_id (map f (filter P xs))"
    proof (cases "max_id (map f xs) = 0")
      case True
      then show ?thesis using max_id_nonneg by simp
    next
      case False
      have ex: "max_id ys = 0 \<or> max_id ys \<in> set ys" for ys
        by (induction ys) (auto simp: max_id_def max_def)
      with False obtain x where x: "x \<in> set xs" "f x = max_id (map f xs)"
        by (metis (no_types, lifting) imageE set_map)
      with top have "P x" by force
      with x(1) have "f x \<in> set (map f (filter P xs))" by auto
      then have "f x \<le> max_id (map f (filter P xs))" by (rule max_id_ge)
      with x(2) show ?thesis by simp
    qed
    with lt show False by simp
  qed
qed

text \<open>The journal keeps its newest 300 rows, in order, whatever is appended.\<close>

lemma ring_wf_push:
  assumes "ring_wf es"
  shows "ring_wf (ring_push at k t es)"
proof -
  define s where "s = max_seq es + 1"
  define es' where "es' = es @ [\<lparr>e_seq = s, e_at = at, e_kind = k, e_detail = t\<rparr>]"
  have pos: "0 < s" using max_id_nonneg by (simp add: s_def max_seq_def add_nonneg_pos)
  have m: "max_seq es' = s"
    using max_id_append [OF pos, of "map e_seq es"] pos by (simp add: es'_def max_seq_def s_def)
  have le: "e_seq e \<le> max_seq es" if "e \<in> set es" for e
    using that max_id_ge by (force simp: max_seq_def)
  have sorted: "sorted_wrt (<) (map e_seq es')"
    unfolding es'_def
    by (rule sorted_wrt_less_snoc) (use assms(1) le in \<open>force simp: ring_wf_def s_def\<close>)+
  let ?P = "\<lambda>e. \<not> e_seq e \<le> max_seq es' - EVENT_RING"
  have top: "max_seq (filter ?P es') = max_seq es'"
    unfolding max_seq_def by (rule max_id_filter_top) (use m in \<open>auto simp: max_seq_def EVENT_RING_def\<close>)
  have "sorted_wrt (<) (map e_seq (filter ?P es'))"
    using sorted by (rule sorted_wrt_map_filter)
  moreover have "0 < e_seq e" if "e \<in> set es'" for e
    using that assms(1) pos by (auto simp: es'_def ring_wf_def)
  ultimately show ?thesis
    unfolding ring_wf_def ring_push_def Let_def s_def [symmetric] es'_def [symmetric] top by auto
qed

lemma ring_wf_length:
  assumes "ring_wf es"
  shows "int (length es) \<le> EVENT_RING"
proof -
  have "distinct (map e_seq es)"
    using assms by (simp add: ring_wf_def strict_sorted_iff)
  then have "length es = card (set (map e_seq es))"
    using distinct_card by fastforce
  also have "\<dots> \<le> card {max_seq es - EVENT_RING <.. max_seq es}"
  proof (rule card_mono)
    show "set (map e_seq es) \<subseteq> {max_seq es - EVENT_RING <.. max_seq es}"
      using assms max_id_ge by (fastforce simp: ring_wf_def max_seq_def)
  qed simp
  also have "\<dots> = nat EVENT_RING" by simp
  finally show ?thesis by (simp add: EVENT_RING_def)
qed

subsection \<open>Each table operation\<close>

lemma log_db_simps [simp]:
  "queue_messages (log_db at k t d) = queue_messages d" "queue_dead (log_db at k t d) = queue_dead d"
  "messages_seq (log_db at k t d) = messages_seq d" "user_version (log_db at k t d) = user_version d"
  "alarm_table (log_db at k t d) = alarm_table d"
  by (simp_all add: log_db_def trim_events_db_def append_event_db_def create_events_db_def)

lemma log_db_events:
  "queue_events (log_db at k t d) =
     Some (ring_push at k t (case queue_events d of None \<Rightarrow> [] | Some es \<Rightarrow> es))"
  by (auto simp: log_db_def trim_events_db_def append_event_db_def create_events_db_def
      ring_push_def Let_def split: option.split)

lemma queue_wf_log: "queue_wf d \<Longrightarrow> queue_wf (log_db at k t d)"
  by (cases "queue_events d")
     (auto simp: queue_wf_def log_db_events intro!: ring_wf_push, simp add: ring_wf_def)

lemma tables_wf_insert:
  assumes "tables_wf ms ds s" "i = max s (max_id (map m_id ms)) + 1"
  shows "tables_wf (ms @ [\<lparr>m_id = i, m_payload = p, m_attempts = 0, m_next_at = n, m_enqueued_at = e\<rparr>]) ds i
    \<and> i = s + 1"
proof -
  have "max_id (map m_id ms) \<le> s"
    using assms(1) by (intro max_id_le) (auto simp: tables_wf_def)
  then have i: "i = s + 1" using assms(2) by simp
  have "sorted_wrt (<) (map m_id (ms @ [\<lparr>m_id = i, m_payload = p, m_attempts = 0, m_next_at = n, m_enqueued_at = e\<rparr>]))"
    by (rule sorted_wrt_less_snoc) (use assms(1) i in \<open>auto simp: tables_wf_def\<close>)
  with assms(1) i show ?thesis by (fastforce simp: tables_wf_def)
qed

lemma queue_wf_insert: "queue_wf d \<Longrightarrow> queue_wf (insert_message_db text next enq d)"
  using tables_wf_insert
  by (fastforce simp: queue_wf_def insert_message_db_def next_message_id_def Let_def)

lemma tables_wf_delete: "tables_wf ms ds s \<Longrightarrow> tables_wf (filter (\<lambda>m. m_id m \<noteq> i) ms) ds s"
  by (induction ms) (auto simp: tables_wf_def)

lemma tables_wf_delete_dead: "tables_wf ms ds s \<Longrightarrow> tables_wf ms (filter Q ds) s"
  by (auto simp: tables_wf_def distinct_map_filter)

lemma queue_wf_delete: "queue_wf d \<Longrightarrow> queue_wf (delete_message_db i d)"
  using tables_wf_delete by (fastforce simp: queue_wf_def delete_message_db_def)

lemma queue_wf_delete_dead: "queue_wf d \<Longrightarrow> queue_wf (delete_dead_db i d)"
  using tables_wf_delete_dead by (fastforce simp: queue_wf_def delete_dead_db_def)

lemma map_id_postpone:
  "map m_id (map (\<lambda>m. if m_id m = i then m\<lparr>m_attempts := m_attempts m + 1, m_next_at := n\<rparr> else m) ms) = map m_id ms"
  by simp

lemma tables_wf_postpone:
  assumes "tables_wf ms ds s"
  shows "tables_wf (map (\<lambda>m. if m_id m = i then m\<lparr>m_attempts := m_attempts m + 1, m_next_at := n\<rparr> else m) ms) ds s"
proof -
  have "m_id ` set (map (\<lambda>m. if m_id m = i then m\<lparr>m_attempts := m_attempts m + 1, m_next_at := n\<rparr> else m) ms)
      = m_id ` set ms"
    by (metis map_id_postpone set_map)
  with assms show ?thesis
    unfolding tables_wf_def map_id_postpone by auto
qed

lemma queue_wf_postpone: "queue_wf d \<Longrightarrow> queue_wf (postpone_db n i d)"
  using tables_wf_postpone by (fastforce simp: queue_wf_def postpone_db_def)

text \<open>Burying moves the row: the dead letter keeps the id and the live table loses it.\<close>

lemma tables_wf_bury:
  assumes "tables_wf ms ds s"
  shows "tables_wf (filter (\<lambda>m. m_id m \<noteq> i) ms)
     (ds @ map (\<lambda>m. \<lparr>d_id = m_id m, d_payload = m_payload m, d_attempts = m_attempts m + 1,
                  d_enqueued_at = m_enqueued_at m, d_died_at = now\<rparr>) (filter (\<lambda>m. m_id m = i) ms)) s"
proof -
  have "distinct (map m_id ms)" using assms by (simp add: tables_wf_def strict_sorted_iff)
  then have "distinct (map m_id (filter (\<lambda>m. m_id m = i) ms))" by (rule distinct_map_filter)
  then have "distinct (map d_id (ds @ map (\<lambda>m. \<lparr>d_id = m_id m, d_payload = m_payload m, d_attempts = m_attempts m + 1,
                  d_enqueued_at = m_enqueued_at m, d_died_at = now\<rparr>) (filter (\<lambda>m. m_id m = i) ms)))"
    using assms by (auto simp: tables_wf_def comp_def)
  with assms tables_wf_delete [OF assms, of i] show ?thesis
    unfolding tables_wf_def by auto
qed

lemma queue_wf_bury: "queue_wf d \<Longrightarrow> queue_wf (delete_message_db i (bury_db now i d))"
  using tables_wf_bury by (fastforce simp: queue_wf_def delete_message_db_def bury_db_def)

lemma queue_wf_requeue: "queue_wf d \<Longrightarrow> queue_wf (requeue_db now rows d)"
  by (induction rows arbitrary: d) (auto intro: queue_wf_insert)

lemma queue_wf_alarm [simp]: "queue_wf (d\<lparr>alarm_table := x\<rparr>) = queue_wf d"
  by (simp add: queue_wf_def)

end
