(* ===== verification/Queue_Delivery.thy ===== *)
theory Queue_Delivery
  imports Queue_Props
begin

text \<open>
  The queue against an abstract ledger: numbered messages that are live or dead, each with a
  count of failed deliveries. Every queue method is shown to act on the ledger the way its
  documentation says, whatever the listener answers and whatever the clock reads.
\<close>

section \<open>The ledger\<close>

type_synonym entry = "int \<times> string \<times> int"

record ledger =
  live :: "entry list"
  dead :: "entry list"
  issued :: int

definition e_id :: "entry \<Rightarrow> int" where "e_id e = fst e"
definition e_text :: "entry \<Rightarrow> string" where "e_text e = fst (snd e)"

definition l_enqueue :: "string \<Rightarrow> ledger \<Rightarrow> ledger" where
  "l_enqueue p L = L\<lparr>live := live L @ [(issued L + 1, p, 0)], issued := issued L + 1\<rparr>"

definition l_ack :: "int \<Rightarrow> ledger \<Rightarrow> ledger" where
  "l_ack i L = L\<lparr>live := filter (\<lambda>e. e_id e \<noteq> i) (live L)\<rparr>"

definition l_bump :: "int \<Rightarrow> ledger \<Rightarrow> ledger" where
  "l_bump i L = L\<lparr>live := map (\<lambda>(j, p, a). if j = i then (j, p, a + 1) else (j, p, a)) (live L)\<rparr>"

definition l_bury :: "int \<Rightarrow> ledger \<Rightarrow> ledger" where
  "l_bury i L = L\<lparr>live := filter (\<lambda>e. e_id e \<noteq> i) (live L),
     dead := dead L @ map (\<lambda>(j, p, a). (j, p, a + 1)) (filter (\<lambda>e. e_id e = i) (live L))\<rparr>"

text \<open>One delivery verdict against message \<open>i\<close>, which had \<open>a\<close> failures before.\<close>

definition l_settle :: "int \<Rightarrow> int \<Rightarrow> int \<Rightarrow> bool \<Rightarrow> ledger \<Rightarrow> ledger" where
  "l_settle limit i a ok L =
     (if ok then l_ack i L else if a + 1 \<ge> limit then l_bury i L else l_bump i L)"

definition l_requeue :: "int option \<Rightarrow> ledger \<Rightarrow> ledger" where
  "l_requeue i L =
     (let go = (\<lambda>e. case i of Some k \<Rightarrow> e_id e = k | None \<Rightarrow> True)
      in (fold (\<lambda>e. l_enqueue (e_text e)) (filter go (dead L)) L)\<lparr>dead := filter (\<lambda>e. \<not> go e) (dead L)\<rparr>)"

definition l_drop :: "int \<Rightarrow> ledger \<Rightarrow> ledger" where
  "l_drop i L = L\<lparr>live := filter (\<lambda>e. e_id e \<noteq> i) (live L), dead := filter (\<lambda>e. e_id e \<noteq> i) (dead L)\<rparr>"

definition ledger_of :: "'u db \<Rightarrow> ledger" where
  "ledger_of d = \<lparr>
     live = (case queue_messages d of Some ms \<Rightarrow> map (\<lambda>m. (m_id m, m_payload m, m_attempts m)) ms | None \<Rightarrow> []),
     dead = (case queue_dead d of Some ds \<Rightarrow> map (\<lambda>r. (d_id r, d_payload r, d_attempts r)) ds | None \<Rightarrow> []),
     issued = messages_seq d\<rparr>"

subsection \<open>Each table operation on the ledger\<close>

lemma ledger_log [simp]: "ledger_of (log_db at k t d) = ledger_of d"
  by (simp add: ledger_of_def)

lemma ledger_alarm [simp]: "ledger_of (d\<lparr>alarm_table := x\<rparr>) = ledger_of d"
  by (simp add: ledger_of_def)

lemma ledger_insert:
  assumes "queue_wf d"
  shows "ledger_of (insert_message_db text n e d) = l_enqueue text (ledger_of d)"
proof -
  from assms obtain ms ds where d: "queue_messages d = Some ms" "queue_dead d = Some ds"
      "tables_wf ms ds (messages_seq d)"
    by (auto simp: queue_wf_def)
  have "max_id (map m_id ms) \<le> messages_seq d"
    using d(3) by (intro max_id_le) (auto simp: tables_wf_def)
  with d show ?thesis
    by (simp add: ledger_of_def insert_message_db_def next_message_id_def Let_def l_enqueue_def max_absorb1)
qed

lemma ledger_delete:
  "ledger_of (delete_message_db i d) = l_ack i (ledger_of d)"
  by (auto simp: ledger_of_def delete_message_db_def l_ack_def e_id_def filter_map comp_def
      split: option.split)

lemma ledger_bury:
  "queue_messages d \<noteq> None \<Longrightarrow> queue_dead d \<noteq> None \<Longrightarrow>
   ledger_of (delete_message_db i (bury_db now i d)) = l_bury i (ledger_of d)"
  by (auto simp: ledger_of_def delete_message_db_def bury_db_def l_bury_def e_id_def filter_map comp_def)

lemma ledger_postpone: "ledger_of (postpone_db n i d) = l_bump i (ledger_of d)"
  by (auto simp: ledger_of_def postpone_db_def l_bump_def split: option.split)

lemma ledger_requeue:
  "queue_wf d \<Longrightarrow> ledger_of (requeue_db now rows d)
     = fold (\<lambda>e. l_enqueue (e_text e)) (map (\<lambda>r. (d_id r, d_payload r, d_attempts r)) rows) (ledger_of d)"
  by (induction rows arbitrary: d) (auto simp: ledger_insert queue_wf_insert e_text_def)

lemma requeue_db_dead [simp]: "queue_dead (requeue_db now rows d) = queue_dead d"
  by (induction rows arbitrary: d) (auto simp: insert_message_db_def Let_def split: option.split)

lemma fold_enqueue_dead [simp]: "dead (fold (\<lambda>e. l_enqueue (e_text e)) es L) = dead L"
  by (induction es arbitrary: L) (auto simp: l_enqueue_def)

section \<open>A delivery batch\<close>

text \<open>What the listener answers to its n-th firing in this home, and whether it is reached.\<close>

definition heard :: "runtime \<Rightarrow> string \<Rightarrow> json \<Rightarrow> bool" where
  "heard rt event payload = (rt_listener rt event \<noteq> None \<and> rt_to_value rt payload = None)"

definition verdict_of :: "runtime \<Rightarrow> string \<Rightarrow> nat \<Rightarrow> json \<Rightarrow> string + unit" where
  "verdict_of rt event n payload =
     (case rt_listener rt event of
        None \<Rightarrow> Inl (''no listener registered for '' @ quoted event)
      | Some f \<Rightarrow>
          (case rt_to_value rt payload of
             Some e \<Rightarrow> Inl (''event payload did not convert: '' @ e)
           | None \<Rightarrow> (case f n payload of Some e \<Rightarrow> Inl e | None \<Rightarrow> Inr ())))"

lemma fire_listener_eq:
  "fire_listener rt event payload h =
     (verdict_of rt event (length (fired h)) payload,
      if heard rt event payload then h\<lparr>fired := fired h @ [(event, payload)]\<rparr> else h)"
  by (simp add: fire_listener_def verdict_of_def heard_def Let_def split: option.split)

definition payload_of :: "codec \<Rightarrow> message_row \<Rightarrow> json" where
  "payload_of J m = (case from_text J (m_payload m) of Some v \<Rightarrow> v | None \<Rightarrow> JNull)"

text \<open>The firings a batch makes, and the verdict each message gets.\<close>

definition firings :: "codec \<Rightarrow> runtime \<Rightarrow> string \<Rightarrow> message_row list \<Rightarrow> (string \<times> json) list" where
  "firings J rt event ms = map (Pair event) (filter (heard rt event) (map (payload_of J) ms))"

fun verdicts :: "codec \<Rightarrow> runtime \<Rightarrow> string \<Rightarrow> nat \<Rightarrow> message_row list \<Rightarrow> (message_row \<times> (string + unit)) list" where
  "verdicts J rt event n [] = []"
| "verdicts J rt event n (m # ms) =
     (m, verdict_of rt event n (payload_of J m))
       # verdicts J rt event (if heard rt event (payload_of J m) then Suc n else n) ms"

definition settle_db :: "queue_policy \<Rightarrow> message_row \<Rightarrow> string + unit \<Rightarrow> int \<Rightarrow> 'u db \<Rightarrow> 'u db" where
  "settle_db P m v now d =
     (case v of
        Inr _ \<Rightarrow> delete_message_db (m_id m) d
      | Inl _ \<Rightarrow>
          if m_attempts m + 1 \<ge> max_attempts P then delete_message_db (m_id m) (bury_db now (m_id m) d)
          else postpone_db (now + backoff (backoff_base_ms P) (m_attempts m)) (m_id m) d)"

inductive settled :: "queue_policy \<Rightarrow> (message_row \<times> (string + unit)) list \<Rightarrow> 'u db \<Rightarrow> 'u db \<Rightarrow> bool"
  for P where
  settled_nil: "settled P [] d d"
| settled_cons: "settled P mvs (log_db at k t (settle_db P m v now d)) d' \<Longrightarrow> settled P ((m, v) # mvs) d d'"

lemma settle_db_tables:
  "queue_messages d \<noteq> None \<Longrightarrow> queue_messages (settle_db P m v now d) \<noteq> None"
  "queue_dead d \<noteq> None \<Longrightarrow> queue_dead (settle_db P m v now d) \<noteq> None"
  by (auto simp: settle_db_def delete_message_db_def bury_db_def postpone_db_def split: sum.split)

lemma queue_wf_settle: "queue_wf d \<Longrightarrow> queue_wf (settle_db P m v now d)"
  by (auto simp: settle_db_def queue_wf_delete queue_wf_bury queue_wf_postpone split: sum.split)

lemma settled_wf: "settled P mvs d d' \<Longrightarrow> queue_wf d \<Longrightarrow> queue_wf d'"
  by (induction rule: settled.induct) (auto intro: queue_wf_log queue_wf_settle)

lemma settled_version: "settled P mvs d d' \<Longrightarrow> user_version d' = user_version d \<and> alarm_table d' = alarm_table d"
  by (induction rule: settled.induct)
     (auto simp: settle_db_def delete_message_db_def bury_db_def postpone_db_def split: sum.splits)

text \<open>A batch acts on the ledger verdict by verdict.\<close>

lemma settled_ledger:
  "settled P mvs d d' \<Longrightarrow> queue_messages d \<noteq> None \<Longrightarrow> queue_dead d \<noteq> None \<Longrightarrow>
   ledger_of d' = fold (\<lambda>(m, v). l_settle (max_attempts P) (m_id m) (m_attempts m) (\<not> isl v)) mvs (ledger_of d)"
proof (induction rule: settled.induct)
  case (settled_cons mvs at k t m v now d d')
  have "ledger_of (settle_db P m v now d)
      = l_settle (max_attempts P) (m_id m) (m_attempts m) (\<not> isl v) (ledger_of d)"
    using ledger_bury [OF settled_cons.prems] ledger_delete [of "m_id m" d]
    by (cases v) (simp_all add: settle_db_def l_settle_def ledger_postpone)
  with settled_cons settle_db_tables [of d P m v now] show ?case by simp
qed simp

section \<open>What the methods do\<close>

lemma sees_apply_verdict:
  assumes "queue_messages d \<noteq> None" "queue_dead d \<noteq> None"
  shows "ensures (sees d F A P) (apply_verdict J pol m v)
    (\<lambda>_ h. \<exists>at k t now. sees (log_db at k t (settle_db pol m v now d)) F A P h)"
proof (cases v)
  case (Inr u)
  have del: "ensures (sees d F A P) (with_storage (delete_message (m_id m)))
      (\<lambda>_. sees (delete_message_db (m_id m) d) F A P)"
    by (rule sees_write_count) (use assms(1) in \<open>auto simp: delete_message_def Let_def\<close>)
  show ?thesis
    unfolding apply_verdict_def Let_def Inr sum.case settle_db_def
    by (rule ensures_thenE [OF del]) (rule ensures_weaken [OF sees_record_event], auto)
next
  case (Inl e)
  have bur: "ensures (sees d F A P) (with_storage (bury now (m_id m)))
      (\<lambda>_. sees (bury_db now (m_id m) d) F A P)" for now
    by (rule sees_write) (use assms in \<open>auto simp: bury_def\<close>)
  have del: "ensures (sees (bury_db now (m_id m) d) F A P) (with_storage (delete_message (m_id m)))
      (\<lambda>_. sees (delete_message_db (m_id m) (bury_db now (m_id m) d)) F A P)" for now
    by (rule sees_write_count) (use assms(1) in \<open>auto simp: delete_message_def Let_def bury_db_def\<close>)
  have post: "ensures (sees d F A P) (with_storage (postpone n (m_id m)))
      (\<lambda>_. sees (postpone_db n (m_id m) d) F A P)" for n
    by (rule sees_write) (use assms(1) in \<open>auto simp: postpone_def\<close>)
  show ?thesis
  proof (cases "m_attempts m + 1 \<ge> max_attempts pol")
    case True
    then show ?thesis
      unfolding apply_verdict_def Let_def Inl sum.case settle_db_def
      by simp (rule ensures_bindE [OF sees_tick], rule ensures_thenE [OF bur],
        rule ensures_thenE [OF del], rule ensures_weaken [OF sees_record_event], auto)
  next
    case False
    then show ?thesis
      unfolding apply_verdict_def Let_def Inl sum.case settle_db_def
      by simp (rule ensures_bindE [OF sees_tick], rule ensures_thenE [OF post],
        rule ensures_weaken [OF sees_record_event], auto)
  qed
qed

lemma sees_deliver_one:
  assumes "queue_messages d \<noteq> None" "queue_dead d \<noteq> None"
  shows "ensures (sees d F A P) (deliver_one J rt pol event m)
    (\<lambda>_ h. \<exists>at k t now. sees (log_db at k t (settle_db pol m (verdict_of rt event (length F) (payload_of J m)) now d))
        (F @ firings J rt event [m]) A P h)"
proof
  fix h
  assume s: "sees d F A P h"
  let ?v = "verdict_of rt event (length F) (payload_of J m)"
  let ?h = "if heard rt event (payload_of J m)
    then h\<lparr>fired := fired h @ [(event, payload_of J m)]\<rparr> else h"
  have eq: "deliver_one J rt pol event m h = apply_verdict J pol m ?v ?h"
    using s by (simp add: deliver_one_def fire_listener_eq payload_of_def [symmetric] Let_def sees_def)
  have "sees d (F @ firings J rt event [m]) A P ?h"
    using s by (auto simp: sees_def firings_def home_view_def)
  from ensuresD [OF sees_apply_verdict [OF assms] this] eq
  show "\<exists>x s'. deliver_one J rt pol event m h = (Inr x, s') \<and>
      (\<exists>at k t now. sees (log_db at k t (settle_db pol m ?v now d)) (F @ firings J rt event [m]) A P s')"
    by (metis (no_types, lifting))
qed

lemma sees_deliver_all:
  assumes "queue_messages d \<noteq> None" "queue_dead d \<noteq> None"
  shows "ensures (sees d F A P) (deliver_all J rt pol event ms)
    (\<lambda>_ h. \<exists>d'. settled pol (verdicts J rt event (length F) ms) d d'
        \<and> sees d' (F @ firings J rt event ms) A P h)"
  using assms
proof (induction ms arbitrary: d F)
  case Nil
  show ?case by (auto simp: firings_def intro!: ensures_okE settled_nil)
next
  case (Cons m ms)
  let ?v = "verdict_of rt event (length F) (payload_of J m)"
  let ?F = "F @ firings J rt event [m]"
  have fs: "?F @ firings J rt event ms = F @ firings J rt event (m # ms)"
    by (simp add: firings_def)
  have len: "length ?F = (if heard rt event (payload_of J m) then Suc (length F) else length F)"
    by (simp add: firings_def)
  have rest: "ensures (sees (log_db at k t (settle_db pol m ?v now d)) ?F A P)
      (deliver_all J rt pol event ms)
      (\<lambda>_ h. \<exists>d'. settled pol (verdicts J rt event (length F) (m # ms)) d d'
        \<and> sees d' (F @ firings J rt event (m # ms)) A P h)" for at k t now
  proof (rule ensures_weaken [OF Cons.IH])
    show "queue_messages (log_db at k t (settle_db pol m ?v now d)) \<noteq> None"
      "queue_dead (log_db at k t (settle_db pol m ?v now d)) \<noteq> None"
      using settle_db_tables Cons.prems by simp_all
  next
    fix x h
    assume "\<exists>d'. settled pol (verdicts J rt event (length ?F) ms) (log_db at k t (settle_db pol m ?v now d)) d'
      \<and> sees d' (?F @ firings J rt event ms) A P h"
    then obtain d' where s: "settled pol (verdicts J rt event (length ?F) ms)
        (log_db at k t (settle_db pol m ?v now d)) d'"
      and h: "sees d' (?F @ firings J rt event ms) A P h" by blast
    have "settled pol (verdicts J rt event (length F) (m # ms)) d d'"
      using settled_cons [OF s] unfolding len verdicts.simps .
    with h show "\<exists>d'. settled pol (verdicts J rt event (length F) (m # ms)) d d'
        \<and> sees d' (F @ firings J rt event (m # ms)) A P h"
      unfolding fs by blast
  qed
  show ?case
    unfolding deliver_all.simps
    by (rule ensures_thenE [OF sees_deliver_one [OF Cons.prems]]) (intro ensures_ex rest)
qed

definition due_batch :: "int \<Rightarrow> 'u db \<Rightarrow> message_row list" where
  "due_batch now d = (case queue_messages d of
      Some ms \<Rightarrow> take DELIVERY_BATCH (sort_key m_id (filter (\<lambda>m. m_next_at m \<le> now) ms)) | None \<Rightarrow> [])"

text \<open>What re-arming leaves: nothing when the table is empty, else an alarm of this object for the
  earliest row, or at once when that row is already due (two clock readings, \<open>n1\<close> for the
  difference and \<open>n2\<close> for the due time).\<close>

definition rearmed :: "platform_context \<Rightarrow> 'u db \<Rightarrow> pending_alarm option \<Rightarrow> 'u db \<Rightarrow> pending_alarm option \<Rightarrow> bool" where
  "rearmed cx d A d' A' \<longleftrightarrow>
     (if live (ledger_of d) = [] then d' = d \<and> A' = A
      else \<exists>due at n1 n2. min_opt (map m_next_at (case queue_messages d of Some ms \<Rightarrow> ms | None \<Rightarrow> [])) = Some at
        \<and> due = n2 + max (at - n1) 0 \<and> A' = Some \<lparr>pa_due_ms = due, pa_class = QUEUE_CLASS, pa_name = cx_name cx, pa_own_key = cx_own_key cx\<rparr>
        \<and> d' = d\<lparr>alarm_table := Some [(due, QUEUE_CLASS, cx_name cx, cx_own_key cx)]\<rparr>)"

lemma min_opt_None: "min_opt xs = None \<longleftrightarrow> xs = []"
  by (simp add: min_opt_def split: list.split)

lemma sees_rearm:
  assumes "queue_messages d = Some ms"
  shows "ensures (sees d F A P) (rearm cx)
    (\<lambda>r h. r = JNull \<and> (\<exists>d' A'. rearmed cx d A d' A' \<and> sees d' F A' P h))"
  unfolding rearm_def
proof (rule ensures_bindE)
  show "ensures (sees d F A P) (with_storage earliest)
      (\<lambda>y h. y = min_opt (map m_next_at ms) \<and> sees d F A P h)"
    by (rule sees_select) (simp add: earliest_def assms)
  fix y
  show "ensures (\<lambda>h. y = min_opt (map m_next_at ms) \<and> sees d F A P h)
      (case y of None \<Rightarrow> okE JNull | Some at \<Rightarrow> bindE unix_now_ms (\<lambda>now.
           thenE (platform_set_alarm cx QUEUE_CLASS (at - now)) (okE JNull)))
      (\<lambda>r h. r = JNull \<and> (\<exists>d' A'. rearmed cx d A d' A' \<and> sees d' F A' P h))"
  proof (rule ensures_conj)
    assume y: "y = min_opt (map m_next_at ms)"
    show "ensures (sees d F A P)
      (case y of None \<Rightarrow> okE JNull | Some at \<Rightarrow> bindE unix_now_ms (\<lambda>now.
           thenE (platform_set_alarm cx QUEUE_CLASS (at - now)) (okE JNull)))
      (\<lambda>r h. r = JNull \<and> (\<exists>d' A'. rearmed cx d A d' A' \<and> sees d' F A' P h))"
    proof (cases y)
      case None
      then have "ms = []" using y min_opt_None [of "map m_next_at ms"] by simp
      with None assms show ?thesis
        by (auto simp: rearmed_def ledger_of_def intro!: ensures_okE)
    next
      case (Some at)
      then have "ms \<noteq> []" using y by (auto simp: min_opt_def)
      then have ne: "live (ledger_of d) \<noteq> []" using assms by (simp add: ledger_of_def)
      show ?thesis
        unfolding Some option.case
        by (rule ensures_bindE [OF sees_tick], rule ensures_thenE [OF sees_set_alarm],
            rule ensures_okE) (use ne assms y Some in \<open>fastforce simp: rearmed_def\<close>)
    qed
  qed
qed

lemma sees_deliver:
  assumes wf: "queue_wf d"
  shows "ensures (sees d F A P) (deliver J rt cx)
    (\<lambda>r h. r = JNull \<and> (\<exists>now d1 d2 A2.
        settled P (verdicts J rt (''queue:'' @ cx_name cx) (length F) (due_batch now d)) d d1
        \<and> rearmed cx d1 A d2 A2
        \<and> sees d2 (F @ firings J rt (''queue:'' @ cx_name cx) (due_batch now d)) A2 P h))"
proof -
  define ev where "ev = ''queue:'' @ cx_name cx"
  from wf obtain ms ds where d: "queue_messages d = Some ms" "queue_dead d = Some ds"
    by (auto simp: queue_wf_def)
  have pol: "ensures (sees d F A P) (readE home_policy) (\<lambda>p h. p = P \<and> sees d F A P h)"
    by (rule ensures_readE) (simp add: sees_def)
  have sel: "ensures (sees d F A P) (with_storage (select_due now))
      (\<lambda>due h. due = due_batch now d \<and> sees d F A P h)" for now
    by (rule sees_select) (simp add: select_due_def due_batch_def d)
  have rest: "ensures (\<lambda>h. \<exists>d'. settled P (verdicts J rt ev (length F) (due_batch now d)) d d'
        \<and> sees d' (F @ firings J rt ev (due_batch now d)) A P h) (rearm cx)
      (\<lambda>r h. r = JNull \<and> (\<exists>now d1 d2 A2. settled P (verdicts J rt ev (length F) (due_batch now d)) d d1
        \<and> rearmed cx d1 A d2 A2 \<and> sees d2 (F @ firings J rt ev (due_batch now d)) A2 P h))" for now
  proof (rule ensures_ex, rule ensures_conj)
    fix d'
    assume s: "settled P (verdicts J rt ev (length F) (due_batch now d)) d d'"
    then obtain ms' where "queue_messages d' = Some ms'"
      using settled_wf [OF s wf] by (auto simp: queue_wf_def)
    from sees_rearm [OF this, of "F @ firings J rt ev (due_batch now d)" A P cx]
    show "ensures (sees d' (F @ firings J rt ev (due_batch now d)) A P) (rearm cx)
      (\<lambda>r h. r = JNull \<and> (\<exists>now d1 d2 A2. settled P (verdicts J rt ev (length F) (due_batch now d)) d d1
        \<and> rearmed cx d1 A d2 A2 \<and> sees d2 (F @ firings J rt ev (due_batch now d)) A2 P h))"
      by (rule ensures_weaken) (use s in auto)
  qed
  show ?thesis
    unfolding deliver_def ev_def [symmetric]
    by (rule ensures_bindE [OF pol], rule ensures_conj, simp only:,
        rule ensures_bindE [OF sees_tick], rule ensures_bindE [OF sel], rule ensures_conj, simp only:,
        rule ensures_thenE [OF sees_deliver_all]) (simp add: d, simp add: d, rule rest)
qed

section \<open>The whole method calls\<close>

definition migrated :: "'u db \<Rightarrow> 'u db" where
  "migrated d = (if user_version d \<ge> 2 then d else (create_tables_db d)\<lparr>user_version := 2\<rparr>)"

lemma queue_wf_migrated: "queue_file d \<Longrightarrow> queue_wf (migrated d) \<and> user_version (migrated d) = 2"
  by (auto simp: queue_file_def queue_fresh_def migrated_def create_tables_db_def queue_wf_def
      tables_wf_def Let_def)

lemma migrated_ledger [simp]: "queue_file d \<Longrightarrow> ledger_of (migrated d) = ledger_of d"
  by (auto simp: queue_file_def queue_fresh_def migrated_def create_tables_db_def ledger_of_def Let_def)

lemma migrated_due [simp]: "queue_file d \<Longrightarrow> due_batch now (migrated d) = due_batch now d"
  by (auto simp: queue_file_def queue_fresh_def migrated_def create_tables_db_def due_batch_def Let_def)

lemma sees_migrate:
  assumes "queue_file d"
  shows "ensures (sees d F A P) (with_storage migrate_queue) (\<lambda>_. sees (migrated d) F A P)"
proof (rule sees_view)
  fix st :: "'a sqlite"
  assume v: "view st = d"
  show "\<exists>x st'. migrate_queue st = (Inr x, st') \<and> view st' = migrated d"
    using assms v
    by (auto simp: migrate_queue_def schema_version_def set_schema_version_def cmd_simps
        QUEUE_SCHEMA_VERSION_def queue_file_def queue_fresh_def migrated_def)
qed

lemma sees_dispatch:
  assumes "queue_file d" "\<And>d. queue_wf d \<Longrightarrow> user_version d = 2 \<Longrightarrow> ensures (sees d F A P) m (Q d)"
  shows "ensures (sees d F A P) (thenE (with_storage migrate_queue) m) (Q (migrated d))"
  by (rule ensures_thenE [OF sees_migrate [OF assms(1)]])
     (use assms(2) queue_wf_migrated [OF assms(1)] in blast)

definition armed :: "platform_context \<Rightarrow> int \<Rightarrow> pending_alarm" where
  "armed cx due = \<lparr>pa_due_ms = due, pa_class = QUEUE_CLASS, pa_name = cx_name cx, pa_own_key = cx_own_key cx\<rparr>"

lemma sees_arm:
  "ensures (sees d F A P) (platform_set_alarm cx QUEUE_CLASS delay)
     (\<lambda>_ h. \<exists>due rows. sees (d\<lparr>alarm_table := rows\<rparr>) F (Some (armed cx due)) P h)"
  by (rule ensures_weaken [OF sees_set_alarm]) (auto simp: armed_def)

text \<open>The outcome of a method that answers \<open>v\<close>: a well-formed file whose ledger is \<open>L\<close>.\<close>

definition outcome :: "json \<Rightarrow> ledger \<Rightarrow> (string \<times> json) list \<Rightarrow> (pending_alarm option \<Rightarrow> bool) \<Rightarrow> json \<Rightarrow> 'u home \<Rightarrow> bool" where
  "outcome v L F armedp r h \<longleftrightarrow> r = v \<and> fired h = F \<and> armedp (alarm h)
     \<and> (\<exists>d. home_view h = Some d \<and> queue_wf d \<and> user_version d = 2 \<and> ledger_of d = L)"

lemma outcomeI:
  "sees d F A P h \<Longrightarrow> queue_wf d \<Longrightarrow> user_version d = 2 \<Longrightarrow> ledger_of d = L \<Longrightarrow> G A \<Longrightarrow> outcome v L F G v h"
  by (auto simp: outcome_def sees_def)

definition armed_for :: "platform_context \<Rightarrow> pending_alarm option \<Rightarrow> bool" where
  "armed_for cx A \<longleftrightarrow> (\<exists>due. A = Some (armed cx due))"

text \<open>Armed for this object when \<open>b\<close>, else left as it was.\<close>

definition armed_if :: "bool \<Rightarrow> platform_context \<Rightarrow> pending_alarm option \<Rightarrow> pending_alarm option \<Rightarrow> bool" where
  "armed_if b cx A A' \<longleftrightarrow> (if b then armed_for cx A' else A' = A)"

lemma armed_for_armed [simp]: "armed_for cx (Some (armed cx due))"
  by (auto simp: armed_for_def)

lemma sees_send:
  assumes "queue_wf d" "user_version d = 2"
  shows "ensures (sees d F A P) (queue_send J cx payload clr)
    (outcome (JBool True) (l_enqueue (to_text J payload) (ledger_of d)) F (armed_for cx))"
proof -
  from assms(1) obtain ms where ms: "queue_messages d = Some ms" by (auto simp: queue_wf_def)
  have ins: "ensures (sees d F A P) (with_storage (insert_message s now))
      (\<lambda>_. sees (insert_message_db s now now d) F A P)" for s now
    by (rule sees_write_count) (use ms in \<open>auto simp: insert_message_def\<close>)
  have ver: "user_version (insert_message_db s now now d) = 2" for s now
    using assms(2) by (simp add: insert_message_db_def Let_def split: option.split)
  show ?thesis
    unfolding queue_send_def Let_def
    by (rule ensures_bindE [OF sees_tick], rule ensures_bindE [OF ins],
        rule ensures_thenE [OF sees_record_event], rule ensures_ex,
        rule ensures_thenE [OF sees_arm], rule ensures_okE, elim exE, erule outcomeI)
       (simp_all add: ledger_insert [OF assms(1)] ver queue_wf_log queue_wf_insert [OF assms(1)])
qed

lemma requeue_db_alarm [simp]: "alarm_table (requeue_db now rows d) = alarm_table d"
  by (induction rows arbitrary: d) (auto simp: insert_message_db_def Let_def split: option.split)

lemma requeue_db_version [simp]: "user_version (requeue_db now rows d) = user_version d"
  by (induction rows arbitrary: d) (auto simp: insert_message_db_def Let_def split: option.split)

lemma ledger_delete_dead:
  "ledger_of (delete_dead_db i d) =
     (ledger_of d)\<lparr>dead := filter (\<lambda>e. case i of Some k \<Rightarrow> e_id e \<noteq> k | None \<Rightarrow> False) (dead (ledger_of d))\<rparr>"
  by (auto simp: ledger_of_def delete_dead_db_def e_id_def filter_map comp_def split: option.split)

lemma ledger_retry:
  assumes "queue_wf d" "queue_dead d = Some ds"
  shows "ledger_of (delete_dead_db i (requeue_db now (dead_matching i ds) d)) = l_requeue i (ledger_of d)"
proof -
  have "map (\<lambda>r. (d_id r, d_payload r, d_attempts r)) (dead_matching i ds)
      = filter (\<lambda>e. case i of Some k \<Rightarrow> e_id e = k | None \<Rightarrow> True) (dead (ledger_of d))"
    using assms(2) by (auto simp: dead_matching_def ledger_of_def e_id_def filter_map comp_def split: option.split)
  then show ?thesis
    by (cases i) (simp_all add: ledger_delete_dead ledger_requeue [OF assms(1)] l_requeue_def Let_def)
qed

lemma retry_nothing:
  assumes "queue_dead d = Some ds" "dead_matching i ds = []"
  shows "l_requeue i (ledger_of d) = ledger_of d"
proof -
  let ?go = "\<lambda>e. case i of Some k \<Rightarrow> e_id e = k | None \<Rightarrow> True"
  have none: "filter ?go (dead (ledger_of d)) = []"
    using assms by (auto simp: dead_matching_def ledger_of_def e_id_def filter_empty_conv split: option.splits)
  then have "filter (\<lambda>e. \<not> ?go e) (dead (ledger_of d)) = dead (ledger_of d)"
    by (simp add: filter_empty_conv)
  with none show ?thesis by (simp add: l_requeue_def Let_def)
qed

text \<open>How many dead letters a retry moves.\<close>

definition l_matching :: "int option \<Rightarrow> ledger \<Rightarrow> nat" where
  "l_matching i L = length (filter (\<lambda>e. case i of Some k \<Rightarrow> e_id e = k | None \<Rightarrow> True) (dead L))"

lemma l_matching_rows: "queue_dead d = Some ds \<Longrightarrow> l_matching i (ledger_of d) = length (dead_matching i ds)"
  by (auto simp: l_matching_def ledger_of_def dead_matching_def e_id_def filter_map comp_def split: option.split)

lemma sees_retry:
  assumes "queue_wf d" "user_version d = 2"
  shows "ensures (sees d F A P) (retry_dead J cx i)
    (outcome (JInt (int (l_matching i (ledger_of d)))) (l_requeue i (ledger_of d)) F
      (armed_if (l_matching i (ledger_of d) > 0) cx A))"
proof -
  from assms(1) obtain ms ds where d: "queue_messages d = Some ms" "queue_dead d = Some ds"
    by (auto simp: queue_wf_def)
  let ?rows = "dead_matching i ds"
  have req: "ensures (sees d F A P) (with_storage (requeue i now))
      (\<lambda>n h. n = length ?rows \<and> sees (requeue_db now ?rows d) F A P h)" for now
    by (rule sees_stmt) (use d in \<open>auto simp: requeue_def Let_def\<close>)
  have del: "ensures (sees (requeue_db now ?rows d) F A P) (with_storage (delete_dead i))
      (\<lambda>_. sees (delete_dead_db i (requeue_db now ?rows d)) F A P)" for now
    by (rule sees_write_count) (use d in \<open>auto simp: delete_dead_def Let_def\<close>)
  have ver: "user_version (delete_dead_db i (requeue_db now ?rows d)) = 2" for now
    using assms(2) by (simp add: delete_dead_db_def)
  have wf: "queue_wf (delete_dead_db i (requeue_db now ?rows d))" for now
    by (intro queue_wf_delete_dead queue_wf_requeue assms)
  have go: "ensures (sees (requeue_db now ?rows d) F A P)
      (thenE (thenE (with_storage (delete_dead i)) (record_event J kind detail))
         (thenE (platform_set_alarm cx QUEUE_CLASS 0) (okE v)))
      (outcome v (l_requeue i (ledger_of d)) F (armed_if True cx A))" for now kind detail v
    by (rule ensures_thenE [OF ensures_thenE [OF del sees_record_event]], intro ensures_ex,
        rule ensures_thenE [OF sees_arm], rule ensures_okE, elim exE, erule outcomeI)
       (simp_all add: queue_wf_log wf ver ledger_retry [OF assms(1) d(2)] armed_if_def)
  show ?thesis
  proof (cases "?rows = []")
    case True
    have no: "l_requeue i (ledger_of d) = ledger_of d" by (rule retry_nothing [OF d(2) True])
    show ?thesis
      unfolding retry_dead_def l_matching_rows [OF d(2)] no
      by (rule ensures_bindE [OF sees_tick], rule ensures_bindE [OF req], rule ensures_conj)
         (use True assms in \<open>auto simp: thenE_def armed_if_def intro!: ensures_okE outcomeI\<close>)
  next
    case False
    show ?thesis
      unfolding retry_dead_def l_matching_rows [OF d(2)]
      by (rule ensures_bindE [OF sees_tick], rule ensures_bindE [OF req], rule ensures_conj)
         (use False go in simp)
  qed
qed

lemma ledger_drop: "ledger_of (delete_dead_db (Some i) (delete_message_db i d)) = l_drop i (ledger_of d)"
  by (simp add: ledger_delete_dead ledger_delete l_ack_def l_drop_def)

lemma sees_drop:
  assumes "queue_wf d" "user_version d = 2"
  shows "ensures (sees d F A P) (drop_message J i)
    (outcome (JBool (i \<in> e_id ` set (live (ledger_of d)) \<union> e_id ` set (dead (ledger_of d))))
       (l_drop i (ledger_of d)) F (\<lambda>A'. A' = A))"
proof -
  from assms(1) obtain ms ds where d: "queue_messages d = Some ms" "queue_dead d = Some ds"
    by (auto simp: queue_wf_def)
  let ?n = "length (filter (\<lambda>m. m_id m = i) ms)" and ?k = "length (dead_matching (Some i) ds)"
  let ?d = "delete_dead_db (Some i) (delete_message_db i d)"
  have del: "ensures (sees d F A P) (with_storage (delete_message i))
      (\<lambda>n h. n = ?n \<and> sees (delete_message_db i d) F A P h)"
    by (rule sees_stmt) (use d in \<open>auto simp: delete_message_def Let_def\<close>)
  have ded: "ensures (sees (delete_message_db i d) F A P) (with_storage (delete_dead (Some i)))
      (\<lambda>k h. k = ?k \<and> sees ?d F A P h)"
    by (rule sees_stmt) (use d in \<open>auto simp: delete_dead_def Let_def delete_message_db_def\<close>)
  have wf: "queue_wf ?d" by (intro queue_wf_delete_dead queue_wf_delete assms)
  have ver: "user_version ?d = 2" using assms(2) by (simp add: delete_dead_db_def delete_message_db_def)
  have found: "(?n + ?k > 0) = (i \<in> e_id ` set (live (ledger_of d)) \<union> e_id ` set (dead (ledger_of d)))"
    using d by (force simp: ledger_of_def e_id_def dead_matching_def filter_empty_conv image_iff)
  have log: "ensures (sees ?d F A P)
      (if ?n + ?k > 0 then record_event J ''dropped'' detail else okE ())
      (\<lambda>_ h. \<exists>d'. sees d' F A P h \<and> queue_wf d' \<and> user_version d' = 2 \<and> ledger_of d' = ledger_of ?d)" for detail
  proof (cases "?n + ?k > 0")
    case True
    then show ?thesis
      by (simp only: if_True) (rule ensures_weaken [OF sees_record_event],
        assumption, elim exE, intro exI conjI, assumption, simp_all add: wf ver queue_wf_log)
  next
    case False
    then show ?thesis
      by (simp only: if_False) (rule ensures_okE, use wf ver in blast)
  qed
  show ?thesis
    unfolding drop_message_def found [symmetric] ledger_drop [symmetric]
    by (rule ensures_bindE [OF del], rule ensures_conj, rule ensures_bindE [OF ded], rule ensures_conj,
        hypsubst, rule ensures_thenE [OF log], rule ensures_okE, elim exE conjE, erule outcomeI) simp_all
qed

end
