(* ===== verification/Queue_Spec.thy ===== *)
theory Queue_Spec
  imports Queue_Delivery
begin

text \<open>
  The contract of the \<open>__queue\<close> class, method by method and for a whole call under the dispatch
  guard: what each call answers, what it does to the ledger, which listeners it fires, and that
  messages and an armed alarm go together.
\<close>

section \<open>The queue as a method body\<close>

lemma txn_safe_ops:
  "txn_safe (insert_message s now)" "txn_safe (delete_message i)" "txn_safe (delete_dead k)"
  "txn_safe (bury now i)" "txn_safe (postpone n i)" "txn_safe (select_due now)" "txn_safe earliest"
  "txn_safe (requeue k now)"
  by (auto simp: txn_safe_def insert_message_def delete_message_def delete_dead_def bury_def postpone_def
      select_due_def earliest_def requeue_def Let_def load_alarm_row_def insert_message_db_def
      delete_message_db_def delete_dead_db_def bury_db_def postpone_db_def requeue_db_alarm
      split: option.split)

lemma txn_safe_events:
  "txn_safe (writeE (stmt create_events_db 0))" "txn_safe (writeE (stmt (append_event_db at k s) 1))"
  "txn_safe (writeE (\<lambda>st. stmt trim_events_db (trimmed (view st)) st))"
  by (auto simp: txn_safe_def writeE_def load_alarm_row_def create_events_db_def append_event_db_def
      trim_events_db_def)

lemma txn_safe_migrate: "txn_safe migrate_queue"
  unfolding migrate_queue_def
  by (intro txn_safe_intros txn_safe_version txn_safe_okE txn_safe_stmt)
     (auto simp: txn_safe_def create_tables_db_def rebuild_messages_db_def Let_def load_alarm_row_def
       split: option.split)

lemmas queue_safe = txn_safe_ops txn_safe_events txn_safe_migrate

lemma keeps_record_event [keeps_intros]:
  "keeps (inside c) (record_event J kind detail)" "keeps bare (record_event J kind detail)"
  unfolding record_event_def by (intro keeps_seq keeps_intros queue_safe)+

lemma keeps_apply_verdict [keeps_intros]:
  "keeps (inside c) (apply_verdict J pol m v)" "keeps bare (apply_verdict J pol m v)"
  unfolding apply_verdict_def Let_def
  by (intro keeps_case_sum keeps_seq keeps_intros queue_safe)+

lemma keeps_deliver_one [keeps_intros]:
  "keeps (inside c) (deliver_one J rt pol event m)" "keeps bare (deliver_one J rt pol event m)"
  by (rule keepsI, simp add: deliver_one_def Let_def split: prod.split,
      metis keepsD keeps_apply_verdict keeps_fire_inside keeps_fire_bare snd_conv)+

lemma keeps_deliver_all [keeps_intros]:
  "keeps (inside c) (deliver_all J rt pol event ms)" "keeps bare (deliver_all J rt pol event ms)"
  by (induction ms) (auto intro!: keeps_thenE keeps_intros)

lemma keeps_rearm [keeps_intros]: "keeps (inside c) (rearm cx)" "keeps bare (rearm cx)"
  unfolding rearm_def by (intro keeps_seq keeps_intros queue_safe keeps_case_option keeps_okE)+

lemma keeps_queue_dispatch:
  "keeps (inside c) (queue_dispatch J rt cx cl)" "keeps bare (queue_dispatch J rt cx cl)"
  unfolding queue_dispatch_def queue_send_def deliver_def queue_stats_def queue_list_events_def
    queue_list_messages_def retry_dead_def drop_message_def Let_def
  by (intro keeps_seq keeps_intros queue_safe keeps_case_sum keeps_okE keeps_failE keeps_readE
      txn_safe_readE)+

interpretation queue_body: atomic_body "as_body (queue_dispatch J rt cx c)" for J rt cx c
  by (rule atomic_as_body) (rule keeps_queue_dispatch)+

section \<open>Methods under the schema ladder\<close>

text \<open>The verdicts of one alarm firing applied to the ledger.\<close>

definition l_batch :: "queue_policy \<Rightarrow> (message_row \<times> (string + unit)) list \<Rightarrow> ledger \<Rightarrow> ledger" where
  "l_batch P mvs L = fold (\<lambda>(m, v). l_settle (max_attempts P) (m_id m) (m_attempts m) (\<not> isl v)) mvs L"

definition event_of :: "platform_context \<Rightarrow> string" where
  "event_of cx = ''queue:'' @ cx_name cx"

lemma sees_deliver_outcome:
  assumes "queue_wf d" "user_version d = 2"
  shows "ensures (sees d F A P) (deliver J rt cx) (\<lambda>r h. \<exists>now.
      outcome JNull (l_batch P (verdicts J rt (event_of cx) (length F) (due_batch now d)) (ledger_of d))
        (F @ firings J rt (event_of cx) (due_batch now d))
        (armed_if (live (l_batch P (verdicts J rt (event_of cx) (length F) (due_batch now d)) (ledger_of d)) \<noteq> []) cx A) r h)"
proof (rule ensures_weaken [OF sees_deliver [OF assms(1)]], assumption)
  fix r :: json and h :: "'a home"
  assume "r = JNull \<and> (\<exists>now d1 d2 A2.
        settled P (verdicts J rt (''queue:'' @ cx_name cx) (length F) (due_batch now d)) d d1
        \<and> rearmed cx d1 A d2 A2
        \<and> sees d2 (F @ firings J rt (''queue:'' @ cx_name cx) (due_batch now d)) A2 P h)"
  then obtain now d1 d2 A2 where r: "r = JNull"
    and s: "settled P (verdicts J rt (event_of cx) (length F) (due_batch now d)) d d1"
    and a: "rearmed cx d1 A d2 A2"
    and h: "sees d2 (F @ firings J rt (event_of cx) (due_batch now d)) A2 P h"
    unfolding event_of_def by blast
  have l1: "ledger_of d1 = l_batch P (verdicts J rt (event_of cx) (length F) (due_batch now d)) (ledger_of d)"
    unfolding l_batch_def
    by (rule settled_ledger [OF s]) (use assms(1) in \<open>auto simp: queue_wf_def\<close>)
  have l2: "ledger_of d2 = ledger_of d1"
    using a by (auto simp: rearmed_def split: if_splits)
  have "queue_wf d2" "user_version d2 = 2"
    using a settled_wf [OF s assms(1)] settled_version [OF s] assms(2)
    by (auto simp: rearmed_def split: if_splits)
  moreover have "armed_if (live (ledger_of d1) \<noteq> []) cx A A2"
    using a by (auto simp: rearmed_def armed_if_def armed_for_def armed_def split: if_splits)
  ultimately have "outcome JNull (ledger_of d1) (F @ firings J rt (event_of cx) (due_batch now d))
      (armed_if (live (ledger_of d1) \<noteq> []) cx A) JNull h"
    using h l2 by (auto intro!: outcomeI)
  then show "\<exists>now. outcome JNull (l_batch P (verdicts J rt (event_of cx) (length F) (due_batch now d)) (ledger_of d))
        (F @ firings J rt (event_of cx) (due_batch now d))
        (armed_if (live (l_batch P (verdicts J rt (event_of cx) (length F) (due_batch now d)) (ledger_of d)) \<noteq> []) cx A) r h"
    unfolding l1 r by blast
qed

lemma sees_home: "home_view h = Some d \<Longrightarrow> sees d (fired h) (alarm h) (home_policy h) h"
  by (simp add: sees_def)

lemma dispatch_outcome:
  assumes "home_view h = Some d" "queue_file d"
    and "\<And>d. queue_wf d \<Longrightarrow> user_version d = 2 \<Longrightarrow>
      ensures (sees d (fired h) (alarm h) (home_policy h)) m (Q d)"
  shows "\<exists>r h'. thenE (with_storage migrate_queue) m h = (Inr r, h') \<and> Q (migrated d) r h'"
  using ensuresD [OF sees_dispatch [OF assms(2,3)] sees_home [OF assms(1)]] by blast

section \<open>A queue to try the methods on\<close>

definition demo_codec :: codec where
  "demo_codec = \<lparr>to_text = (\<lambda>_. ''{}''), from_text = (\<lambda>_. Some (JObj []))\<rparr>"

text \<open>Its listener takes the first firing and refuses every later one.\<close>

definition demo_runtime :: runtime where
  "demo_runtime = \<lparr>rt_listener = (\<lambda>_. Some (\<lambda>n _. if n = 0 then None else Some ''no'')),
     rt_to_value = (\<lambda>_. None)\<rparr>"

definition demo_cx :: platform_context where
  "demo_cx = \<lparr>cx_name = ''mail'', cx_own_key = ''k''\<rparr>"

definition demo_call :: "string \<Rightarrow> json list \<Rightarrow> call" where
  "demo_call m args = \<lparr>c_class = QUEUE_CLASS, c_method = m, c_name = ''mail'', c_args = args,
     c_chain = [''k''], c_caller = None\<rparr>"

definition demo_queue :: "unit db" where
  "demo_queue = (fresh_db ())\<lparr>user_version := 2, messages_seq := 9,
     alarm_table := Some [(0, QUEUE_CLASS, ''mail'', ''k'')],
     queue_messages := Some [\<lparr>m_id = 3, m_payload = ''a'', m_attempts = 0, m_next_at = 0, m_enqueued_at = 0\<rparr>,
       \<lparr>m_id = 8, m_payload = ''b'', m_attempts = 4, m_next_at = 0, m_enqueued_at = 0\<rparr>],
     queue_dead := Some [\<lparr>d_id = 5, d_payload = ''c'', d_attempts = 5, d_enqueued_at = 0, d_died_at = 0\<rparr>]\<rparr>"

definition demo_home :: "unit home" where
  "demo_home = spawn_home (Some (open_file demo_queue)) default_policy None False (\<lambda>_. 100)"

lemma demo_view: "home_view demo_home = Some demo_queue" "home_committed demo_home = Some demo_queue"
  by (simp_all add: demo_home_def spawn_home_def Let_def load_alarm_apply home_view_def home_committed_def
      ensure_meta_def writeE_def open_file_def demo_queue_def stmt_def put_def view_def load_alarm_row_def)

lemma demo_policy: "home_policy demo_home = default_policy"
  by (simp add: demo_home_def spawn_home_def Let_def load_alarm_apply load_alarm_row_def open_file_def
      view_def demo_queue_def)

lemma demo_file: "queue_file demo_queue"
  by (auto simp: queue_file_def demo_queue_def queue_wf_def tables_wf_def fresh_db_def)

lemma demo_call_simps [simp]: "c_method (demo_call m args) = m" "c_args (demo_call m args) = args"
  by (simp_all add: demo_call_def)

lemma demo_id: "require_id (demo_call m [JInt 5]) = Inr 5"
  by (simp add: require_id_def arg_def)

section \<open>The methods\<close>

text \<open>C1. Sending appends exactly one message to the queue: the payload's text, a fresh id one past
  every id issued before, no failed attempts; nothing else of the ledger moves, no listener
  fires, the answer is true and the object's alarm is armed.\<close>

theorem queue_send_spec:
  assumes "home_view h = Some d" "queue_file d" "c_method c = ''send''"
  shows "\<exists>r h'. queue_dispatch J rt cx c h = (Inr r, h')
     \<and> outcome (JBool True) (l_enqueue (to_text J (arg_or_null 0 (c_args c))) (ledger_of d))
         (fired h) (armed_for cx) r h'"
  using dispatch_outcome [OF assms(1,2) sees_send [where cx = cx and J = J and clr = "c_caller c"
        and payload = "arg_or_null 0 (c_args c)"]] assms(2,3)
  by (simp add: queue_dispatch_def)

theorem queue_send_spec_witness:
  "\<exists>r h'. queue_dispatch demo_codec demo_runtime demo_cx (demo_call ''send'' []) demo_home = (Inr r, h')
     \<and> outcome (JBool True) (l_enqueue ''{}'' (ledger_of demo_queue)) (fired demo_home) (armed_for demo_cx) r h'"
  using queue_send_spec [OF demo_view(1) demo_file demo_call_simps(1),
      where J = demo_codec and rt = demo_runtime and cx = demo_cx and args1 = "[]"]
  by (simp add: demo_codec_def)



text \<open>Retrying dead letters, all of them or one by id, answers how many moved; each becomes a new
  message with a new id and no attempts, in the order it died, and leaves the dead letters. The
  alarm is armed when something moved.\<close>

theorem queue_retry_spec:
  assumes "home_view h = Some d" "queue_file d"
    and "(c_method c = ''retry_dead'' \<and> i = None) \<or>
         (c_method c = ''retry_message'' \<and> i \<noteq> None \<and> require_id c = Inr (the i))"
  shows "\<exists>r h'. queue_dispatch J rt cx c h = (Inr r, h')
     \<and> outcome (JInt (int (l_matching i (ledger_of d)))) (l_requeue i (ledger_of d)) (fired h)
         (armed_if (l_matching i (ledger_of d) > 0) cx (alarm h)) r h'"
  using dispatch_outcome [OF assms(1,2) sees_retry [where cx = cx and J = J and i = i]] assms(2,3)
  by (auto simp: queue_dispatch_def)

theorem queue_retry_spec_witness:
  "\<exists>r h'. queue_dispatch demo_codec demo_runtime demo_cx (demo_call ''retry_message'' [JInt 5]) demo_home = (Inr r, h')
     \<and> outcome (JInt 1) \<lparr>live = [(3, ''a'', 0), (8, ''b'', 4), (10, ''c'', 0)], dead = [], issued = 10\<rparr>
         (fired demo_home) (armed_for demo_cx) r h'"
  using queue_retry_spec [OF demo_view(1) demo_file, where i = "Some 5" and
      c = "demo_call ''retry_message'' [JInt 5]" and J = demo_codec and rt = demo_runtime and cx = demo_cx]
  by (simp add: demo_id l_matching_def l_requeue_def ledger_of_def demo_queue_def e_id_def e_text_def
      l_enqueue_def armed_if_def [abs_def])

text \<open>Dropping a message removes it from the live messages and the dead letters alike, answers
  whether it was there, and touches no other message.\<close>

theorem queue_drop_spec:
  assumes "home_view h = Some d" "queue_file d" "c_method c = ''drop_message''" "require_id c = Inr i"
  shows "\<exists>r h'. queue_dispatch J rt cx c h = (Inr r, h')
     \<and> outcome (JBool (i \<in> e_id ` set (live (ledger_of d)) \<union> e_id ` set (dead (ledger_of d))))
         (l_drop i (ledger_of d)) (fired h) (\<lambda>A. A = alarm h) r h'"
  using dispatch_outcome [OF assms(1,2) sees_drop [where J = J and i = i]] assms(2-4)
  by (simp add: queue_dispatch_def)

theorem queue_drop_spec_witness:
  "\<exists>r h'. queue_dispatch demo_codec demo_runtime demo_cx (demo_call ''drop_message'' [JInt 5]) demo_home = (Inr r, h')
     \<and> outcome (JBool True) \<lparr>live = [(3, ''a'', 0), (8, ''b'', 4)], dead = [], issued = 9\<rparr>
         (fired demo_home) (\<lambda>A. A = alarm demo_home) r h'"
  using queue_drop_spec [OF demo_view(1) demo_file demo_call_simps(1) demo_id,
      where J = demo_codec and rt = demo_runtime and cx = demo_cx]
  by (simp add: l_drop_def ledger_of_def demo_queue_def e_id_def)

section \<open>Reads and refusals\<close>

text \<open>A method that only reads, and any call the class refuses, leaves file, listeners and alarm
  alone (the schema ladder apart).\<close>

lemma sees_reads:
  "ensures (sees d F A P) queue_stats (\<lambda>_. sees d F A P)"
  "ensures (sees d F A P) queue_list_messages (\<lambda>_. sees d F A P)"
  "ensures (sees d F A P) (queue_list_events J since) (\<lambda>_. sees d F A P)"
  by (auto simp: ensures_def queue_stats_def queue_list_messages_def queue_list_events_def sees_def
      home_view_def with_storage_Some cmd_simps unix_now_ms_def bindE_def)

section \<open>Messages and the alarm\<close>

text \<open>The file of a queue between calls: its tables are well formed, messages wait only beside an
  armed alarm, and the alarm is the queue's own.\<close>

definition queue_ready :: "'u db \<Rightarrow> bool" where
  "queue_ready d \<longleftrightarrow> queue_file d \<and> (live (ledger_of d) \<noteq> [] \<longrightarrow> alarm_of d \<noteq> None)
     \<and> (\<forall>a. alarm_of d = Some a \<longrightarrow> pa_class a = QUEUE_CLASS)"

lemma l_requeue_none: "l_matching i L = 0 \<Longrightarrow> l_requeue i L = L"
  by (cases i) (simp_all add: l_matching_def l_requeue_def Let_def filter_empty_conv)

lemma outcome_ready:
  assumes "outcome v L F (armed_if b cx A) r h" "body_ok h"
    and "\<not> b \<Longrightarrow> live L \<noteq> [] \<Longrightarrow> A \<noteq> None" "\<And>a. A = Some a \<Longrightarrow> pa_class a = QUEUE_CLASS"
  shows "\<exists>d. home_view h = Some d \<and> queue_ready d"
proof -
  from assms(1) obtain d where d: "home_view h = Some d" "queue_file d" "ledger_of d = L"
    "armed_if b cx A (alarm h)"
    by (auto simp: outcome_def queue_file_def)
  have "alarm h = alarm_of d" by (rule body_alarm [OF assms(2) d(1)])
  with d assms(3,4) have "queue_ready d"
    by (cases b) (auto simp: queue_ready_def armed_if_def armed_for_def armed_def)
  with d(1) show ?thesis by blast
qed

lemma queue_ready_migrated: "queue_ready d \<Longrightarrow> queue_ready (migrated d)"
proof -
  assume r: "queue_ready d"
  then have f: "queue_file d" by (simp add: queue_ready_def)
  have "alarm_of (migrated d) = alarm_of d"
    by (simp add: migrated_def create_tables_db_def alarm_of_def Let_def)
  with r queue_wf_migrated [OF f] show ?thesis by (simp add: queue_ready_def queue_file_def f)
qed

lemma queue_ready_meta: "queue_ready d \<Longrightarrow> queue_ready (with_meta d)"
  by (auto simp: queue_ready_def queue_file_def queue_fresh_def with_meta_def alarm_of_def)

text \<open>A method that answers leaves a ready file.\<close>

lemma read_ready:
  assumes "home_view h = Some d" "queue_ready d"
    and "\<And>d F A P. ensures (sees d F A P) m (\<lambda>_. sees d F A P)"
    and "thenE (with_storage migrate_queue) m h = (Inr v, h2)"
  shows "\<exists>d'. home_view h2 = Some d' \<and> queue_ready d'"
proof -
  have f: "queue_file d" using assms(2) by (simp add: queue_ready_def)
  from dispatch_outcome [OF assms(1) f assms(3)] assms(4)
  have "sees (migrated d) (fired h) (alarm h) (home_policy h) h2" by auto
  with queue_ready_migrated [OF assms(2)] show ?thesis by (auto simp: sees_def)
qed

lemma method_ready:
  assumes h: "home_view h = Some d" and r: "queue_ready d" and a: "alarm h = alarm_of d"
    and m: "c_method c \<noteq> ''alarm''"
    and ans: "queue_dispatch J rt cx c h = (Inr v, h2)" and ok: "body_ok h2"
  shows "\<exists>d'. home_view h2 = Some d' \<and> queue_ready d'"
proof -
  have f: "queue_file d" using r by (simp add: queue_ready_def)
  have cls: "alarm h = Some a' \<Longrightarrow> pa_class a' = QUEUE_CLASS" for a'
    using r a by (simp add: queue_ready_def)
  have arm: "live (ledger_of d) \<noteq> [] \<Longrightarrow> alarm h \<noteq> None" using r a by (simp add: queue_ready_def)
  have retry: "\<exists>d'. home_view h2 = Some d' \<and> queue_ready d'"
    if "outcome w (l_requeue i (ledger_of d)) F (armed_if (l_matching i (ledger_of d) > 0) cx (alarm h)) v h2"
    for w i F
    by (rule outcome_ready [OF that ok]) (use l_requeue_none [of i "ledger_of d"] arm cls in auto)
  consider "c_method c = ''send''" | "c_method c = ''stats''" | "c_method c = ''events''"
    | "c_method c = ''messages''" | "c_method c = ''retry_dead''"
    | i where "c_method c = ''retry_message''" "require_id c = Inr i"
    | i where "c_method c = ''drop_message''" "require_id c = Inr i"
    using ans m by (auto simp: queue_dispatch_def thenE_def bindE_def failE_def
        split: if_splits prod.splits sum.splits)
  then show ?thesis
  proof cases
    case 1
    from dispatch_outcome [OF h f sees_send [where cx = cx and J = J and clr = "c_caller c"
          and payload = "arg_or_null 0 (c_args c)"]] ans 1 f
    have "outcome (JBool True) (l_enqueue (to_text J (arg_or_null 0 (c_args c))) (ledger_of d))
        (fired h) (armed_if True cx (alarm h)) v h2"
      by (simp add: armed_if_def [abs_def] queue_dispatch_def)
    then show ?thesis by (rule outcome_ready [OF _ ok]) (simp_all add: cls)
  next
    case 2
    with ans show ?thesis by (intro read_ready [OF h r sees_reads(1)]) (simp add: queue_dispatch_def)
  next
    case 3
    with ans show ?thesis by (intro read_ready [OF h r sees_reads(3)]) (simp add: queue_dispatch_def)
  next
    case 4
    with ans show ?thesis by (intro read_ready [OF h r sees_reads(2)]) (simp add: queue_dispatch_def)
  next
    case 5
    with dispatch_outcome [OF h f sees_retry [where cx = cx and J = J and i = None]] ans f retry
    show ?thesis by (simp add: queue_dispatch_def)
  next
    case (6 i)
    with dispatch_outcome [OF h f sees_retry [where cx = cx and J = J and i = "Some i"]] ans f retry
    show ?thesis by (simp add: queue_dispatch_def)
  next
    case (7 i)
    from dispatch_outcome [OF h f sees_drop [where J = J and i = i]] ans f 7
    have o: "outcome (JBool (i \<in> e_id ` set (live (ledger_of d)) \<union> e_id ` set (dead (ledger_of d))))
         (l_drop i (ledger_of d)) (fired h) (armed_if False cx (alarm h)) v h2"
      by (simp add: armed_if_def [abs_def] queue_dispatch_def)
    show ?thesis by (rule outcome_ready [OF o ok]) ((use arm cls in \<open>force simp: l_drop_def\<close>)+)
  qed
qed

text \<open>A guarded call keeps the file ready, and so does a firing of the alarm, which the guard's
  caller has cleared first.\<close>

lemma guarded_call_ready:
  assumes q: "quiescent h" and d: "home_committed h = Some d" and r: "queue_ready d"
    and m: "c_method c \<noteq> ''alarm''"
  shows "\<exists>d'. home_committed (snd (guarded_dispatch gate (as_body (queue_dispatch J rt cx c)) h)) = Some d'
     \<and> queue_ready d'"
proof (rule queue_body.guarded_file [OF q d, where I = queue_ready])
  show "queue_ready (with_meta d)" by (rule queue_ready_meta [OF r])
next
  fix v h2
  assume a: "as_body (queue_dispatch J rt cx c) (begun h) = (Inr v, h2)" and ok: "body_ok h2"
  then have ans: "queue_dispatch J rt cx c (begun h) = (Inr v, h2)"
    by (simp add: as_body_def split: prod.splits sum.splits)
  have al: "alarm (begun h) = alarm_of d"
    using quiescent_alarm [OF q d] by (simp add: begun_def)
  show "\<exists>d'. home_view h2 = Some d' \<and> queue_ready d'"
    by (rule method_ready [OF _ r al m ans ok]) (simp add: d)
qed

lemma guarded_alarm_ready:
  assumes q: "quiescent h" and d: "home_committed h = Some d" and f: "queue_file d"
    and cls: "\<And>a. alarm h = Some a \<Longrightarrow> pa_class a = QUEUE_CLASS"
    and m: "c_method c = ''alarm''"
  shows "\<exists>d'. home_committed (snd (guarded_dispatch gate (as_body (queue_dispatch J rt cx c)) h)) = Some d'
     \<and> queue_ready d'"
proof -
  have hs: "has_storage h" using d by (auto simp: home_committed_def has_storage_def)
  have v: "home_view (begun h) = Some d" using d by simp
  have al: "alarm (begun h) = alarm h" by (simp add: begun_def)
  from dispatch_outcome [OF v f sees_deliver_outcome [where J = J and rt = rt and cx = cx]] m
  obtain r h2 L F where ans: "queue_dispatch J rt cx c (begun h) = (Inr r, h2)"
    and o: "outcome JNull L F (armed_if (live L \<noteq> []) cx (alarm h)) r h2"
    by (auto simp: queue_dispatch_def al)
  have b: "as_body (queue_dispatch J rt cx c) (begun h) = (Inr r, h2)"
    using ans by (simp add: as_body_def)
  have "body_ok h2"
    using queue_body.body_keeps [OF begun_body_ok [OF q hs], of J rt cx c] b by simp
  from outcome_ready [OF o this _ cls] obtain d' where "home_view h2 = Some d'" "queue_ready d'" by blast
  with queue_body.guarded_ok [OF q hs b] show ?thesis by auto
qed

section \<open>What a batch can do to one message\<close>

definition e_attempts :: "entry \<Rightarrow> int" where "e_attempts e = snd (snd e)"

lemma l_settle_keeps:
  assumes "e \<in> set (live L) \<union> set (dead L)" "ok \<Longrightarrow> i \<noteq> e_id e"
  shows "\<exists>e' \<in> set (live (l_settle limit i a ok L)) \<union> set (dead (l_settle limit i a ok L)).
     e_id e' = e_id e \<and> e_text e' = e_text e"
proof (cases "e \<in> set (dead L)")
  case True
  then show ?thesis by (auto simp: l_settle_def l_ack_def l_bump_def l_bury_def)
next
  case False
  with assms(1) have l: "e \<in> set (live L)" by simp
  obtain j p n where e: "e = (j, p, n)" by (cases e)
  show ?thesis
  proof (cases "j = i")
    case False
    with l show ?thesis
      by (force simp: l_settle_def l_ack_def l_bump_def l_bury_def e_id_def e_text_def e image_iff)
  next
    case True
    with assms(2) e have "\<not> ok" by (auto simp: e_id_def)
    with l True show ?thesis
      by (intro bexI [of _ "(i, p, n + 1)"])
         (force simp: l_settle_def l_bump_def l_bury_def e_id_def e_text_def e image_iff)+
  qed
qed

text \<open>Delivery loses nothing: a message the listener never acknowledged is still in the ledger
  after the batch, live or dead, under its id and with its payload.\<close>

theorem batch_loses_nothing:
  assumes "e \<in> set (live L) \<union> set (dead L)"
    and "\<forall>(m, v) \<in> set mvs. m_id m = e_id e \<longrightarrow> isl v"
  shows "\<exists>e' \<in> set (live (l_batch P mvs L)) \<union> set (dead (l_batch P mvs L)).
     e_id e' = e_id e \<and> e_text e' = e_text e"
  using assms
proof (induction mvs arbitrary: L e)
  case (Cons mv mvs)
  obtain m v where mv: "mv = (m, v)" by (cases mv)
  have "\<not> isl v \<Longrightarrow> m_id m \<noteq> e_id e" using Cons.prems(2) mv by auto
  from l_settle_keeps [OF Cons.prems(1) this, where limit = "max_attempts P" and a = "m_attempts m"]
  obtain e' where e': "e' \<in> set (live (l_settle (max_attempts P) (m_id m) (m_attempts m) (\<not> isl v) L))
      \<union> set (dead (l_settle (max_attempts P) (m_id m) (m_attempts m) (\<not> isl v) L))"
    and same: "e_id e' = e_id e" "e_text e' = e_text e" by blast
  have rest: "\<forall>(m, v) \<in> set mvs. m_id m = e_id e' \<longrightarrow> isl v" using Cons.prems(2) same by auto
  from Cons.IH [OF e' rest] show ?case by (simp add: l_batch_def mv same)
qed (auto simp: l_batch_def)

theorem batch_loses_nothing_witness:
  "\<exists>e' \<in> set (live (l_batch default_policy [(\<lparr>m_id = 8, m_payload = ''b'', m_attempts = 4, m_next_at = 0,
        m_enqueued_at = 0\<rparr>, Inl ''no'')] (ledger_of demo_queue)))
     \<union> set (dead (l_batch default_policy [(\<lparr>m_id = 8, m_payload = ''b'', m_attempts = 4, m_next_at = 0,
        m_enqueued_at = 0\<rparr>, Inl ''no'')] (ledger_of demo_queue))). e_id e' = 8 \<and> e_text e' = ''b''"
  using batch_loses_nothing [of "(8, ''b'', 4)" "ledger_of demo_queue"
      "[(\<lparr>m_id = 8, m_payload = ''b'', m_attempts = 4, m_next_at = 0, m_enqueued_at = 0\<rparr>, Inl ''no'')]" default_policy]
  by (simp add: ledger_of_def demo_queue_def e_id_def e_text_def)

definition below :: "int \<Rightarrow> ledger \<Rightarrow> bool" where
  "below limit L \<longleftrightarrow> (\<forall>e \<in> set (live L). e_attempts e < limit)"

text \<open>The rows a batch works from carry the attempts the ledger has for them.\<close>

definition reads_of :: "ledger \<Rightarrow> message_row list \<Rightarrow> bool" where
  "reads_of L ms \<longleftrightarrow> distinct (map m_id ms)
     \<and> (\<forall>m \<in> set ms. \<forall>e \<in> set (live L). e_id e = m_id m \<longrightarrow> e_attempts e = m_attempts m)"

lemma l_settle_below:
  assumes "below limit L" "\<And>e. e \<in> set (live L) \<Longrightarrow> e_id e = i \<Longrightarrow> e_attempts e = a"
  shows "below limit (l_settle limit i a ok L)"
  using assms
  by (fastforce simp: below_def l_settle_def l_ack_def l_bury_def l_bump_def e_id_def e_attempts_def
      split: if_splits)

lemma l_settle_others:
  "e \<in> set (live (l_settle limit i a ok L)) \<Longrightarrow> e_id e \<noteq> i \<Longrightarrow> e \<in> set (live L)"
  by (auto simp: l_settle_def l_ack_def l_bury_def l_bump_def e_id_def split: if_splits)

lemma batch_below:
  "below (max_attempts P) L \<Longrightarrow> reads_of L (map fst mvs) \<Longrightarrow> below (max_attempts P) (l_batch P mvs L)"
proof (induction mvs arbitrary: L)
  case (Cons mv mvs)
  obtain m v where mv: "mv = (m, v)" by (cases mv)
  let ?L = "l_settle (max_attempts P) (m_id m) (m_attempts m) (\<not> isl v) L"
  have "below (max_attempts P) ?L"
    by (rule l_settle_below) (use Cons.prems mv in \<open>auto simp: reads_of_def\<close>)
  moreover have "reads_of ?L (map fst mvs)"
    unfolding reads_of_def
  proof (intro conjI ballI impI)
    show "distinct (map m_id (map fst mvs))" using Cons.prems(2) by (simp add: reads_of_def)
  next
    fix m' e
    assume m': "m' \<in> set (map fst mvs)" and e: "e \<in> set (live ?L)" "e_id e = m_id m'"
    have "m_id m' \<noteq> m_id m" using Cons.prems(2) m' mv by (force simp: reads_of_def)
    with l_settle_others [OF e(1)] e(2) have "e \<in> set (live L)" by simp
    with Cons.prems(2) m' e(2) show "e_attempts e = m_attempts m'" by (auto simp: reads_of_def)
  qed
  ultimately show ?case using Cons.IH [of ?L] by (simp add: l_batch_def mv)
qed (simp add: l_batch_def)

lemma map_fst_verdicts [simp]: "map fst (verdicts J rt ev n ms) = ms"
  by (induction ms arbitrary: n) auto

lemma reads_due:
  assumes "queue_wf d"
  shows "reads_of (ledger_of d) (due_batch now d)"
proof -
  from assms obtain ms where ms: "queue_messages d = Some ms" "sorted_wrt (<) (map m_id ms)"
    by (auto simp: queue_wf_def tables_wf_def)
  then have dist: "distinct (map m_id ms)" by (simp add: strict_sorted_iff)
  have sub: "set (due_batch now d) \<subseteq> set ms"
    using set_take_subset by (force simp: due_batch_def ms(1))
  have "distinct (map m_id (filter (\<lambda>m. m_next_at m \<le> now) ms))" by (rule distinct_map_filter [OF dist])
  then have "distinct (map m_id (sort_key m_id (filter (\<lambda>m. m_next_at m \<le> now) ms)))"
    by (simp add: distinct_map)
  then have "distinct (map m_id (due_batch now d))"
    by (simp add: due_batch_def ms(1) take_map [symmetric])
  moreover have "e_attempts e = m_attempts m"
    if m: "m \<in> set (due_batch now d)" and e: "e \<in> set (live (ledger_of d))" "e_id e = m_id m" for m e
  proof -
    from e obtain m' where m': "m' \<in> set ms" "m_id m' = m_id m" "e_attempts e = m_attempts m'"
      by (auto simp: ledger_of_def ms(1) e_id_def e_attempts_def)
    moreover have "m' = m" using dist m'(1,2) m sub by (auto simp: distinct_map dest: inj_onD)
    ultimately show ?thesis by simp
  qed
  ultimately show ?thesis by (simp add: reads_of_def)
qed



section \<open>Backoff\<close>

text \<open>While the doubled delay fits a signed 64-bit integer, the retry delay is the base doubled
  once per failed attempt and never more than an hour.\<close>

theorem backoff_doubles:
  assumes "0 \<le> sint base" "a < 64" "sint base * 2 ^ a < 2 ^ 63"
  shows "backoff base (int a) = min (sint base * 2 ^ a) 3600000"
proof -
  have "sint (push_bit a base) = sint base * 2 ^ a"
  proof -
    have "sint (push_bit a base) = signed_take_bit 63 (sint base * 2 ^ a)"
      unfolding signed_push_bit_eq by (simp add: push_bit_eq_mult)
    also have "\<dots> = sint base * 2 ^ a"
      by (rule signed_take_bit_int_eq_self) (use assms in \<open>auto intro: order_trans [of _ 0]\<close>)
    finally show ?thesis .
  qed
  then show ?thesis using assms(2) by (simp add: backoff_def nat_mod_distrib)
qed

theorem backoff_doubles_witness: "backoff 2000 4 = 32000"
  using backoff_doubles [of 2000 4] by simp

text \<open>Past that range the delay collapses: the shift wraps and only the upper side is capped.\<close>

lemma backoff_wraps: "backoff 2000 60 = 0" "backoff 2000 53 < 0"
  by (code_simp, code_simp)

section \<open>Calls under the guard\<close>

text \<open>Between calls a queue never holds a message without an armed alarm of its own: from a ready
  file every guarded call, answered or refused, leaves a quiescent home over a ready file.\<close>

theorem queue_call_keeps_ready:
  assumes "quiescent h" "home_committed h = Some d" "queue_ready d" "c_method c \<noteq> ''alarm''"
  shows "quiescent (snd (guarded_dispatch gate (as_body (queue_dispatch J rt cx c)) h))
    \<and> (\<exists>d'. home_committed (snd (guarded_dispatch gate (as_body (queue_dispatch J rt cx c)) h)) = Some d'
         \<and> queue_ready d')"
  using queue_body.guarded_quiescent [OF assms(1)] guarded_call_ready [OF assms] by blast

lemma demo_ready: "queue_ready demo_queue"
  using demo_file by (simp add: queue_ready_def) (simp add: demo_queue_def alarm_of_def of_row_def)

lemma demo_quiescent: "quiescent demo_home"
  unfolding demo_home_def by (rule spawn_home_quiescent) (simp add: open_file_def in_txn_def)

theorem queue_call_keeps_ready_witness:
  "\<exists>d'. home_committed (snd (guarded_dispatch True (as_body (queue_dispatch demo_codec demo_runtime demo_cx
      (demo_call ''send'' []))) demo_home)) = Some d' \<and> queue_ready d'"
  using queue_call_keeps_ready [OF demo_quiescent demo_view(2) demo_ready, of "demo_call ''send'' []"]
  by simp

section \<open>Files of the first schema\<close>

text \<open>Carrying a version 1 file forward keeps every message and dead letter, and new ids start
  past every live message.\<close>

theorem migrate_v1:
  assumes "user_version (view st) = 1" "queue_messages (view st) = Some ms" "queue_dead (view st) = Some ds"
  shows "\<exists>st'. migrate_queue st = (Inr (), st') \<and> user_version (view st') = 2
     \<and> queue_messages (view st') = Some ms \<and> queue_dead (view st') = Some ds
     \<and> (\<forall>m \<in> set ms. m_id m < next_message_id (view st') ms)"
proof -
  have "m_id m < max_id (map m_id ms) + 1" if "m \<in> set ms" for m
    using that max_id_ge [of "m_id m" "map m_id ms"] by simp
  with assms show ?thesis
    by (auto simp: migrate_queue_def schema_version_def set_schema_version_def cmd_simps
        QUEUE_SCHEMA_VERSION_def rebuild_messages_db_def next_message_id_def bindE_def thenE_def max_def)
qed

definition v1_file :: "unit db" where
  "v1_file = (fresh_db ())\<lparr>user_version := 1, queue_messages := Some [],
     queue_dead := Some [\<lparr>d_id = 1, d_payload = ''old'', d_attempts = 5, d_enqueued_at = 0, d_died_at = 0\<rparr>]\<rparr>"

theorem migrate_v1_witness:
  "\<exists>st'. migrate_queue (open_file v1_file) = (Inr (), st') \<and> user_version (view st') = 2"
  using migrate_v1 [of "open_file v1_file" "[]"]
  by (auto simp: open_file_def view_def v1_file_def)

text \<open>A dead letter of a version 1 file can share its id with a message sent after the migration:
  the sequence restarts from the live messages alone.\<close>

lemma v1_dead_id_reused:
  "queue_messages (insert_message_db ''new'' 0 0 (rebuild_messages_db v1_file)) =
     Some [\<lparr>m_id = 1, m_payload = ''new'', m_attempts = 0, m_next_at = 0, m_enqueued_at = 0\<rparr>]
   \<and> map d_id (the (queue_dead (rebuild_messages_db v1_file))) = [1]"
  by (simp add: insert_message_db_def rebuild_messages_db_def v1_file_def next_message_id_def max_id_def
      fresh_db_def Let_def)

section \<open>The journal\<close>

text \<open>The inspector's cursor: a read after \<open>since\<close> returns rows in strictly increasing sequence
  order, all past the cursor, the oldest 200 of them, and a row is left out only behind that
  limit; the journal itself never holds more than 300 rows.\<close>

theorem events_cursor:
  assumes "queue_wf d" "queue_events d = Some es"
  shows "sorted_wrt (<) (map e_seq (read_events since d))
    \<and> (\<exists>rest. filter (\<lambda>e. e_seq e > since) es = read_events since d @ rest
         \<and> (rest \<noteq> [] \<longrightarrow> length (read_events since d) = 200))
    \<and> length es \<le> 300"
proof -
  have ring: "ring_wf es" using assms by (auto simp: queue_wf_def)
  let ?f = "filter (\<lambda>e. e_seq e > since) es"
  have s: "sorted_wrt (<) (map e_seq ?f)"
    by (rule sorted_wrt_map_filter) (use ring in \<open>simp add: ring_wf_def\<close>)
  then have k: "sort_key e_seq ?f = ?f" by (intro sort_key_sorted) (simp add: strict_sorted_iff)
  then have r: "read_events since d = take 200 ?f" using assms(2) by (simp add: read_events_def)
  have "?f = take 200 ?f @ drop 200 ?f" by simp
  moreover have "drop 200 ?f \<noteq> [] \<longrightarrow> length (take 200 ?f) = 200" by simp
  moreover have "sorted_wrt (<) (map e_seq (take 200 ?f))"
    using s by (simp add: take_map [symmetric] sorted_wrt_take)
  moreover have "length es \<le> 300" using ring_wf_length [OF ring] by (simp add: EVENT_RING_def)
  ultimately show ?thesis unfolding r by blast
qed

theorem events_cursor_witness:
  "length (read_events 0 (log_db 7 ''sent'' ''x'' demo_queue)) = 1
   \<and> sorted_wrt (<) (map e_seq (read_events 0 (log_db 7 ''sent'' ''x'' demo_queue)))"
proof -
  have w: "queue_wf (log_db 7 ''sent'' ''x'' demo_queue)"
    using demo_file by (intro queue_wf_log) (auto simp: queue_file_def queue_fresh_def demo_queue_def)
  have e: "queue_events (log_db 7 ''sent'' ''x'' demo_queue) = Some [\<lparr>e_seq = 1, e_at = 7, e_kind = ''sent'', e_detail = ''x''\<rparr>]"
    by (simp add: log_db_events ring_push_def max_seq_def max_id_def EVENT_RING_def demo_queue_def fresh_db_def Let_def)
  from events_cursor [OF w e, of 0] show ?thesis by (simp add: read_events_def e)
qed

end
