(* ===== verification/Journal.thy ===== *)
theory Journal
  imports Platform
begin

text \<open>
  The workflow journal (\<open>actias-worker-core/src/platform/workflow.rs\<close>, its substrate half): entry
  kinds, the schema ladder, append and the replay reads, the status a journal tells on its own,
  the revision pin, and the secret pins of a run.
\<close>

section \<open>Entries\<close>

definition WF_SCHEMA_VERSION :: int where "WF_SCHEMA_VERSION = 2"
definition ENTRY_FORMAT :: int where "ENTRY_FORMAT = 1"

datatype entry_kind = Started | Intent | Result | Timer | Signal | Child | Cancel | Completed
  | Ambient | Failed

fun kind_str :: "entry_kind \<Rightarrow> string" where
  "kind_str Started = ''STARTED''"
| "kind_str Intent = ''INTENT''"
| "kind_str Result = ''RESULT''"
| "kind_str Timer = ''TIMER''"
| "kind_str Signal = ''SIGNAL''"
| "kind_str Child = ''CHILD''"
| "kind_str Cancel = ''CANCEL''"
| "kind_str Completed = ''COMPLETED''"
| "kind_str Ambient = ''AMBIENT''"
| "kind_str Failed = ''FAILED''"

definition all_kinds :: "entry_kind list" where
  "all_kinds = [Started, Intent, Result, Timer, Signal, Child, Cancel, Completed, Ambient, Failed]"

definition parse_kind :: "string \<Rightarrow> entry_kind option" where
  "parse_kind s = find (\<lambda>k. kind_str k = s) all_kinds"

text \<open>What \<open>{:?}\<close> prints.\<close>

fun kind_debug :: "entry_kind \<Rightarrow> string" where
  "kind_debug Started = ''Started''"
| "kind_debug Intent = ''Intent''"
| "kind_debug Result = ''Result''"
| "kind_debug Timer = ''Timer''"
| "kind_debug Signal = ''Signal''"
| "kind_debug Child = ''Child''"
| "kind_debug Cancel = ''Cancel''"
| "kind_debug Completed = ''Completed''"
| "kind_debug Ambient = ''Ambient''"
| "kind_debug Failed = ''Failed''"

record jentry =
  en_seq :: int
  en_at :: int
  en_kind :: entry_kind
  en_data :: json
  en_format :: int

section \<open>Schema, append, reads\<close>

definition create_journal_db :: "'u db \<Rightarrow> 'u db" where
  "create_journal_db d = (if wf_journal d = None then d\<lparr>wf_journal := Some []\<rparr> else d)"

definition create_pins_db :: "'u db \<Rightarrow> 'u db" where
  "create_pins_db d = (if wf_secrets d = None then d\<lparr>wf_secrets := Some []\<rparr> else d)"

definition ensure_schema :: "('u sqlite, unit) cmd" where
  "ensure_schema =
     bindE schema_version (\<lambda>version.
       if version \<ge> WF_SCHEMA_VERSION then okE ()
       else thenE (if version = 0 then writeE (stmt create_journal_db 0) else okE ())
         (thenE (if version \<le> 1 then writeE (stmt create_pins_db 0) else okE ())
           (set_schema_version WF_SCHEMA_VERSION)))"

definition no_journal :: string where
  "no_journal = ''no such table: __actias_wf_journal''"

definition next_seq :: "'u db \<Rightarrow> journal_row list \<Rightarrow> int" where
  "next_seq d rows = max (journal_seq d) (foldr max (map j_seq rows) 0) + 1"

definition append_db :: "int \<Rightarrow> string \<Rightarrow> string \<Rightarrow> 'u db \<Rightarrow> 'u db" where
  "append_db at kind data d =
     (case wf_journal d of
        None \<Rightarrow> d
      | Some rows \<Rightarrow> (let s = next_seq d rows
          in d\<lparr>wf_journal := Some (rows @ [\<lparr>j_seq = s, j_at = at, j_kind = kind, j_data = data,
                 j_format = ENTRY_FORMAT\<rparr>]), journal_seq := s\<rparr>))"

definition append_row :: "int \<Rightarrow> string \<Rightarrow> string \<Rightarrow> ('u sqlite, int) cmd" where
  "append_row at kind data st =
     (case wf_journal (view st) of
        None \<Rightarrow> (Inl no_journal, st)
      | Some rows \<Rightarrow> (Inr (next_seq (view st) rows), stmt (append_db at kind data) 1 st))"

definition append :: "codec \<Rightarrow> entry_kind \<Rightarrow> json \<Rightarrow> ('u home, int) cmd" where
  "append J kind data =
     bindE unix_now_ms (\<lambda>at. with_storage (append_row at (kind_str kind) (to_text J data)))"

text \<open>A row as replay reads it; \<open>why\<close> is serde's message for a text that does not parse.\<close>

definition decode_row :: "codec \<Rightarrow> (string \<Rightarrow> string) \<Rightarrow> journal_row \<Rightarrow> string + jentry" where
  "decode_row J why r =
     (case parse_kind (j_kind r) of
        None \<Rightarrow> Inl (''journal entry '' @ show_int (j_seq r) @ '' has unknown kind '' @ quoted (j_kind r))
      | Some k \<Rightarrow>
          (case from_text J (j_data r) of
             None \<Rightarrow> Inl (''journal entry '' @ show_int (j_seq r) @ '' does not decode: '' @ why (j_data r))
           | Some v \<Rightarrow> Inr \<lparr>en_seq = j_seq r, en_at = j_at r, en_kind = k, en_data = v, en_format = j_format r\<rparr>))"

fun decode_rows :: "codec \<Rightarrow> (string \<Rightarrow> string) \<Rightarrow> journal_row list \<Rightarrow> string + jentry list" where
  "decode_rows J why [] = Inr []"
| "decode_rows J why (r # rs) =
     (case decode_row J why r of
        Inl e \<Rightarrow> Inl e
      | Inr x \<Rightarrow> (case decode_rows J why rs of Inl e \<Rightarrow> Inl e | Inr xs \<Rightarrow> Inr (x # xs)))"

definition read_from :: "codec \<Rightarrow> (string \<Rightarrow> string) \<Rightarrow> int \<Rightarrow> ('u sqlite, jentry list) cmd" where
  "read_from J why from st =
     (case wf_journal (view st) of
        None \<Rightarrow> (Inl no_journal, st)
      | Some rows \<Rightarrow> (decode_rows J why (sort_key j_seq (filter (\<lambda>r. j_seq r \<ge> from) rows)), st))"

definition read_from_limit :: "codec \<Rightarrow> (string \<Rightarrow> string) \<Rightarrow> nat \<Rightarrow> ('u sqlite, jentry list) cmd" where
  "read_from_limit J why limit st =
     (case wf_journal (view st) of
        None \<Rightarrow> (Inl no_journal, st)
      | Some rows \<Rightarrow> (decode_rows J why (take limit (sort_key (\<lambda>r. - j_seq r) rows)), st))"

definition head :: "codec \<Rightarrow> (string \<Rightarrow> string) \<Rightarrow> ('u sqlite, jentry option) cmd" where
  "head J why = bindE (read_from_limit J why 1)
     (\<lambda>es. okE (if es = [] then None else Some (last es)))"

definition read_journal_readonly_from :: "codec \<Rightarrow> (string \<Rightarrow> string) \<Rightarrow> int \<Rightarrow> ('u sqlite, jentry list) cmd" where
  "read_journal_readonly_from J why since st =
     (if wf_journal (view st) = None then (Inr [], st) else read_from J why since st)"

text \<open>\<open>pinned_revision\<close>: the revision a run started on; a fresh or unreadable file is unpinned.\<close>

definition pinned_revision :: "codec \<Rightarrow> (string \<Rightarrow> string) \<Rightarrow> 'u db \<Rightarrow> string option" where
  "pinned_revision J why d =
     (if wf_journal d = None then None
      else case fst (read_from J why 0 (open_file d)) of
        Inl _ \<Rightarrow> None
      | Inr [] \<Rightarrow> None
      | Inr (first # _) \<Rightarrow>
          if en_kind first \<noteq> Started then None else as_str (jget (en_data first) ''revision''))"

section \<open>Status\<close>

definition find_kind :: "entry_kind \<Rightarrow> jentry list \<Rightarrow> jentry option" where
  "find_kind k es = find (\<lambda>e. en_kind e = k) es"

definition last_entry :: "jentry list \<Rightarrow> jentry option" where
  "last_entry es = (if es = [] then None else Some (last es))"

definition first_at :: "jentry list \<Rightarrow> json" where
  "first_at es = (case es of [] \<Rightarrow> JNull | e # _ \<Rightarrow> JInt (en_at e))"

definition run_status :: "jentry list \<Rightarrow> json" where
  "run_status es =
     (case find_kind Cancel es of
        Some c \<Rightarrow> JObj [(''at'', JInt (en_at c)), (''reason'', jget (en_data c) ''reason''), (''status'', JStr ''cancelled'')]
      | None \<Rightarrow>
     (case find_kind Completed es of
        Some c \<Rightarrow> JObj [(''at'', JInt (en_at c)), (''status'', JStr ''completed'')]
      | None \<Rightarrow>
     (case last_entry es of
        None \<Rightarrow> JObj [(''status'', JStr ''unstarted'')]
      | Some l \<Rightarrow>
          if en_kind l = Failed \<and> as_bool (jget (en_data l) ''final'') = Some True then
            JObj [(''attempts'', jget (en_data l) ''attempt''), (''error'', jget (en_data l) ''error''),
                  (''started_at'', first_at es), (''status'', JStr ''failed''), (''step'', jget (en_data l) ''step'')]
          else if en_kind l = Timer then
            (if jget (en_data l) ''for'' = JNull then
               JObj [(''due_ms'', jget (en_data l) ''due_ms''), (''started_at'', first_at es), (''status'', JStr ''sleeping'')]
             else
               JObj [(''due_ms'', jget (en_data l) ''due_ms''), (''signal'', jget (en_data l) ''for''),
                     (''started_at'', first_at es), (''status'', JStr ''awaiting'')])
          else JObj [(''started_at'', first_at es), (''status'', JStr ''running'')])))"

text \<open>\<open>at_step\<close>: the loop's two cells, then the tail.\<close>

definition step_cells :: "jentry list \<Rightarrow> string option \<times> string option" where
  "step_cells es = foldl (\<lambda>(dangling, last_result) e.
     case en_kind e of
       Intent \<Rightarrow> (as_str (jget (en_data e) ''step''), last_result)
     | Result \<Rightarrow> (None, as_str (jget (en_data e) ''step''))
     | _ \<Rightarrow> (dangling, last_result)) (None, None) es"

definition gate_label :: "json \<Rightarrow> string" where
  "gate_label gate =
     (if gate = JNull then ''sleep''
      else case as_array gate of
        Some names \<Rightarrow> ''await '' @ join '' | '' (List.map_filter as_str names)
      | None \<Rightarrow> ''await '' @ (case as_str gate of Some s \<Rightarrow> s | None \<Rightarrow> ''?''))"

definition at_step :: "jentry list \<Rightarrow> string" where
  "at_step es =
     (case step_cells es of (dangling, last_result) \<Rightarrow>
       case dangling of
         Some s \<Rightarrow> s
       | None \<Rightarrow>
           (let fallback = (case last_result of Some s \<Rightarrow> ''after '' @ s | None \<Rightarrow> ''start'') in
            case last_entry es of
              None \<Rightarrow> fallback
            | Some l \<Rightarrow>
                (case en_kind l of
                   Timer \<Rightarrow> gate_label (jget (en_data l) ''for'')
                 | Failed \<Rightarrow> (case as_str (jget (en_data l) ''step'') of Some s \<Rightarrow> s | None \<Rightarrow> ''failed'')
                 | Completed \<Rightarrow> ''done''
                 | Cancel \<Rightarrow> ''cancelled''
                 | _ \<Rightarrow> fallback)))"

section \<open>Secret pins\<close>

text \<open>The pins of a run: the file's table and the map in memory. A version is a \<open>u64\<close> stored as
  \<open>i64\<close>; the cast there and back is the identity on words.\<close>

record pins =
  pins_file :: "(string \<times> int) list"
  pins_known :: "string \<rightharpoonup> 64 word"

definition load_pins :: "(string \<times> int) list \<Rightarrow> pins" where
  "load_pins rows = \<lparr>pins_file = rows,
     pins_known = foldl (\<lambda>m (n, v). m(n \<mapsto> word_of_int v)) Map.empty rows\<rparr>"

definition version_for :: "string \<Rightarrow> pins \<Rightarrow> 64 word option" where
  "version_for n p = pins_known p n"

definition record_pin :: "string \<Rightarrow> 64 word \<Rightarrow> pins \<Rightarrow> pins" where
  "record_pin n v p = \<lparr>
     pins_file = (if n \<in> fst ` set (pins_file p) then pins_file p else pins_file p @ [(n, sint v)]),
     pins_known = (pins_known p)(n \<mapsto> v)\<rparr>"

section \<open>Lemmas\<close>

lemma parse_kind_str [simp]: "parse_kind (kind_str k) = Some k"
  by (cases k) (simp_all add: parse_kind_def all_kinds_def)

lemma parse_kind_Some: "parse_kind s = Some k \<Longrightarrow> s = kind_str k"
  by (auto simp: parse_kind_def find_Some_iff)

lemma decode_rows_append:
  "decode_rows J why (xs @ ys) =
     (case decode_rows J why xs of Inl e \<Rightarrow> Inl e
      | Inr a \<Rightarrow> (case decode_rows J why ys of Inl e \<Rightarrow> Inl e | Inr b \<Rightarrow> Inr (a @ b)))"
  by (induction xs) (auto split: sum.split)

lemma decode_rows_length: "decode_rows J why rs = Inr es \<Longrightarrow> map en_seq es = map j_seq rs"
  by (induction rs arbitrary: es) (auto simp: decode_row_def split: sum.splits option.splits)

text \<open>A journal: sequence numbers strictly increase and stay behind the sequence row.\<close>

definition journal_wf :: "'u db \<Rightarrow> bool" where
  "journal_wf d \<longleftrightarrow> (\<exists>rows. wf_journal d = Some rows \<and> sorted_wrt (<) (map j_seq rows)
     \<and> (\<forall>r \<in> set rows. 0 < j_seq r \<and> j_seq r \<le> journal_seq d) \<and> 0 \<le> journal_seq d)"

lemma foldr_max_le: "(\<And>x. x \<in> set xs \<Longrightarrow> x \<le> (s::int)) \<Longrightarrow> 0 \<le> s \<Longrightarrow> foldr max xs 0 \<le> s"
  by (induction xs) auto

lemma next_seq_wf:
  assumes "journal_wf d" "wf_journal d = Some rows"
  shows "next_seq d rows = journal_seq d + 1"
proof -
  have "foldr max (map j_seq rows) 0 \<le> journal_seq d"
    using assms by (intro foldr_max_le) (auto simp: journal_wf_def)
  then show ?thesis by (simp add: next_seq_def)
qed

lemma journal_wf_append:
  assumes "journal_wf d"
  shows "journal_wf (append_db at kind data d)"
proof -
  from assms obtain rows where rows: "wf_journal d = Some rows" by (auto simp: journal_wf_def)
  have s: "next_seq d rows = journal_seq d + 1" by (rule next_seq_wf [OF assms rows])
  have "sorted_wrt (<) (map j_seq (rows @ [\<lparr>j_seq = journal_seq d + 1, j_at = at, j_kind = kind,
      j_data = data, j_format = ENTRY_FORMAT\<rparr>]))"
    by (rule sorted_wrt_less_snoc) (use assms rows in \<open>auto simp: journal_wf_def\<close>)
  with assms rows s show ?thesis
    by (force simp: journal_wf_def append_db_def Let_def)
qed

end
