(* ===== verification/Workflow.thy ===== *)
theory Workflow
  imports Journal
begin

text \<open>
  The workflow engine (\<open>actias-worker-core/src/platform/workflow.rs\<close>): the replay cursor, every
  \<open>wf:\<close> verb, the attempt runner and the class's methods. A run body is guest code: it enters as
  a tree of the verbs it performs with a continuation for what each verb answers (\<open>prog\<close>), and a
  step body as a tree that may read the journaled clock and ids before it returns or throws
  (\<open>body\<close>), chosen by the instant it runs at, so that nothing is assumed about the outside
  world. Guest code that catches a verb's error and goes on is not expressible.
\<close>

unbundle bit_operations_syntax

section \<open>Guest code\<close>

datatype body = Done json | Opaque string | Throw string
  | BodyTime "int \<Rightarrow> body" | BodyUuid "string \<Rightarrow> body"

datatype prog = Return json | ReturnOpaque string | Raise string
  | Step string "int option" int int "nat \<Rightarrow> body" "json \<Rightarrow> prog"
  | Sleep int prog
  | Await "string list" "int option" "json \<Rightarrow> string option \<Rightarrow> prog"
  | Spawn string json "string \<Rightarrow> prog"
  | Time "int \<Rightarrow> prog"
  | Uuid "string \<Rightarrow> prog"
  | Random "64 word \<Rightarrow> prog"

type_synonym target = "string \<times> string \<times> string \<times> json list"

record wf_runtime =
  wr_listener :: "string \<Rightarrow> (json \<Rightarrow> prog) option"
  wr_to_value :: "json \<Rightarrow> string option"
  wr_router :: "(nat \<Rightarrow> target \<Rightarrow> string option) option"
  wr_uuid64 :: "nat \<Rightarrow> 64 word"
  wr_uuid :: "nat \<Rightarrow> string"
  wr_fakes :: "string \<rightharpoonup> json"
  wr_display :: "string \<Rightarrow> string"

section \<open>The attempt and the shared cell\<close>

record attempt =
  at_pending :: "jentry list"
  at_rng :: "64 word"
  at_own_key :: string
  at_name :: string
  at_resume :: bool

record 'u wf =
  w_home :: "'u home"
  w_attempt :: "attempt option"
  w_parked :: "string option"
  w_failed :: "string option"
  w_in_step :: bool

definition on_home :: "('u home, 'a) cmd \<Rightarrow> ('u wf, 'a) cmd" where
  "on_home m w = (case m (w_home w) of (r, h) \<Rightarrow> (r, w\<lparr>w_home := h\<rparr>))"

definition the_attempt :: "('u wf, attempt) cmd" where
  "the_attempt w = (case w_attempt w of
      None \<Rightarrow> (Inl ''No workflow attempt is executing.'', w) | Some a \<Rightarrow> (Inr a, w))"

definition set_attempt :: "attempt \<Rightarrow> ('u wf, unit) cmd" where
  "set_attempt a = writeE (\<lambda>w. w\<lparr>w_attempt := Some a\<rparr>)"

definition set_pending :: "jentry list \<Rightarrow> ('u wf, unit) cmd" where
  "set_pending es = writeE (\<lambda>w. w\<lparr>w_attempt := map_option (\<lambda>a. a\<lparr>at_pending := es\<rparr>) (w_attempt w)\<rparr>)"

text \<open>\<open>draw\<close>: xorshift64*; the answer is the 53-bit numerator of the drawn fraction.\<close>

definition xorshift :: "64 word \<Rightarrow> 64 word" where
  "xorshift r = (let a = r XOR drop_bit 12 r; b = a XOR push_bit 25 a in b XOR drop_bit 27 b)"

definition draw :: "attempt \<Rightarrow> 64 word \<times> attempt" where
  "draw a = (let r = xorshift (at_rng a)
     in (drop_bit 11 (r * 0x2545F4914F6CDD1D), a\<lparr>at_rng := r\<rparr>))"

definition wf_random :: "('u wf, 64 word) cmd" where
  "wf_random w = (case w_attempt w of
      None \<Rightarrow> (Inr 0, w)
    | Some a \<Rightarrow> (case draw a of (x, a') \<Rightarrow> (Inr x, w\<lparr>w_attempt := Some a'\<rparr>)))"

text \<open>\<open>park\<close> and \<open>fail\<close>: the flag is the truth, the error only unwinds.\<close>

definition park :: "string \<Rightarrow> ('u wf, 'a) cmd" where
  "park reason w = (Inl ''workflow parked'', w\<lparr>w_parked := Some reason\<rparr>)"

definition fail_run :: "string \<Rightarrow> ('u wf, 'a) cmd" where
  "fail_run reason w = (Inl ''workflow failed'', w\<lparr>w_failed := Some reason\<rparr>)"

definition append_durable :: "codec \<Rightarrow> entry_kind \<Rightarrow> json \<Rightarrow> ('u wf, unit) cmd" where
  "append_durable J kind data =
     on_home (bindE unix_now_ms (\<lambda>at. with_storage
       (thenE (append_row at (kind_str kind) (to_text J data)) (thenE commit begin_txn))))"

definition arm :: "attempt \<Rightarrow> int \<Rightarrow> ('u wf, unit) cmd" where
  "arm a delay = on_home (bindE unix_now_ms (\<lambda>now. set_alarm
     \<lparr>pa_due_ms = now + max delay 0, pa_class = WORKFLOW_CLASS, pa_name = at_name a,
      pa_own_key = at_own_key a\<rparr>))"

definition i64_max :: int where "i64_max = 2 ^ 63 - 1"

definition sat_add :: "int \<Rightarrow> int \<Rightarrow> int" where
  "sat_add a b = max (- (2 ^ 63)) (min i64_max (a + b))"

definition sat_mul :: "int \<Rightarrow> int \<Rightarrow> int" where
  "sat_mul a b = max (- (2 ^ 63)) (min i64_max (a * b))"

definition to_lua :: "wf_runtime \<Rightarrow> json \<Rightarrow> ('u wf, json) cmd" where
  "to_lua rt v = (case wr_to_value rt v of Some e \<Rightarrow> failE e | None \<Rightarrow> okE v)"

definition diverged :: "entry_kind \<Rightarrow> string \<Rightarrow> ('u wf, 'a) cmd" where
  "diverged k reached = failE (''journal divergence: expected '' @ kind_debug k @ '', code reached '' @ reached)"

section \<open>Ambient reads\<close>

definition ambient :: "codec \<Rightarrow> string \<Rightarrow> ('u wf, json) cmd \<Rightarrow> ('u wf, json) cmd" where
  "ambient J tag live =
     bindE the_attempt (\<lambda>a.
       case at_pending a of
         e # es \<Rightarrow>
           if en_kind e \<noteq> Ambient \<or> jget (en_data e) ''tag'' \<noteq> JStr tag then
             failE (''journal divergence: expected '' @ kind_debug (en_kind e) @ '' ''
               @ quoted (to_text J (jget (en_data e) ''tag'')) @ '', code asked for ambient '' @ quoted tag)
           else thenE (set_pending es) (okE (jget (en_data e) ''value''))
       | [] \<Rightarrow>
           bindE live (\<lambda>v.
             thenE (on_home (append J Ambient (JObj [(''tag'', JStr tag), (''value'', v)]))) (okE v)))"

text \<open>An ambient read that fails reads as zero, or as the empty id.\<close>

definition wf_time :: "codec \<Rightarrow> ('u wf, int) cmd" where
  "wf_time J w =
     (case ambient J ''time'' (on_home (bindE unix_now_ms (\<lambda>n. okE (JInt (trunc_div n 1000))))) w of
        (Inl _, w') \<Rightarrow> (Inr 0, w')
      | (Inr v, w') \<Rightarrow> (Inr (case as_i64 v of Some i \<Rightarrow> i | None \<Rightarrow> 0), w'))"

definition wf_uuid :: "codec \<Rightarrow> wf_runtime \<Rightarrow> ('u wf, string) cmd" where
  "wf_uuid J rt w =
     (case ambient J ''uuid'' (readE (\<lambda>w. JStr (wr_uuid rt (ticks (w_home w))))) w of
        (Inl _, w') \<Rightarrow> (Inr '''', w')
      | (Inr v, w') \<Rightarrow> (Inr (case as_str v of Some s \<Rightarrow> s | None \<Rightarrow> ''''), w'))"

section \<open>Steps\<close>

datatype plan = Replay json | Run int | Blocked string | Diverged entry_kind

definition is_step :: "string \<Rightarrow> entry_kind \<Rightarrow> jentry \<Rightarrow> bool" where
  "is_step name k e = (en_kind e = k \<and> jget (en_data e) ''step'' = JStr name)"

text \<open>The cursor's walk through a step's history: attempts seen, the plan, the journal left and the
  resume flag.\<close>

fun walk :: "string \<Rightarrow> bool \<Rightarrow> int \<Rightarrow> jentry list \<Rightarrow> plan \<times> int \<times> jentry list \<times> bool" where
  "walk name resume seen [] = (Run (max seen 0 + 1), seen, [], resume)"
| "walk name resume seen (e # es) =
     (if is_step name Intent e then walk name resume (seen + 1) es
      else if is_step name Failed e then
        (let final = (as_bool (jget (en_data e) ''final'') = Some True);
             error = (case as_str (jget (en_data e) ''error'') of Some s \<Rightarrow> s | None \<Rightarrow> ''failed'')
         in if final \<and> es = [] \<and> \<not> resume then (Blocked error, seen, e # es, resume)
            else if final \<and> es = [] \<and> resume then (Run 1, 0, es, False)
            else walk name resume seen es)
      else if is_step name Result e then (Replay (jget (en_data e) ''value''), seen, es, resume)
      else if seen = 0 then (Diverged (en_kind e), seen, e # es, resume)
      else (Run (max seen 0 + 1), seen, e # es, resume))"

datatype outcome_value = Value json | NoJson string

primrec run_body :: "codec \<Rightarrow> wf_runtime \<Rightarrow> body \<Rightarrow> ('u wf, outcome_value) cmd" where
  "run_body J rt (Done v) = okE (Value v)"
| "run_body J rt (Opaque e) = okE (NoJson e)"
| "run_body J rt (Throw e) = failE e"
| "run_body J rt (BodyTime k) = bindE (wf_time J) (\<lambda>t. run_body J rt (k t))"
| "run_body J rt (BodyUuid k) = bindE (wf_uuid J rt) (\<lambda>u. run_body J rt (k u))"

text \<open>One execution of a step's body, or the test fake that stands in for it; the effect window is
  open exactly while it runs.\<close>

definition exec_body :: "codec \<Rightarrow> wf_runtime \<Rightarrow> string \<Rightarrow> int \<Rightarrow> (nat \<Rightarrow> body) \<Rightarrow> 'u wf
    \<Rightarrow> (string + outcome_value) \<times> 'u wf" where
  "exec_body J rt name number bd w =
     (let w1 = w\<lparr>w_in_step := True\<rparr>;
          (r, w2) = (case wr_fakes rt name of
             Some v \<Rightarrow> (case wr_to_value rt v of Some e \<Rightarrow> (Inl e, w1) | None \<Rightarrow> (Inr (Value v), w1))
           | None \<Rightarrow> run_body J rt (bd (length (ran (w_home w1))))
               (w1\<lparr>w_home := (w_home w1)\<lparr>ran := ran (w_home w1) @ [(name, number)]\<rparr>\<rparr>))
      in (r, w2\<lparr>w_in_step := False\<rparr>))"

definition step_backoff :: "int \<Rightarrow> int \<Rightarrow> int" where
  "step_backoff backoff_ms number = sat_mul backoff_ms (2 ^ nat (min (number - 1) 16))"

definition failed_text :: "string \<Rightarrow> int \<Rightarrow> string \<Rightarrow> string" where
  "failed_text name retries e =
     ''step '' @ quoted name @ '' failed after '' @ show_int retries @ '' attempts: '' @ e"

definition finish_step :: "codec \<Rightarrow> string \<Rightarrow> int \<Rightarrow> int \<Rightarrow> int \<Rightarrow> string + outcome_value \<Rightarrow> ('u wf, json) cmd" where
  "finish_step J name retries backoff_ms number out =
     (case out of
        Inr (Value v) \<Rightarrow>
          thenE (append_durable J Result (JObj [(''attempt'', JInt number), (''step'', JStr name), (''value'', v)]))
            (okE v)
      | Inr (NoJson e) \<Rightarrow> failE e
      | Inl e \<Rightarrow>
          thenE (append_durable J Failed (JObj [(''attempt'', JInt number), (''error'', JStr e),
              (''final'', JBool (number \<ge> retries)), (''step'', JStr name)]))
            (if number \<ge> retries then fail_run (failed_text name retries e)
             else (let wait = step_backoff backoff_ms number in
               bindE the_attempt (\<lambda>a. thenE (arm a wait)
                 (park (''step '' @ quoted name @ '' attempt '' @ show_int number @ '' failed; retrying in ''
                   @ show_int wait @ ''ms''))))))"

definition run_step :: "codec \<Rightarrow> wf_runtime \<Rightarrow> string \<Rightarrow> int \<Rightarrow> int \<Rightarrow> (nat \<Rightarrow> body) \<Rightarrow> int \<Rightarrow> ('u wf, json) cmd" where
  "run_step J rt name retries backoff_ms bd number w =
     (case exec_body J rt name number bd w of
        (out, w1) \<Rightarrow> finish_step J name retries backoff_ms number out w1)"

definition wf_step :: "codec \<Rightarrow> wf_runtime \<Rightarrow> string \<Rightarrow> int option \<Rightarrow> int \<Rightarrow> (nat \<Rightarrow> body) \<Rightarrow> ('u wf, json) cmd" where
  "wf_step J rt name retries_opt backoff_ms bd =
     (let retries = max (case retries_opt of Some r \<Rightarrow> r | None \<Rightarrow> 1) 1 in
      bindE (readE w_in_step) (\<lambda>nested.
      if nested then failE ''Steps do not nest; perform one effect per step.''
      else bindE the_attempt (\<lambda>a.
        case walk name (at_resume a) 0 (at_pending a) of (plan, seen, pending, resume) \<Rightarrow>
          thenE (set_attempt (a\<lparr>at_pending := pending, at_resume := resume\<rparr>))
            (case plan of
               Diverged k \<Rightarrow> diverged k (''step '' @ quoted name)
             | Blocked e \<Rightarrow> fail_run (failed_text name retries e)
             | Replay v \<Rightarrow> to_lua rt v
             | Run number \<Rightarrow>
                 thenE (if number > seen
                        then append_durable J Intent (JObj [(''attempt'', JInt number), (''step'', JStr name)])
                        else okE ())
                   (run_step J rt name retries backoff_ms bd number)))))"

section \<open>Sleeping and waiting\<close>

definition wf_now :: "('u wf, int) cmd" where
  "wf_now = on_home unix_now_ms"

definition wf_sleep :: "codec \<Rightarrow> int \<Rightarrow> ('u wf, unit) cmd" where
  "wf_sleep J delay_ms =
     bindE the_attempt (\<lambda>a.
     bindE wf_now (\<lambda>now.
       case at_pending a of
         e # es \<Rightarrow>
           if en_kind e = Timer \<and> jget (en_data e) ''for'' = JNull then
             (let due = (case as_i64 (jget (en_data e) ''due_ms'') of Some i \<Rightarrow> i | None \<Rightarrow> 0) in
              if due \<le> now then set_pending es
              else thenE (arm a (due - now))
                     (park (''sleeping, due in '' @ show_int (due - now) @ ''ms'')))
           else diverged (en_kind e) ''sleep''
       | [] \<Rightarrow>
           thenE (append_durable J Timer (JObj [(''due_ms'', JInt (now + max delay_ms 0)), (''for'', JNull)]))
             (thenE (arm a (max delay_ms 0)) (park (''sleeping '' @ show_int delay_ms @ ''ms'')))))"

definition gate_json :: "string list \<Rightarrow> json" where
  "gate_json names = (case names of [n] \<Rightarrow> JStr n | _ \<Rightarrow> JArr (map JStr names))"

definition wanted :: "string list \<Rightarrow> jentry \<Rightarrow> bool" where
  "wanted names e = (en_kind e = Signal \<and> (\<exists>n \<in> set names. jget (en_data e) ''name'' = JStr n))"

definition is_gate :: "string list \<Rightarrow> jentry \<Rightarrow> bool" where
  "is_gate names e = (en_kind e = Timer \<and> jget (en_data e) ''for'' = gate_json names)"

definition take_signal :: "wf_runtime \<Rightarrow> jentry \<Rightarrow> jentry list \<Rightarrow> ('u wf, json \<times> string option) cmd" where
  "take_signal rt s rest =
     thenE (set_pending rest)
       (bindE (to_lua rt (jget (en_data s) ''payload''))
         (\<lambda>v. okE (v, as_str (jget (en_data s) ''name''))))"

definition await_signals :: "codec \<Rightarrow> wf_runtime \<Rightarrow> string list \<Rightarrow> int option \<Rightarrow> ('u wf, json \<times> string option) cmd" where
  "await_signals J rt names timeout_ms =
     (let describe = join ([CHR 0x27] @ '', '' @ [CHR 0x27]) names;
          parking = park (''awaiting '' @ quoted describe) in
      bindE the_attempt (\<lambda>a.
      bindE wf_now (\<lambda>now.
        case at_pending a of
          [] \<Rightarrow>
            thenE (append_durable J Timer (JObj [(''due_ms'', jopt JInt (map_option (\<lambda>ms. sat_add now (max ms 0)) timeout_ms)),
                (''for'', gate_json names)]))
              (thenE (case timeout_ms of
                        Some ms \<Rightarrow> if ms < i64_max then arm a (max ms 0) else okE ()
                      | None \<Rightarrow> okE ())
                 parking)
        | e # es \<Rightarrow>
            if is_gate names e then
              (case List.extract (wanted names) es of
                 Some (ys, s, zs) \<Rightarrow> take_signal rt s (ys @ zs)
               | None \<Rightarrow>
                   (case as_i64 (jget (en_data e) ''due_ms'') of
                      Some due \<Rightarrow>
                        if due \<le> now then thenE (set_pending es) (okE (JNull, None))
                        else thenE (arm a (due - now)) parking
                    | None \<Rightarrow> parking))
            else
              (case List.extract (wanted names) (e # es) of
                 Some (ys, s, zs) \<Rightarrow> take_signal rt s (ys @ zs)
               | None \<Rightarrow> diverged (en_kind e) (''await '' @ quoted describe)))))"

text \<open>\<open>wf:all\<close> and \<open>wf:race\<close> over the waiting verb.\<close>

primrec wf_all :: "string list \<Rightarrow> int option \<Rightarrow> json list \<Rightarrow> (json list \<Rightarrow> prog) \<Rightarrow> prog" where
  "wf_all [] timeout acc k = k acc"
| "wf_all (n # ns) timeout acc k = Await [n] timeout (\<lambda>v _. wf_all ns timeout (acc @ [v]) k)"

definition wf_race :: "string list \<Rightarrow> int option \<Rightarrow> (json \<Rightarrow> string option \<Rightarrow> prog) \<Rightarrow> prog" where
  "wf_race names timeout k =
     (if names = [] then Raise ''race takes at least one job or signal name.'' else Await names timeout k)"

section \<open>Children\<close>

text \<open>The router: every call it is handed is kept, its answer is the worker's.\<close>

definition route :: "(nat \<Rightarrow> target \<Rightarrow> string option) \<Rightarrow> target \<Rightarrow> ('u home, unit) cmd" where
  "route router t h =
     (let h' = h\<lparr>routed := routed h @ [t]\<rparr>
      in case router (length (routed h)) t of Some e \<Rightarrow> (Inl e, h') | None \<Rightarrow> (Inr (), h'))"

definition run_id_of :: "string \<Rightarrow> string" where
  "run_id_of name = (case split_char CHR ''/'' name of _ # r # _ \<Rightarrow> r | _ \<Rightarrow> ''run'')"

definition child_name :: "string \<Rightarrow> string \<Rightarrow> nat \<Rightarrow> string" where
  "child_name definition run_id ordinal = definition @ ''/'' @ run_id @ ''.'' @ show_nat ordinal"

definition count_children :: "jentry list \<Rightarrow> nat" where
  "count_children es = length (filter (\<lambda>e. en_kind e = Child) es)"

definition launch :: "wf_runtime \<Rightarrow> string \<Rightarrow> json \<Rightarrow> string \<Rightarrow> ('u wf, string) cmd" where
  "launch rt child input parent =
     (case wr_router rt of
        None \<Rightarrow> failE ''Objects are not available in this runtime.''
      | Some router \<Rightarrow>
          (let (d, n) = (case split_once CHR ''/'' child of Some p \<Rightarrow> p | None \<Rightarrow> (child, '''')) in
           thenE (on_home (route router (WORKFLOW_CLASS, d @ ''/'' @ n, ''start'', [input, JStr parent])))
             (okE child)))"

definition wf_spawn :: "codec \<Rightarrow> (string \<Rightarrow> string) \<Rightarrow> wf_runtime \<Rightarrow> string \<Rightarrow> json \<Rightarrow> ('u wf, string) cmd" where
  "wf_spawn J why rt definition input =
     bindE the_attempt (\<lambda>a.
       case at_pending a of
         e # es \<Rightarrow>
           if en_kind e = Child \<and> jget (en_data e) ''definition'' = JStr definition then
             thenE (set_pending es)
               (okE (case as_str (jget (en_data e) ''child'') of Some c \<Rightarrow> c | None \<Rightarrow> ''''))
           else diverged (en_kind e) (''spawn '' @ quoted definition)
       | [] \<Rightarrow>
           bindE (on_home (with_storage (read_from J why 0))) (\<lambda>entries.
             let child = child_name definition (run_id_of (at_name a)) (count_children entries) in
             thenE (append_durable J Child (JObj [(''child'', JStr child), (''definition'', JStr definition),
                 (''input'', input)]))
               (launch rt child input (at_name a))))"

definition child_signal :: "string \<Rightarrow> string" where
  "child_signal child = ''__child:'' @ child"

section \<open>Running a body\<close>

primrec run_prog :: "codec \<Rightarrow> (string \<Rightarrow> string) \<Rightarrow> wf_runtime \<Rightarrow> prog \<Rightarrow> ('u wf, outcome_value) cmd" where
  "run_prog J why rt (Return v) = okE (Value v)"
| "run_prog J why rt (ReturnOpaque e) = okE (NoJson e)"
| "run_prog J why rt (Raise e) = failE e"
| "run_prog J why rt (Step n r b t bd k) = bindE (wf_step J rt n r b bd) (\<lambda>v. run_prog J why rt (k v))"
| "run_prog J why rt (Sleep d k) = thenE (wf_sleep J d) (run_prog J why rt k)"
| "run_prog J why rt (Await ns t k) = bindE (await_signals J rt ns t) (\<lambda>p. (\<lambda>v w. run_prog J why rt (k v w)) (fst p) (snd p))"
| "run_prog J why rt (Spawn d i k) = bindE (wf_spawn J why rt d i) (\<lambda>c. run_prog J why rt (k c))"
| "run_prog J why rt (Time k) = bindE (wf_time J) (\<lambda>t. run_prog J why rt (k t))"
| "run_prog J why rt (Uuid k) = bindE (wf_uuid J rt) (\<lambda>u. run_prog J why rt (k u))"
| "run_prog J why rt (Random k) = bindE wf_random (\<lambda>x. run_prog J why rt (k x))"

definition notify_parent :: "wf_runtime \<Rightarrow> string option \<Rightarrow> string \<Rightarrow> json \<Rightarrow> 'u home \<Rightarrow> 'u home" where
  "notify_parent rt parent own payload h =
     (case (parent, wr_router rt) of
        (Some p, Some router) \<Rightarrow>
          snd (route router (WORKFLOW_CLASS, p, ''signal'', [JStr (child_signal own), payload]) h)
      | _ \<Rightarrow> h)"

definition status_value :: "string \<Rightarrow> json \<Rightarrow> json" where
  "status_value s v = JObj [(''status'', JStr s), (''value'', v)]"

definition status_reason :: "string \<Rightarrow> json \<Rightarrow> json" where
  "status_reason s v = JObj [(''reason'', v), (''status'', JStr s)]"

definition seed_of :: "json \<Rightarrow> 64 word" where
  "seed_of data = word_of_int (case as_i64 (jget data ''seed'') of Some i \<Rightarrow> i | None \<Rightarrow> 1)"

definition fresh_seed :: "64 word \<Rightarrow> 64 word" where
  "fresh_seed u = u OR 1"

definition started_data :: "json \<Rightarrow> 64 word \<Rightarrow> string \<Rightarrow> string option \<Rightarrow> json" where
  "started_data input seed rv parent = JObj [(''engine'', JStr ''luau''), (''input'', input),
     (''parent'', jopt JStr parent), (''revision'', JStr rv), (''seed'', JInt (uint seed))]"

text \<open>What the attempt runs on: seed, input, parent and the journal to replay.\<close>

definition begin_run :: "codec \<Rightarrow> wf_runtime \<Rightarrow> jentry list \<Rightarrow> json \<Rightarrow> string option
    \<Rightarrow> ('u home, 64 word \<times> json \<times> string option \<times> jentry list) cmd" where
  "begin_run J rt entries input parent =
     (case entries of
        e # es \<Rightarrow>
          if en_kind e = Started then
            okE (seed_of (en_data e), jget (en_data e) ''input'', as_str (jget (en_data e) ''parent''), es)
          else failE (''journal divergence: first entry is '' @ kind_debug (en_kind e) @ '', not STARTED'')
      | [] \<Rightarrow>
          bindE (readE (\<lambda>h. (fresh_seed (wr_uuid64 rt (ticks h)),
              case home_revision h of Some p \<Rightarrow> revision_id p | None \<Rightarrow> ''''))) (\<lambda>(seed, rv).
            thenE (append J Started (started_data input seed rv parent))
              (okE (seed, input, parent, []))))"

definition finish_run :: "codec \<Rightarrow> wf_runtime \<Rightarrow> platform_context \<Rightarrow> string option
    \<Rightarrow> string + outcome_value \<Rightarrow> 'u wf \<Rightarrow> (string + json) \<times> 'u home" where
  "finish_run J rt cx parent out w =
     (case out of
        Inr (NoJson e) \<Rightarrow> (Inl (''workflow return did not convert: '' @ e), w_home w)
      | Inr (Value v) \<Rightarrow>
          (case append J Completed (JObj [(''value'', v)]) (w_home w) of
             (Inl e, h) \<Rightarrow> (Inl e, h)
           | (Inr _, h) \<Rightarrow> (Inr (status_value ''completed'' v),
               notify_parent rt parent (cx_name cx) (status_value ''completed'' v) h))
      | Inl e \<Rightarrow>
          (case w_parked w of
             Some reason \<Rightarrow> (Inr (status_reason ''parked'' (JStr reason)), w_home w)
           | None \<Rightarrow>
               (case w_failed w of
                  Some reason \<Rightarrow> (Inr (status_reason ''failed'' (JStr reason)),
                    notify_parent rt parent (cx_name cx) (status_reason ''failed'' (JStr reason)) (w_home w))
                | None \<Rightarrow> (Inl (wr_display rt e), w_home w))))"

definition fresh_wf :: "attempt \<Rightarrow> 'u home \<Rightarrow> 'u wf" where
  "fresh_wf a h = \<lparr>w_home = h, w_attempt = Some a, w_parked = None, w_failed = None, w_in_step = False\<rparr>"

definition run_attempt :: "codec \<Rightarrow> (string \<Rightarrow> string) \<Rightarrow> wf_runtime \<Rightarrow> platform_context
    \<Rightarrow> (json \<times> string option) option \<Rightarrow> bool \<Rightarrow> ('u home, json) cmd" where
  "run_attempt J why rt cx input resume =
     bindE (with_storage (read_from J why 0)) (\<lambda>entries.
       case find_kind Completed entries of
         Some fin \<Rightarrow> okE (status_value ''completed'' (jget (en_data fin) ''value''))
       | None \<Rightarrow>
       (case find_kind Cancel entries of
         Some c \<Rightarrow> okE (status_reason ''cancelled'' (jget (en_data c) ''reason''))
       | None \<Rightarrow>
         if entries = [] \<and> input = None then okE JNull
         else
           (let (input0, parent0) = (case input of Some p \<Rightarrow> p | None \<Rightarrow> (JNull, None));
                definition = List.hd (split_char CHR ''/'' (cx_name cx)) in
            case wr_listener rt (''workflow:'' @ definition) of
              None \<Rightarrow> failE (''No workflow '' @ quoted definition @ '' is declared by the owning script.'')
            | Some f \<Rightarrow>
                bindE (begin_run J rt entries input0 parent0) (\<lambda>(seed, inp, parent, pending).
                  case wr_to_value rt inp of
                    Some e \<Rightarrow> failE (''workflow input did not convert: '' @ e)
                  | None \<Rightarrow> (\<lambda>h.
                      case run_prog J why rt (f inp) (fresh_wf \<lparr>at_pending = pending, at_rng = seed,
                            at_own_key = cx_own_key cx, at_name = cx_name cx, at_resume = resume\<rparr> h) of
                        (out, w) \<Rightarrow> finish_run J rt cx parent out w)))))"

section \<open>Methods\<close>

fun cancel_children :: "(nat \<Rightarrow> target \<Rightarrow> string option) \<Rightarrow> json \<Rightarrow> string list \<Rightarrow> 'u home \<Rightarrow> 'u home" where
  "cancel_children router reason [] h = h"
| "cancel_children router reason (c # cs) h =
     cancel_children router reason cs (snd (route router (WORKFLOW_CLASS, c, ''cancel'', [reason]) h))"

definition children_of :: "jentry list \<Rightarrow> string list" where
  "children_of es = List.map_filter (\<lambda>e. as_str (jget (en_data e) ''child'')) (filter (\<lambda>e. en_kind e = Child) es)"

definition wf_cancel :: "codec \<Rightarrow> (string \<Rightarrow> string) \<Rightarrow> wf_runtime \<Rightarrow> string \<Rightarrow> ('u home, json) cmd" where
  "wf_cancel J why rt reason =
     bindE (with_storage (read_from J why 0)) (\<lambda>entries.
     thenE (append J Cancel (JObj [(''reason'', JStr reason)]))
     (thenE (case wr_router rt of
               Some router \<Rightarrow> writeE (cancel_children router (JStr reason) (children_of entries))
             | None \<Rightarrow> okE ())
       (okE (status_reason ''cancelled'' (JStr reason)))))"

definition wf_status :: "codec \<Rightarrow> (string \<Rightarrow> string) \<Rightarrow> ('u home, json) cmd" where
  "wf_status J why =
     bindE (with_storage (head J why)) (\<lambda>e. okE (case e of
        None \<Rightarrow> JNull
      | Some x \<Rightarrow> JObj [(''at'', JInt (en_at x)), (''kind'', JStr (kind_str (en_kind x))), (''seq'', JInt (en_seq x))]))"

definition workflow_dispatch :: "codec \<Rightarrow> (string \<Rightarrow> string) \<Rightarrow> wf_runtime \<Rightarrow> platform_context \<Rightarrow> call \<Rightarrow> ('u home, json) cmd" where
  "workflow_dispatch J why rt cx c =
     thenE (with_storage ensure_schema)
       (if c_method c = ''start'' then
          run_attempt J why rt cx (Some (arg_or_null 0 (c_args c), Option.bind (arg 1 (c_args c)) as_str)) False
        else if c_method c = ''resume'' then run_attempt J why rt cx None True
        else if c_method c = ''alarm'' then run_attempt J why rt cx None False
        else if c_method c = ''signal'' then
          (case Option.bind (arg 0 (c_args c)) as_str of
             None \<Rightarrow> failE ''signal takes a name and an optional payload.''
           | Some name \<Rightarrow>
               thenE (append J Signal (JObj [(''name'', JStr name), (''payload'', arg_or_null 1 (c_args c))]))
                 (run_attempt J why rt cx None False))
        else if c_method c = ''cancel'' then
          wf_cancel J why rt (case Option.bind (arg 0 (c_args c)) as_str of Some r \<Rightarrow> r | None \<Rightarrow> ''cancelled'')
        else if c_method c = ''status'' then wf_status J why
        else failE (''Object class '' @ quoted WORKFLOW_CLASS @ '' has no method '' @ quoted (c_method c) @ ''.''))"

end
