(* ===== verification/Workflow_Keeps.thy ===== *)
theory Workflow_Keeps
  imports Workflow "HOL-Library.Sublist"
begin

text \<open>
  What every workflow call keeps, whatever the guest code does: the alarm cell beside its row, an
  open transaction at the end, and an append-only journal, in the file as committed at every
  moment and not only when the call succeeds.
\<close>

section \<open>The journal only grows\<close>

definition rows_of :: "'u db \<Rightarrow> journal_row list" where
  "rows_of d = (case wf_journal d of Some rows \<Rightarrow> rows | None \<Rightarrow> [])"

definition journal_ok :: "'u db \<Rightarrow> bool" where
  "journal_ok d \<longleftrightarrow> 0 \<le> journal_seq d \<and> (wf_journal d = None \<or> journal_wf d)"

text \<open>The committed journal extends \<open>R\<close> and the open transaction extends the committed journal.\<close>

definition grown :: "journal_row list \<Rightarrow> 'u home \<Rightarrow> bool" where
  "grown R h \<longleftrightarrow> body_ok h \<and> (\<exists>c d. home_committed h = Some c \<and> home_view h = Some d
     \<and> journal_ok c \<and> journal_ok d \<and> prefix R (rows_of c) \<and> prefix (rows_of c) (rows_of d))"

lemma grown_cong:
  assumes "grown R h" "body_ok h'" "home_committed h' = home_committed h" "home_view h' = home_view h"
  shows "grown R h'"
  using assms by (simp add: grown_def)

text \<open>A storage operation that extends the journal, keeps the alarm row and ends in a transaction.\<close>

definition extends_journal :: "('u sqlite, 'a) cmd \<Rightarrow> bool" where
  "extends_journal m \<longleftrightarrow> (\<forall>st. in_txn st \<longrightarrow> journal_ok (committed st) \<longrightarrow> journal_ok (view st) \<longrightarrow>
     prefix (rows_of (committed st)) (rows_of (view st)) \<longrightarrow>
     (let st' = snd (m st) in in_txn st' \<and> load_alarm_row st' = load_alarm_row st
       \<and> journal_ok (committed st') \<and> journal_ok (view st')
       \<and> prefix (rows_of (committed st)) (rows_of (committed st'))
       \<and> prefix (rows_of (committed st')) (rows_of (view st'))))"

lemma keeps_grown_with_storage:
  assumes "extends_journal m"
  shows "keeps (grown R) (with_storage m)"
proof
  fix h :: "'a home"
  assume g: "grown R h"
  then obtain st where st: "storage h = Some st" "in_txn st"
    by (auto simp: grown_def body_ok_def has_storage_def home_in_txn_def)
  have pre: "journal_ok (committed st)" "journal_ok (view st)"
      "prefix R (rows_of (committed st))" "prefix (rows_of (committed st)) (rows_of (view st))"
    using g st by (auto simp: grown_def home_committed_def home_view_def)
  have post: "in_txn (snd (m st))" "load_alarm_row (snd (m st)) = load_alarm_row st"
      "journal_ok (committed (snd (m st)))" "journal_ok (view (snd (m st)))"
      "prefix (rows_of (committed st)) (rows_of (committed (snd (m st))))"
      "prefix (rows_of (committed (snd (m st)))) (rows_of (view (snd (m st))))"
    using assms st(2) pre unfolding extends_journal_def Let_def by blast+
  have "prefix R (rows_of (committed (snd (m st))))"
    using pre(3) post(5) by (rule prefix_order.order_trans)
  with g st post show "grown R (snd (with_storage m h))"
    by (simp add: with_storage_Some grown_def body_ok_def has_storage_def home_in_txn_def
        alarm_synced_def home_committed_def home_view_def)
qed

lemma extends_journal_bindE:
  assumes m: "extends_journal m" and f: "\<And>x. extends_journal (f x)"
  shows "extends_journal (bindE m f)"
  unfolding extends_journal_def Let_def
proof (intro allI impI)
  fix st :: "'a sqlite"
  assume a: "in_txn st" "journal_ok (committed st)" "journal_ok (view st)"
    "prefix (rows_of (committed st)) (rows_of (view st))"
  obtain r st1 where 1: "m st = (r, st1)" by force
  have s1: "in_txn st1 \<and> load_alarm_row st1 = load_alarm_row st \<and> journal_ok (committed st1)
      \<and> journal_ok (view st1) \<and> prefix (rows_of (committed st)) (rows_of (committed st1))
      \<and> prefix (rows_of (committed st1)) (rows_of (view st1))"
    using m a 1 unfolding extends_journal_def Let_def by (metis snd_conv)
  show "in_txn (snd (bindE m f st)) \<and> load_alarm_row (snd (bindE m f st)) = load_alarm_row st
      \<and> journal_ok (committed (snd (bindE m f st))) \<and> journal_ok (view (snd (bindE m f st)))
      \<and> prefix (rows_of (committed st)) (rows_of (committed (snd (bindE m f st))))
      \<and> prefix (rows_of (committed (snd (bindE m f st)))) (rows_of (view (snd (bindE m f st))))"
  proof (cases r)
    case (Inl e)
    with 1 s1 show ?thesis by simp
  next
    case (Inr x)
    have "in_txn (snd (f x st1)) \<and> load_alarm_row (snd (f x st1)) = load_alarm_row st1
      \<and> journal_ok (committed (snd (f x st1))) \<and> journal_ok (view (snd (f x st1)))
      \<and> prefix (rows_of (committed st1)) (rows_of (committed (snd (f x st1))))
      \<and> prefix (rows_of (committed (snd (f x st1)))) (rows_of (view (snd (f x st1))))"
      using f [of x] s1 unfolding extends_journal_def Let_def by blast
    with 1 Inr s1 show ?thesis by (auto intro: prefix_order.order_trans)
  qed
qed

lemma extends_journal_thenE: "extends_journal m \<Longrightarrow> extends_journal k \<Longrightarrow> extends_journal (thenE m k)"
  by (simp add: thenE_def extends_journal_bindE)

lemma extends_append: "extends_journal (append_row at kind data)"
  unfolding extends_journal_def Let_def
proof (intro allI impI)
  fix st :: "'a sqlite"
  assume a: "in_txn st" "journal_ok (committed st)" "journal_ok (view st)"
    "prefix (rows_of (committed st)) (rows_of (view st))"
  show "in_txn (snd (append_row at kind data st)) \<and> load_alarm_row (snd (append_row at kind data st)) = load_alarm_row st
      \<and> journal_ok (committed (snd (append_row at kind data st))) \<and> journal_ok (view (snd (append_row at kind data st)))
      \<and> prefix (rows_of (committed st)) (rows_of (committed (snd (append_row at kind data st))))
      \<and> prefix (rows_of (committed (snd (append_row at kind data st)))) (rows_of (view (snd (append_row at kind data st))))"
  proof (cases "wf_journal (view st)")
    case None
    with a show ?thesis by (simp add: append_row_def)
  next
    case (Some rows)
    have "alarm_table (append_db at kind data (view st)) = alarm_table (view st)"
      by (simp add: append_db_def Some Let_def)
    moreover have "prefix (rows_of (view st)) (rows_of (append_db at kind data (view st)))"
      by (simp add: rows_of_def append_db_def Some Let_def)
    moreover have "journal_ok (append_db at kind data (view st))"
      using a(3) Some journal_wf_append [of "view st"] by (auto simp: journal_ok_def journal_wf_def)
    ultimately show ?thesis
      using a Some by (auto simp: append_row_def load_alarm_row_def intro: prefix_order.order_trans)
  qed
qed

text \<open>Committing in the middle of a call and opening the next transaction.\<close>

lemma extends_commit_begin: "extends_journal (thenE commit begin_txn)"
  by (auto simp: extends_journal_def Let_def thenE_def bindE_def commit_def begin_txn_def in_txn_def
      view_def load_alarm_row_def split: option.splits)

lemma extends_reads [simp]:
  "extends_journal (read_from J why n)" "extends_journal (head J why)" "extends_journal schema_version"
  "extends_journal (readE g)" "extends_journal (okE x)" "extends_journal (failE e)"
  by (auto simp: extends_journal_def Let_def read_from_def head_def read_from_limit_def schema_version_def
      readE_def okE_def failE_def bindE_def split: option.splits sum.splits)

lemma extends_schema: "extends_journal ensure_schema"
proof -
  have j: "extends_journal (writeE (stmt create_journal_db 0))"
    unfolding extends_journal_def Let_def
    by (auto simp: writeE_def load_alarm_row_def create_journal_db_def rows_of_def journal_ok_def
        journal_wf_def split: option.splits)
  have p: "extends_journal (writeE (stmt create_pins_db 0))"
    unfolding extends_journal_def Let_def
    by (auto simp: writeE_def load_alarm_row_def create_pins_db_def rows_of_def journal_ok_def journal_wf_def)
  have v: "extends_journal (set_schema_version n)" for n
    unfolding extends_journal_def Let_def
    by (auto simp: set_schema_version_def writeE_def load_alarm_row_def rows_of_def journal_ok_def journal_wf_def)
  show ?thesis
    unfolding ensure_schema_def
    by (rule extends_journal_bindE) (auto intro!: extends_journal_thenE j p v)
qed

section \<open>Every home operation of the engine\<close>

lemma grown_frame:
  assumes "grown R h" "storage h' = storage h" "alarm h' = alarm h"
  shows "grown R h'"
  using assms by (auto simp: grown_def body_ok_def has_storage_def home_in_txn_def alarm_synced_def
      home_committed_def home_view_def)

lemma grown_unix_now: "keeps (grown R) unix_now_ms"
  by (rule keepsI) (erule grown_frame, auto)

lemma grown_route: "keeps (grown R) (route router t)"
  by (rule keepsI) (erule grown_frame, auto simp: route_def Let_def split: option.splits)

lemma grown_set_alarm: "keeps (grown R) (set_alarm a)"
proof
  fix h :: "'a home"
  assume g: "grown R h"
  then have ok: "body_ok h" by (simp add: grown_def)
  then obtain st where st: "storage h = Some st" "in_txn st"
    by (auto simp: body_ok_def has_storage_def home_in_txn_def)
  have "body_ok (snd (set_alarm a h))" using ok by (rule keepsD [OF set_alarm_body_ok])
  with g st show "grown R (snd (set_alarm a h))"
    by (auto simp: grown_def set_alarm_apply home_committed_def home_view_def save_alarm_frame
        journal_ok_def journal_wf_def rows_of_def)
qed

lemma grown_append: "keeps (grown R) (append J kind data)"
  unfolding append_def by (intro keeps_bindE grown_unix_now keeps_grown_with_storage extends_append)

text \<open>Commands of the engine keep what they keep of the home they carry.\<close>

definition keeps_home :: "('u home \<Rightarrow> bool) \<Rightarrow> ('u wf, 'a) cmd \<Rightarrow> bool" where
  "keeps_home P m \<longleftrightarrow> keeps (\<lambda>w. P (w_home w)) m"

lemma keeps_on_home: "keeps P m \<Longrightarrow> keeps_home P (on_home m)"
  by (auto simp: keeps_home_def keeps_def on_home_def split: prod.splits)

lemma keeps_home_pure [simp]:
  "keeps_home P (okE x)" "keeps_home P (failE e)" "keeps_home P (readE g)" "keeps_home P the_attempt"
  "keeps_home P (set_attempt a)" "keeps_home P (set_pending es)" "keeps_home P (park s)"
  "keeps_home P (fail_run s)" "keeps_home P wf_random" "keeps_home P (diverged k s)"
  "keeps_home P (to_lua rt v)"
  by (auto simp: keeps_home_def keeps_def okE_def failE_def readE_def the_attempt_def set_attempt_def
      set_pending_def writeE_def park_def fail_run_def wf_random_def diverged_def to_lua_def
      split: option.splits prod.splits)

lemma keeps_home_bind: "keeps_home P m \<Longrightarrow> (\<And>x. keeps_home P (f x)) \<Longrightarrow> keeps_home P (bindE m f)"
  unfolding keeps_home_def by (rule keeps_bindE)

lemma keeps_home_then: "keeps_home P m \<Longrightarrow> keeps_home P k \<Longrightarrow> keeps_home P (thenE m k)"
  unfolding keeps_home_def by (rule keeps_thenE)

lemma keeps_home_if: "(b \<Longrightarrow> keeps_home P m) \<Longrightarrow> (\<not> b \<Longrightarrow> keeps_home P k) \<Longrightarrow> keeps_home P (if b then m else k)"
  by simp

lemma keeps_home_option: "(x = None \<Longrightarrow> keeps_home P m) \<Longrightarrow> (\<And>y. x = Some y \<Longrightarrow> keeps_home P (f y)) \<Longrightarrow>
   keeps_home P (case x of None \<Rightarrow> m | Some y \<Rightarrow> f y)"
  by (cases x) auto

lemma keeps_home_list: "(xs = [] \<Longrightarrow> keeps_home P m) \<Longrightarrow> (\<And>y ys. xs = y # ys \<Longrightarrow> keeps_home P (f y ys)) \<Longrightarrow>
   keeps_home P (case xs of [] \<Rightarrow> m | y # ys \<Rightarrow> f y ys)"
  by (cases xs) auto

lemma keeps_home_prod: "(\<And>a b. p = (a, b) \<Longrightarrow> keeps_home P (f a b)) \<Longrightarrow> keeps_home P (case p of (a, b) \<Rightarrow> f a b)"
  by (cases p) auto

lemmas keeps_home_intros = keeps_home_bind keeps_home_then keeps_home_if keeps_home_option
  keeps_home_list keeps_home_prod keeps_home_pure

text \<open>The three things the engine asks of a home property; everything else follows.\<close>

locale home_property =
  fixes P :: "'u home \<Rightarrow> bool"
  assumes tick: "keeps P unix_now_ms"
    and alarm_set: "keeps P (set_alarm a)"
    and read_all: "keeps P (with_storage (read_from J why n))"
    and read_head: "keeps P (with_storage (head J why))"
    and schema: "keeps P (with_storage ensure_schema)"
    and append: "keeps P (with_storage (append_row at kind data))"
    and append_commit: "keeps P (with_storage (thenE (append_row at kind data) (thenE commit begin_txn)))"
    and traces: "P h \<Longrightarrow> P (h\<lparr>ran := x, routed := y\<rparr>)"
begin

lemma keeps_route: "keeps P (route router t)"
proof
  fix h
  assume "P h"
  from traces [OF this, where x = "ran h"] show "P (snd (route router t h))"
    by (simp add: route_def Let_def split: option.split)
qed

lemma keeps_append: "keeps P (Journal.append J kind data)"
  unfolding Journal.append_def by (intro keeps_bindE tick append)

lemma keeps_durable: "keeps_home P (append_durable J kind data)"
  unfolding append_durable_def by (intro keeps_on_home keeps_bindE tick append_commit)

lemma keeps_arm: "keeps_home P (arm a d)"
  unfolding arm_def by (intro keeps_on_home keeps_bindE tick alarm_set)

lemma keeps_now: "keeps_home P wf_now"
  unfolding wf_now_def by (intro keeps_on_home tick)

lemma keeps_ambient: "keeps_home P live \<Longrightarrow> keeps_home P (ambient J tag live)"
  unfolding ambient_def by (intro keeps_home_intros keeps_on_home keeps_append)

lemma keeps_time: "keeps_home P (wf_time J)"
proof -
  have "keeps_home P (ambient J ''time'' (on_home (bindE unix_now_ms (\<lambda>n. okE (JInt (trunc_div n 1000))))))"
    by (intro keeps_ambient keeps_on_home keeps_bindE tick keeps_okE)
  then show ?thesis
    unfolding keeps_home_def keeps_def wf_time_def by (auto split: prod.splits sum.splits)
qed

lemma keeps_uuid: "keeps_home P (wf_uuid J rt)"
proof -
  have "keeps_home P (ambient J ''uuid'' (readE (\<lambda>w. JStr (wr_uuid rt (ticks (w_home w))))))"
    by (intro keeps_ambient keeps_home_pure)
  then show ?thesis
    unfolding keeps_home_def keeps_def wf_uuid_def by (auto split: prod.splits sum.splits)
qed

lemma keeps_body: "keeps_home P (run_body J rt b)"
  by (induction b) (simp_all add: keeps_home_bind keeps_time keeps_uuid)

lemma keeps_exec: "P (w_home w) \<Longrightarrow> P (w_home (snd (exec_body J rt name n bd w)))"
proof -
  assume p: "P (w_home w)"
  let ?w = "w\<lparr>w_in_step := True, w_home := (w_home w)\<lparr>ran := ran (w_home w) @ [(name, n)]\<rparr>\<rparr>"
  have "P (w_home ?w)" using traces [OF p, where y = "routed (w_home w)"] by simp
  then have "P (w_home (snd (run_body J rt (bd (length (ran (w_home w)))) ?w)))"
    using keeps_body by (auto simp: keeps_home_def keeps_def)
  with p show ?thesis
    by (auto simp: exec_body_def Let_def split: option.split prod.split)
qed

lemma keeps_finish_step: "keeps_home P (finish_step J name r b n out)"
  unfolding finish_step_def Let_def
  by (cases out; cases "projr out") (auto intro!: keeps_home_intros keeps_durable keeps_arm split: sum.splits)

lemma keeps_run_step: "keeps_home P (run_step J rt name r b bd n)"
  unfolding keeps_home_def
proof
  fix w :: "'u wf"
  assume p: "P (w_home w)"
  obtain out w1 where e: "exec_body J rt name n bd w = (out, w1)" by force
  have "P (w_home w1)" using keeps_exec [OF p, of J rt name n bd] e by simp
  then show "P (w_home (snd (run_step J rt name r b bd n w)))"
    using keeps_finish_step [of J name r b n out] e by (simp add: run_step_def keeps_home_def keeps_def)
qed

lemma keeps_step: "keeps_home P (wf_step J rt name r b bd)"
  unfolding wf_step_def Let_def
  by (intro keeps_home_bind keeps_home_if keeps_home_pure keeps_home_prod keeps_home_then)
     (auto split: plan.splits intro!: keeps_home_intros keeps_durable keeps_run_step)

lemma keeps_sleep: "keeps_home P (wf_sleep J d)"
  unfolding wf_sleep_def Let_def by (intro keeps_home_intros keeps_now keeps_durable keeps_arm)

lemma keeps_take: "keeps_home P (take_signal rt s rest)"
  unfolding take_signal_def by (intro keeps_home_intros)

lemma keeps_await: "keeps_home P (await_signals J rt ns t)"
  unfolding await_signals_def Let_def
  by (intro keeps_home_intros keeps_now keeps_durable keeps_arm keeps_take)

lemma keeps_launch: "keeps_home P (launch rt c i p)"
  unfolding launch_def Let_def by (intro keeps_home_intros keeps_on_home keeps_route)

lemma keeps_spawn: "keeps_home P (wf_spawn J why rt d i)"
  unfolding wf_spawn_def Let_def
  by (intro keeps_home_intros keeps_on_home read_all keeps_durable keeps_launch)

lemma keeps_prog: "keeps_home P (run_prog J why rt p)"
  by (induction p) (auto intro!: keeps_home_intros keeps_step keeps_sleep keeps_await keeps_spawn
      keeps_time keeps_uuid)

lemma keeps_notify: "P h \<Longrightarrow> P (notify_parent rt p n v h)"
  using keeps_route by (auto simp: notify_parent_def keeps_def split: option.splits)

lemma keeps_finish_run: "P (w_home w) \<Longrightarrow> P (snd (finish_run J rt cx parent out w))"
proof -
  assume p: "P (w_home w)"
  have a: "P (snd (Journal.append J k d (w_home w)))" for k d
    using keepsD [OF keeps_append p] by simp
  show ?thesis
    using p a keeps_notify
    by (simp add: finish_run_def split: sum.split outcome_value.split option.split prod.split) (metis snd_conv)
qed

lemma keeps_run: "keeps P (\<lambda>h. case run_prog J why rt pr (fresh_wf a h) of
    (out, w) \<Rightarrow> finish_run J rt cx parent out w)"
proof
  fix h
  assume p: "P h"
  obtain out w where r: "run_prog J why rt pr (fresh_wf a h) = (out, w)" by force
  have "P (w_home w)"
    using keepsD [OF keeps_prog [unfolded keeps_home_def], of "fresh_wf a h" J why rt pr] p r
    by (simp add: fresh_wf_def)
  then show "P (snd (case run_prog J why rt pr (fresh_wf a h) of (out, w) \<Rightarrow> finish_run J rt cx parent out w))"
    using keeps_finish_run r by simp
qed

lemma keeps_begin_run: "keeps P (begin_run J rt es i p)"
  unfolding begin_run_def
  by (auto split: list.split intro!: keeps_bindE keeps_thenE keeps_append)

lemma keeps_run_attempt: "keeps P (run_attempt J why rt cx input resume)"
  unfolding run_attempt_def Let_def
  by (intro keeps_bindE read_all keeps_case_option keeps_if keeps_okE)
     (auto split: prod.split option.split intro!: keeps_bindE keeps_begin_run keeps_run)

lemma keeps_cancel_children: "P h \<Longrightarrow> P (cancel_children router r cs h)"
  by (induction cs arbitrary: h) (auto intro: keepsD [OF keeps_route])

lemma keeps_workflow: "keeps P (workflow_dispatch J why rt cx c)"
  unfolding workflow_dispatch_def wf_cancel_def wf_status_def
  by (intro keeps_thenE keeps_bindE keeps_if schema read_all read_head keeps_run_attempt keeps_append
      keeps_case_option keeps_okE keeps_failE keeps_writeE keeps_cancel_children)

end

section \<open>The engine as a method body\<close>

interpretation wf_grown: home_property "grown R" for R
proof
  show "grown R (h\<lparr>ran := x, routed := y\<rparr>)" if "grown R h" for h :: "'u home" and x y
    by (rule grown_frame [OF that]) simp_all
qed (intro grown_unix_now grown_set_alarm keeps_grown_with_storage extends_reads extends_schema
    extends_append extends_journal_thenE extends_commit_begin)+

text \<open>The weaker property for a file of any shape.\<close>

definition txn_kept :: "('u sqlite, 'a) cmd \<Rightarrow> bool" where
  "txn_kept m \<longleftrightarrow> (\<forall>st. in_txn st \<longrightarrow> in_txn (snd (m st)) \<and> load_alarm_row (snd (m st)) = load_alarm_row st)"

lemma keeps_body_ok_storage: "txn_kept m \<Longrightarrow> keeps body_ok (with_storage m)"
  by (auto simp: keeps_def txn_kept_def body_ok_def has_storage_def home_in_txn_def alarm_synced_def
      with_storage_Some)

lemma txn_kept_safe: "txn_safe m \<Longrightarrow> txn_kept m"
  by (auto simp: txn_safe_def txn_kept_def)

lemma txn_kept_thenE:
  assumes "txn_kept m" "txn_kept k"
  shows "txn_kept (thenE m k)"
  using assms unfolding txn_kept_def thenE_def bindE_def by (auto split: prod.splits sum.splits)

lemma safe_journal_ops:
  "txn_safe (read_from J why n)" "txn_safe (head J why)" "txn_safe (append_row at kind data)"
  by (auto simp: txn_safe_def read_from_def head_def read_from_limit_def bindE_def okE_def append_row_def
      append_db_def load_alarm_row_def Let_def split: option.splits sum.splits)

lemma safe_schema: "txn_safe ensure_schema"
  unfolding ensure_schema_def
  by (intro txn_safe_intros txn_safe_version txn_safe_okE txn_safe_stmt)
     (auto simp: create_journal_db_def create_pins_db_def)

lemma kept_commit_begin: "txn_kept (thenE commit begin_txn)"
  by (auto simp: txn_kept_def thenE_def bindE_def commit_def begin_txn_def in_txn_def load_alarm_row_def
      view_def split: option.splits)

interpretation wf_body_ok: home_property body_ok
proof
  show "body_ok (h\<lparr>ran := x, routed := y\<rparr>)" if "body_ok h" for h :: "'u home" and x y
    using that by (auto simp: body_ok_def has_storage_def home_in_txn_def alarm_synced_def)
  show "keeps body_ok (unix_now_ms :: ('u home, int) cmd)"
    by (auto simp: keeps_def body_ok_def has_storage_def home_in_txn_def alarm_synced_def split: option.splits)
qed (intro set_alarm_body_ok keeps_body_ok_storage txn_kept_safe safe_journal_ops safe_schema
    txn_kept_thenE kept_commit_begin)+

interpretation wf_bare: home_property bare
  by unfold_locales (auto intro: keeps_intros simp: bare_def)

interpretation workflow_body: object_body "as_body (workflow_dispatch J why rt cx c)" for J why rt cx c
proof
  fix h :: "'u home"
  show "body_ok (snd (as_body (workflow_dispatch J why rt cx c) h))" if "body_ok h"
    using keepsD [OF wf_body_ok.keeps_workflow that] by simp
  show "storage (snd (as_body (workflow_dispatch J why rt cx c) h)) = None" if "storage h = None"
    using keepsD [OF wf_bare.keeps_workflow, of h] that by (simp add: bare_def)
qed

section \<open>An append-only journal\<close>

lemma begun_grown:
  assumes "quiescent h" "home_committed h = Some d" "journal_ok d"
  shows "grown (rows_of d) (begun h)"
proof -
  have "has_storage h" using assms(2) by (auto simp: home_committed_def has_storage_def)
  with assms show ?thesis by (simp add: grown_def begun_body_ok)
qed

end
