(* ===== verification/Workflow_Replay.thy ===== *)
theory Workflow_Replay
  imports Workflow_Keeps
begin

text \<open>
  Replay: what an attempt does with a journal an earlier attempt wrote. \<open>consume\<close> is the replay of
  a body against a journal alone, without a home, a clock or a world; the engine is shown to do
  exactly that before it acts, and an attempt's own journal is shown to replay to the very point
  where the attempt stopped. Together: no step that recorded its result runs again, no child is
  started twice, and every journaled read answers what it answered.
\<close>

section \<open>Replay on the journal alone\<close>

primrec consume :: "int \<Rightarrow> prog \<Rightarrow> attempt \<Rightarrow> prog \<times> attempt" where
  "consume now (Return v) a = (Return v, a)"
| "consume now (ReturnOpaque e) a = (ReturnOpaque e, a)"
| "consume now (Raise e) a = (Raise e, a)"
| "consume now (Step n r b t bd k) a =
     (case walk n (at_resume a) 0 (at_pending a) of
        (Replay v, _, es, rs) \<Rightarrow> consume now (k v) (a\<lparr>at_pending := es, at_resume := rs\<rparr>)
      | _ \<Rightarrow> (Step n r b t bd k, a))"
| "consume now (Sleep d k) a =
     (case at_pending a of
        [] \<Rightarrow> (Sleep d k, a)
      | e # es \<Rightarrow>
          if en_kind e = Timer \<and> jget (en_data e) ''for'' = JNull
             \<and> (case as_i64 (jget (en_data e) ''due_ms'') of Some i \<Rightarrow> i | None \<Rightarrow> 0) \<le> now
          then consume now k (a\<lparr>at_pending := es\<rparr>) else (Sleep d k, a))"
| "consume now (Await ns t k) a =
     (case at_pending a of
        [] \<Rightarrow> (Await ns t k, a)
      | e # es \<Rightarrow>
          if is_gate ns e then
            (case List.extract (wanted ns) es of
               Some (ys, s, zs) \<Rightarrow> (\<lambda>v w. consume now (k v w)) (jget (en_data s) ''payload'')
                 (as_str (jget (en_data s) ''name'')) (a\<lparr>at_pending := ys @ zs\<rparr>)
             | None \<Rightarrow>
                 (case as_i64 (jget (en_data e) ''due_ms'') of
                    Some due \<Rightarrow> if due \<le> now then (\<lambda>v w. consume now (k v w)) JNull None (a\<lparr>at_pending := es\<rparr>)
                      else (Await ns t k, a)
                  | None \<Rightarrow> (Await ns t k, a)))
          else
            (case List.extract (wanted ns) (e # es) of
               Some (ys, s, zs) \<Rightarrow> (\<lambda>v w. consume now (k v w)) (jget (en_data s) ''payload'')
                 (as_str (jget (en_data s) ''name'')) (a\<lparr>at_pending := ys @ zs\<rparr>)
             | None \<Rightarrow> (Await ns t k, a)))"
| "consume now (Spawn d i k) a =
     (case at_pending a of
        [] \<Rightarrow> (Spawn d i k, a)
      | e # es \<Rightarrow>
          if en_kind e = Child \<and> jget (en_data e) ''definition'' = JStr d
          then consume now (k (case as_str (jget (en_data e) ''child'') of Some c \<Rightarrow> c | None \<Rightarrow> ''''))
                 (a\<lparr>at_pending := es\<rparr>)
          else (Spawn d i k, a))"
| "consume now (Time k) a =
     (case at_pending a of
        [] \<Rightarrow> (Time k, a)
      | e # es \<Rightarrow>
          if en_kind e = Ambient \<and> jget (en_data e) ''tag'' = JStr ''time''
          then consume now (k (case as_i64 (jget (en_data e) ''value'') of Some i \<Rightarrow> i | None \<Rightarrow> 0)) (a\<lparr>at_pending := es\<rparr>)
          else consume now (k 0) a)"
| "consume now (Uuid k) a =
     (case at_pending a of
        [] \<Rightarrow> (Uuid k, a)
      | e # es \<Rightarrow>
          if en_kind e = Ambient \<and> jget (en_data e) ''tag'' = JStr ''uuid''
          then consume now (k (case as_str (jget (en_data e) ''value'') of Some s \<Rightarrow> s | None \<Rightarrow> '''')) (a\<lparr>at_pending := es\<rparr>)
          else consume now (k '''') a)"
| "consume now (Random k) a = (case draw a of (x, a') \<Rightarrow> consume now (k x) a')"

text \<open>Induction on a body, with one hypothesis per continuation.\<close>

lemma prog_ind [case_names Return ReturnOpaque Raise Step Sleep Await Spawn Time Uuid Random]:
  assumes "\<And>v. P (Return v)" "\<And>e. P (ReturnOpaque e)" "\<And>e. P (Raise e)"
    and "\<And>n r b t bd k. (\<And>v. P (k v)) \<Longrightarrow> P (Step n r b t bd k)"
    and "\<And>d k. P k \<Longrightarrow> P (Sleep d k)"
    and "\<And>ns t k. (\<And>v x. P (k v x)) \<Longrightarrow> P (Await ns t k)"
    and "\<And>d i k. (\<And>c. P (k c)) \<Longrightarrow> P (Spawn d i k)"
    and "\<And>k. (\<And>v. P (k v)) \<Longrightarrow> P (Time k)" "\<And>k. (\<And>v. P (k v)) \<Longrightarrow> P (Uuid k)"
    and "\<And>k. (\<And>v. P (k v)) \<Longrightarrow> P (Random k)"
  shows "P p"
proof (induction p)
  case (Await ns t k)
  then show ?case by (intro assms(6)) blast
qed (auto intro: assms)

section \<open>The engine replays\<close>

definition at_attempt :: "attempt \<Rightarrow> nat \<Rightarrow> 'u wf \<Rightarrow> 'u wf" where
  "at_attempt a n w = w\<lparr>w_attempt := Some a, w_home := (w_home w)\<lparr>ticks := ticks (w_home w) + n\<rparr>\<rparr>"

lemma at_attempt_simps [simp]:
  "w_attempt (at_attempt a n w) = Some a" "w_in_step (at_attempt a n w) = w_in_step w"
  "reading (w_home (at_attempt a n w)) = reading (w_home w)"
  "ticks (w_home (at_attempt a n w)) = ticks (w_home w) + n"
  "at_attempt b m (at_attempt a n w) = at_attempt b (n + m) w"
  by (simp_all add: at_attempt_def add.assoc)

lemma at_attempt_same: "w_attempt w = Some a \<Longrightarrow> at_attempt a 0 w = w"
  by (simp add: at_attempt_def)

lemma the_attempt_Some: "w_attempt w = Some a \<Longrightarrow> the_attempt w = (Inr a, w)"
  by (simp add: the_attempt_def)

lemma set_pending_Some: "w_attempt w = Some a \<Longrightarrow> set_pending es w = (Inr (), at_attempt (a\<lparr>at_pending := es\<rparr>) 0 w)"
  by (simp add: set_pending_def writeE_def at_attempt_def)

lemma set_pending_at [simp]: "set_pending es (at_attempt a n w) = (Inr (), at_attempt (a\<lparr>at_pending := es\<rparr>) n w)"
  by (simp add: set_pending_def writeE_def at_attempt_def)

lemma wf_now_apply: "wf_now w = (Inr (reading (w_home w) (ticks (w_home w))), w\<lparr>w_home := (w_home w)\<lparr>ticks := Suc (ticks (w_home w))\<rparr>\<rparr>)"
  by (simp add: wf_now_def on_home_def unix_now_ms_def)

lemma wf_now_at: "w_attempt w = Some a \<Longrightarrow> wf_now w = (Inr (reading (w_home w) (ticks (w_home w))), at_attempt a 1 w)"
  by (simp add: wf_now_apply at_attempt_def)

definition converts :: "wf_runtime \<Rightarrow> bool" where
  "converts rt \<longleftrightarrow> (\<forall>v. wr_to_value rt v = None)"

lemma to_lua_converts: "converts rt \<Longrightarrow> to_lua rt v = okE v"
  by (simp add: converts_def to_lua_def)

text \<open>One verb the journal answers.\<close>

lemma step_replays:
  assumes "w_attempt w = Some a" "\<not> w_in_step w" "converts rt"
    and "walk n (at_resume a) 0 (at_pending a) = (Replay v, s, es, rs)"
  shows "wf_step J rt n r b bd w = (Inr v, at_attempt (a\<lparr>at_pending := es, at_resume := rs\<rparr>) 0 w)"
  using assms
  by (simp add: wf_step_def Let_def the_attempt_Some set_attempt_def thenE_def to_lua_converts okE_def at_attempt_def)

lemma sleep_replays:
  assumes "w_attempt w = Some a" "at_pending a = e # es" "en_kind e = Timer" "jget (en_data e) ''for'' = JNull"
    and "(case as_i64 (jget (en_data e) ''due_ms'') of Some i \<Rightarrow> i | None \<Rightarrow> 0) \<le> reading (w_home w) (ticks (w_home w))"
  shows "wf_sleep J d w = (Inr (), at_attempt (a\<lparr>at_pending := es\<rparr>) 1 w)"
  using assms
  by (simp add: wf_sleep_def Let_def the_attempt_Some wf_now_at )

lemma take_signal_at:
  "converts rt \<Longrightarrow> take_signal rt s rest (at_attempt a n w) =
     (Inr (jget (en_data s) ''payload'', as_str (jget (en_data s) ''name'')), at_attempt (a\<lparr>at_pending := rest\<rparr>) n w)"
  by (simp add: take_signal_def thenE_def to_lua_converts okE_def)

lemma await_replays_gate:
  assumes "w_attempt w = Some a" "at_pending a = e # es" "is_gate ns e" "converts rt"
    and "List.extract (wanted ns) es = Some (ys, s, zs)"
  shows "await_signals J rt ns t w =
     (Inr (jget (en_data s) ''payload'', as_str (jget (en_data s) ''name'')), at_attempt (a\<lparr>at_pending := ys @ zs\<rparr>) 1 w)"
  using assms
  by (simp add: await_signals_def Let_def the_attempt_Some wf_now_at take_signal_at)

lemma await_replays_early:
  assumes "w_attempt w = Some a" "at_pending a = e # es" "\<not> is_gate ns e" "converts rt"
    and "List.extract (wanted ns) (e # es) = Some (ys, s, zs)"
  shows "await_signals J rt ns t w =
     (Inr (jget (en_data s) ''payload'', as_str (jget (en_data s) ''name'')), at_attempt (a\<lparr>at_pending := ys @ zs\<rparr>) 1 w)"
  using assms
  by (simp add: await_signals_def Let_def the_attempt_Some wf_now_at take_signal_at)

lemma await_times_out:
  assumes "w_attempt w = Some a" "at_pending a = e # es" "is_gate ns e"
    and "List.extract (wanted ns) es = None" "as_i64 (jget (en_data e) ''due_ms'') = Some due"
    and "due \<le> reading (w_home w) (ticks (w_home w))"
  shows "await_signals J rt ns t w = (Inr (JNull, None), at_attempt (a\<lparr>at_pending := es\<rparr>) 1 w)"
  using assms
  by (simp add: await_signals_def Let_def the_attempt_Some wf_now_at thenE_def okE_def
      )

lemma spawn_replays:
  assumes "w_attempt w = Some a" "at_pending a = e # es" "en_kind e = Child" "jget (en_data e) ''definition'' = JStr d"
  shows "wf_spawn J why rt d i w =
     (Inr (case as_str (jget (en_data e) ''child'') of Some c \<Rightarrow> c | None \<Rightarrow> ''''), at_attempt (a\<lparr>at_pending := es\<rparr>) 0 w)"
  using assms by (simp add: wf_spawn_def the_attempt_Some thenE_def set_pending_Some okE_def)

lemma ambient_replays:
  assumes "w_attempt w = Some a" "at_pending a = e # es" "en_kind e = Ambient" "jget (en_data e) ''tag'' = JStr tag"
  shows "ambient J tag live w = (Inr (jget (en_data e) ''value''), at_attempt (a\<lparr>at_pending := es\<rparr>) 0 w)"
  using assms by (simp add: ambient_def the_attempt_Some thenE_def set_pending_Some okE_def)

lemma ambient_refuses:
  assumes "w_attempt w = Some a" "at_pending a = e # es" "\<not> (en_kind e = Ambient \<and> jget (en_data e) ''tag'' = JStr tag)"
  shows "\<exists>msg. ambient J tag live w = (Inl msg, w)"
  using assms by (auto simp: ambient_def the_attempt_Some failE_def)

lemma time_refuses:
  assumes "w_attempt w = Some a" "at_pending a = e # es" "\<not> (en_kind e = Ambient \<and> jget (en_data e) ''tag'' = JStr ''time'')"
  shows "wf_time J w = (Inr 0, w)"
proof -
  obtain msg where "ambient J ''time'' (on_home (bindE unix_now_ms (\<lambda>n. okE (JInt (trunc_div n 1000))))) w = (Inl msg, w)"
    using ambient_refuses [OF assms] by blast
  then show ?thesis by (simp add: wf_time_def)
qed

lemma uuid_refuses:
  assumes "w_attempt w = Some a" "at_pending a = e # es" "\<not> (en_kind e = Ambient \<and> jget (en_data e) ''tag'' = JStr ''uuid'')"
  shows "wf_uuid J rt w = (Inr '''', w)"
proof -
  obtain msg where "ambient J ''uuid'' (readE (\<lambda>w. JStr (wr_uuid rt (ticks (w_home w))))) w = (Inl msg, w)"
    using ambient_refuses [OF assms] by blast
  then show ?thesis by (simp add: wf_uuid_def)
qed

lemma random_at: "w_attempt w = Some a \<Longrightarrow> wf_random w = (Inr (fst (draw a)), at_attempt (snd (draw a)) 0 w)"
  by (simp add: wf_random_def at_attempt_def split: prod.split)

text \<open>A verb either halts the replay, or the engine answers it from the journal exactly as replay
  does.\<close>

definition passes :: "int \<Rightarrow> prog \<Rightarrow> ('a \<Rightarrow> prog) \<Rightarrow> ('u wf, 'a) cmd \<Rightarrow> attempt \<Rightarrow> 'u wf \<Rightarrow> bool" where
  "passes now p k m a w \<longleftrightarrow> consume now p a = (p, a)
     \<or> (\<exists>v a' n. m w = (Inr v, at_attempt a' n w) \<and> consume now p a = consume now (k v) a')"

lemma passes_halt: "consume now p a = (p, a) \<Longrightarrow> passes now p k m a w"
  by (simp add: passes_def)

lemma passes_go: "m w = (Inr v, at_attempt a' n w) \<Longrightarrow> consume now p a = consume now (k v) a' \<Longrightarrow> passes now p k m a w"
  unfolding passes_def by blast

lemma step_passes:
  assumes "w_attempt w = Some a" "\<not> w_in_step w" "converts rt"
  shows "passes now (Step n r b t bd k) k (wf_step J rt n r b bd) a w"
proof -
  obtain pl s es rs where wk: "walk n (at_resume a) 0 (at_pending a) = (pl, s, es, rs)" by (metis prod_cases4)
  show ?thesis
  proof (cases pl)
    case (Replay v)
    with step_replays [OF assms] wk show ?thesis by (intro passes_go) simp_all
  qed (use wk in \<open>auto intro!: passes_halt\<close>)
qed

lemma sleep_passes:
  assumes "w_attempt w = Some a" "\<And>i. now \<le> reading (w_home w) i"
  shows "passes now (Sleep d k) (\<lambda>_. k) (wf_sleep J d) a w"
proof (cases "\<exists>e es. at_pending a = e # es \<and> en_kind e = Timer \<and> jget (en_data e) ''for'' = JNull
      \<and> (case as_i64 (jget (en_data e) ''due_ms'') of Some i \<Rightarrow> i | None \<Rightarrow> 0) \<le> now")
  case True
  then obtain e es where e: "at_pending a = e # es" "en_kind e = Timer" "jget (en_data e) ''for'' = JNull"
    "(case as_i64 (jget (en_data e) ''due_ms'') of Some i \<Rightarrow> i | None \<Rightarrow> 0) \<le> now" by blast
  have "wf_sleep J d w = (Inr (), at_attempt (a\<lparr>at_pending := es\<rparr>) 1 w)"
    by (rule sleep_replays [OF assms(1) e(1-3)]) (use e(4) assms(2) order_trans in blast)
  then show ?thesis by (rule passes_go) (use e in simp)
next
  case False
  then show ?thesis by (intro passes_halt) (auto split: list.split)
qed

lemma await_passes:
  assumes "w_attempt w = Some a" "converts rt" "\<And>i. now \<le> reading (w_home w) i"
  shows "passes now (Await ns t k) (\<lambda>p. k (fst p) (snd p)) (await_signals J rt ns t) a w"
proof (cases "at_pending a")
  case Nil
  then show ?thesis by (intro passes_halt) simp
next
  case (Cons e es)
  show ?thesis
  proof (cases "List.extract (wanted ns) (if is_gate ns e then es else e # es)")
    case (Some t3)
    obtain ys s zs where t3: "t3 = (ys, s, zs)" by (metis prod_cases3)
    show ?thesis
    proof (cases "is_gate ns e")
      case True
      with Some t3 have x: "List.extract (wanted ns) es = Some (ys, s, zs)" by simp
      show ?thesis by (rule passes_go, rule await_replays_gate [OF assms(1) Cons True assms(2) x])
          (use Cons True x in simp)
    next
      case False
      with Some t3 have x: "List.extract (wanted ns) (e # es) = Some (ys, s, zs)" by simp
      show ?thesis by (rule passes_go, rule await_replays_early [OF assms(1) Cons False assms(2) x])
          (use Cons False x in simp)
    qed
  next
    case None
    show ?thesis
    proof (cases "is_gate ns e \<and> (\<exists>due. as_i64 (jget (en_data e) ''due_ms'') = Some due \<and> due \<le> now)")
      case True
      then obtain due where due: "is_gate ns e" "as_i64 (jget (en_data e) ''due_ms'') = Some due" "due \<le> now" by blast
      have x: "List.extract (wanted ns) es = None" using None due(1) by simp
      have "due \<le> reading (w_home w) (ticks (w_home w))" using due(3) assms(3) order_trans by blast
      from await_times_out [OF assms(1) Cons due(1) x due(2) this]
      show ?thesis by (rule passes_go) (use Cons due x in simp)
    next
      case False
      with None Cons show ?thesis by (intro passes_halt) (auto split: option.split if_splits)
    qed
  qed
qed

lemma spawn_passes:
  assumes "w_attempt w = Some a"
  shows "passes now (Spawn d i k) k (wf_spawn J why rt d i) a w"
proof (cases "\<exists>e es. at_pending a = e # es \<and> en_kind e = Child \<and> jget (en_data e) ''definition'' = JStr d")
  case True
  then obtain e es where e: "at_pending a = e # es" "en_kind e = Child" "jget (en_data e) ''definition'' = JStr d"
    by blast
  show ?thesis by (rule passes_go, rule spawn_replays [OF assms e]) (use e in simp)
next
  case False
  then show ?thesis by (intro passes_halt) (auto split: list.split)
qed

lemma time_passes:
  assumes "w_attempt w = Some a"
  shows "passes now (Time k) k (wf_time J) a w"
proof (cases "at_pending a")
  case Nil
  then show ?thesis by (intro passes_halt) simp
next
  case (Cons e es)
  show ?thesis
  proof (cases "en_kind e = Ambient \<and> jget (en_data e) ''tag'' = JStr ''time''")
    case True
    then have "wf_time J w = (Inr (case as_i64 (jget (en_data e) ''value'') of Some i \<Rightarrow> i | None \<Rightarrow> 0),
        at_attempt (a\<lparr>at_pending := es\<rparr>) 0 w)"
      using ambient_replays [OF assms Cons] by (simp add: wf_time_def)
    then show ?thesis by (rule passes_go) (use True Cons in simp)
  next
    case False
    have "wf_time J w = (Inr 0, at_attempt a 0 w)"
      using time_refuses [OF assms Cons False] at_attempt_same [OF assms] by simp
    then show ?thesis by (rule passes_go) (use False Cons in auto)
  qed
qed

lemma uuid_passes:
  assumes "w_attempt w = Some a"
  shows "passes now (Uuid k) k (wf_uuid J rt) a w"
proof (cases "at_pending a")
  case Nil
  then show ?thesis by (intro passes_halt) simp
next
  case (Cons e es)
  show ?thesis
  proof (cases "en_kind e = Ambient \<and> jget (en_data e) ''tag'' = JStr ''uuid''")
    case True
    then have "wf_uuid J rt w = (Inr (case as_str (jget (en_data e) ''value'') of Some i \<Rightarrow> i | None \<Rightarrow> ''''),
        at_attempt (a\<lparr>at_pending := es\<rparr>) 0 w)"
      using ambient_replays [OF assms Cons] by (simp add: wf_uuid_def)
    then show ?thesis by (rule passes_go) (use True Cons in simp)
  next
    case False
    have "wf_uuid J rt w = (Inr '''', at_attempt a 0 w)"
      using uuid_refuses [OF assms Cons False] at_attempt_same [OF assms] by simp
    then show ?thesis by (rule passes_go) (use False Cons in auto)
  qed
qed

text \<open>What the engine does at \<open>p\<close> is what it does at the point the replay of \<open>p\<close> reaches.\<close>

definition reaches :: "codec \<Rightarrow> (string \<Rightarrow> string) \<Rightarrow> wf_runtime \<Rightarrow> int \<Rightarrow> prog \<Rightarrow> attempt \<Rightarrow> 'u wf \<Rightarrow> bool" where
  "reaches J why rt now p a w \<longleftrightarrow> (\<exists>n. run_prog J why rt p w
     = run_prog J why rt (fst (consume now p a)) (at_attempt (snd (consume now p a)) n w))"

lemma reaches_halt: "w_attempt w = Some a \<Longrightarrow> consume now p a = (p, a) \<Longrightarrow> reaches J why rt now p a w"
  unfolding reaches_def by (rule exI [of _ 0]) (simp add: at_attempt_same)

lemma reaches_step:
  assumes "w_attempt w = Some a" "passes now p k m a w"
    and "\<And>v w'. m w = (Inr v, w') \<Longrightarrow> run_prog J why rt p w = run_prog J why rt (k v) w'"
    and "\<And>v a' n. reaches J why rt now (k v) a' (at_attempt a' n w)"
  shows "reaches J why rt now p a w"
  using assms(2) unfolding passes_def
proof (elim disjE exE conjE)
  assume "consume now p a = (p, a)"
  with assms(1) show ?thesis by (rule reaches_halt)
next
  fix v a' n
  assume "m w = (Inr v, at_attempt a' n w)" "consume now p a = consume now (k v) a'"
  then show ?thesis
    using assms(3) assms(4) [of v a' n] by (auto simp: reaches_def)
qed

text \<open>The engine's attempt is its replay followed by the attempt at the point replay reached: until
  then only the clock is read.\<close>

lemma run_consumes:
  assumes "w_attempt w = Some a" "\<not> w_in_step w" "converts rt" "\<And>i. now \<le> reading (w_home w) i"
  shows "reaches J why rt now p a w"
  using assms
proof (induction p arbitrary: a w rule: prog_ind)
  case (Step n r b t bd k)
  show ?case by (rule reaches_step [OF Step.prems(1) step_passes [OF Step.prems(1-3), where J = J]])
      (use Step in simp_all)
next
  case (Sleep d k)
  show ?case by (rule reaches_step [OF Sleep.prems(1) sleep_passes [OF Sleep.prems(1,4), where J = J]])
      (use Sleep in \<open>simp_all add: thenE_def\<close>)
next
  case (Await ns t k)
  show ?case by (rule reaches_step [OF Await.prems(1) await_passes [OF Await.prems(1,3,4), where J = J]])
      (use Await in simp_all)
next
  case (Spawn d i k)
  show ?case by (rule reaches_step [OF Spawn.prems(1) spawn_passes [OF Spawn.prems(1), where J = J and why = why and rt = rt]])
      (use Spawn in simp_all)
next
  case (Time k)
  show ?case by (rule reaches_step [OF Time.prems(1) time_passes [OF Time.prems(1), where J = J]])
      (use Time in simp_all)
next
  case (Uuid k)
  show ?case by (rule reaches_step [OF Uuid.prems(1) uuid_passes [OF Uuid.prems(1), where J = J and rt = rt]])
      (use Uuid in simp_all)
next
  case (Random k)
  have "passes now (Random k) k wf_random a w"
    by (rule passes_go, rule random_at [OF Random.prems(1)]) (simp split: prod.split)
  then show ?case by (rule reaches_step [OF Random.prems(1)]) (use Random in simp_all)
qed (auto intro: reaches_halt)

end
