(* ===== verification/Workflow_Record.thy ===== *)
theory Workflow_Record
  imports Workflow_Replay
begin

text \<open>
  Recording: the rows an attempt appends replay to the point where it stopped. The hypotheses name
  what this rests on: serde reads back what it wrote for values without floats, every recorded
  value converts into the vm, no test fakes are installed, step bodies do not read the journaled
  clock, no live step starts over unread journal rows, and the clock does not run backwards.
\<close>

section \<open>Rows an operation appends\<close>

definition jrows :: "'u wf \<Rightarrow> journal_row list option" where
  "jrows w = Option.bind (home_view (w_home w)) wf_journal"

definition nosig :: "jentry list \<Rightarrow> bool" where
  "nosig es \<longleftrightarrow> (\<forall>e \<in> set es. en_kind e \<noteq> Signal)"

lemma nosig_simps [simp]: "nosig []" "nosig (e # es) \<longleftrightarrow> en_kind e \<noteq> Signal \<and> nosig es"
    "nosig (xs @ ys) \<longleftrightarrow> nosig xs \<and> nosig ys"
  by (auto simp: nosig_def)

definition faithful :: "codec \<Rightarrow> json \<Rightarrow> bool" where
  "faithful J d \<longleftrightarrow> from_text J (to_text J d) = Some d"

lemma faithful_float_free: "codec_round_trips J \<Longrightarrow> float_free d \<Longrightarrow> faithful J d"
  by (simp add: codec_round_trips_def faithful_def)

text \<open>\<open>appends J k d m\<close>: whatever \<open>m\<close> answers, it appended exactly the row \<open>(k, d)\<close>.\<close>

definition is_row :: "codec \<Rightarrow> entry_kind \<Rightarrow> json \<Rightarrow> journal_row \<Rightarrow> bool" where
  "is_row J k d row \<longleftrightarrow> j_kind row = kind_str k \<and> j_data row = to_text J d"

lemma decode_is_row:
  "is_row J k d row \<Longrightarrow> faithful J d \<Longrightarrow> \<exists>e. decode_row J why row = Inr e \<and> en_kind e = k \<and> en_data e = d"
  by (simp add: is_row_def faithful_def decode_row_def)

lemma append_row_view:
  assumes "wf_journal (view st) = Some R"
  shows "\<exists>row. j_kind row = kind \<and> j_data row = data \<and> (\<exists>s. fst (append_row at kind data st) = Inr s)
     \<and> wf_journal (view (snd (append_row at kind data st))) = Some (R @ [row])"
  using assms by (simp add: append_row_def append_db_def Let_def)

lemma commit_begin_view: "view (snd (thenE commit begin_txn st)) = view st"
  by (auto simp: thenE_def bindE_def commit_def begin_txn_def view_def in_txn_def split: option.splits)

lemma home_jrows_tick [simp]: "home_view (h\<lparr>ticks := n\<rparr>) = home_view h"
  by (simp add: home_view_def)

lemma jrows_storage:
  "Option.bind (home_view h) wf_journal = Some R \<Longrightarrow> \<exists>st. storage h = Some st \<and> wf_journal (view st) = Some R"
  by (auto simp: home_view_def bind_eq_Some_conv)

lemma durable_appends:
  assumes "jrows w = Some R"
  shows "\<exists>row. is_row J k d row \<and> jrows (snd (append_durable J k d w)) = Some (R @ [row])"
proof -
  let ?h = "(w_home w)\<lparr>ticks := Suc (ticks (w_home w))\<rparr>"
  from assms obtain st where st: "storage (w_home w) = Some st" "wf_journal (view st) = Some R"
    using jrows_storage by (auto simp: jrows_def)
  let ?at = "reading (w_home w) (ticks (w_home w))"
  from append_row_view [OF st(2), of "kind_str k" "to_text J d" ?at]
  obtain row s st1 where r: "is_row J k d row" "append_row ?at (kind_str k) (to_text J d) st = (Inr s, st1)"
      "wf_journal (view st1) = Some (R @ [row])"
    unfolding is_row_def by (metis prod.collapse)
  have v: "view (snd (thenE (append_row ?at (kind_str k) (to_text J d)) (thenE commit begin_txn) st)) = view st1"
    unfolding thenE_def [of "append_row ?at (kind_str k) (to_text J d)"] using r(2) commit_begin_view by simp
  have "home_view (w_home (snd (append_durable J k d w))) = Some (view st1)"
    using st v by (simp add: append_durable_def on_home_def unix_now_ms_def bindE_def with_storage_Some
        home_view_def split: prod.split)
  with r show ?thesis by (auto simp: jrows_def)
qed

lemma append_appends:
  assumes "jrows w = Some R"
  shows "\<exists>row s. is_row J k d row \<and> fst (on_home (append J k d) w) = Inr s
     \<and> jrows (snd (on_home (append J k d) w)) = Some (R @ [row])"
proof -
  from assms obtain st where st: "storage (w_home w) = Some st" "wf_journal (view st) = Some R"
    using jrows_storage by (auto simp: jrows_def)
  let ?at = "reading (w_home w) (ticks (w_home w))"
  from append_row_view [OF st(2), of "kind_str k" "to_text J d" ?at]
  obtain row s st1 where r: "is_row J k d row" "append_row ?at (kind_str k) (to_text J d) st = (Inr s, st1)"
      "wf_journal (view st1) = Some (R @ [row])"
    unfolding is_row_def by (metis prod.collapse)
  with st show ?thesis
    by (auto simp: append_def on_home_def unix_now_ms_def bindE_def with_storage_Some jrows_def home_view_def
        intro!: exI [of _ row])
qed

text \<open>Everything a command appends decodes and holds no signal.\<close>

definition emits :: "codec \<Rightarrow> (string \<Rightarrow> string) \<Rightarrow> ('u wf, 'a) cmd \<Rightarrow> bool" where
  "emits J why m \<longleftrightarrow> (\<forall>w R. jrows w = Some R \<longrightarrow> (\<exists>rows es. jrows (snd (m w)) = Some (R @ rows)
     \<and> decode_rows J why rows = Inr es \<and> nosig es))"

lemma emitsD: "emits J why m \<Longrightarrow> jrows w = Some R \<Longrightarrow> \<exists>rows es. jrows (snd (m w)) = Some (R @ rows)
     \<and> decode_rows J why rows = Inr es \<and> nosig es"
  by (auto simp: emits_def)

lemma emits_quiet: "(\<And>w. jrows (snd (m w)) = jrows w) \<Longrightarrow> emits J why m"
  by (simp add: emits_def)

lemma emits_bind_strong:
  assumes "emits J why m" "\<And>w x w1. m w = (Inr x, w1) \<Longrightarrow> emits J why (f x)"
  shows "emits J why (bindE m f)"
  unfolding emits_def
proof (intro allI impI)
  fix w :: "'a wf" and R
  assume R: "jrows w = Some R"
  obtain r w1 where m: "m w = (r, w1)" by force
  with emitsD [OF assms(1) R] obtain rows es where 1: "jrows w1 = Some (R @ rows)" "decode_rows J why rows = Inr es" "nosig es"
    by auto
  show "\<exists>rows es. jrows (snd (bindE m f w)) = Some (R @ rows) \<and> decode_rows J why rows = Inr es \<and> nosig es"
  proof (cases r)
    case (Inl e)
    with m 1 show ?thesis by auto
  next
    case (Inr x)
    with m have "emits J why (f x)" by (intro assms(2)) simp
    from emitsD [OF this 1(1)] obtain rows2 es2 where
      2: "jrows (snd (f x w1)) = Some ((R @ rows) @ rows2)" "decode_rows J why rows2 = Inr es2" "nosig es2" by blast
    with m Inr 1 show ?thesis
      by (intro exI [of _ "rows @ rows2"] exI [of _ "es @ es2"]) (simp add: decode_rows_append)
  qed
qed

lemma emits_bind: "emits J why m \<Longrightarrow> (\<And>x. emits J why (f x)) \<Longrightarrow> emits J why (bindE m f)"
  by (rule emits_bind_strong)

lemma emits_then: "emits J why m \<Longrightarrow> emits J why k \<Longrightarrow> emits J why (thenE m k)"
  unfolding thenE_def by (rule emits_bind)

lemma emits_if: "(b \<Longrightarrow> emits J why m) \<Longrightarrow> (\<not> b \<Longrightarrow> emits J why k) \<Longrightarrow> emits J why (if b then m else k)"
  by simp

lemma emits_option: "(x = None \<Longrightarrow> emits J why m) \<Longrightarrow> (\<And>y. x = Some y \<Longrightarrow> emits J why (f y)) \<Longrightarrow>
   emits J why (case x of None \<Rightarrow> m | Some y \<Rightarrow> f y)"
  by (cases x) auto

lemma emits_list: "(xs = [] \<Longrightarrow> emits J why m) \<Longrightarrow> (\<And>y ys. xs = y # ys \<Longrightarrow> emits J why (f y ys)) \<Longrightarrow>
   emits J why (case xs of [] \<Rightarrow> m | y # ys \<Rightarrow> f y ys)"
  by (cases xs) auto

lemma emits_prod: "(\<And>a b. p = (a, b) \<Longrightarrow> emits J why (f a b)) \<Longrightarrow> emits J why (case p of (a, b) \<Rightarrow> f a b)"
  by (cases p) auto

lemma emits_durable: "faithful J d \<Longrightarrow> k \<noteq> Signal \<Longrightarrow> emits J why (append_durable J k d)"
  unfolding emits_def
proof (intro allI impI)
  fix w :: "'a wf" and R
  assume f: "faithful J d" "k \<noteq> Signal" and R: "jrows w = Some R"
  from durable_appends [OF R, of J k d] obtain row where row: "is_row J k d row"
    "jrows (snd (append_durable J k d w)) = Some (R @ [row])" by blast
  from decode_is_row [OF row(1) f(1), of why] obtain e where "decode_row J why row = Inr e" "en_kind e = k" by blast
  with row f show "\<exists>rows es. jrows (snd (append_durable J k d w)) = Some (R @ rows)
      \<and> decode_rows J why rows = Inr es \<and> nosig es"
    by (intro exI [of _ "[row]"] exI [of _ "[e]"]) simp
qed

lemma emits_append: "faithful J d \<Longrightarrow> k \<noteq> Signal \<Longrightarrow> emits J why (on_home (append J k d))"
  unfolding emits_def
proof (intro allI impI)
  fix w :: "'a wf" and R
  assume f: "faithful J d" "k \<noteq> Signal" and R: "jrows w = Some R"
  from append_appends [OF R, of J k d] obtain row where row: "is_row J k d row"
    "jrows (snd (on_home (append J k d) w)) = Some (R @ [row])" by blast
  from decode_is_row [OF row(1) f(1), of why] obtain e where "decode_row J why row = Inr e" "en_kind e = k" by blast
  with row f show "\<exists>rows es. jrows (snd (on_home (append J k d) w)) = Some (R @ rows)
      \<and> decode_rows J why rows = Inr es \<and> nosig es"
    by (intro exI [of _ "[row]"] exI [of _ "[e]"]) simp
qed

lemma jrows_quiet [simp]:
  "jrows (snd (the_attempt w)) = jrows w" "jrows (snd (set_attempt a w)) = jrows w"
  "jrows (snd (set_pending es w)) = jrows w" "jrows (snd (park s w)) = jrows w"
  "jrows (snd (fail_run s w)) = jrows w" "jrows (snd (okE x w)) = jrows w" "jrows (snd (failE e w)) = jrows w"
  "jrows (snd (readE g w)) = jrows w" "jrows (snd (diverged k s w)) = jrows w" "jrows (snd (to_lua rt v w)) = jrows w"
  "jrows (snd (wf_random w)) = jrows w" "jrows (snd (wf_now w)) = jrows w"
  by (auto simp: the_attempt_def set_attempt_def set_pending_def park_def fail_run_def okE_def failE_def readE_def
      diverged_def to_lua_def wf_random_def wf_now_apply writeE_def jrows_def split: option.splits prod.splits)

lemma jrows_arm [simp]: "jrows (snd (arm a d w)) = jrows w"
proof (cases "storage (w_home w)")
  case None
  then show ?thesis
    by (simp add: arm_def on_home_def unix_now_ms_def set_alarm_def has_storage_def writeE_def jrows_def home_view_def
        bindE_def okE_def)
next
  case (Some st)
  then show ?thesis
    by (simp add: arm_def on_home_def unix_now_ms_def set_alarm_apply jrows_def home_view_def save_alarm_frame
        bindE_def)
qed

lemma jrows_route [simp]: "jrows (snd (on_home (route router t) w)) = jrows w"
  by (simp add: on_home_def route_def Let_def jrows_def home_view_def split: prod.split option.split)

lemma jrows_read [simp]: "jrows (snd (on_home (with_storage (read_from J why n)) w)) = jrows w"
  by (cases "storage (w_home w)")
     (auto simp: on_home_def with_storage_Some read_from_def jrows_def home_view_def split: option.split)

lemmas emits_intros = emits_bind emits_then emits_if emits_option emits_list emits_prod

section \<open>Bodies whose record replays\<close>

definition quiet :: "body \<Rightarrow> bool" where
  "quiet b = (case b of Done v \<Rightarrow> float_free v | Opaque _ \<Rightarrow> True | Throw _ \<Rightarrow> True | _ \<Rightarrow> False)"

primrec plain :: "prog \<Rightarrow> bool" where
  "plain (Return v) = True"
| "plain (ReturnOpaque e) = True"
| "plain (Raise e) = True"
| "plain (Step n r b t bd k) = ((\<forall>i. quiet (bd i)) \<and> (\<forall>v. plain (k v)))"
| "plain (Sleep d k) = plain k"
| "plain (Await ns t k) = (\<forall>v x. plain (k v x))"
| "plain (Spawn d i k) = (float_free i \<and> (\<forall>c. plain (k c)))"
| "plain (Time k) = (\<forall>v. plain (k v))"
| "plain (Uuid k) = (\<forall>v. plain (k v))"
| "plain (Random k) = (\<forall>v. plain (k v))"

text \<open>Where the attempt stopped: the verb that unwound it, or its end.\<close>

primrec stop_of :: "codec \<Rightarrow> (string \<Rightarrow> string) \<Rightarrow> wf_runtime \<Rightarrow> prog \<Rightarrow> 'u wf \<Rightarrow> prog" where
  "stop_of J why rt (Return v) w = Return v"
| "stop_of J why rt (ReturnOpaque e) w = ReturnOpaque e"
| "stop_of J why rt (Raise e) w = Raise e"
| "stop_of J why rt (Step n r b t bd k) w =
     (case wf_step J rt n r b bd w of (Inl e, w1) \<Rightarrow> Step n r b t bd k | (Inr v, w1) \<Rightarrow> stop_of J why rt (k v) w1)"
| "stop_of J why rt (Sleep d k) w =
     (case wf_sleep J d w of (Inl e, w1) \<Rightarrow> Sleep d k | (Inr v, w1) \<Rightarrow> stop_of J why rt k w1)"
| "stop_of J why rt (Await ns t k) w =
     (case await_signals J rt ns t w of (Inl e, w1) \<Rightarrow> Await ns t k
      | (Inr p, w1) \<Rightarrow> (\<lambda>v x. stop_of J why rt (k v x)) (fst p) (snd p) w1)"
| "stop_of J why rt (Spawn d i k) w =
     (case wf_spawn J why rt d i w of (Inl e, w1) \<Rightarrow> Spawn d i k | (Inr v, w1) \<Rightarrow> stop_of J why rt (k v) w1)"
| "stop_of J why rt (Time k) w =
     (case wf_time J w of (Inl e, w1) \<Rightarrow> Time k | (Inr v, w1) \<Rightarrow> stop_of J why rt (k v) w1)"
| "stop_of J why rt (Uuid k) w =
     (case wf_uuid J rt w of (Inl e, w1) \<Rightarrow> Uuid k | (Inr v, w1) \<Rightarrow> stop_of J why rt (k v) w1)"
| "stop_of J why rt (Random k) w =
     (case wf_random w of (Inl e, w1) \<Rightarrow> Random k | (Inr v, w1) \<Rightarrow> stop_of J why rt (k v) w1)"

text \<open>No step runs live while journal rows are still unread behind it.\<close>

definition clear_tail :: "string \<Rightarrow> 'u wf \<Rightarrow> bool" where
  "clear_tail n w = (case w_attempt w of
      None \<Rightarrow> True
    | Some a \<Rightarrow> (case walk n (at_resume a) 0 (at_pending a) of (Run _, _, es, _) \<Rightarrow> es = [] | _ \<Rightarrow> True))"

primrec smooth :: "codec \<Rightarrow> (string \<Rightarrow> string) \<Rightarrow> wf_runtime \<Rightarrow> prog \<Rightarrow> 'u wf \<Rightarrow> bool" where
  "smooth J why rt (Return v) w = True"
| "smooth J why rt (ReturnOpaque e) w = True"
| "smooth J why rt (Raise e) w = True"
| "smooth J why rt (Step n r b t bd k) w = (clear_tail n w \<and>
     (case wf_step J rt n r b bd w of (Inl e, w1) \<Rightarrow> True | (Inr v, w1) \<Rightarrow> smooth J why rt (k v) w1))"
| "smooth J why rt (Sleep d k) w =
     (case wf_sleep J d w of (Inl e, w1) \<Rightarrow> True | (Inr v, w1) \<Rightarrow> smooth J why rt k w1)"
| "smooth J why rt (Await ns t k) w =
     (case await_signals J rt ns t w of (Inl e, w1) \<Rightarrow> True
      | (Inr p, w1) \<Rightarrow> (\<lambda>v x. smooth J why rt (k v x)) (fst p) (snd p) w1)"
| "smooth J why rt (Spawn d i k) w =
     (case wf_spawn J why rt d i w of (Inl e, w1) \<Rightarrow> True | (Inr v, w1) \<Rightarrow> smooth J why rt (k v) w1)"
| "smooth J why rt (Time k) w =
     (case wf_time J w of (Inl e, w1) \<Rightarrow> True | (Inr v, w1) \<Rightarrow> smooth J why rt (k v) w1)"
| "smooth J why rt (Uuid k) w =
     (case wf_uuid J rt w of (Inl e, w1) \<Rightarrow> True | (Inr v, w1) \<Rightarrow> smooth J why rt (k v) w1)"
| "smooth J why rt (Random k) w =
     (case wf_random w of (Inl e, w1) \<Rightarrow> True | (Inr v, w1) \<Rightarrow> smooth J why rt (k v) w1)"

section \<open>The walk over a longer journal\<close>

lemma walk_replay_extend:
  "walk n r s p = (Replay v, s', p', r') \<Longrightarrow> walk n r2 s (p @ q) = (Replay v, s', p' @ q, r2) \<and> r' = r"
  by (induction n r s p rule: walk.induct) (auto simp: Let_def split: if_splits)

lemma is_step_kind: "is_step n k e \<Longrightarrow> en_kind e = k"
  by (simp add: is_step_def)

lemma walk_record:
  assumes "walk n r s p = (Run m, s', [], r')" "is_step n Intent i" "is_step n Result e"
  shows "\<exists>s''. walk n r2 s (p @ i # e # q) = (Replay (jget (en_data e) ''value''), s'', q, r2)"
proof -
  have "\<not> is_step n Intent e" "\<not> is_step n Failed e" using is_step_kind [OF assms(3)] by (auto simp: is_step_def)
  with assms show ?thesis
    by (induction n r s p rule: walk.induct) (auto simp: Let_def split: if_splits)
qed

end
