(* ===== verification/Workflow_Exact.thy ===== *)
theory Workflow_Exact
  imports Workflow_Record
begin

text \<open>
  Every verb of the engine against its record, and the theorem they give: the journal an attempt
  leaves replays to the point where the attempt stopped.
\<close>

section \<open>What each verb appends\<close>

definition standing :: "codec \<Rightarrow> wf_runtime \<Rightarrow> bool" where
  "standing J rt \<longleftrightarrow> codec_round_trips J \<and> converts rt \<and> wr_fakes rt = Map.empty"

lemma standing_faithful: "standing J rt \<Longrightarrow> float_free d \<Longrightarrow> faithful J d"
  by (simp add: standing_def faithful_float_free)

lemma emits_quiets:
  "emits J why the_attempt" "emits J why (set_attempt a)" "emits J why (set_pending es)"
  "emits J why (park s)" "emits J why (fail_run s)" "emits J why (okE x)" "emits J why (failE e)"
  "emits J why (readE g)" "emits J why (diverged k s)" "emits J why (to_lua rt v)"
  "emits J why wf_random" "emits J why wf_now" "emits J why (arm a' d)"
  by (rule emits_quiet, simp)+

definition out_ok :: "string + outcome_value \<Rightarrow> bool" where
  "out_ok out = (case out of Inr (Value v) \<Rightarrow> float_free v | _ \<Rightarrow> True)"

lemma run_body_quiet:
  "quiet b \<Longrightarrow> out_ok (fst (run_body J rt b w)) \<and> snd (run_body J rt b w) = w"
  by (cases b) (auto simp: quiet_def out_ok_def okE_def failE_def)

lemma exec_quiet:
  assumes "\<forall>i. quiet (bd i)" "wr_fakes rt = Map.empty" "exec_body J rt name n bd w = (out, w1)"
  shows "out_ok out \<and> jrows w1 = jrows w \<and> w_attempt w1 = w_attempt w \<and> \<not> w_in_step w1"
proof -
  let ?w = "w\<lparr>w_in_step := True, w_home := (w_home w)\<lparr>ran := ran (w_home w) @ [(name, n)]\<rparr>\<rparr>"
  have "out_ok (fst (run_body J rt (bd (length (ran (w_home w)))) ?w))
    \<and> snd (run_body J rt (bd (length (ran (w_home w)))) ?w) = ?w"
    by (rule run_body_quiet) (use assms(1) in blast)
  with assms(2,3) show ?thesis
    by (auto simp: exec_body_def Let_def jrows_def home_view_def split: prod.splits)
qed

lemma emits_finish: "standing J rt \<Longrightarrow> out_ok out \<Longrightarrow> emits J why (finish_step J name r b n out)"
  unfolding finish_step_def Let_def
  by (cases out; cases "projr out")
     (auto simp: out_ok_def intro!: emits_intros emits_quiets emits_durable standing_faithful split: sum.splits)

lemma emits_run_step:
  assumes "standing J rt" "\<forall>i. quiet (bd i)"
  shows "emits J why (run_step J rt name r b bd n)"
  unfolding emits_def
proof (intro allI impI)
  fix w :: "'a wf" and R
  assume R: "jrows w = Some R"
  obtain out w1 where e: "exec_body J rt name n bd w = (out, w1)" by force
  have "wr_fakes rt = Map.empty" using assms(1) by (simp add: standing_def)
  from exec_quiet [OF assms(2) this e] R have "out_ok out" "jrows w1 = Some R" by simp_all
  with emitsD [OF emits_finish [OF assms(1)]] e
  show "\<exists>rows es. jrows (snd (run_step J rt name r b bd n w)) = Some (R @ rows) \<and> decode_rows J why rows = Inr es \<and> nosig es"
    by (simp add: run_step_def)
qed

lemma emits_step:
  assumes "standing J rt" "\<forall>i. quiet (bd i)"
  shows "emits J why (wf_step J rt name r b bd)"
  unfolding wf_step_def Let_def
  by (intro emits_bind emits_if emits_quiets emits_prod emits_then)
     (auto split: plan.splits intro!: emits_intros emits_quiets emits_durable emits_run_step
        standing_faithful [OF assms(1)] assms)

lemma emits_sleep: "standing J rt \<Longrightarrow> emits J why (wf_sleep J d)"
  unfolding wf_sleep_def Let_def
  by (intro emits_intros emits_quiets emits_durable) (auto intro: standing_faithful)

lemma float_free_names: "float_free (gate_json names)"
  by (auto simp: gate_json_def list_all_iff split: list.split)

lemma emits_await: "standing J rt \<Longrightarrow> emits J why (await_signals J rt ns t)"
  unfolding await_signals_def Let_def take_signal_def
  by (intro emits_intros emits_quiets emits_durable)
     (auto simp: jopt_def float_free_names intro!: standing_faithful split: option.split)

lemma emits_launch: "emits J why (launch rt c i p)"
  unfolding launch_def Let_def
  by (intro emits_intros emits_quiets) (rule emits_quiet, simp)

lemma emits_spawn: "standing J rt \<Longrightarrow> float_free i \<Longrightarrow> emits J why (wf_spawn J why rt d i)"
  unfolding wf_spawn_def Let_def
  by (intro emits_intros emits_quiets emits_durable emits_launch)
     (auto intro!: standing_faithful emits_quiet)

lemma emits_ambient:
  assumes "standing J rt" "emits J why live" "\<And>w v w1. live w = (Inr v, w1) \<Longrightarrow> float_free v"
  shows "emits J why (ambient J tag live)"
  unfolding ambient_def
  by (intro emits_bind emits_list emits_if emits_then emits_quiets emits_bind_strong [OF assms(2)] emits_append
      standing_faithful [OF assms(1)]) (auto dest: assms(3))

lemma emits_snd: "emits J why m \<Longrightarrow> (\<And>w. snd (m' w) = snd (m w)) \<Longrightarrow> emits J why m'"
  by (simp add: emits_def)

lemma emits_time: "standing J rt \<Longrightarrow> emits J why (wf_time J)"
proof -
  assume s: "standing J rt"
  let ?live = "on_home (bindE unix_now_ms (\<lambda>n. okE (JInt (trunc_div n 1000))))"
  have q: "emits J why ?live"
    by (rule emits_quiet) (simp add: on_home_def bindE_def unix_now_ms_def okE_def jrows_def)
  have "emits J why (ambient J ''time'' ?live)"
    by (rule emits_ambient [OF s q]) (auto simp: on_home_def bindE_def unix_now_ms_def okE_def)
  then show ?thesis by (rule emits_snd) (auto simp: wf_time_def split: prod.split sum.split)
qed

lemma emits_uuid: "standing J rt \<Longrightarrow> emits J why (wf_uuid J rt)"
proof -
  assume s: "standing J rt"
  have "emits J why (ambient J ''uuid'' (readE (\<lambda>w. JStr (wr_uuid rt (ticks (w_home w))))))"
    by (rule emits_ambient [OF s emits_quiets(8)]) (auto simp: readE_def)
  then show ?thesis by (rule emits_snd) (auto simp: wf_uuid_def split: prod.split sum.split)
qed

section \<open>What each verb's record replays to\<close>

text \<open>A verb that answered appended rows which, behind the journal it read, replay to the same answer.\<close>

definition records :: "codec \<Rightarrow> (string \<Rightarrow> string) \<Rightarrow> int \<Rightarrow> prog \<Rightarrow> ('a \<Rightarrow> prog) \<Rightarrow> ('u wf, 'a) cmd \<Rightarrow> 'u wf \<Rightarrow> bool" where
  "records J why now p k m w \<longleftrightarrow>
     (\<forall>a R v w1. w_attempt w = Some a \<longrightarrow> jrows w = Some R \<longrightarrow> m w = (Inr v, w1) \<longrightarrow>
       (\<exists>rows es a1. w_attempt w1 = Some a1 \<and> \<not> w_in_step w1 \<and> jrows w1 = Some (R @ rows)
         \<and> decode_rows J why rows = Inr es \<and> nosig es
         \<and> (\<forall>z r2. nosig z \<longrightarrow> consume now p (a\<lparr>at_pending := at_pending a @ es @ z, at_resume := r2\<rparr>)
              = consume now (k v) (a1\<lparr>at_pending := at_pending a1 @ z, at_resume := r2\<rparr>))))"

lemma attempt_commute [simp]:
  "a\<lparr>at_resume := r, at_pending := p\<rparr> = a\<lparr>at_pending := p, at_resume := r\<rparr>"
  by simp

text \<open>The two ways a verb answers: from the journal, leaving the file alone, or live with rows of
  its own.\<close>

lemma records_replayed:
  assumes "\<not> w_in_step w"
    and "\<And>a v w1. w_attempt w = Some a \<Longrightarrow> m w = (Inr v, w1) \<Longrightarrow>
      \<exists>a1 n. w1 = at_attempt a1 n w \<and> (\<forall>z r2. nosig z \<longrightarrow>
        consume now p (a\<lparr>at_pending := at_pending a @ z, at_resume := r2\<rparr>)
          = consume now (k v) (a1\<lparr>at_pending := at_pending a1 @ z, at_resume := r2\<rparr>))"
  shows "records J why now p k m w"
  unfolding records_def
proof (intro allI impI)
  fix a R v w1
  assume h: "w_attempt w = Some a" "jrows w = Some R" "m w = (Inr v, w1)"
  from assms(2) [OF h(1,3)] obtain a1 n where w1: "w1 = at_attempt a1 n w"
    and c: "\<forall>z r2. nosig z \<longrightarrow> consume now p (a\<lparr>at_pending := at_pending a @ z, at_resume := r2\<rparr>)
          = consume now (k v) (a1\<lparr>at_pending := at_pending a1 @ z, at_resume := r2\<rparr>)" by blast
  have "jrows w1 = Some (R @ [])" using h(2) w1 by (simp add: jrows_def at_attempt_def)
  then show "\<exists>rows es a1. w_attempt w1 = Some a1 \<and> \<not> w_in_step w1 \<and> jrows w1 = Some (R @ rows)
         \<and> decode_rows J why rows = Inr es \<and> nosig es
         \<and> (\<forall>z r2. nosig z \<longrightarrow> consume now p (a\<lparr>at_pending := at_pending a @ es @ z, at_resume := r2\<rparr>)
              = consume now (k v) (a1\<lparr>at_pending := at_pending a1 @ z, at_resume := r2\<rparr>))"
    using w1 c assms(1) by (intro exI [of _ "[]"] exI [of _ a1]) simp
qed

lemma never_parks [simp]: "thenE m (park s) w \<noteq> (Inr v, w1)"
  by (auto simp: thenE_def bindE_def park_def split: prod.splits sum.splits)

lemma never_parks_after [simp]: "thenE m (thenE m' (park s)) w \<noteq> (Inr v, w1)"
  by (auto simp: thenE_def bindE_def park_def split: prod.splits sum.splits)

lemma sleep_records:
  assumes "\<not> w_in_step w" "\<And>i. reading (w_home w) i \<le> now"
  shows "records J why now (Sleep d k) (\<lambda>_. k) (wf_sleep J d) w"
proof (rule records_replayed [OF assms(1)])
  fix a v w1
  assume a: "w_attempt w = Some a" and m: "wf_sleep J d w = (Inr v, w1)"
  let ?now = "reading (w_home w) (ticks (w_home w))"
  have "\<exists>e es. at_pending a = e # es \<and> en_kind e = Timer \<and> jget (en_data e) ''for'' = JNull
      \<and> (case as_i64 (jget (en_data e) ''due_ms'') of Some i \<Rightarrow> i | None \<Rightarrow> 0) \<le> ?now"
    using m a
    by (auto simp: wf_sleep_def the_attempt_Some wf_now_at diverged_def failE_def Let_def
        split: list.splits if_splits)
  then obtain e es where e: "at_pending a = e # es" "en_kind e = Timer" "jget (en_data e) ''for'' = JNull"
    "(case as_i64 (jget (en_data e) ''due_ms'') of Some i \<Rightarrow> i | None \<Rightarrow> 0) \<le> ?now" by blast
  from sleep_replays [OF a e, of J d] m have "w1 = at_attempt (a\<lparr>at_pending := es\<rparr>) 1 w" by simp
  moreover have "(case as_i64 (jget (en_data e) ''due_ms'') of Some i \<Rightarrow> i | None \<Rightarrow> 0) \<le> now"
    using e(4) assms(2) order_trans by blast
  ultimately show "\<exists>a1 n. w1 = at_attempt a1 n w \<and> (\<forall>z r2. nosig z \<longrightarrow>
        consume now (Sleep d k) (a\<lparr>at_pending := at_pending a @ z, at_resume := r2\<rparr>)
          = consume now k (a1\<lparr>at_pending := at_pending a1 @ z, at_resume := r2\<rparr>))"
    using e by (intro exI [of _ "a\<lparr>at_pending := es\<rparr>"] exI [of _ 1]) simp
qed

lemma extract_append: "List.extract P xs = Some (ys, x, zs) \<Longrightarrow> List.extract P (xs @ q) = Some (ys, x, zs @ q)"
  by (auto simp: extract_Some_iff)

lemma extract_none_append: "List.extract P xs = None \<Longrightarrow> (\<And>x. x \<in> set q \<Longrightarrow> \<not> P x) \<Longrightarrow> List.extract P (xs @ q) = None"
  by (auto simp: extract_None_iff)

lemma not_wanted: "nosig z \<Longrightarrow> x \<in> set z \<Longrightarrow> \<not> wanted ns x"
  by (auto simp: nosig_def wanted_def)

lemma random_records:
  assumes "\<not> w_in_step w"
  shows "records J why now (Random k) k wf_random w"
proof (rule records_replayed [OF assms])
  fix a v w1
  assume a: "w_attempt w = Some a" and m: "wf_random w = (Inr v, w1)"
  have d: "draw (a\<lparr>at_pending := x, at_resume := r\<rparr>) = (v, (snd (draw a))\<lparr>at_pending := x, at_resume := r\<rparr>)" for x r
    using m random_at [OF a] by (simp add: draw_def Let_def)
  have p: "at_pending (snd (draw a)) = at_pending a" by (simp add: draw_def Let_def)
  show "\<exists>a1 n. w1 = at_attempt a1 n w \<and> (\<forall>z r2. nosig z \<longrightarrow>
        consume now (Random k) (a\<lparr>at_pending := at_pending a @ z, at_resume := r2\<rparr>)
          = consume now (k v) (a1\<lparr>at_pending := at_pending a1 @ z, at_resume := r2\<rparr>))"
    using m random_at [OF a] by (intro exI [of _ "snd (draw a)"] exI [of _ 0]) (simp add: d p)
qed

lemma await_records:
  assumes "\<not> w_in_step w" "\<And>i. reading (w_home w) i \<le> now" "converts rt"
  shows "records J why now (Await ns t k) (\<lambda>p. k (fst p) (snd p)) (await_signals J rt ns t) w"
proof (rule records_replayed [OF assms(1)])
  fix a v w1
  assume a: "w_attempt w = Some a" and m: "await_signals J rt ns t w = (Inr v, w1)"
  let ?now = "reading (w_home w) (ticks (w_home w))"
  obtain e es where c: "at_pending a = e # es"
    using m a by (cases "at_pending a") (auto simp: await_signals_def Let_def the_attempt_Some wf_now_at)
  show "\<exists>a1 n. w1 = at_attempt a1 n w \<and> (\<forall>z r2. nosig z \<longrightarrow>
        consume now (Await ns t k) (a\<lparr>at_pending := at_pending a @ z, at_resume := r2\<rparr>)
          = consume now (k (fst v) (snd v)) (a1\<lparr>at_pending := at_pending a1 @ z, at_resume := r2\<rparr>))"
  proof (cases "List.extract (wanted ns) (if is_gate ns e then es else e # es)")
    case (Some t3)
    obtain ys s zs where t3: "t3 = (ys, s, zs)" by (metis prod_cases3)
    have "await_signals J rt ns t w = (Inr (jget (en_data s) ''payload'', as_str (jget (en_data s) ''name'')),
        at_attempt (a\<lparr>at_pending := ys @ zs\<rparr>) 1 w)"
      using Some t3 await_replays_gate [OF a c _ assms(3)] await_replays_early [OF a c _ assms(3)]
      by (auto split: if_splits)
    moreover have "List.extract (wanted ns) (if is_gate ns e then es @ z else e # es @ z) = Some (ys, s, zs @ z)" for z
      using Some t3 extract_append [of "wanted ns" "if is_gate ns e then es else e # es" ys s zs z]
      by (auto split: if_splits)
    ultimately show ?thesis
      using m c by (intro exI [of _ "a\<lparr>at_pending := ys @ zs\<rparr>"] exI [of _ 1]) (auto split: if_splits)
  next
    case None
    have "is_gate ns e \<and> (\<exists>due. as_i64 (jget (en_data e) ''due_ms'') = Some due \<and> due \<le> ?now)"
      using m a c None by (auto simp: await_signals_def Let_def the_attempt_Some wf_now_at diverged_def failE_def park_def
          split: if_splits option.splits)
    then obtain due where due: "is_gate ns e" "as_i64 (jget (en_data e) ''due_ms'') = Some due" "due \<le> ?now" by blast
    have x: "List.extract (wanted ns) es = None" using None due(1) by simp
    have "List.extract (wanted ns) (es @ z) = None" if "nosig z" for z
      by (rule extract_none_append [OF x]) (rule not_wanted [OF that])
    moreover have "due \<le> now" using due(3) assms(2) order_trans by blast
    ultimately show ?thesis
      using await_times_out [OF a c due(1) x due(2,3), of J rt t] m c due
      by (intro exI [of _ "a\<lparr>at_pending := es\<rparr>"] exI [of _ 1]) simp
  qed
qed

section \<open>Verbs that act live\<close>

lemma durable_attempt [simp]:
  "w_attempt (snd (append_durable J k d w)) = w_attempt w"
  "w_in_step (snd (append_durable J k d w)) = w_in_step w"
  by (auto simp: append_durable_def on_home_def split: prod.splits)

lemma append_attempt [simp]:
  "w_attempt (snd (on_home m w)) = w_attempt w" "w_in_step (snd (on_home m w)) = w_in_step w"
  by (auto simp: on_home_def split: prod.splits)

lemma bindE_InrE: "bindE m f w = (Inr v, w2) \<Longrightarrow> (\<And>x w1. m w = (Inr x, w1) \<Longrightarrow> f x w1 = (Inr v, w2) \<Longrightarrow> Q) \<Longrightarrow> Q"
  by (auto simp: bindE_def split: prod.splits sum.splits)

lemma thenE_InrE: "thenE m k w = (Inr v, w2) \<Longrightarrow> (\<And>x w1. m w = (Inr x, w1) \<Longrightarrow> k w1 = (Inr v, w2) \<Longrightarrow> Q) \<Longrightarrow> Q"
  unfolding thenE_def by (rule bindE_InrE)

text \<open>A row appended durably, as replay reads it.\<close>

lemma durable_row:
  assumes "append_durable J k d w = (Inr x, w1)" "jrows w = Some R" "faithful J d"
  shows "\<exists>row e. jrows w1 = Some (R @ [row]) \<and> decode_row J why row = Inr e \<and> en_kind e = k \<and> en_data e = d
     \<and> w_attempt w1 = w_attempt w \<and> w_in_step w1 = w_in_step w"
proof -
  from durable_appends [OF assms(2), of J k d] assms(1) obtain row where
    row: "is_row J k d row" "jrows w1 = Some (R @ [row])" by auto
  from decode_is_row [OF row(1) assms(3), of why] obtain e where
    "decode_row J why row = Inr e" "en_kind e = k" "en_data e = d" by blast
  with row(2) durable_attempt [of J k d w] assms(1) show ?thesis by auto
qed

lemma spawn_live:
  assumes "w_attempt w = Some a" "at_pending a = []" "wf_spawn J why rt d i w = (Inr v, w1)" "jrows w = Some R"
  obtains child wa wb x where
    "append_durable J Child (JObj [(''child'', JStr child), (''definition'', JStr d), (''input'', i)]) wa = (Inr x, wb)"
    "launch rt child i (at_name a) wb = (Inr v, w1)" "w_attempt wa = Some a" "w_in_step wa = w_in_step w" "jrows wa = Some R"
proof -
  let ?c = "\<lambda>es. child_name d (run_id_of (at_name a)) (count_children es)"
  have "bindE (on_home (with_storage (read_from J why 0))) (\<lambda>es.
      thenE (append_durable J Child (JObj [(''child'', JStr (?c es)), (''definition'', JStr d), (''input'', i)]))
        (launch rt (?c es) i (at_name a))) w = (Inr v, w1)"
    using assms(1-3) by (simp add: wf_spawn_def the_attempt_Some Let_def)
  then obtain es wa where r: "on_home (with_storage (read_from J why 0)) w = (Inr es, wa)"
    and "thenE (append_durable J Child (JObj [(''child'', JStr (?c es)), (''definition'', JStr d), (''input'', i)]))
        (launch rt (?c es) i (at_name a)) wa = (Inr v, w1)"
    by (rule bindE_InrE)
  from this(2) obtain x wb where
    "append_durable J Child (JObj [(''child'', JStr (?c es)), (''definition'', JStr d), (''input'', i)]) wa = (Inr x, wb)"
    "launch rt (?c es) i (at_name a) wb = (Inr v, w1)"
    by (rule thenE_InrE)
  moreover have "w_attempt wa = Some a" "w_in_step wa = w_in_step w" "jrows wa = Some R"
    using r assms(1,4) jrows_read [of J why 0 w] append_attempt [of "with_storage (read_from J why 0)" w] by simp_all
  ultimately show thesis by (rule that)
qed

lemma launch_quiet:
  assumes "launch rt child i p wb = (Inr v, w1)"
  shows "v = child \<and> jrows w1 = jrows wb \<and> w_attempt w1 = w_attempt wb \<and> w_in_step w1 = w_in_step wb"
proof -
  from assms obtain router dn where "thenE (on_home (route router dn)) (okE child) wb = (Inr v :: string + _, w1)"
    by (auto simp: launch_def Let_def failE_def split: option.splits prod.splits)
  then obtain x wc where r: "on_home (route router dn) wb = (Inr x, wc)" and "okE child wc = (Inr v :: string + _, w1)"
    by (rule thenE_InrE)
  with jrows_route [of router dn wb] append_attempt [of "route router dn" wb] show ?thesis
    by (simp add: okE_def)
qed

lemma spawn_records:
  assumes "\<not> w_in_step w" "standing J rt" "float_free i"
  shows "records J why now (Spawn d i k) k (wf_spawn J why rt d i) w"
  unfolding records_def
proof (intro allI impI)
  fix a R v w1
  assume a: "w_attempt w = Some a" and R: "jrows w = Some R" and m: "wf_spawn J why rt d i w = (Inr v, w1)"
  show "\<exists>rows es a1. w_attempt w1 = Some a1 \<and> \<not> w_in_step w1 \<and> jrows w1 = Some (R @ rows)
         \<and> decode_rows J why rows = Inr es \<and> nosig es
         \<and> (\<forall>z r2. nosig z \<longrightarrow> consume now (Spawn d i k) (a\<lparr>at_pending := at_pending a @ es @ z, at_resume := r2\<rparr>)
              = consume now (k v) (a1\<lparr>at_pending := at_pending a1 @ z, at_resume := r2\<rparr>))"
  proof (cases "at_pending a")
    case (Cons e es)
    have c: "en_kind e = Child" "jget (en_data e) ''definition'' = JStr d"
      using m a Cons by (auto simp: wf_spawn_def the_attempt_Some diverged_def failE_def split: if_splits)
    from spawn_replays [OF a Cons c, of J why rt i] m
    have "w1 = at_attempt (a\<lparr>at_pending := es\<rparr>) 0 w"
      "v = (case as_str (jget (en_data e) ''child'') of Some c \<Rightarrow> c | None \<Rightarrow> '''')" by simp_all
    with a R Cons c assms(1) show ?thesis
      by (intro exI [of _ "[]"] exI [of _ "a\<lparr>at_pending := es\<rparr>"]) (simp add: jrows_def at_attempt_def)
  next
    case Nil
    from spawn_live [OF a Nil m R] obtain child wa wb x where
      l: "append_durable J Child (JObj [(''child'', JStr child), (''definition'', JStr d), (''input'', i)]) wa = (Inr x, wb)"
        "launch rt child i (at_name a) wb = (Inr v, w1)" "w_attempt wa = Some a" "\<not> w_in_step wa" "jrows wa = Some R"
      using assms(1) by metis
    have f: "faithful J (JObj [(''child'', JStr child), (''definition'', JStr d), (''input'', i)])"
      by (rule standing_faithful [OF assms(2)]) (simp add: assms(3))
    from durable_row [OF l(1) l(5) f, of why] obtain row e where
      r: "jrows wb = Some (R @ [row])" "decode_row J why row = Inr e" "en_kind e = Child"
        "en_data e = JObj [(''child'', JStr child), (''definition'', JStr d), (''input'', i)]"
        "w_attempt wb = Some a" "\<not> w_in_step wb" using l(3,4) by auto
    note launch_quiet [OF l(2)]
    with r Nil show ?thesis
      by (intro exI [of _ "[row]"] exI [of _ "[e]"] exI [of _ a]) simp
  qed
qed

text \<open>An ambient read that answers: from the front of the journal, or live with one row.\<close>

lemma ambient_live:
  assumes "w_attempt w = Some a" "at_pending a = []" "ambient J tag live w = (r, w1)" "live w = (Inr v, wa)"
    and "jrows wa = jrows w" "w_attempt wa = w_attempt w" "w_in_step wa = w_in_step w"
    and "faithful J (JObj [(''tag'', JStr tag), (''value'', v)])" "jrows w = Some R"
  shows "r = Inr v \<and> w_attempt w1 = Some a \<and> w_in_step w1 = w_in_step w \<and> (\<exists>row e. jrows w1 = Some (R @ [row])
     \<and> decode_row J why row = Inr e \<and> en_kind e = Ambient \<and> en_data e = JObj [(''tag'', JStr tag), (''value'', v)])"
proof -
  let ?d = "JObj [(''tag'', JStr tag), (''value'', v)]"
  have "jrows wa = Some R" using assms(5,9) by simp
  from append_appends [OF this, of J Ambient ?d] obtain row s where row: "is_row J Ambient ?d row"
    "fst (on_home (append J Ambient ?d) wa) = Inr s" "jrows (snd (on_home (append J Ambient ?d) wa)) = Some (R @ [row])"
    by blast
  have "ambient J tag live w = (Inr v, snd (on_home (append J Ambient ?d) wa))"
    using assms(1,2,4) row(2)
    by (cases "on_home (append J Ambient ?d) wa") (simp add: ambient_def the_attempt_Some thenE_def okE_def)
  with assms(3) have "r = Inr v" "w1 = snd (on_home (append J Ambient ?d) wa)" by simp_all
  moreover from decode_is_row [OF row(1) assms(8), of why] obtain e where
    "decode_row J why row = Inr e" "en_kind e = Ambient" "en_data e = ?d" by blast
  ultimately show ?thesis using row(3) assms(1,6,7) by auto
qed

text \<open>Both journaled reads have this shape: \<open>f\<close> of the recorded value, \<open>d\<close> when the read fails.\<close>

lemma ambient_records:
  assumes "\<not> w_in_step w"
    and m: "\<And>w. m w = (case ambient J tag live w of (Inl _, w') \<Rightarrow> (Inr d, w') | (Inr v, w') \<Rightarrow> (Inr (f v), w'))"
    and c: "\<And>a. consume now p a = (case at_pending a of [] \<Rightarrow> (p, a) | e # es \<Rightarrow>
        if en_kind e = Ambient \<and> jget (en_data e) ''tag'' = JStr tag
        then consume now (k (f (jget (en_data e) ''value''))) (a\<lparr>at_pending := es\<rparr>) else consume now (k d) a)"
    and live: "live w = (Inr x, wa)" "jrows wa = jrows w" "w_attempt wa = w_attempt w" "w_in_step wa = w_in_step w"
    and f: "faithful J (JObj [(''tag'', JStr tag), (''value'', x)])"
  shows "records J why now p k m w"
  unfolding records_def
proof (intro allI impI)
  fix a R v w1
  assume a: "w_attempt w = Some a" and R: "jrows w = Some R" and v: "m w = (Inr v, w1)"
  show "\<exists>rows es a1. w_attempt w1 = Some a1 \<and> \<not> w_in_step w1 \<and> jrows w1 = Some (R @ rows)
         \<and> decode_rows J why rows = Inr es \<and> nosig es
         \<and> (\<forall>z r2. nosig z \<longrightarrow> consume now p (a\<lparr>at_pending := at_pending a @ es @ z, at_resume := r2\<rparr>)
              = consume now (k v) (a1\<lparr>at_pending := at_pending a1 @ z, at_resume := r2\<rparr>))"
  proof (cases "at_pending a")
    case (Cons e es)
    show ?thesis
    proof (cases "en_kind e = Ambient \<and> jget (en_data e) ''tag'' = JStr tag")
      case True
      with ambient_replays [OF a Cons, of tag J live] v have "w1 = at_attempt (a\<lparr>at_pending := es\<rparr>) 0 w"
        "v = f (jget (en_data e) ''value'')" by (simp_all add: m)
      with R Cons True assms(1) show ?thesis
        by (intro exI [of _ "[]"] exI [of _ "a\<lparr>at_pending := es\<rparr>"]) (simp add: jrows_def at_attempt_def c)
    next
      case False
      from ambient_refuses [OF a Cons False, of J live] v have "w1 = w" "v = d" by (auto simp: m)
      with R Cons False assms(1) a show ?thesis by (intro exI [of _ "[]"] exI [of _ a]) (auto simp: c)
    qed
  next
    case Nil
    obtain r wb where amb: "ambient J tag live w = (r, wb)" by force
    note l = ambient_live [OF a Nil amb live f R, of why]
    then obtain row e where row: "jrows wb = Some (R @ [row])" "decode_row J why row = Inr e" "en_kind e = Ambient"
      "en_data e = JObj [(''tag'', JStr tag), (''value'', x)]" by blast
    have "w1 = wb" "v = f x" using v amb l by (simp_all add: m)
    with l row Nil assms(1) show ?thesis
      by (intro exI [of _ "[row]"] exI [of _ "[e]"] exI [of _ a]) (simp add: c)
  qed
qed

lemma time_records:
  assumes "\<not> w_in_step w" "standing J rt"
  shows "records J why now (Time k) k (wf_time J) w"
proof (rule ambient_records [OF assms(1), where tag = "''time''" and d = 0
      and f = "\<lambda>v. case as_i64 v of Some i \<Rightarrow> i | None \<Rightarrow> 0"])
  show "wf_time J w = (case ambient J ''time'' (on_home (bindE unix_now_ms (\<lambda>n. okE (JInt (trunc_div n 1000))))) w of
      (Inl _, w') \<Rightarrow> (Inr 0, w') | (Inr v, w') \<Rightarrow> (Inr (case as_i64 v of Some i \<Rightarrow> i | None \<Rightarrow> 0), w'))" for w :: "'a wf"
    by (rule wf_time_def)
  show "on_home (bindE unix_now_ms (\<lambda>n. okE (JInt (trunc_div n 1000)))) w
      = (Inr (JInt (trunc_div (reading (w_home w) (ticks (w_home w))) 1000)),
         w\<lparr>w_home := (w_home w)\<lparr>ticks := Suc (ticks (w_home w))\<rparr>\<rparr>)"
    by (simp add: on_home_def unix_now_ms_def bindE_def okE_def)
  show "faithful J (JObj [(''tag'', JStr ''time''),
      (''value'', JInt (trunc_div (reading (w_home w) (ticks (w_home w))) 1000))])"
    by (rule standing_faithful [OF assms(2)]) simp
qed (auto simp: jrows_def split: list.split)

lemma uuid_records:
  assumes "\<not> w_in_step w" "standing J rt"
  shows "records J why now (Uuid k) k (wf_uuid J rt) w"
proof (rule ambient_records [OF assms(1), where tag = "''uuid''" and d = "''''"
      and f = "\<lambda>v. case as_str v of Some s \<Rightarrow> s | None \<Rightarrow> ''''"])
  show "wf_uuid J rt w = (case ambient J ''uuid'' (readE (\<lambda>w. JStr (wr_uuid rt (ticks (w_home w))))) w of
      (Inl _, w') \<Rightarrow> (Inr '''', w') | (Inr v, w') \<Rightarrow> (Inr (case as_str v of Some s \<Rightarrow> s | None \<Rightarrow> ''''), w'))" for w :: "'a wf"
    by (rule wf_uuid_def)
  show "readE (\<lambda>w. JStr (wr_uuid rt (ticks (w_home w)))) w = (Inr (JStr (wr_uuid rt (ticks (w_home w)))), w)"
    by (simp add: readE_def)
  show "faithful J (JObj [(''tag'', JStr ''uuid''), (''value'', JStr (wr_uuid rt (ticks (w_home w))))])"
    by (rule standing_faithful [OF assms(2)]) simp
qed (auto split: list.split)

text \<open>A step that answers live journaled its intent and its result around one body execution.\<close>

lemma step_live:
  assumes a: "w_attempt w = Some a" "\<not> w_in_step w" and s: "standing J rt" "\<forall>i. quiet (bd i)"
    and wk: "walk n (at_resume a) 0 (at_pending a) = (Run number, seen, [], rs)" "number > seen"
    and m: "wf_step J rt n r b bd w = (Inr v, w1)" and R: "jrows w = Some R"
  shows "w_attempt w1 = Some (a\<lparr>at_pending := [], at_resume := rs\<rparr>) \<and> \<not> w_in_step w1
     \<and> (\<exists>row1 row2 i e. jrows w1 = Some (R @ [row1, row2]) \<and> decode_row J why row1 = Inr i \<and> decode_row J why row2 = Inr e
         \<and> is_step n Intent i \<and> is_step n Result e \<and> jget (en_data e) ''value'' = v)"
proof -
  let ?a = "a\<lparr>at_pending := [], at_resume := rs\<rparr>"
  let ?w = "w\<lparr>w_attempt := Some ?a\<rparr>"
  let ?di = "JObj [(''attempt'', JInt number), (''step'', JStr n)]"
  have "thenE (append_durable J Intent ?di) (run_step J rt n (max (case r of Some r \<Rightarrow> r | None \<Rightarrow> 1) 1) b bd number) ?w = (Inr v, w1)"
    using m a wk by (simp add: wf_step_def Let_def the_attempt_Some set_attempt_def writeE_def thenE_def)
  then obtain x wa where i: "append_durable J Intent ?di ?w = (Inr x, wa)"
    and rs: "run_step J rt n (max (case r of Some r \<Rightarrow> r | None \<Rightarrow> 1) 1) b bd number wa = (Inr v, w1)"
    by (rule thenE_InrE)
  have "faithful J ?di" by (rule standing_faithful [OF s(1)]) simp
  from durable_row [OF i _ this, of R why] R obtain row1 ei where
    1: "jrows wa = Some (R @ [row1])" "decode_row J why row1 = Inr ei" "en_kind ei = Intent" "en_data ei = ?di"
       "w_attempt wa = Some ?a" by (auto simp: jrows_def)
  obtain out wb where e: "exec_body J rt n number bd wa = (out, wb)" by force
  have "wr_fakes rt = Map.empty" using s(1) by (simp add: standing_def)
  note q = exec_quiet [OF s(2) this e]
  let ?dr = "JObj [(''attempt'', JInt number), (''step'', JStr n), (''value'', v)]"
  have "finish_step J n (max (case r of Some r \<Rightarrow> r | None \<Rightarrow> 1) 1) b number out wb = (Inr v, w1)"
    using rs e by (simp add: run_step_def)
  then have fin: "out = Inr (Value v) \<and> (\<exists>x. append_durable J Result ?dr wb = (Inr x, w1))"
    by (auto simp: finish_step_def failE_def okE_def fail_run_def park_def Let_def split: sum.splits outcome_value.splits if_splits
        elim!: thenE_InrE bindE_InrE)
  then obtain y where d: "append_durable J Result ?dr wb = (Inr y, w1)" by blast
  have "float_free v" using fin q by (simp add: out_ok_def)
  then have "faithful J ?dr" by (intro standing_faithful [OF s(1)]) simp
  from durable_row [OF d _ this, of "R @ [row1]" why] q 1 obtain row2 er where
    "jrows w1 = Some ((R @ [row1]) @ [row2])" "decode_row J why row2 = Inr er" "en_kind er = Result" "en_data er = ?dr"
    "w_attempt w1 = Some ?a" "\<not> w_in_step w1" by auto
  with 1 show ?thesis by (simp add: is_step_def)
qed

lemma walk_number:
  "walk n r s p = (Run number, seen, es, rs) \<Longrightarrow> 0 \<le> s \<Longrightarrow> number > seen"
  by (induction n r s p rule: walk.induct) (auto simp: Let_def split: if_splits)

lemma step_records:
  assumes "\<not> w_in_step w" "standing J rt" "\<forall>i. quiet (bd i)" "clear_tail n w"
  shows "records J why now (Step n r b t bd k) k (wf_step J rt n r b bd) w"
  unfolding records_def
proof (intro allI impI)
  fix a R v w1
  assume a: "w_attempt w = Some a" and R: "jrows w = Some R" and m: "wf_step J rt n r b bd w = (Inr v, w1)"
  have conv: "converts rt" using assms(2) by (simp add: standing_def)
  obtain pl s es rs where wk: "walk n (at_resume a) 0 (at_pending a) = (pl, s, es, rs)" by (metis prod_cases4)
  show "\<exists>rows es a1. w_attempt w1 = Some a1 \<and> \<not> w_in_step w1 \<and> jrows w1 = Some (R @ rows)
         \<and> decode_rows J why rows = Inr es \<and> nosig es
         \<and> (\<forall>z r2. nosig z \<longrightarrow> consume now (Step n r b t bd k) (a\<lparr>at_pending := at_pending a @ es @ z, at_resume := r2\<rparr>)
              = consume now (k v) (a1\<lparr>at_pending := at_pending a1 @ z, at_resume := r2\<rparr>))"
  proof (cases pl)
    case (Replay v')
    with step_replays [OF a assms(1) conv] wk m have w1: "w1 = at_attempt (a\<lparr>at_pending := es, at_resume := rs\<rparr>) 0 w" "v = v'"
      by auto
    have "walk n r2 0 (at_pending a @ z) = (Replay v, s, es @ z, r2)" for z r2
      using walk_replay_extend [of n "at_resume a" 0 "at_pending a" v s es rs] wk Replay w1(2) by blast
    with R assms(1) w1 show ?thesis
      by (intro exI [of _ "[]"] exI [of _ "a\<lparr>at_pending := es, at_resume := rs\<rparr>"]) (simp add: jrows_def at_attempt_def)
  next
    case (Run number)
    have es: "es = []" using assms(4) a wk Run by (simp add: clear_tail_def)
    have "number > s" by (rule walk_number [of n "at_resume a" 0 "at_pending a"]) (use wk Run in simp_all)
    from step_live [OF a assms(1-3) _ this m R, of rs why] wk Run es
    obtain row1 row2 i e where
      l: "w_attempt w1 = Some (a\<lparr>at_pending := [], at_resume := rs\<rparr>)" "\<not> w_in_step w1" "jrows w1 = Some (R @ [row1, row2])"
        "decode_row J why row1 = Inr i" "decode_row J why row2 = Inr e" "is_step n Intent i" "is_step n Result e"
        "jget (en_data e) ''value'' = v" by auto
    have "nosig [i, e]" using is_step_kind [OF l(6)] is_step_kind [OF l(7)] by simp
    moreover have "consume now (Step n r b t bd k) (a\<lparr>at_pending := at_pending a @ [i, e] @ z, at_resume := r2\<rparr>)
        = consume now (k v) (a\<lparr>at_pending := z, at_resume := r2\<rparr>)" for z r2
    proof -
      obtain s' where "walk n r2 0 (at_pending a @ i # e # z) = (Replay v, s', z, r2)"
        using walk_record [of n "at_resume a" 0 "at_pending a" number s rs i e] wk Run es l by auto
      then show ?thesis by simp
    qed
    ultimately show ?thesis using l
      by (intro exI [of _ "[row1, row2]"] exI [of _ "[i, e]"] exI [of _ "a\<lparr>at_pending := [], at_resume := rs\<rparr>"])
         (simp del: consume.simps)
  next
    case (Blocked x)
    then show ?thesis using m a assms(1) wk
      by (simp add: wf_step_def Let_def the_attempt_Some set_attempt_def thenE_def fail_run_def)
  next
    case (Diverged x)
    then show ?thesis using m a assms(1) wk
      by (simp add: wf_step_def Let_def the_attempt_Some set_attempt_def thenE_def diverged_def failE_def)
  qed
qed

section \<open>The record of an attempt\<close>

interpretation wf_reading: home_property "\<lambda>h. reading h = rd" for rd
  by unfold_locales
     (auto simp: keeps_def with_storage_def set_alarm_def bindE_def writeE_def okE_def split: option.splits prod.splits sum.splits if_splits)

text \<open>The rows appended since \<open>R\<close> replay, behind the journal the attempt read, to the point where it
  stopped.\<close>

definition replays_to :: "codec \<Rightarrow> (string \<Rightarrow> string) \<Rightarrow> int \<Rightarrow> prog \<Rightarrow> prog \<Rightarrow> attempt \<Rightarrow> journal_row list \<Rightarrow> 'u wf \<Rightarrow> bool" where
  "replays_to J why now p q a R w' \<longleftrightarrow> (\<exists>rows es. jrows w' = Some (R @ rows) \<and> decode_rows J why rows = Inr es \<and> nosig es
     \<and> (\<forall>z r2. nosig z \<longrightarrow> (\<exists>a'. consume now p (a\<lparr>at_pending := at_pending a @ es @ z, at_resume := r2\<rparr>) = consume now q a')))"

lemma replays_halt: "emits J why m \<Longrightarrow> jrows w = Some R \<Longrightarrow> replays_to J why now p p a R (snd (m w))"
  using emitsD unfolding replays_to_def by blast

lemma replays_refl: "jrows w = Some R \<Longrightarrow> replays_to J why now p p a R w"
  unfolding replays_to_def by (intro exI [of _ "[]"]) auto

lemma replays_step:
  assumes "records J why now p k m w" "w_attempt w = Some a" "jrows w = Some R" "m w = (Inr v, w1)"
    and IH: "\<And>a1 R1. w_attempt w1 = Some a1 \<Longrightarrow> \<not> w_in_step w1 \<Longrightarrow> jrows w1 = Some R1 \<Longrightarrow>
      replays_to J why now (k v) q a1 R1 w'"
  shows "replays_to J why now p q a R w'"
proof -
  from assms(1-4) obtain rows es a1 where 1: "w_attempt w1 = Some a1" "\<not> w_in_step w1" "jrows w1 = Some (R @ rows)"
      "decode_rows J why rows = Inr es" "nosig es"
    and c: "\<And>z r2. nosig z \<Longrightarrow> consume now p (a\<lparr>at_pending := at_pending a @ es @ z, at_resume := r2\<rparr>)
              = consume now (k v) (a1\<lparr>at_pending := at_pending a1 @ z, at_resume := r2\<rparr>)"
    unfolding records_def by blast
  from IH [OF 1(1-3)] obtain rows2 es2 where 2: "jrows w' = Some ((R @ rows) @ rows2)" "decode_rows J why rows2 = Inr es2" "nosig es2"
    and d: "\<And>z r2. nosig z \<Longrightarrow> \<exists>a'. consume now (k v) (a1\<lparr>at_pending := at_pending a1 @ es2 @ z, at_resume := r2\<rparr>) = consume now q a'"
    unfolding replays_to_def by blast
  have "\<exists>a'. consume now p (a\<lparr>at_pending := at_pending a @ (es @ es2) @ z, at_resume := r2\<rparr>) = consume now q a'"
    if "nosig z" for z r2
    using c [of "es2 @ z" r2] d [OF that, of r2] 2(3) that by simp
  moreover have "decode_rows J why (rows @ rows2) = Inr (es @ es2)" using 1(4) 2(2) by (simp add: decode_rows_append)
  ultimately show ?thesis
    unfolding replays_to_def using 1(5) 2(1,3)
    by (intro exI [of _ "rows @ rows2"] exI [of _ "es @ es2"]) simp
qed

text \<open>One verb of the induction: it halts the attempt, or it answers and the rest is the induction
  hypothesis.\<close>

lemma replays_verb:
  assumes "w_attempt w = Some a" "\<not> w_in_step w" "jrows w = Some R" "\<And>i. reading (w_home w) i \<le> now"
    and "emits J why m" "records J why now p k m w" "keeps_home (\<lambda>h. reading h = reading (w_home w)) m"
    and "\<And>e w1. m w = (Inl e, w1) \<Longrightarrow> stop_of J why rt p w = p \<and> snd (run_prog J why rt p w) = w1"
    and "\<And>v w1. m w = (Inr v, w1) \<Longrightarrow> stop_of J why rt p w = stop_of J why rt (k v) w1
        \<and> run_prog J why rt p w = run_prog J why rt (k v) w1"
    and IH: "\<And>v w1 a1 R1. m w = (Inr v, w1) \<Longrightarrow> w_attempt w1 = Some a1 \<Longrightarrow> \<not> w_in_step w1 \<Longrightarrow> jrows w1 = Some R1
        \<Longrightarrow> (\<And>i. reading (w_home w1) i \<le> now)
        \<Longrightarrow> replays_to J why now (k v) (stop_of J why rt (k v) w1) a1 R1 (snd (run_prog J why rt (k v) w1))"
  shows "replays_to J why now p (stop_of J why rt p w) a R (snd (run_prog J why rt p w))"
proof (cases "m w")
  case (Pair x w1)
  show ?thesis
  proof (cases x)
    case (Inl e)
    with Pair assms(8) replays_halt [OF assms(5,3), of now p a] show ?thesis by simp
  next
    case (Inr v)
    with Pair have m: "m w = (Inr v, w1)" by simp
    have "reading (w_home w1) = reading (w_home w)"
      using keepsD [OF assms(7) [unfolded keeps_home_def], of w] m by simp
    with assms(4,9) m IH [OF m] show ?thesis
      by (auto intro!: replays_step [OF assms(6,1,3) m])
  qed
qed

end
