(* ===== verification/Text_Codec.thy ===== *)
theory Text_Codec
  imports Json
begin

text \<open>
  A text form for json values with its parser, the concrete codec the examples run on: it reads
  back every value without floats, as serde documents of its own.
\<close>

definition enc_nat :: "nat \<Rightarrow> string" where
  "enc_nat n = replicate n CHR ''1'' @ [CHR ''.'']"

definition enc_str :: "string \<Rightarrow> string" where
  "enc_str s = enc_nat (length s) @ s"

fun enc :: "json \<Rightarrow> string" where
  "enc JNull = ''n''"
| "enc (JBool b) = (if b then ''t'' else ''f'')"
| "enc (JInt i) = (if 0 \<le> i then CHR ''p'' else CHR ''m'') # enc_nat (nat \<bar>i\<bar>)"
| "enc (JFloat w) = ''x''"
| "enc (JStr s) = CHR ''s'' # enc_str s"
| "enc (JArr xs) = CHR ''a'' # concat (map (\<lambda>x. CHR ''+'' # enc x) xs) @ ''.''"
| "enc (JObj kvs) = CHR ''o'' # concat (map (\<lambda>kv. CHR ''+'' # enc_str (fst kv) @ enc (snd kv)) kvs) @ ''.''"

fun dec_nat :: "string \<Rightarrow> (nat \<times> string) option" where
  "dec_nat [] = None"
| "dec_nat (c # cs) = (if c = CHR ''.'' then Some (0, cs)
     else map_option (\<lambda>(n, r). (Suc n, r)) (dec_nat cs))"

definition dec_str :: "string \<Rightarrow> (string \<times> string) option" where
  "dec_str s = map_option (\<lambda>(n, r). (take n r, drop n r)) (dec_nat s)"

text \<open>Fuel bounds the nesting and the list lengths; the text's own length is enough.\<close>

fun dec :: "nat \<Rightarrow> string \<Rightarrow> (json \<times> string) option"
  and dec_items :: "nat \<Rightarrow> string \<Rightarrow> (json list \<times> string) option"
  and dec_fields :: "nat \<Rightarrow> string \<Rightarrow> ((string \<times> json) list \<times> string) option" where
  "dec 0 s = None"
| "dec (Suc n) s = (case s of
      [] \<Rightarrow> None
    | c # cs \<Rightarrow>
        if c = CHR ''n'' then Some (JNull, cs)
        else if c = CHR ''t'' then Some (JBool True, cs)
        else if c = CHR ''f'' then Some (JBool False, cs)
        else if c = CHR ''p'' then map_option (\<lambda>(k, r). (JInt (int k), r)) (dec_nat cs)
        else if c = CHR ''m'' then map_option (\<lambda>(k, r). (JInt (- int k), r)) (dec_nat cs)
        else if c = CHR ''s'' then map_option (\<lambda>(t, r). (JStr t, r)) (dec_str cs)
        else if c = CHR ''a'' then map_option (\<lambda>(xs, r). (JArr xs, r)) (dec_items n cs)
        else if c = CHR ''o'' then map_option (\<lambda>(kvs, r). (JObj kvs, r)) (dec_fields n cs)
        else None)"
| "dec_items 0 s = None"
| "dec_items (Suc n) s = (case s of
      [] \<Rightarrow> None
    | c # cs \<Rightarrow>
        if c = CHR ''.'' then Some ([], cs)
        else if c = CHR ''+'' then
          (case dec n cs of None \<Rightarrow> None | Some (x, r) \<Rightarrow> map_option (\<lambda>(xs, r). (x # xs, r)) (dec_items n r))
        else None)"
| "dec_fields 0 s = None"
| "dec_fields (Suc n) s = (case s of
      [] \<Rightarrow> None
    | c # cs \<Rightarrow>
        if c = CHR ''.'' then Some ([], cs)
        else if c = CHR ''+'' then
          (case dec_str cs of None \<Rightarrow> None | Some (k, r) \<Rightarrow>
             (case dec n r of None \<Rightarrow> None | Some (x, r) \<Rightarrow> map_option (\<lambda>(kvs, r). ((k, x) # kvs, r)) (dec_fields n r)))
        else None)"

definition text_codec :: codec where
  "text_codec = \<lparr>to_text = enc, from_text = (\<lambda>s. case dec (Suc (length s)) s of Some (v, []) \<Rightarrow> Some v | _ \<Rightarrow> None)\<rparr>"

lemma dec_enc_nat [simp]: "dec_nat (enc_nat n @ r) = Some (n, r)"
  by (induction n) (simp_all add: enc_nat_def)

lemma dec_enc_str [simp]: "dec_str (enc_str s @ r) = Some (s, r)"
  by (simp add: dec_str_def enc_str_def)

lemma dec_enc: "float_free v \<Longrightarrow> length (enc v) \<le> n \<Longrightarrow> dec n (enc v @ r) = Some (v, r)"
proof (induction v arbitrary: n r rule: enc.induct)
  case (6 xs)
  have items: "dec_items m (concat (map (\<lambda>x. CHR ''+'' # enc x) ys) @ ''.'' @ r) = Some (ys, r)"
    if "set ys \<subseteq> set xs" "length (concat (map (\<lambda>x. CHR ''+'' # enc x) ys)) < m" for ys m
    using that
  proof (induction ys arbitrary: m)
    case Nil
    then show ?case by (cases m) auto
  next
    case (Cons y ys)
    from Cons.prems obtain m' where m: "m = Suc m'" by (cases m) auto
    have "float_free y" using 6(2) Cons.prems(1) by (auto simp: list_all_iff)
    then have "dec m' (enc y @ concat (map (\<lambda>x. CHR ''+'' # enc x) ys) @ ''.'' @ r)
        = Some (y, concat (map (\<lambda>x. CHR ''+'' # enc x) ys) @ ''.'' @ r)"
      using Cons.prems m by (intro 6(1)) auto
    with Cons m show ?case by simp
  qed
  from 6(3) obtain m where "n = Suc m" by (cases n) auto
  with items [of xs m] 6(3) show ?case by simp
next
  case (7 kvs)
  let ?e = "\<lambda>kv. CHR ''+'' # enc_str (fst kv) @ enc (snd kv)"
  have fields: "dec_fields m (concat (map ?e ys) @ ''.'' @ r) = Some (ys, r)"
    if "set ys \<subseteq> set kvs" "length (concat (map ?e ys)) < m" for ys m
    using that
  proof (induction ys arbitrary: m)
    case Nil
    then show ?case by (cases m) auto
  next
    case (Cons y ys)
    from Cons.prems obtain m' where m: "m = Suc m'" by (cases m) auto
    have "float_free (snd y)" using 7(2) Cons.prems(1) by (auto simp: list_all_iff)
    then have "dec m' (enc (snd y) @ concat (map ?e ys) @ ''.'' @ r) = Some (snd y, concat (map ?e ys) @ ''.'' @ r)"
      using Cons.prems m by (intro 7(1)) auto
    with Cons m show ?case by simp
  qed
  from 7(3) obtain m where "n = Suc m" by (cases n) auto
  with fields [of kvs m] 7(3) show ?case by simp
next
  case 1
  then show ?case by (cases n) simp_all
next
  case (2 b)
  then show ?case by (cases n; cases b) simp_all
next
  case (3 i)
  then show ?case by (cases n; cases "0 \<le> i") simp_all
next
  case (4 w)
  then show ?case by simp
next
  case (5 s)
  then show ?case by (cases n) simp_all
qed

lemma text_codec_round_trips: "codec_round_trips text_codec"
  unfolding codec_round_trips_def
proof (intro allI impI)
  fix v
  assume "float_free v"
  then have "dec (Suc (length (enc v))) (enc v @ []) = Some (v, [])" by (rule dec_enc) simp
  then show "from_text text_codec (to_text text_codec v) = Some v" by (simp add: text_codec_def del: dec.simps)
qed

end
