(* ===== verification/Workflow_Spec.thy ===== *)
theory Workflow_Spec
  imports Workflow_Exact Text_Codec
begin

text \<open>
  The workflow engine's contract: an attempt's journal replays to where the attempt stopped, a
  recorded step never runs again, terminal runs answer from their journal, children are named
  apart; and, on concrete journals, where the engine departs from it.
\<close>

section \<open>An attempt's journal replays\<close>

lemma attempt_replays:
  assumes "standing J rt" "plain p" "smooth J why rt p w"
    and "w_attempt w = Some a" "\<not> w_in_step w" "jrows w = Some R" "\<And>i. reading (w_home w) i \<le> now"
  shows "replays_to J why now p (stop_of J why rt p w) a R (snd (run_prog J why rt p w))"
  using assms(2-)
proof (induction p arbitrary: w a R rule: prog_ind)
  case (Step n r b t bd k)
  have q: "\<forall>i. quiet (bd i)" using Step.prems(1) by simp
  show ?case
    by (rule replays_verb [OF Step.prems(3-6) emits_step [OF assms(1) q]
          step_records [OF Step.prems(4) assms(1) q] wf_reading.keeps_step])
       (use Step in auto)
next
  case (Sleep d k)
  show ?case
    by (rule replays_verb [OF Sleep.prems(3-6) emits_sleep [OF assms(1)]
          sleep_records [OF Sleep.prems(4,6)] wf_reading.keeps_sleep])
       (use Sleep in \<open>auto simp: thenE_def\<close>)
next
  case (Await ns t k)
  have c: "converts rt" using assms(1) by (simp add: standing_def)
  show ?case
    by (rule replays_verb [OF Await.prems(3-6) emits_await [OF assms(1)]
          await_records [OF Await.prems(4,6) c] wf_reading.keeps_await])
       (use Await in auto)
next
  case (Spawn d i k)
  have f: "float_free i" using Spawn.prems(1) by simp
  show ?case
    by (rule replays_verb [OF Spawn.prems(3-6) emits_spawn [OF assms(1) f]
          spawn_records [OF Spawn.prems(4) assms(1) f] wf_reading.keeps_spawn])
       (use Spawn in auto)
next
  case (Time k)
  show ?case
    by (rule replays_verb [OF Time.prems(3-6) emits_time [OF assms(1)]
          time_records [OF Time.prems(4) assms(1)] wf_reading.keeps_time])
       (use Time in auto)
next
  case (Uuid k)
  show ?case
    by (rule replays_verb [OF Uuid.prems(3-6) emits_uuid [OF assms(1)]
          uuid_records [OF Uuid.prems(4) assms(1)] wf_reading.keeps_uuid])
       (use Uuid in auto)
next
  case (Random k)
  show ?case
    by (rule replays_verb [OF Random.prems(3-6) emits_quiets(11)
          random_records [OF Random.prems(4)] keeps_home_pure(9)])
       (use Random in auto)
qed (auto simp: okE_def failE_def intro: replays_refl)


section \<open>A run to try it on\<close>

definition demo_prog :: prog where
  "demo_prog = Step ''pay'' None 2000 0 (\<lambda>_. Done (JInt 7)) (\<lambda>v. Time (\<lambda>t. Sleep 50 (Return v)))"

definition demo_rt :: wf_runtime where
  "demo_rt = \<lparr>wr_listener = (\<lambda>_. Some (\<lambda>_. demo_prog)), wr_to_value = (\<lambda>_. None), wr_router = None,
     wr_uuid64 = (\<lambda>_. 9), wr_uuid = (\<lambda>_. ''u''), wr_fakes = Map.empty, wr_display = (\<lambda>e. e)\<rparr>"

definition demo_run_file :: "unit db" where
  "demo_run_file = (fresh_db ())\<lparr>user_version := 2, wf_journal := Some [], wf_secrets := Some []\<rparr>"

definition demo_run_home :: "unit home" where
  "demo_run_home = begun (spawn_home (Some (open_file demo_run_file)) default_policy None False (\<lambda>_. 100))"

definition demo_attempt :: attempt where
  "demo_attempt = \<lparr>at_pending = [], at_rng = 9, at_own_key = ''k'', at_name = ''pay/1'', at_resume = False\<rparr>"

definition demo_wf :: "unit wf" where
  "demo_wf = fresh_wf demo_attempt demo_run_home"

definition demo_call :: "string \<Rightarrow> json list \<Rightarrow> call" where
  "demo_call m args = \<lparr>c_class = WORKFLOW_CLASS, c_method = m, c_name = ''pay/1'', c_args = args, c_chain = [], c_caller = None\<rparr>"

definition demo_opened :: "unit home" where
  "demo_opened = spawn_home (Some (open_file demo_run_file)) default_policy None False (\<lambda>_. 100)"

lemma demo_standing: "standing text_codec demo_rt"
  by (simp add: standing_def text_codec_round_trips converts_def demo_rt_def)

lemma demo_plain: "plain demo_prog"
  by (simp add: demo_prog_def quiet_def)

lemma demo_wf_simps: "w_attempt demo_wf = Some demo_attempt" "\<not> w_in_step demo_wf" "jrows demo_wf = Some []"
    "reading (w_home demo_wf) i = 100"
  by (simp_all add: demo_wf_def fresh_wf_def jrows_def demo_run_home_def spawn_home_def Let_def load_alarm_apply
      begun_def home_view_def view_def open_file_def demo_run_file_def ensure_meta_def writeE_def stmt_def put_def
      load_alarm_row_def fresh_db_def)

lemma demo_smooth: "smooth text_codec why demo_rt demo_prog demo_wf"
  by (simp add: demo_prog_def clear_tail_def demo_wf_simps demo_attempt_def split: prod.split sum.split)


section \<open>The journal only grows\<close>

text \<open>C4. The journal is append-only in the committed file: after any guarded workflow call, answered
  or failed, whatever the guest code and the world did, every journal row committed before is
  still there, in place, and rows only follow them in strictly increasing sequence order.\<close>

theorem journal_append_only:
  assumes "quiescent h" "home_committed h = Some d" "journal_ok d"
  shows "\<exists>d'. home_committed (snd (guarded_dispatch gate (as_body (workflow_dispatch J why rt cx c)) h)) = Some d'
     \<and> journal_ok d' \<and> prefix (rows_of d) (rows_of d')"
proof -
  let ?b = "as_body (workflow_dispatch J why rt cx c)"
  have hs: "has_storage h" using assms(2) by (auto simp: home_committed_def has_storage_def)
  obtain r h2 where b: "?b (begun h) = (r, h2)" by force
  have "grown (rows_of d) h2"
    using keepsD [OF wf_grown.keeps_workflow begun_grown [OF assms], of J why rt cx c] b
    by (metis snd_as_body snd_conv)
  then obtain c' v where g: "home_committed h2 = Some c'" "home_view h2 = Some v" "journal_ok c'"
      "journal_ok v" "prefix (rows_of d) (rows_of c')" "prefix (rows_of c') (rows_of v)"
    by (auto simp: grown_def)
  have m: "journal_ok (with_meta c')" "rows_of (with_meta c') = rows_of c'"
    using g(3) by (auto simp: with_meta_def journal_ok_def journal_wf_def rows_of_def)
  show ?thesis
  proof (cases r)
    case (Inl e)
    with workflow_body.guarded_err [OF assms(1) hs] b g m show ?thesis by simp
  next
    case (Inr v')
    with workflow_body.guarded_ok [OF assms(1) hs] b g show ?thesis
      by (auto intro: prefix_order.order_trans)
  qed
qed

lemma demo_opened_quiescent: "quiescent demo_opened"
  unfolding demo_opened_def by (rule spawn_home_quiescent) (auto simp: open_file_def in_txn_def)

lemma demo_opened_file: "home_committed demo_opened = Some (with_meta demo_run_file)"
  by (simp add: demo_opened_def spawn_home_def Let_def load_alarm_apply home_committed_def open_file_def ensure_meta_def
      writeE_def stmt_def put_def load_alarm_row_def fresh_db_def demo_run_file_def with_meta_def view_def)

lemma demo_journal_ok: "journal_ok (with_meta demo_run_file)"
  by (simp add: journal_ok_def journal_wf_def with_meta_def demo_run_file_def fresh_db_def)

theorem journal_append_only_witness:
  "\<exists>d'. home_committed (snd (guarded_dispatch False (as_body (workflow_dispatch text_codec (\<lambda>e. e) demo_rt
       \<lparr>cx_name = ''pay/1'', cx_own_key = ''k''\<rparr> (demo_call ''start'' []))) demo_opened)) = Some d'
     \<and> journal_ok d' \<and> prefix (rows_of (with_meta demo_run_file)) (rows_of d')"
  by (rule journal_append_only [OF demo_opened_quiescent demo_opened_file demo_journal_ok])

section \<open>Terminal runs\<close>

lemma with_storage_same: "storage h = Some st \<Longrightarrow> f st = (r, st) \<Longrightarrow> with_storage f h = (r, h)"
  by (simp add: with_storage_def)

lemma schema_current:
  "home_view h = Some d \<Longrightarrow> user_version d = 2 \<Longrightarrow> with_storage ensure_schema h = (Inr (), h)"
  by (auto simp: home_view_def ensure_schema_def schema_version_def WF_SCHEMA_VERSION_def okE_def
      intro!: with_storage_same)

lemma read_journal:
  assumes "home_view h = Some d" "wf_journal d = Some rows"
    and "decode_rows J why (sort_key j_seq (filter (\<lambda>r. j_seq r \<ge> 0) rows)) = Inr es"
  shows "with_storage (read_from J why 0) h = (Inr es, h)"
  using assms by (auto simp: home_view_def read_from_def intro!: with_storage_same)

text \<open>C6. A finished run is final: starting, resuming or waking a run whose journal holds its
  completion answers the recorded value and changes nothing at all, file, alarm and traces
  included; a cancelled run answers its cancellation the same way. No guest code runs.\<close>

theorem terminal_run_is_final:
  assumes "home_view h = Some d" "user_version d = 2" "wf_journal d = Some rows"
    and "decode_rows J why (sort_key j_seq (filter (\<lambda>r. j_seq r \<ge> 0) rows)) = Inr es"
    and "c_method c \<in> {''start'', ''resume'', ''alarm''}"
    and "find_kind Completed es = Some e \<or> (find_kind Completed es = None \<and> find_kind Cancel es = Some e)"
  shows "workflow_dispatch J why rt cx c h =
     (Inr (if en_kind e = Completed then status_value ''completed'' (jget (en_data e) ''value'')
           else status_reason ''cancelled'' (jget (en_data e) ''reason'')), h)"
proof -
  have k: "find_kind x es = Some e \<Longrightarrow> en_kind e = x" for x by (auto simp: find_kind_def find_Some_iff)
  have run: "run_attempt J why rt cx i rs h =
     (Inr (if en_kind e = Completed then status_value ''completed'' (jget (en_data e) ''value'')
           else status_reason ''cancelled'' (jget (en_data e) ''reason'')), h)" for i rs
    using assms(6) k [of Completed] k [of Cancel] read_journal [OF assms(1,3,4)]
    by (auto simp: run_attempt_def okE_def)
  show ?thesis
    using assms(5) schema_current [OF assms(1,2)] run by (auto simp: workflow_dispatch_def thenE_def)
qed

definition demo_done_file :: "unit db" where
  "demo_done_file = demo_run_file\<lparr>wf_journal := Some [\<lparr>j_seq = 1, j_at = 5, j_kind = ''COMPLETED'',
     j_data = enc (JObj [(''value'', JInt 7)]), j_format = 1\<rparr>]\<rparr>"

theorem terminal_run_is_final_witness:
  "workflow_dispatch text_codec (\<lambda>e. e) demo_rt \<lparr>cx_name = ''pay/1'', cx_own_key = ''k''\<rparr>
     \<lparr>c_class = WORKFLOW_CLASS, c_method = ''start'', c_name = ''pay/1'', c_args = [], c_chain = [], c_caller = None\<rparr>
     (demo_run_home\<lparr>storage := Some (open_file demo_done_file)\<rparr>)
   = (Inr (status_value ''completed'' (JInt 7)), demo_run_home\<lparr>storage := Some (open_file demo_done_file)\<rparr>)"
proof -
  let ?row = "\<lparr>j_seq = 1, j_at = 5, j_kind = ''COMPLETED'', j_data = enc (JObj [(''value'', JInt 7)]), j_format = 1\<rparr>"
  let ?e = "\<lparr>en_seq = 1, en_at = 5, en_kind = Completed, en_data = JObj [(''value'', JInt 7)], en_format = 1\<rparr>"
  have t: "from_text text_codec (enc (JObj [(''value'', JInt 7)])) = Some (JObj [(''value'', JInt 7)])"
    using text_codec_round_trips unfolding codec_round_trips_def
    by (auto simp: text_codec_def dest!: spec [of _ "JObj [(''value'', JInt 7)]"] simp del: enc.simps dec.simps)
  have "parse_kind ''COMPLETED'' = Some Completed" using parse_kind_str [of Completed] by simp
  then have r: "decode_rows text_codec (\<lambda>e. e) (sort_key j_seq (filter (\<lambda>r. j_seq r \<ge> 0) [?row])) = Inr [?e]"
    using t by (simp add: decode_row_def del: enc.simps)
  show ?thesis
    using terminal_run_is_final [OF _ _ _ r, of "demo_run_home\<lparr>storage := Some (open_file demo_done_file)\<rparr>" demo_done_file
        "\<lparr>c_class = WORKFLOW_CLASS, c_method = ''start'', c_name = ''pay/1'', c_args = [], c_chain = [], c_caller = None\<rparr>"
        ?e demo_rt "\<lparr>cx_name = ''pay/1'', cx_own_key = ''k''\<rparr>"]
    by (simp add: home_view_def open_file_def view_def demo_done_file_def demo_run_file_def find_kind_def del: enc.simps)
qed

section \<open>Waiting leaves a wake-up behind\<close>

lemma durable_clock:
  "reading (w_home (snd (append_durable J k d w))) = reading (w_home w)"
  "ticks (w_home (snd (append_durable J k d w))) = Suc (ticks (w_home w))"
  "w_parked (snd (append_durable J k d w)) = w_parked w"
  by (auto simp: append_durable_def on_home_def unix_now_ms_def bindE_def with_storage_def
      split: prod.splits option.splits)

lemma arm_apply:
  "\<exists>w1. arm a d w = (Inr (), w1) \<and> alarm (w_home w1) = Some \<lparr>pa_due_ms = reading (w_home w) (ticks (w_home w)) + max d 0,
     pa_class = WORKFLOW_CLASS, pa_name = at_name a, pa_own_key = at_own_key a\<rparr>"
proof -
  let ?h = "(w_home w)\<lparr>ticks := Suc (ticks (w_home w))\<rparr>"
  let ?al = "\<lparr>pa_due_ms = reading (w_home w) (ticks (w_home w)) + max d 0, pa_class = WORKFLOW_CLASS,
    pa_name = at_name a, pa_own_key = at_own_key a\<rparr>"
  have "arm a d w = (Inr (), w\<lparr>w_home := snd (set_alarm ?al ?h)\<rparr>)"
    using set_alarm_ok [of ?al ?h]
    by (cases "set_alarm ?al ?h") (simp add: arm_def on_home_def unix_now_ms_def bindE_def del: set_alarm_ok)
  then show ?thesis by simp
qed

lemma arm_parks:
  assumes "thenE (arm a d) (park s) w = (r, w')"
  shows "alarm (w_home w') = Some \<lparr>pa_due_ms = reading (w_home w) (ticks (w_home w)) + max d 0,
           pa_class = WORKFLOW_CLASS, pa_name = at_name a, pa_own_key = at_own_key a\<rparr>"
    and "w_parked w' = Some s"
  using arm_apply [of a d w] assms by (auto simp: thenE_def park_def)

text \<open>The time a sleep waits for: what its journal row says, or what it is about to record.\<close>

definition sleep_due :: "attempt \<Rightarrow> int \<Rightarrow> int \<Rightarrow> int" where
  "sleep_due a now d = (case at_pending a of
      [] \<Rightarrow> now + max d 0
    | e # _ \<Rightarrow> (case as_i64 (jget (en_data e) ''due_ms'') of Some i \<Rightarrow> i | None \<Rightarrow> 0))"

text \<open>A sleeping run always has its wake-up armed: whenever \<open>wf:sleep\<close> parks the run, live or
  replayed, the object's one alarm is set to this run, and on a clock that does not run backwards
  it is due no earlier than the recorded timer.\<close>

theorem parked_sleep_is_armed:
  assumes "w_attempt w = Some a" "w_parked w = None" "wf_sleep J d w = (r, w')" "w_parked w' \<noteq> None"
    and "\<And>i j. i \<le> j \<Longrightarrow> reading (w_home w) i \<le> reading (w_home w) j"
  shows "\<exists>due. alarm (w_home w') = Some \<lparr>pa_due_ms = due, pa_class = WORKFLOW_CLASS, pa_name = at_name a, pa_own_key = at_own_key a\<rparr>
     \<and> sleep_due a (reading (w_home w) (ticks (w_home w))) d \<le> due"
proof (cases "at_pending a")
  case Nil
  let ?now = "reading (w_home w) (ticks (w_home w))" and ?w = "at_attempt a 1 w"
  let ?dat = "JObj [(''due_ms'', JInt (?now + max d 0)), (''for'', JNull)]"
  let ?row = "append_durable J Timer ?dat"
  have s: "wf_sleep J d w = thenE ?row (thenE (arm a (max d 0)) (park (''sleeping '' @ show_int d @ ''ms''))) ?w"
    using assms(1) Nil by (simp add: wf_sleep_def the_attempt_Some wf_now_at)
  obtain x wb where ap: "?row ?w = (x, wb)" by force
  have dc: "w_parked wb = None" "reading (w_home wb) = reading (w_home w)" "ticks (w_home wb) = Suc (Suc (ticks (w_home w)))"
    using durable_clock [of J Timer ?dat ?w, unfolded ap] assms(2) by (simp_all add: at_attempt_def)
  have "x \<noteq> Inl e" for e
  proof
    assume "x = Inl e"
    with s ap assms(3) have "w' = wb" by (simp add: thenE_def)
    with dc(1) assms(4) show False by simp
  qed
  then obtain u where "x = Inr u" by (cases x) auto
  then have "thenE (arm a (max d 0)) (park (''sleeping '' @ show_int d @ ''ms'')) wb = (r, w')"
    using s ap assms(3) by (simp add: thenE_def)
  note armed = arm_parks(1) [OF this]
  have "reading (w_home wb) (ticks (w_home wb)) \<ge> ?now"
    using dc assms(5) [of "ticks (w_home w)"] by simp
  with armed Nil show ?thesis by (simp add: sleep_due_def)
next
  case (Cons e es)
  let ?now = "reading (w_home w) (ticks (w_home w))" and ?w = "at_attempt a 1 w"
  let ?due = "case as_i64 (jget (en_data e) ''due_ms'') of Some i \<Rightarrow> i | None \<Rightarrow> 0"
  have "thenE (arm a (?due - ?now)) (park (''sleeping, due in '' @ show_int (?due - ?now) @ ''ms'')) ?w = (r, w')"
    using assms(1-4) Cons
    by (auto simp: wf_sleep_def the_attempt_Some wf_now_at diverged_def failE_def Let_def at_attempt_def set_pending_def writeE_def split: if_splits)
  note armed = arm_parks(1) [OF this]
  have "reading (w_home ?w) (ticks (w_home ?w)) \<ge> ?now" using assms(5) [of "ticks (w_home w)"] by simp
  with armed Cons show ?thesis by (simp add: sleep_due_def)
qed

theorem parked_sleep_is_armed_witness:
  "\<exists>r w' due. wf_sleep text_codec 50 demo_wf = (r, w') \<and> alarm (w_home w') = Some \<lparr>pa_due_ms = due,
     pa_class = WORKFLOW_CLASS, pa_name = ''pay/1'', pa_own_key = ''k''\<rparr> \<and> 150 \<le> due"
proof -
  obtain r w' where s: "wf_sleep text_codec 50 demo_wf = (r, w')" by force
  have p: "w_parked demo_wf = None" by (simp add: demo_wf_def fresh_wf_def)
  have "(case w_parked (snd (wf_sleep text_codec 50 demo_wf)) of None \<Rightarrow> False | Some _ \<Rightarrow> True)"
    by code_simp
  then have "w_parked w' \<noteq> None" using s by (auto split: option.splits)
  from parked_sleep_is_armed [OF demo_wf_simps(1) p s this] s show ?thesis
    by (auto simp: demo_wf_simps demo_attempt_def sleep_due_def)
qed

section \<open>Where the engine departs from its contract\<close>

text \<open>The seed of a run survives its journal only below \<open>2^63\<close>: the first attempt draws from the
  seed it recorded, every later attempt from \<open>1\<close> when the top bit of the seed is set.\<close>

theorem seed_replays: "seed_of (started_data input seed rv parent) = (if bit seed 63 then 1 else seed)"
proof -
  have "bit seed 63 \<longleftrightarrow> 2 ^ 63 \<le> uint seed"
  proof -
    have "bit seed 63 \<longleftrightarrow> bit (uint seed) 63" by (simp add: bit_uint_iff)
    also have "\<dots> \<longleftrightarrow> odd (uint seed div 2 ^ 63)" by (simp add: bit_iff_odd)
    also have "\<dots> \<longleftrightarrow> 2 ^ 63 \<le> uint seed" 
    proof (cases "uint seed < 2 ^ 63")
      case True
      then have "uint seed div 2 ^ 63 = 0" by (simp add: uint_nonnegative)
      with True show ?thesis by simp
    next
      case False
      then have "uint seed div 2 ^ 63 = (uint seed - 2 ^ 63) div 2 ^ 63 + 1" by (subst div_pos_geq) auto
      also have "(uint seed - 2 ^ 63) div 2 ^ 63 = 0" using False uint_bounded [of seed] by simp
      finally have "uint seed div 2 ^ 63 = 1" by simp
      with False show ?thesis by simp
    qed
    finally show ?thesis .
  qed
  moreover have "- (2 ^ 63) \<le> uint seed" by (rule order_trans [of _ 0]) (simp_all add: uint_nonnegative)
  ultimately show ?thesis by (simp add: seed_of_def started_data_def)
qed

text \<open>A run whose step fails once and is to be retried after a backoff, and the calls it receives.\<close>

definition retry_prog :: prog where
  "retry_prog = Step ''pay'' (Some 3) 2000 0 (\<lambda>n. if n = 0 then Throw ''busy'' else Done (JInt 7)) (\<lambda>v. Sleep 50 (Return v))"

definition retry_rt :: wf_runtime where
  "retry_rt = demo_rt\<lparr>wr_listener := (\<lambda>_. Some (\<lambda>_. retry_prog))\<rparr>"

definition demo_dispatch :: "string \<Rightarrow> json list \<Rightarrow> unit home \<Rightarrow> (object_error + json) \<times> unit home" where
  "demo_dispatch m args = guarded_dispatch False (as_body (workflow_dispatch text_codec (\<lambda>e. e) retry_rt
     \<lparr>cx_name = ''pay/1'', cx_own_key = ''k''\<rparr> (demo_call m args)))"

text \<open>A signal that arrives during a step's backoff makes the recorded step run again on every
  wake-up: the step's result lies behind the signal's row, where the cursor does not look, and the
  verb after the step stops at the signal. The run pays once more each time it wakes.\<close>

theorem signal_in_backoff_reruns_step:
  "(let h1 = snd (demo_dispatch ''start'' [] demo_opened);
        h2 = snd (demo_dispatch ''signal'' [JStr ''note''] h1);
        h3 = snd (demo_dispatch ''alarm'' [] h2);
        h4 = snd (demo_dispatch ''alarm'' [] h3)
    in map (map fst \<circ> ran) [h1, h2, h3, h4]) =
   [[''pay''], [''pay'', ''pay''], [''pay'', ''pay'', ''pay''], [''pay'', ''pay'', ''pay'', ''pay'']]"
  by code_simp

text \<open>A parent that spawns one child and waits for it, with a router that fails its first call.\<close>

definition parent_rt :: wf_runtime where
  "parent_rt = demo_rt\<lparr>wr_listener := (\<lambda>_. Some (\<lambda>_. Spawn ''kid'' JNull (\<lambda>c. Await [child_signal c] None (\<lambda>v _. Return v)))),
     wr_router := Some (\<lambda>n _. if n = 0 then Some ''unreachable'' else None)\<rparr>"

definition parent_dispatch :: "string \<Rightarrow> unit home \<Rightarrow> (object_error + json) \<times> unit home" where
  "parent_dispatch m = guarded_dispatch False (as_body (workflow_dispatch text_codec (\<lambda>e. e) parent_rt
     \<lparr>cx_name = ''pay/1'', cx_own_key = ''k''\<rparr> (demo_call m [])))"

text \<open>A child whose launch fails is never launched: its CHILD row is durable before the start call
  goes out, so the first attempt fails and every later one takes the row as proof of a running
  child and waits for it without calling anyone.\<close>

theorem failed_launch_is_forgotten:
  "(let (r1, h1) = parent_dispatch ''start'' demo_opened;
        (r2, h2) = parent_dispatch ''start'' h1;
        (r3, h3) = parent_dispatch ''alarm'' h2
    in (map isl [r1, r2, r3], map (length \<circ> routed) [h1, h2, h3],
        map (\<lambda>r. case r of Inr v \<Rightarrow> jget v ''status'' | Inl _ \<Rightarrow> JNull) [r2, r3])) =
   ([True, False, False], [1, 1, 1], [JStr ''parked'', JStr ''parked''])"
  by code_simp

section \<open>Signals and unstarted runs\<close>

lemma append_first:
  assumes "storage h = Some st" "working st = Some d" "wf_journal d = Some []" "journal_seq d = 0"
  shows "\<exists>s h1 st1 d1 row. append J k v h = (Inr s, h1) \<and> home_committed h1 = home_committed h \<and> storage h1 = Some st1
     \<and> view st1 = d1 \<and> wf_journal d1 = Some [row] \<and> j_seq row = 1 \<and> j_kind row = kind_str k"
  using assms
  by (simp add: append_def bindE_def unix_now_ms_def with_storage_Some append_row_def stmt_def put_def
      append_db_def next_seq_def home_committed_def view_def)

lemma unstarted_signal:
  assumes "storage h = Some st0" "working st0 = Some d" "user_version d = 2" "wf_journal d = Some []" "journal_seq d = 0"
    and "c_method c = ''signal''"
  shows "\<exists>e h2. workflow_dispatch J why rt cx c h = (Inl e, h2) \<and> home_committed h2 = home_committed h"
proof -
  have hv: "home_view h = Some d" using assms(1,2) by (simp add: home_view_def view_def)
  show ?thesis
proof (cases "Option.bind (arg 0 (c_args c)) as_str")
  case None
  with assms(6) schema_current [OF hv assms(3)] show ?thesis by (simp add: workflow_dispatch_def thenE_def failE_def)
next
  case (Some name)
  let ?v = "JObj [(''name'', JStr name), (''payload'', arg_or_null 1 (c_args c))]"
  from append_first [OF assms(1,2,4,5), of J Signal ?v] obtain s h1 st d1 row where
    a: "append J Signal ?v h = (Inr s, h1)" "home_committed h1 = home_committed h" "storage h1 = Some st" "view st = d1"
       "wf_journal d1 = Some [row]" "j_seq row = 1" "j_kind row = kind_str Signal" by blast
  have w: "workflow_dispatch J why rt cx c h = run_attempt J why rt cx None False h1"
    using assms(6) schema_current [OF hv assms(3)] Some a(1) by (simp add: workflow_dispatch_def thenE_def)
  have r: "with_storage (read_from J why 0) h1 = (decode_rows J why [row], h1)"
    by (rule with_storage_same [OF a(3)]) (use a in \<open>simp add: read_from_def\<close>)
  have "\<exists>e. run_attempt J why rt cx None False h1 = (Inl e, h1)"
  proof (cases "decode_row J why row")
    case (Inl e)
    then show ?thesis using r by (simp add: run_attempt_def bindE_def)
  next
    case (Inr x)
    then have "en_kind x = Signal" using a(7) parse_kind_str [of Signal]
      by (auto simp: decode_row_def simp del: parse_kind_str split: option.splits)
    with Inr r show ?thesis
      by (auto simp: run_attempt_def bindE_def find_kind_def failE_def begin_run_def Let_def split: option.splits)
  qed
  with w a(2) show ?thesis by auto
qed
qed

text \<open>A signal to a run that never started is refused and leaves no trace in the file: the row it
  appended makes the journal non-empty, the attempt that follows finds it in the place of STARTED
  and fails, and the guard rolls the row back.\<close>

theorem signal_before_start:
  assumes "quiescent h" "home_committed h = Some d" "user_version d = 2" "wf_journal d = Some []" "journal_seq d = 0"
    and "c_method c = ''signal''"
  shows "(\<exists>e. fst (guarded_dispatch gate (as_body (workflow_dispatch J why rt cx c)) h) = Inl e)
    \<and> home_committed (snd (guarded_dispatch gate (as_body (workflow_dispatch J why rt cx c)) h)) = Some (with_meta d)"
proof -
  have hs: "has_storage h" using assms(2) by (auto simp: home_committed_def has_storage_def)
  obtain st where st: "storage h = Some st" "committed st = d" using assms(2) by (auto simp: home_committed_def)
  have "storage (begun h) = Some (st\<lparr>working := Some d\<rparr>)" using st by (simp add: begun_def)
  from unstarted_signal [OF this _ assms(3-6), of J why rt cx] obtain e h2 where
    b: "workflow_dispatch J why rt cx c (begun h) = (Inl e, h2)" "home_committed h2 = Some d"
    using assms(2) by auto
  then have "as_body (workflow_dispatch J why rt cx c) (begun h) = (Inl (Call e), h2)" by (simp add: as_body_def)
  from workflow_body.guarded_err [OF assms(1) hs this, of gate] b(2) show ?thesis by simp
qed

theorem signal_before_start_witness:
  "\<exists>e. fst (guarded_dispatch False (as_body (workflow_dispatch text_codec (\<lambda>e. e) demo_rt
       \<lparr>cx_name = ''pay/1'', cx_own_key = ''k''\<rparr> (demo_call ''signal'' [JStr ''note'']))) demo_opened) = Inl e"
  using signal_before_start [OF demo_opened_quiescent demo_opened_file, of "demo_call ''signal'' [JStr ''note'']"]
  by (simp add: with_meta_def demo_run_file_def fresh_db_def demo_call_def)

end
