(* ===== verification/Script_Sql.thy ===== *)
theory Script_Sql
  imports Platform
begin

text \<open>
  The SQL a script may run (\<open>SqliteStorage::exec\<close>, \<open>query\<close> and \<open>exec_script\<close> of
  \<open>actias-worker-core/src/storage.rs\<close>). The SQL engine itself is a parameter: what it does with a
  text under an authorizer callback and bound parameters. What is modelled is the code around
  it: parameter binding, the authorizer handed over, rows turned into JSON objects.
\<close>

section \<open>The engine as a parameter\<close>

type_synonym authorizer = "auth_action \<Rightarrow> authorization"

record 'u sql_engine =
  sq_execute :: "authorizer \<Rightarrow> string \<Rightarrow> sql_value list \<Rightarrow> ('u sqlite, int) cmd"
  sq_query :: "authorizer \<Rightarrow> string \<Rightarrow> sql_value list \<Rightarrow> ('u sqlite, string list \<times> sql_value list list) cmd"
  sq_batch :: "authorizer \<Rightarrow> string \<Rightarrow> ('u sqlite, unit) cmd"
  sq_f64_of :: "int \<Rightarrow> 64 word"
  sq_shown :: "json \<Rightarrow> string"
  sq_finite :: "64 word \<Rightarrow> bool"
  sq_lossy :: "string \<Rightarrow> string"

section \<open>exec, query, exec_script\<close>

fun bind_all :: "'u sql_engine \<Rightarrow> json list \<Rightarrow> string + sql_value list" where
  "bind_all eng [] = Inr []"
| "bind_all eng (v # vs) =
     (case bind_value (sq_f64_of eng) (sq_shown eng) v of
        Inl e \<Rightarrow> Inl e
      | Inr b \<Rightarrow> (case bind_all eng vs of Inl e \<Rightarrow> Inl e | Inr bs \<Rightarrow> Inr (b # bs)))"

definition exec :: "'u sql_engine \<Rightarrow> string \<Rightarrow> json list \<Rightarrow> ('u sqlite, int) cmd" where
  "exec eng sql params =
     (case bind_all eng params of
        Inl e \<Rightarrow> failE e
      | Inr bound \<Rightarrow> sq_execute eng script_authorizer sql bound)"

text \<open>\<open>Map::insert\<close>: keys stay in order, a repeated column name keeps its last value.\<close>

fun jinsert :: "string \<Rightarrow> json \<Rightarrow> (string \<times> json) list \<Rightarrow> (string \<times> json) list" where
  "jinsert k v [] = [(k, v)]"
| "jinsert k v ((k', v') # kvs) =
     (if k = k' then (k, v) # kvs
      else if k < k' then (k, v) # (k', v') # kvs
      else (k', v') # jinsert k v kvs)"

definition row_object :: "'u sql_engine \<Rightarrow> string list \<Rightarrow> sql_value list \<Rightarrow> json" where
  "row_object eng names vals =
     JObj (foldl (\<lambda>m (n, v). jinsert n (unbind_value (sq_finite eng) (sq_lossy eng) v) m) [] (zip names vals))"

definition query :: "'u sql_engine \<Rightarrow> string \<Rightarrow> json list \<Rightarrow> ('u sqlite, json list) cmd" where
  "query eng sql params =
     (case bind_all eng params of
        Inl e \<Rightarrow> failE e
      | Inr bound \<Rightarrow>
          bindE (sq_query eng script_authorizer sql bound)
            (\<lambda>(names, rows). okE (map (row_object eng names) rows)))"

definition exec_script :: "'u sql_engine \<Rightarrow> string \<Rightarrow> ('u sqlite, unit) cmd" where
  "exec_script eng sql = sq_batch eng script_authorizer sql"

section \<open>What SQLite documents\<close>

text \<open>An authorizer that refuses every action on a reserved table, every pragma and every transaction
  statement; under one, a text without a \<open>ROLLBACK\<close> conflict clause stays inside the open
  transaction and leaves the reserved tables and the version cell alone.\<close>

definition denies_reserved :: "authorizer \<Rightarrow> bool" where
  "denies_reserved f \<longleftrightarrow>
     (\<forall>a t. action_table a = Some t \<longrightarrow> starts_with t ''__actias_'' \<longrightarrow> f a = Deny)
     \<and> (\<forall>x. f (Pragma x) = Deny) \<and> (\<forall>x. f (Transaction x) = Deny) \<and> (\<forall>x. f (Attach x) = Deny)"

definition same_reserved :: "'u db \<Rightarrow> 'u db \<Rightarrow> bool" where
  "same_reserved d d' \<longleftrightarrow> d'\<lparr>user_tables := user_tables d\<rparr> = d"

definition confined :: "('u sqlite, 'a) cmd \<Rightarrow> bool" where
  "confined m \<longleftrightarrow> (\<forall>st. in_txn st \<longrightarrow> in_txn (snd (m st)) \<and> committed (snd (m st)) = committed st
     \<and> same_reserved (view st) (view (snd (m st))))"

definition engine_contained :: "'u sql_engine \<Rightarrow> bool" where
  "engine_contained eng \<longleftrightarrow> (\<forall>f. denies_reserved f \<longrightarrow>
     (\<forall>sql vs. confined (sq_execute eng f sql vs)) \<and> (\<forall>sql vs. confined (sq_query eng f sql vs))
     \<and> (\<forall>sql. confined (sq_batch eng f sql)))"

section \<open>Lemmas\<close>

lemma script_authorizer_denies: "denies_reserved script_authorizer"
proof -
  have "script_authorizer a = Deny" if "action_table a = Some t" "starts_with t ''__actias_''" for a t
    using that by (cases a) (auto simp: guard_table_def)
  then show ?thesis by (simp add: denies_reserved_def)
qed

lemma same_reserved_refl [simp]: "same_reserved d d"
  by (simp add: same_reserved_def)

lemma same_reserved_fields:
  assumes "same_reserved d d'"
  shows "user_version d' = user_version d" "alarm_table d' = alarm_table d" "migrations_table d' = migrations_table d"
    "queue_messages d' = queue_messages d" "queue_dead d' = queue_dead d" "queue_events d' = queue_events d"
    "wf_journal d' = wf_journal d" "wf_secrets d' = wf_secrets d" "messages_seq d' = messages_seq d"
    "journal_seq d' = journal_seq d"
proof -
  have e: "d = d'\<lparr>user_tables := user_tables d\<rparr>" using assms by (simp add: same_reserved_def)
  show "user_version d' = user_version d" by (subst e) simp
  show "alarm_table d' = alarm_table d" by (subst e) simp
  show "migrations_table d' = migrations_table d" by (subst e) simp
  show "queue_messages d' = queue_messages d" by (subst e) simp
  show "queue_dead d' = queue_dead d" by (subst e) simp
  show "queue_events d' = queue_events d" by (subst e) simp
  show "wf_journal d' = wf_journal d" by (subst e) simp
  show "wf_secrets d' = wf_secrets d" by (subst e) simp
  show "messages_seq d' = messages_seq d" by (subst e) simp
  show "journal_seq d' = journal_seq d" by (subst e) simp
qed

lemma confined_txn_safe:
  assumes "confined m"
  shows "txn_safe m"
  unfolding txn_safe_def
proof (intro allI impI)
  fix st :: "'a sqlite"
  assume "in_txn st"
  with assms have "in_txn (snd (m st))" "committed (snd (m st)) = committed st" "same_reserved (view st) (view (snd (m st)))"
    by (auto simp: confined_def)
  moreover from same_reserved_fields(2) [OF this(3)] have "alarm_table (view (snd (m st))) = alarm_table (view st)" .
  ultimately show "in_txn (snd (m st)) \<and> committed (snd (m st)) = committed st \<and> load_alarm_row (snd (m st)) = load_alarm_row st"
    by (simp add: load_alarm_row_def)
qed

lemma confined_basic [simp]: "confined (okE x)" "confined (failE e)" "confined (readE g)"
  by (simp_all add: confined_def cmd_simps)

lemma confined_bindE: "confined m \<Longrightarrow> (\<And>x. confined (f x)) \<Longrightarrow> confined (bindE m f)"
  unfolding confined_def
proof (intro allI impI)
  fix st :: "'a sqlite"
  assume m: "\<forall>st. in_txn st \<longrightarrow> in_txn (snd (m st)) \<and> committed (snd (m st)) = committed st
      \<and> same_reserved (view st) (view (snd (m st)))"
    and f: "\<And>x. \<forall>st. in_txn st \<longrightarrow> in_txn (snd (f x st)) \<and> committed (snd (f x st)) = committed st
      \<and> same_reserved (view st) (view (snd (f x st)))"
    and t: "in_txn st"
  obtain r st1 where 1: "m st = (r, st1)" by force
  with m t have s1: "in_txn st1" "committed st1 = committed st" "same_reserved (view st) (view st1)" by force+
  have tr: "same_reserved a c" if "same_reserved a b" "same_reserved b c" for a b c :: "'a db"
    using that unfolding same_reserved_def by (metis db.surjective db.update_convs(11))
  show "in_txn (snd (bindE m f st)) \<and> committed (snd (bindE m f st)) = committed st
      \<and> same_reserved (view st) (view (snd (bindE m f st)))"
    using 1 s1 f tr by (cases r) auto
qed

lemma confined_script_sql:
  assumes "engine_contained eng"
  shows "confined (exec eng sql ps)" "confined (query eng sql ps)" "confined (exec_script eng sql)"
  using assms script_authorizer_denies
  by (auto simp: exec_def query_def exec_script_def engine_contained_def split: sum.split intro!: confined_bindE)

end
