(* ===== verification/Database.thy ===== *)
theory Database
  imports Script_Sql
begin

text \<open>
  The \<open>__database\<close> class (\<open>actias-worker-core/src/platform/database.rs\<close>): opening a handle with its
  pending migrations, the four statement methods and their wire codec.
\<close>

section \<open>Opening\<close>

fun apply_pending :: "'u sql_engine \<Rightarrow> string list \<Rightarrow> (string \<times> string) list \<Rightarrow> ('u sqlite, unit) cmd" where
  "apply_pending eng applied [] = okE ()"
| "apply_pending eng applied ((name, sql) # ms) =
     (if name \<in> set applied then apply_pending eng applied ms
      else thenE (map_errE (\<lambda>e. ''Migration '' @ name @ '' failed: '' @ e) (exec_script eng sql))
        (thenE (record_migration name) (apply_pending eng applied ms)))"

definition apply_migrations :: "'u sql_engine \<Rightarrow> string \<Rightarrow> ('u home, unit) cmd" where
  "apply_migrations eng name =
     bindE (readE home_revision) (\<lambda>r.
       case r of
         None \<Rightarrow> failE ''Runtime has no revision loaded.''
       | Some rv \<Rightarrow>
           (let ms = migrations name rv in
            if ms = [] then okE ()
            else with_storage (bindE applied_migrations (\<lambda>applied. apply_pending eng applied ms))))"

definition db_open :: "'u sql_engine \<Rightarrow> string \<Rightarrow> ('u home, unit) cmd" where
  "db_open eng name =
     bindE (readE migrations_checked) (\<lambda>checked.
       if checked then okE ()
       else thenE (apply_migrations eng name) (writeE mark_migrations_checked))"

section \<open>Methods\<close>

text \<open>The statement on the wire: \<open>[sql]\<close> or \<open>[sql, [params...]]\<close>.\<close>

definition statement :: "json list \<Rightarrow> string + string \<times> json list" where
  "statement args =
     (case Option.bind (arg 0 args) as_str of
        None \<Rightarrow> Inl ''The statement text must be a string.''
      | Some sql \<Rightarrow> Inr (sql, case Option.bind (arg 1 args) as_array of Some ps \<Rightarrow> ps | None \<Rightarrow> []))"

definition db_exec :: "'u sql_engine \<Rightarrow> string \<Rightarrow> json list \<Rightarrow> ('u home, int) cmd" where
  "db_exec eng sql params = with_storage (exec eng sql params)"

definition db_query :: "'u sql_engine \<Rightarrow> string \<Rightarrow> json list \<Rightarrow> ('u home, json list) cmd" where
  "db_query eng sql params = with_storage (query eng sql params)"

definition db_query_one :: "'u sql_engine \<Rightarrow> string \<Rightarrow> json list \<Rightarrow> ('u home, json option) cmd" where
  "db_query_one eng sql params =
     bindE (db_query eng sql params) (\<lambda>rows. okE (case rows of [] \<Rightarrow> None | r # _ \<Rightarrow> Some r))"

fun db_batch :: "'u sql_engine \<Rightarrow> (string \<times> json list) list \<Rightarrow> ('u home, int list) cmd" where
  "db_batch eng [] = okE []"
| "db_batch eng ((sql, params) # ss) =
     bindE (db_exec eng sql params) (\<lambda>n. bindE (db_batch eng ss) (\<lambda>ns. okE (n # ns)))"

fun batch_statements :: "json list \<Rightarrow> string + (string \<times> json list) list" where
  "batch_statements [] = Inr []"
| "batch_statements (e # es) =
     (case as_array e of
        None \<Rightarrow> Inl ''Each batch entry is { sql, params }.''
      | Some parts \<Rightarrow>
          (case statement parts of
             Inl m \<Rightarrow> Inl m
           | Inr s \<Rightarrow> (case batch_statements es of Inl m \<Rightarrow> Inl m | Inr ss \<Rightarrow> Inr (s # ss))))"

definition with_statement :: "json list \<Rightarrow> (string \<Rightarrow> json list \<Rightarrow> ('u home, json) cmd) \<Rightarrow> ('u home, json) cmd" where
  "with_statement args f = (case statement args of Inl e \<Rightarrow> failE e | Inr (sql, ps) \<Rightarrow> f sql ps)"

definition database_method :: "'u sql_engine \<Rightarrow> call \<Rightarrow> ('u home, json) cmd" where
  "database_method eng c =
     (if c_method c = ''exec'' then
        with_statement (c_args c) (\<lambda>sql ps. thenE (db_exec eng sql ps) (okE (JBool True)))
      else if c_method c = ''query'' \<or> c_method c = ''read'' then
        with_statement (c_args c) (\<lambda>sql ps. bindE (db_query eng sql ps) (\<lambda>rows. okE (JArr rows)))
      else if c_method c = ''query_one'' \<or> c_method c = ''read_one'' then
        with_statement (c_args c) (\<lambda>sql ps. bindE (db_query_one eng sql ps)
          (\<lambda>r. okE (case r of Some v \<Rightarrow> v | None \<Rightarrow> JNull)))
      else if c_method c = ''batch'' then
        (case Option.bind (arg 0 (c_args c)) as_array of
           None \<Rightarrow> failE ''batch takes a list of statements.''
         | Some entries \<Rightarrow>
             (case batch_statements entries of
                Inl e \<Rightarrow> failE e
              | Inr ss \<Rightarrow> bindE (db_batch eng ss) (\<lambda>ns. okE (JArr (map JInt ns)))))
      else failE (''Object class '' @ quoted DATABASE_CLASS @ '' has no method '' @ quoted (c_method c) @ ''.''))"

definition database_dispatch :: "'u sql_engine \<Rightarrow> platform_context \<Rightarrow> call \<Rightarrow> ('u home, json) cmd" where
  "database_dispatch eng cx c = thenE (db_open eng (cx_name cx)) (database_method eng c)"

section \<open>The class keeps the call's transaction\<close>

lemma txn_safe_map_errE: "txn_safe m \<Longrightarrow> txn_safe (map_errE g m)"
  by (auto simp: txn_safe_def map_errE_def split: prod.splits sum.splits)

lemma txn_safe_migrations:
  assumes "engine_contained eng"
  shows "txn_safe applied_migrations" "txn_safe (record_migration n)" "txn_safe (apply_pending eng applied ms)"
proof -
  show "txn_safe applied_migrations"
    unfolding applied_migrations_def by (intro txn_safe_thenE txn_safe_stmt txn_safe_readE) simp
  show r: "txn_safe (record_migration n)" for n
    by (auto simp: txn_safe_def record_migration_def load_alarm_row_def split: option.splits)
  show "txn_safe (apply_pending eng applied ms)"
  proof (induction ms)
    case (Cons m ms)
    then show ?case
      by (cases m) (auto intro!: txn_safe_thenE txn_safe_map_errE r confined_txn_safe [OF confined_script_sql(3) [OF assms]])
  qed simp
qed

lemma keeps_checked [keeps_intros]: "keeps (inside c) (writeE mark_migrations_checked)" "keeps bare (writeE mark_migrations_checked)"
  by (auto simp: keeps_def writeE_def mark_migrations_checked_def inside_def body_ok_def has_storage_def
      home_in_txn_def alarm_synced_def home_committed_def bare_def split: option.splits)

lemma keeps_migrate:
  assumes "engine_contained eng"
  shows "keeps (inside c) (apply_migrations eng n)" "keeps bare (apply_migrations eng n)"
  by (auto simp: apply_migrations_def Let_def
      intro!: keeps_seq keeps_case_option keeps_with_storage_bare txn_safe_bindE txn_safe_migrations [OF assms])

lemma keeps_statements:
  assumes "engine_contained eng"
  shows "keeps (inside c) (db_exec eng sql ps)" "keeps bare (db_exec eng sql ps)"
    "keeps (inside c) (db_query eng sql ps)" "keeps bare (db_query eng sql ps)"
  by (auto simp: db_exec_def db_query_def intro!: keeps_seq keeps_with_storage_bare
      confined_txn_safe confined_script_sql [OF assms])

lemma keeps_with_statement: "(\<And>sql ps. keeps P (f sql ps)) \<Longrightarrow> keeps P (with_statement args f)"
  by (auto simp: with_statement_def split: sum.split)

text \<open>Whatever both kinds of statements keep, every method keeps.\<close>

lemma keeps_method:
  assumes e: "\<And>sql ps. keeps P (db_exec eng sql ps)" and q: "\<And>sql ps. keeps P (db_query eng sql ps)"
  shows "keeps P (database_method eng c)"
proof -
  have b: "keeps P (db_batch eng ss)" for ss
  proof (induction ss)
    case (Cons s ss)
    then show ?case by (cases s) (auto intro!: keeps_bindE e)
  qed simp
  show ?thesis
    unfolding database_method_def db_query_one_def
    by (intro keeps_bindE keeps_thenE keeps_if keeps_with_statement keeps_case_option keeps_case_sum keeps_okE
        keeps_failE e q b)
qed

lemma keeps_database:
  assumes "engine_contained eng"
  shows "keeps (inside c) (database_dispatch eng cx cl)" "keeps bare (database_dispatch eng cx cl)"
  unfolding database_dispatch_def db_open_def
  by (intro keeps_seq keeps_okE keeps_readE keeps_intros keeps_migrate [OF assms] keeps_method keeps_statements [OF assms])+

lemma database_atomic_body: "engine_contained eng \<Longrightarrow> atomic_body (as_body (database_dispatch eng cx cl))"
  by (rule atomic_as_body) (rule keeps_database, assumption)+

section \<open>Migrations\<close>

text \<open>What the ledger of applied migrations says inside the open transaction.\<close>

definition ledger_is :: "string list option \<Rightarrow> 'u home \<Rightarrow> bool" where
  "ledger_is ns h \<longleftrightarrow> (\<exists>st. storage h = Some st \<and> in_txn st \<and> migrations_table (view st) = ns)"

lemma confined_keeps_ledger:
  assumes "confined m" "in_txn st"
  shows "in_txn (snd (m st))" "migrations_table (view (snd (m st))) = migrations_table (view st)"
proof -
  from assms have c: "in_txn (snd (m st))" "same_reserved (view st) (view (snd (m st)))" by (auto simp: confined_def)
  show "in_txn (snd (m st))" by (rule c(1))
  show "migrations_table (view (snd (m st))) = migrations_table (view st)" by (rule same_reserved_fields(3) [OF c(2)])
qed

lemma confined_ledger: "confined m \<Longrightarrow> keeps (ledger_is ns) (with_storage m)"
  by (auto simp: keeps_def ledger_is_def with_storage_Some confined_keeps_ledger)

lemma ledger_method:
  assumes "engine_contained eng"
  shows "keeps (ledger_is ns) (database_method eng c)"
  by (rule keeps_method) (auto simp: db_exec_def db_query_def intro!: confined_ledger confined_script_sql [OF assms])

definition pending_names :: "string list \<Rightarrow> (string \<times> string) list \<Rightarrow> string list" where
  "pending_names applied ms = map fst (filter (\<lambda>m. fst m \<notin> set applied) ms)"

lemma apply_pending_ledger:
  assumes "engine_contained eng" "in_txn st" "migrations_table (view st) = Some ns"
    and "apply_pending eng applied ms st = (Inr u, st')"
  shows "in_txn st' \<and> migrations_table (view st') = Some (ns @ pending_names applied ms)"
  using assms(2-)
proof (induction ms arbitrary: st ns)
  case Nil
  then show ?case by (simp add: okE_def pending_names_def)
next
  case (Cons m ms)
  obtain n sql where m: "m = (n, sql)" by force
  show ?case
  proof (cases "n \<in> set applied")
    case True
    with Cons m show ?thesis by (simp add: pending_names_def)
  next
    case False
    obtain r st1 where x: "exec_script eng sql st = (r, st1)" by force
    from confined_keeps_ledger [OF confined_script_sql(3) [OF assms(1)] Cons.prems(1), of sql] x Cons.prems(2)
    have s1: "in_txn st1" "migrations_table (view st1) = Some ns" by simp_all
    from Cons.prems(3) False m x obtain v where r: "r = Inr v"
      by (cases r) (auto simp: thenE_def bindE_def map_errE_def)
    with Cons.prems(3) False m x have c: "thenE (record_migration n) (apply_pending eng applied ms) st1 = (Inr u, st')"
      by (simp add: thenE_def bindE_def map_errE_def)
    let ?st2 = "stmt (\<lambda>d. d\<lparr>migrations_table := Some (ns @ [n])\<rparr>) 1 st1"
    have nn: "n \<notin> set ns" and c2: "apply_pending eng applied ms ?st2 = (Inr u, st')"
      using c s1(2) by (auto simp: thenE_def bindE_def record_migration_def split: if_splits)
    from Cons.IH [OF _ _ c2, of "ns @ [n]"] s1 False m show ?thesis by (simp add: pending_names_def)
  qed
qed

lemma applied_migrations_apply:
  "applied_migrations st = (Inr (sort (case migrations_table (view st) of Some ns \<Rightarrow> ns | None \<Rightarrow> [])),
     stmt (\<lambda>d. if migrations_table d = None then d\<lparr>migrations_table := Some []\<rparr> else d) 0 st)"
  by (auto simp: applied_migrations_def thenE_def writeE_def readE_def bindE_def split: option.split)

text \<open>The recorded names before a call; a file without the table has none.\<close>

definition recorded :: "'u db \<Rightarrow> string list" where
  "recorded d = (case migrations_table d of Some ns \<Rightarrow> ns | None \<Rightarrow> [])"

lemma open_ledger:
  assumes "engine_contained eng" "storage h = Some st" "in_txn st" "\<not> migrations_checked h"
    and "home_revision h = Some rv" "migrations name rv \<noteq> []" "db_open eng name h = (Inr u, h1)"
  shows "ledger_is (Some (recorded (view st) @ pending_names (recorded (view st)) (migrations name rv))) h1
     \<and> migrations_checked h1"
proof -
  let ?m = "bindE applied_migrations (\<lambda>applied. apply_pending eng applied (migrations name rv))"
  obtain r h2 where w: "with_storage ?m h = (r, h2)" by force
  have o: "thenE (with_storage ?m) (writeE mark_migrations_checked) h = (Inr u, h1)"
    using assms(4-7) by (simp add: db_open_def apply_migrations_def Let_def thenE_def bindE_def readE_def)
  with w obtain v where r: "r = Inr v" by (cases r) (auto simp: thenE_def)
  with o w have h1: "h1 = h2\<lparr>migrations_checked := True\<rparr>"
    by (simp add: thenE_def writeE_def mark_migrations_checked_def)
  let ?st1 = "stmt (\<lambda>d. if migrations_table d = None then d\<lparr>migrations_table := Some []\<rparr> else d) 0 st"
  obtain st2 where a: "apply_pending eng (sort (recorded (view st))) (migrations name rv) ?st1 = (Inr v, st2)"
      "h2 = h\<lparr>storage := Some st2\<rparr>"
    using w r assms(2)
    by (cases "apply_pending eng (sort (recorded (view st))) (migrations name rv) ?st1")
       (auto simp: with_storage_Some bindE_def applied_migrations_apply recorded_def split: prod.splits)
  have "migrations_table (view ?st1) = Some (recorded (view st))" by (simp add: recorded_def split: option.split)
  from apply_pending_ledger [OF assms(1) _ this a(1)] assms(3) a(2) h1 show ?thesis
    by (simp add: ledger_is_def pending_names_def)
qed


section \<open>A concrete engine\<close>

text \<open>The user half of a file is the list of texts that ran on it; the text \<open>bad\<close> does not parse.\<close>

definition log_text :: "string \<Rightarrow> (string list sqlite, 'a) cmd \<Rightarrow> (string list sqlite, 'a) cmd" where
  "log_text sql m = (if sql = ''bad'' then failE ''syntax error''
     else thenE (writeE (stmt (\<lambda>d. d\<lparr>user_tables := user_tables d @ [sql]\<rparr>) 1)) m)"

definition log_engine :: "string list sql_engine" where
  "log_engine = \<lparr>sq_execute = (\<lambda>f sql vs. log_text sql (okE 1)), sq_query = (\<lambda>f sql vs. log_text sql (okE ([], []))),
     sq_batch = (\<lambda>f sql. log_text sql (okE ())), sq_f64_of = (\<lambda>_. 0), sq_shown = (\<lambda>_. ''''),
     sq_finite = (\<lambda>_. True), sq_lossy = (\<lambda>s. s)\<rparr>"

lemma log_text_confined: "confined (log_text sql (okE x))"
  by (simp add: log_text_def confined_def thenE_def bindE_def writeE_def cmd_simps same_reserved_def)

lemma log_engine_contained: "engine_contained log_engine"
  by (simp add: engine_contained_def log_engine_def log_text_confined)

definition log_revision :: prepared_revision where
  "log_revision = \<lparr>revision_id = ''r1'', revision_files = [(''migrations/main/2.sql'', ''B''), (''migrations/main/1.sql'', ''A''), (''app.lua'', '''')]\<rparr>"

definition log_home :: "string list home" where
  "log_home = spawn_home (Some (open_file (fresh_db []))) default_policy (Some log_revision) False (\<lambda>_. 100)"

definition log_call :: "string \<Rightarrow> call" where
  "log_call sql = \<lparr>c_class = DATABASE_CLASS, c_method = ''exec'', c_name = ''main'', c_args = [JStr sql], c_chain = [], c_caller = None\<rparr>"

definition log_cx :: platform_context where
  "log_cx = \<lparr>cx_name = ''main'', cx_own_key = ''k''\<rparr>"

lemma log_home_facts: "quiescent log_home" "home_committed log_home = Some (with_meta (fresh_db []))"
    "\<not> migrations_checked log_home" "home_revision log_home = Some log_revision"
proof -
  show "quiescent log_home" unfolding log_home_def by (rule spawn_home_quiescent) (auto simp: open_file_def in_txn_def)
qed (simp_all add: log_home_def spawn_home_def Let_def load_alarm_apply home_committed_def open_file_def ensure_meta_def
      writeE_def stmt_def put_def load_alarm_row_def fresh_db_def with_meta_def view_def mirror_alarm_def)

lemma log_migrations: "migrations ''main'' log_revision = [(''migrations/main/1.sql'', ''A''), (''migrations/main/2.sql'', ''B'')]"
  by code_simp


section \<open>A failing first call\<close>

lemma checked_settle [simp]: "migrations_checked (snd (settle gate r h)) = migrations_checked h"
  by (auto simp: settle_def Let_def with_storage_def checkpoint_def writes_advanced_def after_write_def
      split: option.splits prod.splits if_splits)

lemma checked_with_storage: "migrations_checked (snd (with_storage m h)) = migrations_checked h"
  by (auto simp: with_storage_def split: option.splits prod.splits)

lemma checked_resync: "migrations_checked (resync_alarm_from_storage h) = migrations_checked h"
  by (auto simp: resync_alarm_from_storage_def with_storage_def mirror_alarm_def Let_def split: option.splits prod.splits)

lemma checked_guarded:
  assumes "has_storage h" "\<not> home_in_txn h" "body (begun h) = (Inl e, h2)"
  shows "migrations_checked (snd (guarded_dispatch gate body h)) = migrations_checked h2"
  using assms by (simp add: guarded_dispatch_def begin_begun checked_resync checked_with_storage)

lemma checked_method: "keeps migrations_checked (database_method eng c)"
  by (rule keeps_method) (simp_all add: keeps_def db_exec_def db_query_def checked_with_storage)

lemma open_checks: "db_open eng name h = (Inr u, h1) \<Longrightarrow> migrations_checked h1"
  by (auto simp: db_open_def thenE_def bindE_def readE_def okE_def writeE_def mark_migrations_checked_def
      split: if_splits prod.splits sum.splits)

text \<open>A first call that fails after its migrations ran loses them for the life of the vm: the guard
  rolls the migrations and their ledger back with the call, but the vm's mark that they were
  checked stays, so every later call runs on the file as it was and applies none of them.\<close>

theorem failed_call_forgets_migrations:
  assumes "engine_contained eng" "quiescent h" "home_committed h = Some d"
    and "db_open eng (cx_name cx) (begun h) = (Inr u, h1)" "database_dispatch eng cx c (begun h) = (Inl e, h2)"
  shows "\<exists>h'. guarded_dispatch gate (as_body (database_dispatch eng cx c)) h = (Inl (Call e), h')
     \<and> home_committed h' = Some (with_meta d) \<and> db_open eng (cx_name cx) h' = (Inr (), h')"
proof -
  have hs: "has_storage h" using assms(3) by (auto simp: home_committed_def has_storage_def)
  obtain r h' where g: "guarded_dispatch gate (as_body (database_dispatch eng cx c)) h = (r, h')" by force
  have b: "as_body (database_dispatch eng cx c) (begun h) = (Inl (Call e), h2)" using assms(5) by (simp add: as_body_def)
  from object_body.guarded_err [OF atomic_body.axioms(1) [OF database_atomic_body [OF assms(1)]] assms(2) hs b, of gate] g
  have r: "r = Inl (Call e)" by simp
  have f: "home_committed h' = Some (with_meta d)"
    using atomic_body.guarded_atomic [OF database_atomic_body [OF assms(1)] assms(2) hs, of gate cx c] g b assms(3) by simp
  have "database_method eng c h1 = (Inl e, h2)"
    using assms(4,5) by (simp add: database_dispatch_def thenE_def)
  with keepsD [OF checked_method open_checks [OF assms(4)], of eng c] have "migrations_checked h2" by simp
  then have "migrations_checked h'"
    using checked_guarded [of h "as_body (database_dispatch eng cx c)" "Call e" h2 gate] hs b assms(2) g
    by (simp add: quiescent_def)
  then have "db_open eng (cx_name cx) h' = (Inr (), h')" by (simp add: db_open_def okE_def)
  with g r f show ?thesis by blast
qed

theorem failed_call_forgets_migrations_witness:
  "\<exists>h'. guarded_dispatch True (as_body (database_dispatch log_engine log_cx (log_call ''bad''))) log_home = (Inl (Call ''syntax error''), h')
     \<and> home_committed h' = Some (with_meta (with_meta (fresh_db []))) \<and> db_open log_engine ''main'' h' = (Inr (), h')"
proof -
  have "(case fst (db_open log_engine ''main'' (begun log_home)) of Inr _ \<Rightarrow> True | Inl _ \<Rightarrow> False)" by code_simp
  then obtain u h1 where o: "db_open log_engine (cx_name log_cx) (begun log_home) = (Inr u, h1)"
    by (cases "db_open log_engine ''main'' (begun log_home)") (auto simp: log_cx_def split: sum.splits)
  have "fst (database_dispatch log_engine log_cx (log_call ''bad'') (begun log_home)) = Inl ''syntax error''" by code_simp
  then obtain h2 where "database_dispatch log_engine log_cx (log_call ''bad'') (begun log_home) = (Inl ''syntax error'', h2)"
    by (cases "database_dispatch log_engine log_cx (log_call ''bad'') (begun log_home)") auto
  from failed_call_forgets_migrations [OF log_engine_contained log_home_facts(1,2) o this, of True] show ?thesis
    by (simp add: log_cx_def)
qed

section \<open>Script SQL and the platform's tables\<close>

text \<open>Two files that agree on everything but the script's tables and the migrations ledger.\<close>

definition same_platform :: "'u db \<Rightarrow> 'u db \<Rightarrow> bool" where
  "same_platform d d' \<longleftrightarrow> d'\<lparr>user_tables := user_tables d, migrations_table := migrations_table d\<rparr> = d"

definition platform_is :: "'u db \<Rightarrow> 'u sqlite \<Rightarrow> bool" where
  "platform_is d st \<longleftrightarrow> in_txn st \<and> same_platform d (view st)"

lemma same_platform_trans:
  assumes "same_platform d d1" "same_reserved d1 d2"
  shows "same_platform d d2"
proof -
  have "d1 = d2\<lparr>user_tables := user_tables d1\<rparr>" using assms(2) by (simp add: same_reserved_def)
  with assms(1) have "d2\<lparr>user_tables := user_tables d1, user_tables := user_tables d, migrations_table := migrations_table d\<rparr> = d"
    unfolding same_platform_def by metis
  then show ?thesis by (simp add: same_platform_def)
qed

lemma platform_confined: "confined m \<Longrightarrow> keeps (platform_is d) m"
  by (auto simp: keeps_def platform_is_def confined_def intro: same_platform_trans)

lemma platform_ledger: "keeps (platform_is d) applied_migrations" "keeps (platform_is d) (record_migration n)"
  by (auto simp: keeps_def platform_is_def applied_migrations_apply record_migration_def same_platform_def split: option.split)

lemma platform_pending:
  assumes "engine_contained eng"
  shows "keeps (platform_is d) (apply_pending eng applied ms)"
proof (induction ms)
  case (Cons m ms)
  then show ?case
    by (cases m) (auto intro!: keeps_thenE keeps_map_errE platform_ledger platform_confined [OF confined_script_sql(3) [OF assms]])
qed simp

definition platform_kept :: "'u db \<Rightarrow> 'u home \<Rightarrow> bool" where
  "platform_kept d h \<longleftrightarrow> (\<exists>st. storage h = Some st \<and> platform_is d st)"

lemma platform_with_storage: "keeps (platform_is d) m \<Longrightarrow> keeps (platform_kept d) (with_storage m)"
  by (auto simp: keeps_def platform_kept_def with_storage_Some)

lemma platform_database:
  assumes "engine_contained eng"
  shows "keeps (platform_kept d) (database_dispatch eng cx c)"
proof -
  have "keeps (platform_kept d) (writeE mark_migrations_checked)"
    by (simp add: keeps_def writeE_def platform_kept_def mark_migrations_checked_def)
  moreover have "keeps (platform_kept d) (apply_migrations eng n)" for n
    unfolding apply_migrations_def Let_def
    by (intro keeps_bindE keeps_readE keeps_case_option keeps_failE keeps_if keeps_okE platform_with_storage
        platform_ledger platform_pending [OF assms])
  moreover have "keeps (platform_kept d) (database_method eng c)"
    by (rule keeps_method) (auto simp: db_exec_def db_query_def
        intro!: platform_with_storage platform_confined confined_script_sql [OF assms])
  ultimately show ?thesis
    unfolding database_dispatch_def db_open_def by (intro keeps_thenE keeps_bindE keeps_readE keeps_if keeps_okE)
qed



end
