(* ===== verification/User_Class.thy ===== *)
theory User_Class
  imports Database
begin

text \<open>
  User object classes: the receiving side \<open>__dispatch\<close> that \<open>install_dispatch\<close> of
  \<open>actias-worker-core/src/extensions/objects.rs\<close> puts in every vm. A class body is guest code: a
  parameter that gives, for each method, what it does to the object's home. The vm's state table
  is created by the first dispatch of a vm's life and never dropped; \<open>state_made\<close> of the home says
  whether it exists.
\<close>

section \<open>Dispatch\<close>

record dispatch_call =
  dc_class :: string
  dc_method :: string
  dc_name :: string
  dc_args :: "json list"
  dc_chain :: "string list"

definition decode_dispatch :: "(json \<Rightarrow> string) \<Rightarrow> json \<Rightarrow> string + dispatch_call" where
  "decode_dispatch why v =
     (let name = (if has_key v ''name'' then as_str (jget v ''name'') else Some '''');
          args = (if has_key v ''args'' then as_array (jget v ''args'') else Some []);
          chain = (if has_key v ''chain'' then Option.bind (as_array (jget v ''chain'')) str_list else Some [])
      in case (as_str (jget v ''class''), as_str (jget v ''method''), name, args, chain) of
           (Some c, Some m, Some n, Some a, Some ch) \<Rightarrow>
             Inr \<lparr>dc_class = c, dc_method = m, dc_name = n, dc_args = a, dc_chain = ch\<rparr>
         | _ \<Rightarrow> Inl (why v))"

text \<open>A vm's registered classes: methods by name, each over the instance name and the arguments.\<close>

type_synonym 'u guest_method = "string \<Rightarrow> json list \<Rightarrow> ('u home, json) cmd"
type_synonym 'u guest_class = "string \<Rightarrow> 'u guest_method option"
type_synonym 'u guest = "string \<Rightarrow> 'u guest_class option"

definition make_state :: "'u home \<Rightarrow> 'u home" where
  "make_state h = h\<lparr>state_made := True\<rparr>"

text \<open>\<open>init\<close> on the first dispatch of a vm: the file says whether the object is new; without a file
  it always is.\<close>

definition run_init :: "'u guest_class \<Rightarrow> string \<Rightarrow> ('u home, unit) cmd" where
  "run_init cls name =
     bindE (readE has_storage) (\<lambda>stored.
     bindE (if stored then with_storage is_fresh else okE True) (\<lambda>fresh.
       case cls ''init'' of
         Some ini \<Rightarrow>
           if fresh then
             thenE (ini name [])
               (if stored then with_storage mark_initialized else okE ())
           else okE ()
       | None \<Rightarrow> okE ()))"

definition guest_dispatch :: "'u guest \<Rightarrow> dispatch_call \<Rightarrow> ('u home, json) cmd" where
  "guest_dispatch g c =
     (if starts_with (dc_class c) ''__'' then failE (''No object class '' @ quoted (dc_class c) @ ''.'')
      else case g (dc_class c) of
        None \<Rightarrow> failE (''No object class '' @ quoted (dc_class c) @ ''.'')
      | Some cls \<Rightarrow>
          (case cls (dc_method c) of
             None \<Rightarrow> failE (''Object class '' @ quoted (dc_class c) @ '' has no method '' @ quoted (dc_method c) @ ''.'')
           | Some m \<Rightarrow>
               bindE (readE (\<lambda>h. \<not> state_made h)) (\<lambda>state_is_new.
               thenE (writeE make_state)
                 (thenE (if state_is_new \<and> dc_method c \<noteq> ''init'' then run_init cls (dc_name c) else okE ())
                   (m (dc_name c) (dc_args c))))))"

definition lua_dispatch :: "(json \<Rightarrow> string) \<Rightarrow> 'u guest \<Rightarrow> json \<Rightarrow> ('u home, json) cmd" where
  "lua_dispatch why g payload =
     (case decode_dispatch why payload of Inl e \<Rightarrow> failE e | Inr c \<Rightarrow> guest_dispatch g c)"

section \<open>Guests that stay inside their call\<close>

definition guest_contained :: "'u guest \<Rightarrow> bool" where
  "guest_contained g \<longleftrightarrow> (\<forall>c cls m f n args k. g c = Some cls \<longrightarrow> cls m = Some f \<longrightarrow>
     keeps (inside k) (f n args) \<and> keeps bare (f n args))"

lemma keeps_make_state [keeps_intros]: "keeps (inside c) (writeE make_state)" "keeps bare (writeE make_state)"
  by (auto simp: keeps_def writeE_def make_state_def inside_def body_ok_def has_storage_def
      home_in_txn_def alarm_synced_def home_committed_def bare_def split: option.splits)

lemma txn_safe_init: "txn_safe is_fresh" "txn_safe mark_initialized"
  by (simp_all add: is_fresh_def mark_initialized_def txn_safe_stmt)

lemma guest_dispatch_keeps:
  assumes "keeps P (writeE make_state :: ('u home, unit) cmd)" "keeps P (with_storage is_fresh)" "keeps P (with_storage mark_initialized)"
    and "\<And>c cls m f n args. g c = Some cls \<Longrightarrow> cls m = Some f \<Longrightarrow> keeps P (f n args)"
  shows "keeps P (guest_dispatch g c)"
  unfolding guest_dispatch_def run_init_def
  by (intro keeps_if keeps_failE keeps_case_option keeps_bindE keeps_thenE keeps_readE keeps_okE assms(1-3))
     (auto intro: assms(4))

lemma keeps_guest:
  assumes "guest_contained g"
  shows "keeps (inside k) (guest_dispatch g c)" "keeps bare (guest_dispatch g c)"
  by (rule guest_dispatch_keeps;
      use assms in \<open>auto simp: guest_contained_def intro!: keeps_intros keeps_with_storage_inside txn_safe_init\<close>)+

lemma guest_atomic_body: "guest_contained g \<Longrightarrow> atomic_body (as_body (guest_dispatch g c))"
  by (rule atomic_as_body) (rule keeps_guest, assumption)+

section \<open>A failed first call\<close>

lemma state_made_guarded:
  assumes "has_storage h" "\<not> home_in_txn h" "body (begun h) = (Inl e, h2)"
  shows "state_made (snd (guarded_dispatch gate body h)) = state_made h2"
proof -
  have w: "state_made (snd (with_storage m h)) = state_made h" for m :: "('a sqlite, 'b) cmd" and h
    by (auto simp: with_storage_def split: option.splits prod.splits)
  have r: "state_made (resync_alarm_from_storage h) = state_made h" for h :: "'a home"
    by (auto simp: resync_alarm_from_storage_def with_storage_def mirror_alarm_def Let_def split: option.splits prod.splits)
  have s: "state_made (snd (settle gate q h)) = state_made h" for q and h :: "'a home"
    by (auto simp: settle_def Let_def with_storage_def checkpoint_def writes_advanced_def after_write_def
      split: option.splits prod.splits if_splits)
  show ?thesis using assms by (simp add: guarded_dispatch_def begin_begun w r s)
qed

text \<open>Guest code has no access to the marker of the vm's state table.\<close>

definition marker_kept :: "'u guest \<Rightarrow> bool" where
  "marker_kept g \<longleftrightarrow> (\<forall>c cls m f n args. g c = Some cls \<longrightarrow> cls m = Some f \<longrightarrow> keeps state_made (f n args))"

lemma dispatch_makes_state:
  assumes "marker_kept g"
    and "g (dc_class c) = Some cls" "cls (dc_method c) = Some m" "\<not> starts_with (dc_class c) ''__''"
  shows "state_made (snd (guest_dispatch g c h))"
proof -
  have w: "keeps state_made (with_storage m)" for m :: "('a sqlite, 'b) cmd"
    by (auto simp: keeps_def with_storage_def split: option.splits prod.splits)
  have k: "keeps state_made (f n args)" if "cls x = Some f" for x f n args
    using assms(1,2) that by (auto simp: marker_kept_def)
  have i: "keeps state_made (run_init cls n)" for n
    unfolding run_init_def
    by (intro keeps_bindE keeps_readE keeps_if w keeps_okE keeps_case_option keeps_thenE) (auto intro: k)
  have "keeps state_made (thenE (if \<not> state_made h \<and> dc_method c \<noteq> ''init'' then run_init cls (dc_name c) else okE ())
      (m (dc_name c) (dc_args c)))"
    by (intro keeps_thenE keeps_if i keeps_okE k [OF assms(3)])
  from keepsD [OF this, of "make_state h"] assms(2-4) show ?thesis
    by (simp add: guest_dispatch_def thenE_def bindE_def readE_def writeE_def make_state_def)
qed

text \<open>A first call that fails leaves its object uninitialised for the life of the vm: whether
  \<open>init\<close> itself failed or the method after it did, the guard rolls the file back to fresh, but
  the vm's state table exists from then on, and every later call runs its method on the
  uninitialised file without running \<open>init\<close>.\<close>

theorem failed_first_call_skips_init:
  assumes "guest_contained g" "marker_kept g" "quiescent h" "home_committed h = Some d" "user_version d = 0"
    and "g (dc_class c) = Some cls" "cls (dc_method c) = Some m" "\<not> starts_with (dc_class c) ''__''"
    and "guest_dispatch g c (begun h) = (Inl e, h2)"
  shows "\<exists>h' d'. guarded_dispatch gate (as_body (guest_dispatch g c)) h = (Inl (Call e), h')
     \<and> home_committed h' = Some d' \<and> user_version d' = 0
     \<and> guest_dispatch g c h' = m (dc_name c) (dc_args c) (h'\<lparr>state_made := True\<rparr>)"
proof -
  have hs: "has_storage h" using assms(4) by (auto simp: home_committed_def has_storage_def)
  obtain r h' where gd: "guarded_dispatch gate (as_body (guest_dispatch g c)) h = (r, h')" by force
  have b: "as_body (guest_dispatch g c) (begun h) = (Inl (Call e), h2)" using assms(9) by (simp add: as_body_def)
  note body = guest_atomic_body [OF assms(1)]
  from object_body.guarded_err [OF atomic_body.axioms(1) [OF body] assms(3) hs b, of gate] gd have r: "r = Inl (Call e)" by simp
  have f: "home_committed h' = Some (with_meta d)"
    using atomic_body.guarded_atomic [OF body assms(3) hs, of gate c] gd b assms(4) by simp
  have "state_made h2"
    using dispatch_makes_state [OF assms(2,6-8), of "begun h"] assms(9) by simp
  then have s: "state_made h'"
    using state_made_guarded [of h "as_body (guest_dispatch g c)" "Call e" h2 gate] hs b assms(3) gd
    by (simp add: quiescent_def)
  have "guest_dispatch g c h' = m (dc_name c) (dc_args c) (h'\<lparr>state_made := True\<rparr>)"
    using s assms(6-8) by (simp add: guest_dispatch_def thenE_def bindE_def readE_def writeE_def okE_def make_state_def)
  moreover have "user_version (with_meta d) = 0" using assms(5) by (simp add: with_meta_def)
  ultimately show ?thesis using gd r f by blast
qed

section \<open>A class to try it on\<close>

definition room_methods :: "string list guest_class" where
  "room_methods m =
     (if m = ''init'' then Some (\<lambda>n args. thenE (with_storage (exec log_engine ''CREATE'' [])) (okE JNull))
      else if m = ''add'' then Some (\<lambda>n args. thenE (with_storage (exec log_engine ''INSERT'' [])) (okE JNull))
      else if m = ''boom'' then Some (\<lambda>n args. failE ''boom'')
      else None)"

definition room :: "string list guest" where
  "room c = (if c = ''Room'' then Some room_methods else None)"

definition room_call :: "string \<Rightarrow> dispatch_call" where
  "room_call m = \<lparr>dc_class = ''Room'', dc_method = m, dc_name = ''lobby'', dc_args = [], dc_chain = [''k'']\<rparr>"

lemma room_keeps:
  assumes "keeps P (with_storage (exec log_engine ''CREATE'' []))" "keeps P (with_storage (exec log_engine ''INSERT'' []))"
    and "room c = Some cls" "cls m = Some f"
  shows "keeps P (f n args)"
proof -
  have m: "room_methods m = Some f" using assms(3,4) by (auto simp: room_def split: if_splits)
  have a: "keeps P (thenE (with_storage (exec log_engine ''CREATE'' [])) (okE JNull))"
    "keeps P (thenE (with_storage (exec log_engine ''INSERT'' [])) (okE JNull))"
    by (intro keeps_thenE assms(1,2) keeps_okE)+
  show ?thesis using m a by (auto simp: room_methods_def split: if_splits)
qed

lemma room_contained: "guest_contained room"
  unfolding guest_contained_def
  by (auto intro!: room_keeps keeps_with_storage_inside keeps_with_storage_bare confined_txn_safe
      confined_script_sql [OF log_engine_contained])

lemma room_marker: "marker_kept room"
proof -
  have "keeps state_made (with_storage m)" for m :: "(string list sqlite, int) cmd"
    by (auto simp: keeps_def with_storage_def split: option.splits prod.splits)
  then show ?thesis unfolding marker_kept_def by (auto intro!: room_keeps)
qed

theorem failed_first_call_skips_init_witness:
  "\<exists>h' d'. guarded_dispatch True (as_body (guest_dispatch room (room_call ''boom''))) log_home = (Inl (Call ''boom''), h')
     \<and> home_committed h' = Some d' \<and> user_version d' = 0"
proof -
  have "fst (guest_dispatch room (room_call ''boom'') (begun log_home)) = Inl ''boom''" by code_simp
  then obtain h2 where "guest_dispatch room (room_call ''boom'') (begun log_home) = (Inl ''boom'', h2)"
    by (cases "guest_dispatch room (room_call ''boom'') (begun log_home)") auto
  from failed_first_call_skips_init [OF room_contained room_marker log_home_facts(1,2) _ _ _ _ this, of room_methods _ True]
  show ?thesis by (auto simp: with_meta_def fresh_db_def room_call_def room_def room_methods_def)
qed

section \<open>Initialisation\<close>

lemma spawned_home:
  "storage (spawn_home (Some s) pol rv sync rd) = Some (snd (ensure_meta s))"
  "\<not> state_made (spawn_home (Some s) pol rv sync rd)"
  by (auto simp: spawn_home_def Let_def load_alarm_apply mirror_alarm_def split: option.splits)

text \<open>Guest SQL cannot reach the version cell.\<close>

definition version_is :: "int \<Rightarrow> 'u home \<Rightarrow> bool" where
  "version_is v h \<longleftrightarrow> (\<exists>st. storage h = Some st \<and> in_txn st \<and> user_version (view st) = v)"

definition version_kept :: "'u guest \<Rightarrow> bool" where
  "version_kept g \<longleftrightarrow> (\<forall>c cls m f n args v. g c = Some cls \<longrightarrow> cls m = Some f \<longrightarrow> keeps (version_is v) (f n args))"

lemma confined_version: "confined m \<Longrightarrow> keeps (version_is v) (with_storage m)"
proof -
  assume c: "confined m"
  have "in_txn (snd (m st)) \<and> user_version (view (snd (m st))) = user_version (view st)" if "in_txn st" for st
    using c that same_reserved_fields(1) [of "view st" "view (snd (m st))"] by (auto simp: confined_def)
  then show ?thesis by (auto simp: keeps_def version_is_def with_storage_Some)
qed

lemma room_version: "version_kept room"
  unfolding version_kept_def
  by (auto intro!: room_keeps confined_version confined_script_sql [OF log_engine_contained])

lemma run_init_marks:
  assumes "version_kept g" "g c = Some cls" "cls ''init'' = Some ini" "version_is 0 h" "run_init cls n h = (Inr u, h1)"
  shows "version_is 1 h1"
proof -
  from assms(4) obtain st where st: "storage h = Some st" "in_txn st" "user_version (view st) = 0" by (auto simp: version_is_def)
  have f: "with_storage is_fresh h = (Inr True, h)"
    using st by (simp add: with_storage_def is_fresh_def readE_def)
  obtain r h2 where i: "ini n [] h = (r, h2)" by force
  have v: "version_is 0 h2"
    using keepsD [of "version_is 0" "ini n []" h] assms(1-4) i by (auto simp: version_kept_def)
  have "thenE (ini n []) (with_storage mark_initialized) h = (Inr u, h1)"
    using assms(3,5) st(1) f by (simp add: run_init_def bindE_def readE_def has_storage_def)
  with i have "with_storage mark_initialized h2 = (Inr u, h1)" by (cases r) (auto simp: thenE_def)
  with v show ?thesis by (auto simp: version_is_def with_storage_Some mark_initialized_def writeE_def)
qed



section \<open>A statement that ends the transaction\<close>

text \<open>An engine for the documented effect of a \<open>ROLLBACK\<close> conflict clause: the failing statement
  rolls the whole transaction back and leaves the connection in autocommit mode.\<close>

definition clause_engine :: "string list sql_engine" where
  "clause_engine = log_engine\<lparr>sq_execute := (\<lambda>f sql vs. if sql = ''INSERT OR ROLLBACK''
     then (\<lambda>st. (Inl ''constraint failed'', st\<lparr>working := None\<rparr>)) else log_text sql (okE 1))\<rparr>"

text \<open>A method that protects the statement with \<open>pcall\<close> and writes on.\<close>

definition stubborn :: "string list guest" where
  "stubborn c = Some (\<lambda>m. Some (\<lambda>n args h.
     thenE (with_storage (exec clause_engine ''X'' [])) (okE JNull)
       (snd (with_storage (exec clause_engine ''INSERT OR ROLLBACK'' [])
         (snd (with_storage (exec clause_engine ''W'' []) h))))))"


end
