(* ===== verification/Cron.thy ===== *)
theory Cron
  imports Platform
begin

text \<open>
  The \<open>__cron\<close> class (\<open>actias-worker-core/src/platform/cron.rs\<close>) and the delay it arms
  (\<open>cron_delay_ms\<close> of \<open>extensions/objects.rs\<close>). The expression parser is the cron crate's: a
  parameter that refuses a text or answers the first occurrence after an instant.
\<close>

section \<open>The delay\<close>

type_synonym cron_lib = "string \<Rightarrow> string + (int \<Rightarrow> int option)"

text \<open>\<open>split_whitespace\<close>: the runs between white space.\<close>

fun split_whitespace :: "string \<Rightarrow> string list" where
  "split_whitespace [] = []"
| "split_whitespace (c # cs) =
     (if is_space c then split_whitespace cs
      else (case cs of
          [] \<Rightarrow> [[c]]
        | c' # _ \<Rightarrow> if is_space c' then [c] # split_whitespace cs
            else (case split_whitespace cs of [] \<Rightarrow> [[c]] | w # ws \<Rightarrow> (c # w) # ws)))"

definition cron_expr :: "string \<Rightarrow> string" where
  "cron_expr event = trim (case strip_prefix event ''cron:'' of Some e \<Rightarrow> e | None \<Rightarrow> event)"

definition cron_normalized :: "string \<Rightarrow> string" where
  "cron_normalized expr = (if length (split_whitespace expr) = 5 then ''0 '' @ expr else expr)"

definition cron_delay_ms :: "cron_lib \<Rightarrow> string \<Rightarrow> ('u home, int) cmd" where
  "cron_delay_ms lib event =
     (let expr = cron_expr event in
      case lib (cron_normalized expr) of
        Inl e \<Rightarrow> failE (quoted expr @ '' is not a cron expression: '' @ e)
      | Inr upcoming \<Rightarrow>
          bindE unix_now_ms (\<lambda>t.
            case upcoming t of
              None \<Rightarrow> failE (quoted expr @ '' never occurs'')
            | Some next \<Rightarrow> bindE unix_now_ms (\<lambda>now. okE (max (next - now) 1000))))"

section \<open>Methods\<close>

definition cron_arm :: "cron_lib \<Rightarrow> platform_context \<Rightarrow> ('u home, unit) cmd" where
  "cron_arm lib cx =
     bindE (cron_delay_ms lib (cx_name cx)) (\<lambda>delay. platform_set_alarm cx CRON_CLASS delay)"

definition cron_ensure :: "cron_lib \<Rightarrow> platform_context \<Rightarrow> ('u home, json) cmd" where
  "cron_ensure lib cx = thenE (cron_arm lib cx) (okE JNull)"

definition cron_payload :: "string \<Rightarrow> int \<Rightarrow> json" where
  "cron_payload name now = JObj [(''cron'', JStr name), (''scheduled_at'', JInt now)]"

text \<open>The verdict of the listener is dropped: \<open>let _ = fire_listener(...)\<close>.\<close>

definition fire_and_forget :: "runtime \<Rightarrow> string \<Rightarrow> json \<Rightarrow> ('u home, unit) cmd" where
  "fire_and_forget rt event payload h = (Inr (), snd (fire_listener rt event payload h))"

definition cron_fire :: "cron_lib \<Rightarrow> runtime \<Rightarrow> platform_context \<Rightarrow> ('u home, json) cmd" where
  "cron_fire lib rt cx =
     thenE (cron_arm lib cx)
       (bindE unix_now_ms (\<lambda>now.
         thenE (fire_and_forget rt (cx_name cx) (cron_payload (cx_name cx) now)) (okE JNull)))"

definition cron_dispatch :: "cron_lib \<Rightarrow> runtime \<Rightarrow> platform_context \<Rightarrow> call \<Rightarrow> ('u home, json) cmd" where
  "cron_dispatch lib rt cx c =
     (if c_method c = ''ensure'' then cron_ensure lib cx
      else if c_method c = ''alarm'' then cron_fire lib rt cx
      else failE (''Object class '' @ quoted CRON_CLASS @ '' has no method '' @ quoted (c_method c) @ ''.''))"

section \<open>The class keeps the call's transaction\<close>

lemma keeps_cron_delay [keeps_intros]: "keeps (inside c) (cron_delay_ms lib e)" "keeps bare (cron_delay_ms lib e)"
  unfolding cron_delay_ms_def Let_def
  by (intro keeps_seq keeps_case_sum keeps_case_option keeps_okE keeps_failE keeps_intros)+

lemma keeps_forget [keeps_intros]: "keeps (inside c) (fire_and_forget rt e p)" "keeps bare (fire_and_forget rt e p)"
  using keeps_fire_inside [of c rt e p] keeps_fire_bare [of rt e p] by (simp_all add: keeps_def fire_and_forget_def)

lemma keeps_cron: "keeps (inside c) (cron_dispatch lib rt cx cl)" "keeps bare (cron_dispatch lib rt cx cl)"
  unfolding cron_dispatch_def cron_ensure_def cron_fire_def cron_arm_def
  by (intro keeps_seq keeps_okE keeps_failE keeps_intros)+

interpretation cron_body: atomic_body "as_body (cron_dispatch lib rt cx cl)" for lib rt cx cl
  by (rule atomic_as_body) (rule keeps_cron)+

section \<open>The schedule\<close>

text \<open>An expression that parses and always has a next occurrence, as every cron expression without a
  year column has.\<close>

definition recurs :: "cron_lib \<Rightarrow> string \<Rightarrow> bool" where
  "recurs lib name \<longleftrightarrow> (\<exists>upcoming. lib (cron_normalized (cron_expr name)) = Inr upcoming \<and> (\<forall>t. upcoming t \<noteq> None))"

definition scheduled :: "platform_context \<Rightarrow> pending_alarm option \<Rightarrow> bool" where
  "scheduled cx a \<longleftrightarrow> (\<exists>due. a = Some \<lparr>pa_due_ms = due, pa_class = CRON_CLASS, pa_name = cx_name cx, pa_own_key = cx_own_key cx\<rparr>)"

lemma cron_arm_ok:
  assumes "recurs lib (cx_name cx)"
  shows "\<exists>h'. cron_arm lib cx h = (Inr (), h') \<and> scheduled cx (alarm h')"
proof -
  from assms obtain up where up: "lib (cron_normalized (cron_expr (cx_name cx))) = Inr up" "\<forall>t. up t \<noteq> None"
    by (auto simp: recurs_def)
  then obtain nx where n: "up (reading h (ticks h)) = Some nx" by auto
  let ?h1 = "h\<lparr>ticks := Suc (ticks h)\<rparr>" and ?h3 = "h\<lparr>ticks := Suc (Suc (Suc (ticks h)))\<rparr>"
  obtain a where "cron_arm lib cx h = set_alarm a ?h3" "scheduled cx (Some a)"
    using up(1) n by (auto simp: cron_arm_def cron_delay_ms_def Let_def unix_now_ms_def bindE_def okE_def
        platform_set_alarm_def scheduled_def)
  then show ?thesis using set_alarm_ok [of a ?h3] set_alarm_cell [of a ?h3] by (cases "set_alarm a ?h3") auto
qed

lemma cron_answers:
  assumes "recurs lib (cx_name cx)" "c_method c \<in> {''ensure'', ''alarm''}"
  shows "\<exists>h'. cron_dispatch lib rt cx c h = (Inr JNull, h') \<and> scheduled cx (alarm h')"
proof -
  from cron_arm_ok [OF assms(1)] obtain h1 where a: "cron_arm lib cx h = (Inr (), h1)" "scheduled cx (alarm h1)" by blast
  have f: "alarm (snd (fire_listener rt e p h)) = alarm h" for e p and h :: "'a home"
    by (auto simp: fire_listener_def Let_def split: option.split)
  show ?thesis
    using assms(2) a f [of _ _ "h1\<lparr>ticks := Suc (ticks h1)\<rparr>"]
    by (auto simp: cron_dispatch_def cron_ensure_def cron_fire_def thenE_def okE_def unix_now_ms_def bindE_def
        fire_and_forget_def)
qed

lemma cron_guarded:
  assumes q: "quiescent h" and hs: "has_storage h" and rc: "recurs lib (cx_name cx)"
    and m: "c_method c \<in> {''ensure'', ''alarm''}"
  shows "\<exists>h'. guarded_dispatch gate (as_body (cron_dispatch lib rt cx c)) h = (Inr JNull, h')
     \<and> quiescent h' \<and> has_storage h' \<and> scheduled cx (alarm h')"
proof -
  from cron_answers [OF rc m, of rt "begun h"] obtain h2 where
    d: "cron_dispatch lib rt cx c (begun h) = (Inr JNull, h2)" "scheduled cx (alarm h2)" by blast
  have b: "as_body (cron_dispatch lib rt cx c) (begun h) = (Inr JNull, h2)" using d(1) by (simp add: as_body_def)
  have ok: "body_ok h2" using cron_body.body_keeps [OF begun_body_ok [OF q hs], of lib rt cx c] b by simp
  then obtain v where v: "home_view h2 = Some v" by (auto simp: body_ok_def has_storage_def home_view_def)
  obtain r h' where g: "guarded_dispatch gate (as_body (cron_dispatch lib rt cx c)) h = (r, h')" by force
  with cron_body.guarded_ok [OF q hs b, of gate] have h': "r = Inr JNull" "home_committed h' = Some v" "quiescent h'"
    using v by simp_all
  then have "alarm h' = alarm h2" using quiescent_alarm [OF h'(3,2)] body_alarm [OF ok v] by simp
  with g h' d(2) show ?thesis by (auto simp: has_storage_def home_committed_def)
qed


definition minutely :: cron_lib where
  "minutely s = Inr (\<lambda>t. Some ((t div 60000 + 1) * 60000))"

definition minutely_alarm :: pending_alarm where
  "minutely_alarm = \<lparr>pa_due_ms = 50, pa_class = CRON_CLASS, pa_name = ''cron:* * * * *'', pa_own_key = ''k''\<rparr>"

definition minutely_home :: "unit home" where
  "minutely_home = spawn_home (Some (open_file ((fresh_db ())\<lparr>alarm_table := Some [(50, CRON_CLASS, ''cron:* * * * *'', ''k'')]\<rparr>)))
     default_policy None False (\<lambda>_. 100)"

lemma minutely_facts: "quiescent minutely_home" "has_storage minutely_home" "alarm minutely_home = Some minutely_alarm"
proof -
  show "quiescent minutely_home" unfolding minutely_home_def by (rule spawn_home_quiescent) (auto simp: open_file_def in_txn_def)
qed (simp_all add: minutely_home_def spawn_home_def Let_def load_alarm_apply has_storage_def open_file_def load_alarm_row_def
      fresh_db_def view_def mirror_alarm_def of_row_def minutely_alarm_def)


end
