(* ===== verification/Classes.thy ===== *)
theory Classes
  imports Queue_Spec Workflow_Spec User_Class Cron
begin

text \<open>
  The object node's dispatch as a whole: \<open>platform::dispatch\<close> over the four platform classes,
  the choice between it and the vm in \<open>guarded_dispatch\<close>, the dashboard's typed reads, and what the
  task loop keeps for a queue and for a schedule however calls and alarms interleave.
\<close>

section \<open>Dispatch\<close>

record 'u platform =
  pl_codec :: codec
  pl_why :: "json \<Rightarrow> string"
  pl_row_why :: "string \<Rightarrow> string"
  pl_runtime :: runtime
  pl_workflow :: wf_runtime
  pl_cron :: cron_lib
  pl_engine :: "'u sql_engine"
  pl_guest :: "'u guest"
  pl_global :: "string \<Rightarrow> json \<Rightarrow> ('u home, json) cmd"

definition class_dispatch :: "'u platform \<Rightarrow> platform_context \<Rightarrow> call \<Rightarrow> ('u home, json) cmd" where
  "class_dispatch pl cx c =
     (if c_class c = QUEUE_CLASS then queue_dispatch (pl_codec pl) (pl_runtime pl) cx c
      else if c_class c = CRON_CLASS then cron_dispatch (pl_cron pl) (pl_runtime pl) cx c
      else if c_class c = DATABASE_CLASS then database_dispatch (pl_engine pl) cx c
      else if c_class c = WORKFLOW_CLASS then workflow_dispatch (pl_codec pl) (pl_row_why pl) (pl_workflow pl) cx c
      else failE (''No object class '' @ quoted (c_class c) @ ''.''))"

definition platform_dispatch :: "'u platform \<Rightarrow> json \<Rightarrow> ('u home, json) cmd" where
  "platform_dispatch pl payload =
     (case decode_call (pl_why pl) payload of
        Inl e \<Rightarrow> failE e
      | Inr c \<Rightarrow> class_dispatch pl (call_context c) c)"

text \<open>A payload for a platform class never enters the vm; \<open>__dispatch\<close> is the vm's receiving side, and
  any other method name is a global of the script.\<close>

definition object_dispatch :: "'u platform \<Rightarrow> string \<Rightarrow> json \<Rightarrow> 'u method_body" where
  "object_dispatch pl m payload =
     as_body (if handles m payload then platform_dispatch pl payload
              else if m = ''__dispatch'' then lua_dispatch (pl_why pl) (pl_guest pl) payload
              else pl_global pl m payload)"

section \<open>Dashboard reads\<close>

definition entry_json :: "jentry \<Rightarrow> json" where
  "entry_json e = JObj [(''at'', JInt (en_at e)), (''data'', en_data e), (''format'', JInt (en_format e)),
     (''kind'', JStr (kind_str (en_kind e))), (''seq'', JInt (en_seq e))]"

definition workflow_overview :: "jentry list \<Rightarrow> json" where
  "workflow_overview entries = JObj [
     (''at'', JStr (at_step entries)),
     (''entries'', JInt (int (length entries))),
     (''input'', case entries of e # _ \<Rightarrow> (if en_kind e = Started then jget (en_data e) ''input'' else JNull) | [] \<Rightarrow> JNull),
     (''started_at'', case entries of e # _ \<Rightarrow> JInt (en_at e) | [] \<Rightarrow> JNull),
     (''status'', run_status entries),
     (''updated_at'', if entries = [] then JNull else JInt (en_at (last entries)))]"

text \<open>\<open>PlatformRead::run\<close> on a file opened read-only at \<open>now\<close>; the overview of a database reads SQLite's
  own catalogue and is the parameter \<open>overview\<close>.\<close>

definition run_read :: "'u platform \<Rightarrow> ('u sqlite, json) cmd \<Rightarrow> int \<Rightarrow> platform_read \<Rightarrow> 'u db \<Rightarrow> string + json" where
  "run_read pl overview now r d =
     (let J = pl_codec pl; st = open_file d in
      case r of
        QueueStats \<Rightarrow> Inr (stats_json (read_stats now d))
      | QueueEvents since \<Rightarrow> Inr (JArr (map (event_json J) (read_events since d)))
      | QueueMessages \<Rightarrow> Inr (JArr (map message_json (read_messages now d)))
      | DatabaseOverview \<Rightarrow> fst (overview st)
      | Query sql \<Rightarrow> (case fst (query (pl_engine pl) sql [] st) of Inl e \<Rightarrow> Inl e | Inr rows \<Rightarrow> Inr (JArr rows))
      | WorkflowStatus \<Rightarrow>
          (case fst (read_journal_readonly_from J (pl_row_why pl) 0 st) of
             Inl e \<Rightarrow> Inl e | Inr es \<Rightarrow> Inr (workflow_overview es))
      | WorkflowJournal since \<Rightarrow>
          (case fst (read_journal_readonly_from J (pl_row_why pl) since st) of
             Inl e \<Rightarrow> Inl e | Inr es \<Rightarrow> Inr (JArr (map entry_json es))))"

section \<open>Every class is a body the guard understands\<close>

lemma object_body_as_body:
  assumes "keeps body_ok m" "keeps bare m"
  shows "object_body (as_body m)"
proof
  show "body_ok h \<Longrightarrow> body_ok (snd (as_body m h))" for h using assms(1) by (simp add: keeps_def)
  show "storage h = None \<Longrightarrow> storage (snd (as_body m h)) = None" for h using assms(2) by (simp add: keeps_def bare_def)
qed

lemma inside_body_ok: "(\<And>c. keeps (inside c) m) \<Longrightarrow> keeps body_ok m"
  by (auto simp: keeps_def inside_def)

locale contained_platform =
  fixes pl :: "'u platform"
  assumes engine: "engine_contained (pl_engine pl)"
    and guest: "guest_contained (pl_guest pl)"
    and global: "object_body (as_body (pl_global pl m p))"
begin

lemma class_body: "object_body (as_body (class_dispatch pl cx c))"
proof -
  have f: "object_body (as_body (failE e))" for e :: string
    by (rule object_body_as_body) simp_all
  have d: "object_body (as_body (database_dispatch (pl_engine pl) cx c))"
    by (rule atomic_body.axioms(1) [OF database_atomic_body [OF engine]])
  show ?thesis
    unfolding class_dispatch_def
    using queue_body.object_body_axioms cron_body.object_body_axioms workflow_body.object_body_axioms d f by auto
qed

lemma dispatch_body: "object_body (object_dispatch pl m p)"
proof -
  have f: "object_body (as_body (failE e))" for e :: string
    by (rule object_body_as_body) simp_all
  have "object_body (as_body (platform_dispatch pl p))"
    unfolding platform_dispatch_def using class_body f by (cases "decode_call (pl_why pl) p") auto
  moreover have "object_body (as_body (lua_dispatch (pl_why pl) (pl_guest pl) p))"
    unfolding lua_dispatch_def using atomic_body.axioms(1) [OF guest_atomic_body [OF guest]] f
    by (cases "decode_dispatch (pl_why pl) p") auto
  ultimately show ?thesis unfolding object_dispatch_def using global by auto
qed

end

sublocale contained_platform \<subseteq> object_task "object_dispatch pl"
  by (rule object_task.intro) (rule dispatch_body)

context contained_platform
begin

lemma reach_quiescent:
  assumes "task_reach (object_dispatch pl) gate hib h0 t" "quiescent h0"
  shows "quiescent (t_home t)"
  by (rule settled_task.task_reach_keeps [OF assms]) auto

end

section \<open>Queue tasks\<close>

text \<open>A routed call for a queue, as the mailbox carries it.\<close>

definition queue_payload :: "'u platform \<Rightarrow> string \<Rightarrow> json \<Rightarrow> bool" where
  "queue_payload pl m p \<longleftrightarrow> m = ''__dispatch'' \<and>
     (case decode_call (pl_why pl) p of Inr c \<Rightarrow> c_class c = QUEUE_CLASS | Inl _ \<Rightarrow> False)"

definition queue_home :: "'u home \<Rightarrow> bool" where
  "queue_home h \<longleftrightarrow> quiescent h \<and> (\<exists>d. home_committed h = Some d \<and> queue_ready d)"

lemma decode_class:
  "decode_call why p = Inr c \<Longrightarrow> as_str (jget p ''class'') = Some (c_class c)"
  by (auto simp: decode_call_def Let_def split: option.splits)

lemma dispatch_platform:
  assumes "decode_call (pl_why pl) p = Inr c" "starts_with (c_class c) ''__''"
  shows "object_dispatch pl ''__dispatch'' p = as_body (class_dispatch pl (call_context c) c)"
  using decode_class [OF assms(1)] assms by (simp add: object_dispatch_def handles_def platform_dispatch_def)

lemma decode_alarm:
  "decode_call why (alarm_payload a) = Inr \<lparr>c_class = pa_class a, c_method = ''alarm'', c_name = pa_name a,
     c_args = [], c_chain = [pa_own_key a], c_caller = None\<rparr>"
  by (simp add: decode_call_def alarm_payload_def has_key_def Let_def)

lemma queue_call_keeps:
  assumes "queue_payload pl m p" "queue_home h"
  shows "queue_home (snd (guarded_dispatch gate (object_dispatch pl m p) h))"
proof -
  from assms(1) obtain c where c: "m = ''__dispatch''" "decode_call (pl_why pl) p = Inr c" "c_class c = QUEUE_CLASS"
    by (auto simp: queue_payload_def split: sum.splits)
  from assms(2) obtain d where d: "quiescent h" "home_committed h = Some d" "queue_ready d" by (auto simp: queue_home_def)
  let ?b = "as_body (queue_dispatch (pl_codec pl) (pl_runtime pl) (call_context c) c)"
  have b: "object_dispatch pl m p = ?b"
    using dispatch_platform [OF c(2)] c(1,3) by (simp add: QUEUE_CLASS_def class_dispatch_def)
  have "\<exists>d'. home_committed (snd (guarded_dispatch gate ?b h)) = Some d' \<and> queue_ready d'"
  proof (cases "c_method c = ''alarm''")
    case True
    have "queue_file d" "\<And>a. alarm h = Some a \<Longrightarrow> pa_class a = QUEUE_CLASS"
      using d(3) quiescent_alarm [OF d(1,2)] by (auto simp: queue_ready_def)
    from guarded_alarm_ready [OF d(1,2) this True] show ?thesis .
  next
    case False
    from guarded_call_ready [OF d False] show ?thesis .
  qed
  with b queue_body.guarded_quiescent [OF d(1)] show ?thesis by (auto simp: queue_home_def)
qed

lemma clear_committed:
  assumes "quiescent h" "home_committed h = Some d"
  shows "home_committed (clear_alarm h) = Some (d\<lparr>alarm_table := Some []\<rparr>)" "alarm (clear_alarm h) = None"
proof -
  from assms obtain st where st: "storage h = Some st" "committed st = d" "\<not> in_txn st"
    by (auto simp: home_committed_def quiescent_def home_in_txn_def)
  show "home_committed (clear_alarm h) = Some (d\<lparr>alarm_table := Some []\<rparr>)" "alarm (clear_alarm h) = None"
    using st by (auto simp: clear_alarm_def Let_def mirror_alarm_def has_storage_def with_storage_def home_committed_def
        clear_alarm_rows_def ensure_meta_def delete_alarms_def thenE_def bindE_def writeE_def stmt_def put_def view_def in_txn_def
        split: option.splits)
qed

lemma queue_fire_keeps:
  assumes "queue_home h" "alarm h = Some a"
  shows "queue_home (fire_alarm gate (object_dispatch pl ''__dispatch'') a h)"
proof -
  from assms(1) obtain d where d: "quiescent h" "home_committed h = Some d" "queue_ready d" by (auto simp: queue_home_def)
  have cls: "pa_class a = QUEUE_CLASS" using d(3) quiescent_alarm [OF d(1,2)] assms(2) by (auto simp: queue_ready_def)
  let ?c = "\<lparr>c_class = pa_class a, c_method = ''alarm'', c_name = pa_name a, c_args = [], c_chain = [pa_own_key a], c_caller = None\<rparr>"
  let ?b = "as_body (queue_dispatch (pl_codec pl) (pl_runtime pl) (call_context ?c) ?c)"
  have b: "object_dispatch pl ''__dispatch'' (alarm_payload a) = ?b"
    using dispatch_platform [OF decode_alarm, of a pl] cls by (simp add: QUEUE_CLASS_def class_dispatch_def)
  have q: "quiescent (clear_alarm h)" by (rule clear_alarm_quiescent [OF d(1)])
  note cc = clear_committed [OF d(1,2)]
  have f: "queue_file (d\<lparr>alarm_table := Some []\<rparr>)"
    using d(3) by (auto simp: queue_ready_def queue_file_def queue_fresh_def)
  have "\<exists>d'. home_committed (snd (guarded_dispatch gate ?b (clear_alarm h))) = Some d' \<and> queue_ready d'"
    by (rule guarded_alarm_ready [OF q cc(1) f]) (simp_all add: cc(2))
  with b queue_body.guarded_quiescent [OF q] show ?thesis by (auto simp: queue_home_def fire_alarm_def)
qed

interpretation queue_task: task_invariant "object_dispatch pl" gate "queue_payload pl" queue_home for pl gate
proof
  show "queue_home h \<Longrightarrow> queue_home (poll h)" for h :: "'a home"
    by (simp add: queue_home_def home_committed_def)
qed (rule queue_call_keeps queue_fire_keeps, assumption+)+


section \<open>Cron tasks\<close>

definition cron_payload_for :: "'u platform \<Rightarrow> platform_context \<Rightarrow> string \<Rightarrow> json \<Rightarrow> bool" where
  "cron_payload_for pl cx m p \<longleftrightarrow> m = ''__dispatch'' \<and>
     (case decode_call (pl_why pl) p of Inr c \<Rightarrow> c_class c = CRON_CLASS \<and> call_context c = cx | Inl _ \<Rightarrow> False)"

definition cron_home :: "'u platform \<Rightarrow> platform_context \<Rightarrow> 'u home \<Rightarrow> bool" where
  "cron_home pl cx h \<longleftrightarrow> quiescent h \<and> has_storage h \<and> recurs (pl_cron pl) (cx_name cx) \<and> scheduled cx (alarm h)"

lemma cron_call_keeps:
  assumes "cron_payload_for pl cx m p" "cron_home pl cx h"
  shows "cron_home pl cx (snd (guarded_dispatch gate (object_dispatch pl m p) h))"
proof -
  from assms(1) obtain c where c: "m = ''__dispatch''" "decode_call (pl_why pl) p = Inr c" "c_class c = CRON_CLASS" "call_context c = cx"
    by (auto simp: cron_payload_for_def split: sum.splits)
  let ?b = "as_body (cron_dispatch (pl_cron pl) (pl_runtime pl) cx c)"
  have b: "object_dispatch pl m p = ?b"
    using dispatch_platform [OF c(2)] c by (simp add: CRON_CLASS_def QUEUE_CLASS_def class_dispatch_def)
  from assms(2) have h: "quiescent h" "has_storage h" "recurs (pl_cron pl) (cx_name cx)" "scheduled cx (alarm h)"
    by (simp_all add: cron_home_def)
  show ?thesis
  proof (cases "c_method c \<in> {''ensure'', ''alarm''}")
    case True
    from cron_guarded [OF h(1-3) True, of gate "pl_runtime pl"] b h(3) show ?thesis by (auto simp: cron_home_def)
  next
    case False
    then obtain e where e: "?b (begun h) = (Inl (Call e), begun h)"
      by (auto simp: as_body_def cron_dispatch_def failE_def)
    obtain d where d: "home_committed h = Some d" using h(2) by (auto simp: has_storage_def home_committed_def)
    let ?h' = "snd (guarded_dispatch gate ?b h)"
    have k: "home_committed ?h' = Some (with_meta d)" "quiescent ?h'"
      using cron_body.guarded_err [OF h(1,2) e, of gate] d by simp_all
    have "alarm ?h' = alarm h" using quiescent_alarm [OF k(2,1)] quiescent_alarm [OF h(1) d] by simp
    with k h b show ?thesis by (auto simp: cron_home_def has_storage_def home_committed_def)
  qed
qed

lemma clear_storage: "has_storage h \<Longrightarrow> has_storage (clear_alarm h)"
  by (auto simp: clear_alarm_def has_storage_def Let_def with_storage_def mirror_alarm_def split: option.splits prod.splits)

lemma cron_fire_keeps:
  assumes "cron_home pl cx h" "alarm h = Some a"
  shows "cron_home pl cx (fire_alarm gate (object_dispatch pl ''__dispatch'') a h)"
proof -
  let ?c = "\<lparr>c_class = pa_class a, c_method = ''alarm'', c_name = pa_name a, c_args = [], c_chain = [pa_own_key a], c_caller = None\<rparr>"
  from assms have a: "pa_class a = CRON_CLASS" "call_context ?c = cx"
    by (auto simp: cron_home_def scheduled_def call_context_def last_or_empty_def)
  have b: "object_dispatch pl ''__dispatch'' (alarm_payload a) = as_body (cron_dispatch (pl_cron pl) (pl_runtime pl) cx ?c)"
    using dispatch_platform [OF decode_alarm, of a pl] a by (simp add: CRON_CLASS_def QUEUE_CLASS_def class_dispatch_def)
  from assms(1) have h: "quiescent (clear_alarm h)" "has_storage (clear_alarm h)" "recurs (pl_cron pl) (cx_name cx)"
    by (auto simp: cron_home_def intro: clear_alarm_quiescent clear_storage)
  from cron_guarded [OF h, of ?c gate "pl_runtime pl"] b h(3) show ?thesis by (auto simp: cron_home_def fire_alarm_def)
qed

interpretation cron_task: task_invariant "object_dispatch pl" gate "cron_payload_for pl cx" "cron_home pl cx" for pl gate cx
proof
  show "cron_home pl cx h \<Longrightarrow> cron_home pl cx (poll h)" for pl cx and h :: "'a home"
    by (simp add: cron_home_def has_storage_def)
qed (rule cron_call_keeps cron_fire_keeps, assumption+)+

text \<open>A schedule, once armed, runs for as long as its task: in every state the task reaches, whatever
  calls arrive (unknown methods included) and whatever the handler does, the next occurrence is
  armed, so the task never hibernates either.\<close>

theorem cron_task_scheduled:
  assumes "task_reach (object_dispatch pl) gate hib h0 t" "cron_home pl cx h0"
    and "\<forall>(i, m, p) \<in> set (sent t). cron_payload_for pl cx m p"
  shows "\<exists>due. alarm (t_home t) = Some \<lparr>pa_due_ms = due, pa_class = CRON_CLASS, pa_name = cx_name cx, pa_own_key = cx_own_key cx\<rparr>"
  using cron_task.task_reach_keeps [OF assms] by (auto simp: cron_home_def scheduled_def)

section \<open>Any task\<close>


text \<open>Every call is answered exactly once and in arrival order: the answers given so far belong, in
  order, to a prefix of the calls sent, and the rest of the calls are the mailbox, which never
  exceeds its depth.\<close>

theorem calls_answered_in_order:
  assumes "task_reach disp gate hib h0 t"
  shows "map fst (answered t) @ map fst (mailbox t) = map fst (sent t) \<and> length (mailbox t) \<le> MAILBOX_DEPTH"
proof -
  have "length (mailbox t) \<le> MAILBOX_DEPTH"
    using assms by (induction rule: task_reach.induct) (auto simp: task_start_def elim!: task_stepE)
  with task_reach_calls [OF assms] show ?thesis by (auto simp: calls_inv_def)
qed

section \<open>Tasks to try it on\<close>

definition closed_engine :: "unit sql_engine" where
  "closed_engine = \<lparr>sq_execute = (\<lambda>f sql vs. failE ''locked''), sq_query = (\<lambda>f sql vs. failE ''locked''),
     sq_batch = (\<lambda>f sql. failE ''locked''), sq_f64_of = (\<lambda>_. 0), sq_shown = (\<lambda>_. ''''),
     sq_finite = (\<lambda>_. True), sq_lossy = (\<lambda>s. s)\<rparr>"

definition demo_platform :: "unit platform" where
  "demo_platform = \<lparr>pl_codec = demo_codec, pl_why = (\<lambda>_. ''''), pl_row_why = (\<lambda>e. e), pl_runtime = demo_runtime,
     pl_workflow = demo_rt, pl_cron = minutely, pl_engine = closed_engine, pl_guest = (\<lambda>_. None),
     pl_global = (\<lambda>_ _. failE ''no such global'')\<rparr>"

definition routed_payload :: "string \<Rightarrow> string \<Rightarrow> string \<Rightarrow> json" where
  "routed_payload cls m name = JObj [(''args'', JArr []), (''chain'', JArr [JStr ''k'']), (''class'', JStr cls),
     (''method'', JStr m), (''name'', JStr name)]"

text \<open>One call sent and served.\<close>

definition served :: "string \<Rightarrow> string \<Rightarrow> string \<Rightarrow> unit home \<Rightarrow> unit task" where
  "served cls m name h = (case guarded_dispatch True (object_dispatch demo_platform ''__dispatch'' (routed_payload cls m name)) (poll h) of
     (r, h') \<Rightarrow> \<lparr>t_home = h', mailbox = [], answered = [(0, r)], sent = [(0, ''__dispatch'', routed_payload cls m name)], alive = True\<rparr>)"

lemma served_reach: "task_reach (object_dispatch demo_platform) True True h (served cls m name h)"
proof -
  let ?t0 = "task_start h" and ?q = "(0, ''__dispatch'', routed_payload cls m name) :: queued_call"
  let ?t1 = "?t0\<lparr>mailbox := mailbox ?t0 @ [?q], sent := sent ?t0 @ [?q]\<rparr>"
  obtain r h' where g: "guarded_dispatch True (object_dispatch demo_platform ''__dispatch'' (routed_payload cls m name)) (poll h) = (r, h')"
    by force
  have 1: "task_reach (object_dispatch demo_platform) True True h ?t1"
    by (rule task_reach.step [OF task_reach.start task_step.send]) (simp_all add: task_start_def MAILBOX_DEPTH_def)
  have "task_step (object_dispatch demo_platform) True True ?t1 (?t1\<lparr>mailbox := [], t_home := h', answered := answered ?t1 @ [(0, r)]\<rparr>)"
    by (rule task_step.receive) (use g in \<open>simp_all add: task_start_def\<close>)
  from task_reach.step [OF 1 this] show ?thesis using g by (simp add: served_def task_start_def)
qed

lemma served_sent: "sent (served cls m name h) = [(0, ''__dispatch'', routed_payload cls m name)]"
  by (simp add: served_def split: prod.split)

lemma closed_engine_contained: "engine_contained closed_engine"
  by (simp add: engine_contained_def closed_engine_def)

lemma demo_queue_home: "queue_home demo_home"
  using demo_quiescent demo_view(2) demo_ready by (auto simp: queue_home_def)


theorem cron_task_scheduled_witness:
  "\<exists>due. alarm (t_home (served CRON_CLASS ''tick'' ''cron:* * * * *'' minutely_home)) =
     Some \<lparr>pa_due_ms = due, pa_class = CRON_CLASS, pa_name = ''cron:* * * * *'', pa_own_key = ''k''\<rparr>"
proof -
  let ?cx = "\<lparr>cx_name = ''cron:* * * * *'', cx_own_key = ''k''\<rparr>"
  have "cron_home demo_platform ?cx minutely_home"
    using minutely_facts by (simp add: cron_home_def recurs_def minutely_def scheduled_def minutely_alarm_def demo_platform_def)
  from cron_task_scheduled [OF served_reach this, of CRON_CLASS "''tick''" "''cron:* * * * *''"] show ?thesis
    by (simp add: served_sent cron_payload_for_def routed_payload_def decode_call_def has_key_def Let_def call_context_def last_or_empty_def)
qed


theorem calls_answered_in_order_witness:
  "map fst (answered (served QUEUE_CLASS ''send'' ''mail'' demo_home)) @ map fst (mailbox (served QUEUE_CLASS ''send'' ''mail'' demo_home))
     = map fst (sent (served QUEUE_CLASS ''send'' ''mail'' demo_home))"
  using calls_answered_in_order [OF served_reach] by blast

interpretation demo_contained: contained_platform demo_platform
  by (rule contained_platform.intro) (simp_all add: demo_platform_def closed_engine_contained guest_contained_def object_body_as_body)

end
