(* ===== verification/Identity.thy ===== *)
theory Identity
  imports Platform
begin

text \<open>
  Object identity (\<open>actias-worker-core/src/identity.rs\<close>): the scope, class and name every object is
  addressed by, its canonical string, and the hashed id its lease, snapshot and file hang off. The
  hash (blake3) is a parameter.
\<close>

record object_key =
  k_scope :: string
  k_class :: string
  k_name :: string

text \<open>The sharing rule: a schedule belongs to its script, everything else to the project.\<close>

definition key_scoped :: "string \<Rightarrow> string \<Rightarrow> string \<Rightarrow> string \<Rightarrow> object_key" where
  "key_scoped project script cls name =
     \<lparr>k_scope = (if cls = CRON_CLASS then script else project), k_class = cls, k_name = name\<rparr>"

definition key_received :: "string \<Rightarrow> string \<Rightarrow> string \<Rightarrow> object_key" where
  "key_received scope cls name = \<lparr>k_scope = scope, k_class = cls, k_name = name\<rparr>"

definition key_parse :: "string \<Rightarrow> object_key option" where
  "key_parse s =
     (case split_once CHR ''/'' s of
        None \<Rightarrow> None
      | Some (scope, rest) \<Rightarrow>
          if scope = '''' then None
          else case split_once CHR ''/'' rest of
            None \<Rightarrow> None
          | Some (cls, name) \<Rightarrow>
              if cls = '''' \<or> name = '''' then None
              else Some \<lparr>k_scope = scope, k_class = cls, k_name = name\<rparr>)"

definition is_cron :: "object_key \<Rightarrow> bool" where
  "is_cron k = (k_class k = CRON_CLASS)"

definition key_display :: "object_key \<Rightarrow> string" where
  "key_display k = k_scope k @ ''/'' @ k_class k @ ''/'' @ k_name k"

definition object_id :: "(string \<Rightarrow> string) \<Rightarrow> object_key \<Rightarrow> string" where
  "object_id blake3_hex k = blake3_hex (key_display k)"

definition db_file_name :: "(string \<Rightarrow> string) \<Rightarrow> object_key \<Rightarrow> string" where
  "db_file_name blake3_hex k = object_id blake3_hex k @ ''.db''"

section \<open>Canonical strings\<close>

lemma split_once_append: "d \<notin> set a \<Longrightarrow> split_once d (a @ d # b) = Some (a, b)"
  by (simp add: split_once_Some_iff)

lemma key_parse_Some_iff:
  "key_parse s = Some k \<longleftrightarrow> s = key_display k \<and> k_scope k \<noteq> '''' \<and> CHR ''/'' \<notin> set (k_scope k)
     \<and> k_class k \<noteq> '''' \<and> CHR ''/'' \<notin> set (k_class k) \<and> k_name k \<noteq> ''''" (is "_ \<longleftrightarrow> ?R")
proof
  assume "key_parse s = Some k"
  then show ?R
    by (auto simp: key_parse_def key_display_def split_once_Some_iff split: option.splits if_splits)
next
  assume r: ?R
  then have "split_once CHR ''/'' s = Some (k_scope k, k_class k @ CHR ''/'' # k_name k)"
    by (simp add: key_display_def split_once_append)
  moreover have "split_once CHR ''/'' (k_class k @ CHR ''/'' # k_name k) = Some (k_class k, k_name k)"
    using r by (simp add: split_once_append)
  ultimately show "key_parse s = Some k" using r by (simp add: key_parse_def)
qed

text \<open>C13. A key reads back from its canonical string exactly when no part is empty and neither the
  scope nor the class contains a slash; the name may contain any text.\<close>

theorem key_round_trip:
  "key_parse (key_display k) = Some k \<longleftrightarrow>
     k_scope k \<noteq> '''' \<and> CHR ''/'' \<notin> set (k_scope k) \<and> k_class k \<noteq> '''' \<and> CHR ''/'' \<notin> set (k_class k) \<and> k_name k \<noteq> ''''"
  by (simp add: key_parse_Some_iff)

text \<open>Two objects share an identity, hence a lease, a snapshot and a file, only if they are the
  same object: keys whose scopes and classes contain no slash have different ids unless they
  are equal, provided the hash does not collide on their canonical strings.\<close>

theorem object_ids_distinct:
  assumes "CHR ''/'' \<notin> set (k_scope k)" "CHR ''/'' \<notin> set (k_class k)"
    and "CHR ''/'' \<notin> set (k_scope k')" "CHR ''/'' \<notin> set (k_class k')"
    and "H (key_display k) = H (key_display k') \<Longrightarrow> key_display k = key_display k'"
    and "object_id H k = object_id H k'"
  shows "k = k'"
proof -
  have e: "key_display k = key_display k'" using assms(5,6) by (simp add: object_id_def)
  have s: "split_once CHR ''/'' (key_display x) = Some (k_scope x, k_class x @ CHR ''/'' # k_name x)"
    if "CHR ''/'' \<notin> set (k_scope x)" for x
    using that by (simp add: key_display_def split_once_append)
  have c: "split_once CHR ''/'' (k_class x @ CHR ''/'' # k_name x) = Some (k_class x, k_name x)"
    if "CHR ''/'' \<notin> set (k_class x)" for x
    using that by (simp add: split_once_append)
  from s [OF assms(1)] s [OF assms(3)] e have "k_scope k = k_scope k'"
    "k_class k @ CHR ''/'' # k_name k = k_class k' @ CHR ''/'' # k_name k'" by simp_all
  with c [OF assms(2)] c [OF assms(4)] show ?thesis by (metis object_key.equality option.inject prod.inject unit.exhaust)
qed

theorem object_ids_distinct_witness:
  "object_id (\<lambda>s. s) \<lparr>k_scope = ''p'', k_class = ''Room'', k_name = ''a/b''\<rparr> =
     object_id (\<lambda>s. s) \<lparr>k_scope = ''p'', k_class = ''Room'', k_name = ''a/b''\<rparr> \<and>
   \<lparr>k_scope = ''p'', k_class = ''Room'', k_name = ''a/b''\<rparr> = \<lparr>k_scope = ''p'', k_class = ''Room'', k_name = ''a/b''\<rparr>"
  using object_ids_distinct [of "\<lparr>k_scope = ''p'', k_class = ''Room'', k_name = ''a/b''\<rparr>"
      "\<lparr>k_scope = ''p'', k_class = ''Room'', k_name = ''a/b''\<rparr>" "\<lambda>s. s"] by simp

text \<open>A class name with a slash, which declarations accept, shares its objects with another class.\<close>

lemma class_slash_collides:
  "object_id H (key_scoped p s ''a/b'' ''c'') = object_id H (key_scoped p s ''a'' ''b/c'')"
  by (simp add: object_id_def key_display_def key_scoped_def CRON_CLASS_def)

end
