(* ===== verification/Registry.thy ===== *)
theory Registry
  imports Identity
begin

text \<open>
  The placement store (\<open>actias-script-service/src/node_registry.rs\<close>): node membership by heartbeat,
  object leases that die with their holder, epochs that never go back, the instance directory and
  the alarm mirror. A statement against the store is one atomic step; a claim is several of them,
  so it is a small machine whose steps other callers may interleave. Every statement takes the
  instant it runs at. Uuid parsing is the uuid crate's and a parameter.
\<close>

section \<open>State\<close>

record node_row =
  n_id :: string
  n_address :: string
  n_capabilities :: "string list"
  n_load :: "32 word"
  n_registered :: int
  n_heartbeat :: int

record instance_row =
  i_scope :: string
  i_class :: string
  i_name :: string
  i_script :: string
  i_created :: int

record alarm_mirror_row =
  am_object :: string
  am_own_key :: string
  am_due_ms :: int

record registry =
  rg_nodes :: "node_row list"
  rg_leases :: "string \<rightharpoonup> string"
  rg_epochs :: "string \<rightharpoonup> int"
  rg_instances :: "instance_row list"
  rg_alarms :: "alarm_mirror_row list"

datatype registry_error = Store string | InvalidId string | IncompleteIdentity | NodeUnknown
  | NoSuchNode | Unheld | ClaimRaced

datatype status = Internal string | InvalidArgument string | NotFound string | Aborted string
  | FailedPrecondition string | AlreadyExists string | Unauthenticated string

fun status_of :: "registry_error \<Rightarrow> status" where
  "status_of (Store e) = Internal ''The placement store failed.''"
| "status_of (InvalidId field) = InvalidArgument (quoted field @ '' is not a uuid.'')"
| "status_of IncompleteIdentity = InvalidArgument ''A claim identity carries scope, class, name and script, or none of them.''"
| "status_of NodeUnknown = NotFound ''Node is not registered or has aged out; register again.''"
| "status_of NoSuchNode = NotFound ''No live node with that id.''"
| "status_of Unheld = NotFound ''Nobody holds that object.''"
| "status_of ClaimRaced = Aborted ''The lease was freed mid-claim; try again.''"

type_synonym 'a rop = "registry \<Rightarrow> (registry_error + 'a) \<times> registry"

definition empty_registry :: registry where
  "empty_registry = \<lparr>rg_nodes = [], rg_leases = Map.empty, rg_epochs = Map.empty, rg_instances = [], rg_alarms = []\<rparr>"

section \<open>Helpers\<close>

definition like_prefix :: "string \<Rightarrow> string" where
  "like_prefix prefix =
     concat (map (\<lambda>c. if c \<in> {CHR ''%'', CHR ''_'', CHR 0x5C} then [CHR 0x5C, c] else [c]) prefix) @ ''%''"

definition page_size :: "32 word \<Rightarrow> int" where
  "page_size requested = (if requested = 0 then 100 else uint (min requested 500))"

definition heartbeat_interval_secs :: "32 word \<Rightarrow> 32 word" where
  "heartbeat_interval_secs ttl_secs = max (ttl_secs div 3) 1"

definition cutoff :: "32 word \<Rightarrow> int \<Rightarrow> int" where
  "cutoff ttl_secs now = now - uint ttl_secs * 1000"

section \<open>Statements\<close>

definition node_ids :: "registry \<Rightarrow> string set" where
  "node_ids r = n_id ` set (rg_nodes r)"

text \<open>\<open>DELETE FROM nodes\<close>: the rows go and the foreign key frees their leases.\<close>

definition delete_nodes :: "(node_row \<Rightarrow> bool) \<Rightarrow> registry \<Rightarrow> registry" where
  "delete_nodes P r =
     (let kept = filter (\<lambda>n. \<not> P n) (rg_nodes r)
      in r\<lparr>rg_nodes := kept,
           rg_leases := (\<lambda>obj. case rg_leases r obj of
              Some n \<Rightarrow> if n \<in> n_id ` set kept then Some n else None | None \<Rightarrow> None)\<rparr>)"

definition reap :: "32 word \<Rightarrow> int \<Rightarrow> registry \<Rightarrow> registry" where
  "reap ttl now = delete_nodes (\<lambda>n. n_heartbeat n \<le> cutoff ttl now)"

definition insert_lease :: "string \<Rightarrow> string \<Rightarrow> nat rop" where
  "insert_lease obj node r =
     (case rg_leases r obj of
        Some _ \<Rightarrow> (Inr 0, r)
      | None \<Rightarrow>
          if node \<notin> node_ids r then (Inl (Store ''insert violates foreign key constraint''), r)
          else (Inr 1, r\<lparr>rg_leases := (rg_leases r)(obj \<mapsto> node)\<rparr>))"

definition insert_instance :: "string \<Rightarrow> string \<Rightarrow> string \<Rightarrow> string \<Rightarrow> int \<Rightarrow> registry \<Rightarrow> registry" where
  "insert_instance scope cls name script now r =
     (if \<exists>i \<in> set (rg_instances r). i_scope i = scope \<and> i_class i = cls \<and> i_name i = name then r
      else r\<lparr>rg_instances := rg_instances r @ [\<lparr>i_scope = scope, i_class = cls, i_name = name, i_script = script, i_created = now\<rparr>]\<rparr>)"

definition bump_epoch :: "string \<Rightarrow> registry \<Rightarrow> int \<times> registry" where
  "bump_epoch obj r =
     (let e = (case rg_epochs r obj of Some n \<Rightarrow> n + 1 | None \<Rightarrow> 1)
      in (e, r\<lparr>rg_epochs := (rg_epochs r)(obj \<mapsto> e)\<rparr>))"

section \<open>Claims\<close>

record claim_request =
  cq_object :: string
  cq_node :: string
  cq_scope :: string
  cq_class :: string
  cq_name :: string
  cq_script :: string

record lease =
  ls_object :: string
  ls_node :: string
  ls_acquired :: bool
  ls_epoch :: int

definition claim_identity :: "(string \<Rightarrow> string option) \<Rightarrow> claim_request \<Rightarrow> registry_error + (string \<times> string) option" where
  "claim_identity parse_uuid q =
     (if cq_scope q = '''' \<and> cq_class q = '''' \<and> cq_name q = '''' \<and> cq_script q = '''' then Inr None
      else if cq_class q = '''' \<or> cq_name q = '''' then Inl IncompleteIdentity
      else (case parse_uuid (cq_scope q) of
              None \<Rightarrow> Inl (InvalidId ''scope_id'')
            | Some scope \<Rightarrow>
                (case parse_uuid (cq_script q) of
                   None \<Rightarrow> Inl (InvalidId ''script_id'')
                 | Some script \<Rightarrow> Inr (Some (scope, script)))))"

text \<open>Where a claim stands: before the reap, the insert, the directory record, the holder read, the
  epoch statement, or answered.\<close>

datatype claim_pc =
    Reaping string "(string \<times> string) option"
  | Inserting string "(string \<times> string) option"
  | Recording string "(string \<times> string) option" nat
  | Reading string nat
  | Fencing string nat string
  | Answered "registry_error + lease"

definition claim_start :: "(string \<Rightarrow> string option) \<Rightarrow> claim_request \<Rightarrow> claim_pc" where
  "claim_start parse_uuid q =
     (case parse_uuid (cq_node q) of
        None \<Rightarrow> Answered (Inl (InvalidId ''node_id''))
      | Some node \<Rightarrow>
          (case claim_identity parse_uuid q of
             Inl e \<Rightarrow> Answered (Inl e)
           | Inr ident \<Rightarrow> Reaping node ident))"

definition lease_of :: "claim_request \<Rightarrow> string \<Rightarrow> bool \<Rightarrow> int \<Rightarrow> lease" where
  "lease_of q holder acquired epoch =
     \<lparr>ls_object = cq_object q, ls_node = holder, ls_acquired = acquired, ls_epoch = max epoch 1\<rparr>"

fun claim_step :: "32 word \<Rightarrow> claim_request \<Rightarrow> int \<Rightarrow> claim_pc \<Rightarrow> registry \<Rightarrow> claim_pc \<times> registry" where
  "claim_step ttl q now (Reaping node ident) r = (Inserting node ident, reap ttl now r)"
| "claim_step ttl q now (Inserting node ident) r =
     (case insert_lease (cq_object q) node r of
        (Inl e, r') \<Rightarrow> (Answered (Inl e), r')
      | (Inr claimed, r') \<Rightarrow> (Recording node ident claimed, r'))"
| "claim_step ttl q now (Recording node ident claimed) r =
     (case ident of
        None \<Rightarrow> (Reading node claimed, r)
      | Some (scope, script) \<Rightarrow>
          (Reading node claimed, insert_instance scope (cq_class q) (cq_name q) script now r))"
| "claim_step ttl q now (Reading node claimed) r =
     (case rg_leases r (cq_object q) of
        None \<Rightarrow> (Answered (Inl ClaimRaced), r)
      | Some holder \<Rightarrow> (Fencing node claimed holder, r))"
| "claim_step ttl q now (Fencing node claimed holder) r =
     (let acquired = (claimed = 1 \<or> holder = node) in
      if claimed = 1 then
        (case bump_epoch (cq_object q) r of
           (e, r') \<Rightarrow> (Answered (Inr (lease_of q holder acquired e)), r'))
      else
        (Answered (Inr (lease_of q holder acquired
            (case rg_epochs r (cq_object q) of Some e \<Rightarrow> e | None \<Rightarrow> 1))), r))"
| "claim_step ttl q now (Answered a) r = (Answered a, r)"

text \<open>A claim nobody interrupts: its statements one after the other.\<close>

definition claim :: "(string \<Rightarrow> string option) \<Rightarrow> 32 word \<Rightarrow> int \<Rightarrow> claim_request \<Rightarrow> lease rop" where
  "claim parse_uuid ttl now q r =
     (let run = (\<lambda>(pc, r). claim_step ttl q now pc r)
      in case (run ^^ 5) (claim_start parse_uuid q, r) of
           (Answered a, r') \<Rightarrow> (a, r')
         | (_, r') \<Rightarrow> (Inl ClaimRaced, r'))"

section \<open>The service\<close>

definition register :: "string \<Rightarrow> int \<Rightarrow> string \<Rightarrow> string list \<Rightarrow> registry \<Rightarrow> string \<times> registry" where
  "register fresh_id now address caps r =
     (fresh_id, r\<lparr>rg_nodes := rg_nodes r @ [\<lparr>n_id = fresh_id, n_address = address, n_capabilities = caps,
        n_load = 0, n_registered = now, n_heartbeat = now\<rparr>]\<rparr>)"

definition heartbeat :: "(string \<Rightarrow> string option) \<Rightarrow> 32 word \<Rightarrow> int \<Rightarrow> string \<Rightarrow> 32 word \<Rightarrow> unit rop" where
  "heartbeat parse_uuid ttl now node load r =
     (case parse_uuid node of
        None \<Rightarrow> (Inl (InvalidId ''node_id''), r)
      | Some i \<Rightarrow>
          (let hit = (\<lambda>n. n_id n = i \<and> n_heartbeat n > cutoff ttl now) in
           if \<exists>n \<in> set (rg_nodes r). hit n
           then (Inr (), r\<lparr>rg_nodes := map (\<lambda>n. if hit n then n\<lparr>n_heartbeat := now, n_load := load\<rparr> else n) (rg_nodes r)\<rparr>)
           else (Inl NodeUnknown, r)))"

definition list_nodes :: "32 word \<Rightarrow> int \<Rightarrow> registry \<Rightarrow> node_row list \<times> registry" where
  "list_nodes ttl now r = (let r' = reap ttl now r in (sort_key n_registered (rg_nodes r'), r'))"

definition get_node :: "(string \<Rightarrow> string option) \<Rightarrow> 32 word \<Rightarrow> int \<Rightarrow> string \<Rightarrow> registry \<Rightarrow> registry_error + node_row" where
  "get_node parse_uuid ttl now node r =
     (case parse_uuid node of
        None \<Rightarrow> Inl (InvalidId ''node_id'')
      | Some i \<Rightarrow>
          (case find (\<lambda>n. n_id n = i \<and> n_heartbeat n > cutoff ttl now) (rg_nodes r) of
             None \<Rightarrow> Inl NoSuchNode | Some n \<Rightarrow> Inr n))"

definition get_lease :: "32 word \<Rightarrow> int \<Rightarrow> string \<Rightarrow> lease rop" where
  "get_lease ttl now obj r =
     (let r' = reap ttl now r in
      case rg_leases r' obj of
        None \<Rightarrow> (Inl Unheld, r')
      | Some holder \<Rightarrow> (Inr \<lparr>ls_object = obj, ls_node = holder, ls_acquired = False,
          ls_epoch = max (case rg_epochs r' obj of Some e \<Rightarrow> e | None \<Rightarrow> 1) 1\<rparr>, r'))"

definition deregister :: "(string \<Rightarrow> string option) \<Rightarrow> string \<Rightarrow> unit rop" where
  "deregister parse_uuid node r =
     (case parse_uuid node of
        None \<Rightarrow> (Inl (InvalidId ''node_id''), r)
      | Some i \<Rightarrow> (Inr (), delete_nodes (\<lambda>n. n_id n = i) r))"

definition release_lease :: "(string \<Rightarrow> string option) \<Rightarrow> string \<Rightarrow> string \<Rightarrow> unit rop" where
  "release_lease parse_uuid obj node r =
     (case parse_uuid node of
        None \<Rightarrow> (Inl (InvalidId ''node_id''), r)
      | Some i \<Rightarrow> (Inr (), if rg_leases r obj = Some i then r\<lparr>rg_leases := (rg_leases r)(obj := None)\<rparr> else r))"

definition registry_set_alarm :: "string \<Rightarrow> string \<Rightarrow> int \<Rightarrow> registry \<Rightarrow> registry" where
  "registry_set_alarm obj key due r =
     (let row = \<lparr>am_object = obj, am_own_key = key, am_due_ms = due\<rparr> in
      if obj \<in> am_object ` set (rg_alarms r)
      then r\<lparr>rg_alarms := map (\<lambda>a. if am_object a = obj then row else a) (rg_alarms r)\<rparr>
      else r\<lparr>rg_alarms := rg_alarms r @ [row]\<rparr>)"

definition registry_clear_alarm :: "string \<Rightarrow> registry \<Rightarrow> registry" where
  "registry_clear_alarm obj r = r\<lparr>rg_alarms := filter (\<lambda>a. am_object a \<noteq> obj) (rg_alarms r)\<rparr>"

definition due_alarms :: "int \<Rightarrow> 32 word \<Rightarrow> registry \<Rightarrow> alarm_mirror_row list" where
  "due_alarms now_ms limit r =
     take (unat (max 1 (min limit 1024))) (sort_key am_due_ms (filter (\<lambda>a. am_due_ms a \<le> now_ms) (rg_alarms r)))"

text \<open>\<open>LIKE\<close> with its default escape; the directory filter.\<close>

fun sql_like :: "string \<Rightarrow> string \<Rightarrow> bool" where
  "sql_like [] s = (s = [])"
| "sql_like (p # ps) s =
     (if p = CHR ''%'' then sql_like ps s \<or> (case s of [] \<Rightarrow> False | _ # cs \<Rightarrow> sql_like (p # ps) cs)
      else if p = CHR 0x5C then
        (case ps of [] \<Rightarrow> False | q # qs \<Rightarrow> (case s of [] \<Rightarrow> False | c # cs \<Rightarrow> c = q \<and> sql_like qs cs))
      else (case s of [] \<Rightarrow> False | c # cs \<Rightarrow> (p = CHR ''_'' \<or> c = p) \<and> sql_like ps cs))"

definition matching_instances :: "string list \<Rightarrow> string \<Rightarrow> string \<Rightarrow> registry \<Rightarrow> instance_row list" where
  "matching_instances projects cls prefix r =
     sort_key (\<lambda>i. (i_class i, i_name i))
       (filter (\<lambda>i. i_scope i \<in> set projects \<and> (cls = '''' \<or> i_class i = cls) \<and> sql_like (like_prefix prefix) (i_name i))
         (rg_instances r))"

definition list_instances :: "(string \<Rightarrow> string option) \<Rightarrow> string list \<Rightarrow> string \<Rightarrow> string \<Rightarrow> 32 word \<Rightarrow> 32 word
    \<Rightarrow> registry \<Rightarrow> instance_row list \<times> int" where
  "list_instances parse_uuid project_ids cls name_prefix page page_sz r =
     (let rows = matching_instances (List.map_filter parse_uuid project_ids) cls name_prefix r;
          limit = page_size page_sz;
          offset = uint page * limit
      in (take (nat limit) (drop (nat offset) rows), int (length rows)))"

definition count_instances :: "(string \<Rightarrow> string option) \<Rightarrow> string list \<Rightarrow> registry \<Rightarrow> (string \<times> int) list" where
  "count_instances parse_uuid project_ids r =
     (let rows = filter (\<lambda>i. i_scope i \<in> set (List.map_filter parse_uuid project_ids)) (rg_instances r)
      in map (\<lambda>c. (c, int (length (filter (\<lambda>i. i_class i = c) rows)))) (sort (remdups (map i_class rows))))"

end
