(* ===== verification/Registry_Spec.thy ===== *)
theory Registry_Spec
  imports Registry
begin

text \<open>
  What the placement store guarantees: leases only ever belong to registered nodes and epochs never
  go back, through every interleaving of claims with everything else; what an uninterrupted claim
  answers; and what an interrupted one can do to the fence.
\<close>

section \<open>The store under concurrent callers\<close>

type_synonym claims = "nat \<Rightarrow> claim_pc"

inductive store_step :: "(string \<Rightarrow> string option) \<Rightarrow> 32 word \<Rightarrow> (nat \<Rightarrow> claim_request)
    \<Rightarrow> registry \<times> claims \<Rightarrow> registry \<times> claims \<Rightarrow> bool" for parse ttl reqs where
  claiming: "claim_step ttl (reqs i) now (cs i) r = (pc, r') \<Longrightarrow> store_step parse ttl reqs (r, cs) (r', cs(i := pc))"
| registering: "i \<notin> node_ids r \<Longrightarrow> register i now addr caps r = (x, r') \<Longrightarrow> store_step parse ttl reqs (r, cs) (r', cs)"
| beating: "heartbeat parse ttl now node load r = (x, r') \<Longrightarrow> store_step parse ttl reqs (r, cs) (r', cs)"
| listing: "list_nodes ttl now r = (x, r') \<Longrightarrow> store_step parse ttl reqs (r, cs) (r', cs)"
| looking: "get_lease ttl now obj r = (x, r') \<Longrightarrow> store_step parse ttl reqs (r, cs) (r', cs)"
| leaving: "deregister parse node r = (x, r') \<Longrightarrow> store_step parse ttl reqs (r, cs) (r', cs)"
| releasing: "release_lease parse obj node r = (x, r') \<Longrightarrow> store_step parse ttl reqs (r, cs) (r', cs)"
| arming: "store_step parse ttl reqs (r, cs) (registry_set_alarm obj key due r, cs)"
| disarming: "store_step parse ttl reqs (r, cs) (registry_clear_alarm obj r, cs)"

inductive store_reach :: "(string \<Rightarrow> string option) \<Rightarrow> 32 word \<Rightarrow> (nat \<Rightarrow> claim_request)
    \<Rightarrow> registry \<times> claims \<Rightarrow> registry \<times> claims \<Rightarrow> bool" for parse ttl reqs s0 where
  here: "store_reach parse ttl reqs s0 s0"
| more: "store_reach parse ttl reqs s0 s \<Longrightarrow> store_step parse ttl reqs s s' \<Longrightarrow> store_reach parse ttl reqs s0 s'"

section \<open>What statements keep\<close>

definition leases_held :: "registry \<Rightarrow> bool" where
  "leases_held r \<longleftrightarrow> (\<forall>obj n. rg_leases r obj = Some n \<longrightarrow> n \<in> node_ids r)"

definition epochs_grow :: "registry \<Rightarrow> registry \<Rightarrow> bool" where
  "epochs_grow r r' \<longleftrightarrow> (\<forall>obj e. rg_epochs r obj = Some e \<longrightarrow> (\<exists>e' \<ge> e. rg_epochs r' obj = Some e'))"

lemma epochs_grow_refl [simp]: "rg_epochs r' = rg_epochs r \<Longrightarrow> epochs_grow r r'"
  by (auto simp: epochs_grow_def)

lemma epochs_grow_trans: "epochs_grow a b \<Longrightarrow> epochs_grow b c \<Longrightarrow> epochs_grow a c"
  unfolding epochs_grow_def by (meson order_trans)

lemma delete_nodes_held [simp]: "leases_held (delete_nodes P r)"
  by (auto simp: leases_held_def delete_nodes_def Let_def node_ids_def split: option.splits if_splits)

lemma delete_nodes_epochs [simp]: "rg_epochs (delete_nodes P r) = rg_epochs r"
  by (simp add: delete_nodes_def Let_def)

lemma reap_simps [simp]: "leases_held (reap ttl now r)" "rg_epochs (reap ttl now r) = rg_epochs r"
  by (simp_all add: reap_def)

lemma insert_lease_simps:
  assumes "insert_lease obj node r = (x, r')"
  shows "leases_held r \<Longrightarrow> leases_held r'" "rg_epochs r' = rg_epochs r"
  using assms by (auto simp: insert_lease_def leases_held_def node_ids_def split: option.splits if_splits)

lemma insert_instance_simps [simp]:
  "rg_leases (insert_instance a b c d e r) = rg_leases r" "rg_epochs (insert_instance a b c d e r) = rg_epochs r"
  "rg_nodes (insert_instance a b c d e r) = rg_nodes r"
  by (simp_all add: insert_instance_def)

lemma bump_epoch_simps:
  assumes "bump_epoch obj r = (e, r')"
  shows "leases_held r' = leases_held r" "epochs_grow r r'"
  using assms by (auto simp: bump_epoch_def Let_def leases_held_def node_ids_def epochs_grow_def split: option.splits)

lemma claim_step_keeps:
  assumes "claim_step ttl q now pc r = (pc', r')"
  shows "leases_held r \<Longrightarrow> leases_held r'" "epochs_grow r r'"
proof -
  have "(leases_held r \<longrightarrow> leases_held r') \<and> epochs_grow r r'"
  proof (cases pc)
    case (Inserting node ident)
    with assms show ?thesis using insert_lease_simps by (auto split: prod.splits sum.splits)
  next
    case (Fencing node claimed holder)
    with assms show ?thesis using bump_epoch_simps by (auto simp: Let_def split: prod.splits if_splits)
  next
    case (Recording node ident claimed)
    with assms show ?thesis by (auto simp: leases_held_def node_ids_def split: option.splits prod.splits)
  next
    case (Reading node claimed)
    with assms show ?thesis by (auto split: option.splits)
  qed (use assms in auto)
  then show "leases_held r \<Longrightarrow> leases_held r'" "epochs_grow r r'" by auto
qed

lemma heartbeat_frame:
  assumes "heartbeat parse ttl now node load r = (y, r')"
  shows "node_ids r' = node_ids r" "rg_leases r' = rg_leases r"
proof -
  have i: "n_id \<circ> (\<lambda>n. if P n then n\<lparr>n_heartbeat := a, n_load := b\<rparr> else n) = n_id" for P a b
    by auto
  have ids: "node_ids r = set (map n_id (rg_nodes r))" for r by (simp add: node_ids_def)
  show "node_ids r' = node_ids r" "rg_leases r' = rg_leases r"
    using assms by (auto simp: heartbeat_def Let_def ids i simp del: set_map split: option.splits if_splits)
qed

lemma service_keeps:
  "register i now addr caps r = (x, r') \<Longrightarrow> leases_held r \<Longrightarrow> leases_held r'"
  "heartbeat parse ttl now node load r = (y, r') \<Longrightarrow> leases_held r \<Longrightarrow> leases_held r'"
  "list_nodes ttl now r = (z, r') \<Longrightarrow> leases_held r'"
  "get_lease ttl now obj r = (u, r') \<Longrightarrow> leases_held r'"
  "deregister parse node r = (v, r') \<Longrightarrow> leases_held r \<Longrightarrow> leases_held r'"
  "release_lease parse obj node r = (v, r') \<Longrightarrow> leases_held r \<Longrightarrow> leases_held r'"
  "leases_held r \<Longrightarrow> leases_held (registry_set_alarm obj key due r)"
  "leases_held r \<Longrightarrow> leases_held (registry_clear_alarm obj r)"
proof -
  show "register i now addr caps r = (x, r') \<Longrightarrow> leases_held r \<Longrightarrow> leases_held r'"
    by (auto simp: register_def leases_held_def node_ids_def)
  show "heartbeat parse ttl now node load r = (y, r') \<Longrightarrow> leases_held r \<Longrightarrow> leases_held r'"
    by (simp add: leases_held_def heartbeat_frame)
  show "list_nodes ttl now r = (z, r') \<Longrightarrow> leases_held r'" by (auto simp: list_nodes_def Let_def)
  show "get_lease ttl now obj r = (u, r') \<Longrightarrow> leases_held r'"
    by (auto simp: get_lease_def Let_def split: option.splits)
  show "deregister parse node r = (v, r') \<Longrightarrow> leases_held r \<Longrightarrow> leases_held r'"
    by (auto simp: deregister_def split: option.splits)
  show "release_lease parse obj node r = (v, r') \<Longrightarrow> leases_held r \<Longrightarrow> leases_held r'"
    by (auto simp: release_lease_def leases_held_def node_ids_def split: option.splits if_splits)
  show "leases_held r \<Longrightarrow> leases_held (registry_set_alarm obj key due r)"
    "leases_held r \<Longrightarrow> leases_held (registry_clear_alarm obj r)"
    by (simp_all add: registry_set_alarm_def registry_clear_alarm_def Let_def leases_held_def node_ids_def)
qed

lemma service_epochs:
  "register i now addr caps r = (x, r') \<Longrightarrow> rg_epochs r' = rg_epochs r"
  "heartbeat parse ttl now node load r = (y, r') \<Longrightarrow> rg_epochs r' = rg_epochs r"
  "list_nodes ttl now r = (z, r') \<Longrightarrow> rg_epochs r' = rg_epochs r"
  "get_lease ttl now obj r = (u, r') \<Longrightarrow> rg_epochs r' = rg_epochs r"
  "deregister parse node r = (v, r') \<Longrightarrow> rg_epochs r' = rg_epochs r"
  "release_lease parse obj node r = (v, r') \<Longrightarrow> rg_epochs r' = rg_epochs r"
  "rg_epochs (registry_set_alarm obj key due r) = rg_epochs r"
  "rg_epochs (registry_clear_alarm obj r) = rg_epochs r"
  by (auto simp: register_def heartbeat_def list_nodes_def get_lease_def deregister_def release_lease_def
      registry_set_alarm_def registry_clear_alarm_def Let_def split: option.splits if_splits)

lemma store_step_keeps:
  assumes "store_step parse ttl reqs s s'"
  shows "leases_held (fst s) \<longrightarrow> leases_held (fst s')" "epochs_grow (fst s) (fst s')"
  using assms
  by (induction rule: store_step.induct)
     (auto dest: claim_step_keeps service_keeps intro: service_keeps epochs_grow_refl service_epochs)

lemma store_reach_keeps:
  "store_reach parse ttl reqs s0 s \<Longrightarrow> leases_held (fst s0) \<Longrightarrow> leases_held (fst s) \<and> epochs_grow (fst s0) (fst s)"
proof (induction rule: store_reach.induct)
  case (more s s')
  with store_step_keeps [OF more.hyps(2)] show ?case by (auto intro: epochs_grow_trans)
qed simp

text \<open>C16. Leases belong to the living, and epochs never go back: from any state in which leases are
  held by registered nodes, every state that concurrent claims, registrations, heartbeats, reaps,
  departures and releases can reach has that property too, and no object's epoch is ever smaller
  than it was.\<close>

theorem store_invariant:
  assumes "store_reach parse ttl reqs (r0, cs0) (r, cs)" "leases_held r0"
  shows "(\<forall>obj n. rg_leases r obj = Some n \<longrightarrow> n \<in> node_ids r)
    \<and> (\<forall>obj e. rg_epochs r0 obj = Some e \<longrightarrow> (\<exists>e' \<ge> e. rg_epochs r obj = Some e'))"
  using store_reach_keeps [OF assms(1)] assms(2) by (auto simp: leases_held_def epochs_grow_def)

section \<open>An uninterrupted claim\<close>

definition plain_request :: "(string \<Rightarrow> string option) \<Rightarrow> claim_request \<Rightarrow> string \<Rightarrow> bool" where
  "plain_request parse q node \<longleftrightarrow> parse (cq_node q) = Some node \<and> (\<exists>ident. claim_identity parse q = Inr ident)"

text \<open>The abstract answer: who holds the object after the reap decides.\<close>

definition claim_answer :: "string \<Rightarrow> string \<Rightarrow> registry \<Rightarrow> (registry_error + bool \<times> string \<times> int)" where
  "claim_answer obj node r =
     (let epoch = (case rg_epochs r obj of Some e \<Rightarrow> e | None \<Rightarrow> 0) in
      case rg_leases r obj of
        Some holder \<Rightarrow> Inr (holder = node, holder, max epoch 1)
      | None \<Rightarrow> if node \<in> node_ids r then Inr (True, node, max (epoch + 1) 1)
                else Inl (Store ''insert violates foreign key constraint''))"

lemma record_frame:
  "rg_leases (case ident of None \<Rightarrow> r | Some (a, b) \<Rightarrow> insert_instance a c n b now r) = rg_leases r"
  "rg_epochs (case ident of None \<Rightarrow> r | Some (a, b) \<Rightarrow> insert_instance a c n b now r) = rg_epochs r"
  by (auto split: option.split)

lemma claim_run:
  assumes "plain_request parse q node"
  shows "\<exists>ident. claim_identity parse q = Inr ident \<and> claim parse ttl now q r =
    (case insert_lease (cq_object q) node (reap ttl now r) of
       (Inl e, r1) \<Rightarrow> (Inl e, r1)
     | (Inr claimed, r1) \<Rightarrow>
         (let r2 = (case ident of None \<Rightarrow> r1 | Some (a, b) \<Rightarrow> insert_instance a (cq_class q) (cq_name q) b now r1)
          in case claim_step ttl q now (Reading node claimed) r2 of
               (pc, r3) \<Rightarrow> (case claim_step ttl q now pc r3 of
                   (Answered a, r4) \<Rightarrow> (a, r4) | (_, r4) \<Rightarrow> (Inl ClaimRaced, r4))))"
proof -
  from assms obtain ident where i: "claim_start parse q = Reaping node ident" and id: "claim_identity parse q = Inr ident"
    by (auto simp: plain_request_def claim_start_def)
  let ?run = "\<lambda>(pc, r). claim_step ttl q now pc r"
  have stop: "(?run ^^ n) (Answered a, r) = (Answered a, r)" for n a r by (induction n) simp_all
  have five: "(?run ^^ 5) (Reaping node ident, r) = (?run ^^ 3) (?run (Inserting node ident, reap ttl now r))"
    by (simp add: eval_nat_numeral funpow_swap1)
  show ?thesis
  proof (cases "insert_lease (cq_object q) node (reap ttl now r)")
    case (Pair x r1)
    show ?thesis
    proof (cases x)
      case (Inl e)
      with Pair i id five stop show ?thesis by (simp add: claim_def)
    next
      case (Inr claimed)
      let ?r2 = "case ident of None \<Rightarrow> r1 | Some (a, b) \<Rightarrow> insert_instance a (cq_class q) (cq_name q) b now r1"
      have "?run (Recording node ident claimed, r1) = (Reading node claimed, ?r2)" by (simp split: option.split)
      then have "(?run ^^ 3) (Recording node ident claimed, r1) = ?run (?run (Reading node claimed, ?r2))"
        by (simp add: eval_nat_numeral funpow_swap1 del: claim_step.simps)
      with Pair Inr i id five show ?thesis
        by (intro exI [of _ ident]) (simp add: claim_def Let_def del: claim_step.simps(4) split: prod.splits)
    qed
  qed
qed

lemma claim_result:
  assumes "plain_request parse q node"
  shows "\<exists>a r'. claim parse ttl now q r = (a, r')
    \<and> map_sum id (\<lambda>l. (ls_acquired l, ls_node l, ls_epoch l)) a = claim_answer (cq_object q) node (reap ttl now r)
    \<and> (\<forall>l. a = Inr l \<longrightarrow> rg_leases r' (cq_object q) = Some (ls_node l)
          \<and> (ls_acquired l \<longrightarrow> ls_node l = node))"
proof -
  from claim_run [OF assms] obtain ident where run: "claim parse ttl now q r =
    (case insert_lease (cq_object q) node (reap ttl now r) of
       (Inl e, r1) \<Rightarrow> (Inl e, r1)
     | (Inr claimed, r1) \<Rightarrow>
         (let r2 = (case ident of None \<Rightarrow> r1 | Some (a, b) \<Rightarrow> insert_instance a (cq_class q) (cq_name q) b now r1)
          in case claim_step ttl q now (Reading node claimed) r2 of
               (pc, r3) \<Rightarrow> (case claim_step ttl q now pc r3 of
                   (Answered a, r4) \<Rightarrow> (a, r4) | (_, r4) \<Rightarrow> (Inl ClaimRaced, r4))))" by blast
  show ?thesis
    unfolding run
    by (auto simp: insert_lease_def claim_answer_def Let_def record_frame lease_of_def bump_epoch_def split: option.splits)
qed

text \<open>C17. An uninterrupted claim does what its caller asked: with a well-formed request it answers who
  holds the object once dead holders are reaped. A free object goes to the claiming node, if that
  is registered, with an epoch greater than any before; the holder's own claim succeeds again on
  its epoch; anyone else learns the holder.\<close>

theorem claim_spec:
  assumes "plain_request parse q node"
  shows "\<exists>a r'. claim parse ttl now q r = (a, r')
    \<and> map_sum id (\<lambda>l. (ls_acquired l, ls_node l, ls_epoch l)) a = claim_answer (cq_object q) node (reap ttl now r)
    \<and> (\<forall>l. a = Inr l \<longrightarrow> rg_leases r' (cq_object q) = Some (ls_node l)
          \<and> (ls_acquired l \<longrightarrow> ls_node l = node))"
  by (rule claim_result [OF assms])

section \<open>A claim that is interrupted\<close>

text \<open>Two nodes, one object: node \<open>a\<close> claims it, and its registration lapses between the statement
  that takes the lease and the statement that bumps the epoch.\<close>

definition two_requests :: "nat \<Rightarrow> claim_request" where
  "two_requests i = \<lparr>cq_object = ''o'', cq_node = (if i = 0 then ''a'' else ''b''), cq_scope = '''', cq_class = '''',
     cq_name = '''', cq_script = ''''\<rparr>"

definition two_nodes :: registry where
  "two_nodes = snd (register ''b'' 90000 ''host-b'' [] (snd (register ''a'' 0 ''host-a'' [] empty_registry)))"

text \<open>One step of claim \<open>i\<close> at an instant.\<close>

definition advance :: "nat \<times> int \<Rightarrow> registry \<times> claims \<Rightarrow> registry \<times> claims" where
  "advance = (\<lambda>(i, now) (r, cs). case claim_step 30 (two_requests i) now (cs i) r of (pc, r') \<Rightarrow> (r', cs(i := pc)))"

definition race :: "(nat \<times> int) list" where
  "race = map (\<lambda>_. (0, 20000)) [0 ..< 4] @ map (\<lambda>_. (1, 100000)) [0 ..< 5] @ [(0, 100000)]"

definition race_end :: "registry \<times> claims" where
  "race_end = foldl (\<lambda>s x. advance x s) (two_nodes, \<lambda>i. claim_start Some (two_requests i)) race"

lemma advance_reach: "store_reach Some 30 two_requests s0 s \<Longrightarrow> store_reach Some 30 two_requests s0 (advance x s)"
proof -
  assume s: "store_reach Some 30 two_requests s0 s"
  obtain i now r cs where x: "x = (i, now)" "s = (r, cs)" by (metis prod.exhaust)
  obtain pc r' where c: "claim_step 30 (two_requests i) now (cs i) r = (pc, r')" by force
  have "store_step Some 30 two_requests (r, cs) (r', cs(i := pc))" by (rule store_step.claiming) (rule c)
  with s x have "store_reach Some 30 two_requests s0 (r', cs(i := pc))" by (auto intro: store_reach.more)
  with c x show ?thesis by (simp add: advance_def)
qed

lemma race_reach: "store_reach Some 30 two_requests (two_nodes, \<lambda>i. claim_start Some (two_requests i)) race_end"
proof -
  have "store_reach Some 30 two_requests s0 s \<Longrightarrow> store_reach Some 30 two_requests s0 (foldl (\<lambda>s x. advance x s) s xs)" for s0 s xs
  proof (induction xs arbitrary: s)
    case (Cons x xs)
    from Cons.IH [OF advance_reach [OF Cons.prems]] show ?case by simp
  qed simp
  then show ?thesis unfolding race_end_def by (blast intro: store_reach.here)
qed

text \<open>A claim is not atomic, and the fence can end up on the wrong side: in a reachable state both
  claims were answered as acquired, the lease belongs to node \<open>b\<close>, and the node that lost it
  holds the greater epoch.\<close>

theorem interrupted_claim_outranks_holder:
  "store_reach Some 30 two_requests (two_nodes, \<lambda>i. claim_start Some (two_requests i)) race_end
   \<and> rg_leases (fst race_end) ''o'' = Some ''b''
   \<and> map (snd race_end) [0, 1] = [
        Answered (Inr \<lparr>ls_object = ''o'', ls_node = ''a'', ls_acquired = True, ls_epoch = 2\<rparr>),
        Answered (Inr \<lparr>ls_object = ''o'', ls_node = ''b'', ls_acquired = True, ls_epoch = 1\<rparr>)]"
proof (intro conjI)
  show "rg_leases (fst race_end) ''o'' = Some ''b''" by code_simp
  show "map (snd race_end) [0, 1] = [
        Answered (Inr \<lparr>ls_object = ''o'', ls_node = ''a'', ls_acquired = True, ls_epoch = 2\<rparr>),
        Answered (Inr \<lparr>ls_object = ''o'', ls_node = ''b'', ls_acquired = True, ls_epoch = 1\<rparr>)]" by code_simp
qed (rule race_reach)

theorem store_invariant_witness: "rg_leases (fst race_end) ''o'' = Some ''b'' \<and> ''b'' \<in> node_ids (fst race_end)"
proof -
  have "leases_held two_nodes" by (simp add: leases_held_def two_nodes_def register_def empty_registry_def)
  obtain r cs where e: "race_end = (r, cs)" by force
  have "rg_leases (fst race_end) ''o'' = Some ''b''" by code_simp
  with store_invariant [OF race_reach [unfolded e] \<open>leases_held two_nodes\<close>] show ?thesis by (simp add: e)
qed

theorem claim_spec_witness:
  "\<exists>a r'. claim Some 30 20000 (two_requests 0) two_nodes = (a, r')
    \<and> map_sum id (\<lambda>l. (ls_acquired l, ls_node l, ls_epoch l)) a = claim_answer ''o'' ''a'' (reap 30 20000 two_nodes)"
proof -
  have "plain_request Some (two_requests 0) ''a''" by (simp add: plain_request_def two_requests_def claim_identity_def)
  from claim_spec [OF this, of 30 20000 two_nodes] show ?thesis by (auto simp: two_requests_def)
qed

section \<open>Membership\<close>

text \<open>A node that aged out cannot come back by beating: once its last heartbeat is older than the
  ttl, every heartbeat at that instant or later is refused and changes nothing, and a reap frees
  each lease it held.\<close>

theorem aged_out_stays_out:
  assumes "\<forall>n \<in> set (rg_nodes r). n_id n = i \<longrightarrow> n_heartbeat n \<le> cutoff ttl now" "parse node = Some i" "now \<le> later"
  shows "heartbeat parse ttl later node load r = (Inl NodeUnknown, r)
    \<and> i \<notin> node_ids (reap ttl later r) \<and> rg_leases (reap ttl later r) obj \<noteq> Some i"
proof -
  have old: "n_heartbeat n \<le> cutoff ttl later" if "n \<in> set (rg_nodes r)" "n_id n = i" for n
    using assms(1,3) that by (fastforce simp: cutoff_def)
  have "heartbeat parse ttl later node load r = (Inl NodeUnknown, r)"
    using assms(2) old by (fastforce simp: heartbeat_def Let_def)
  moreover have "i \<notin> node_ids (reap ttl later r)"
    using old by (auto simp: node_ids_def reap_def delete_nodes_def Let_def)
  moreover from this have "rg_leases (reap ttl later r) obj \<noteq> Some i"
    using reap_simps(1) [of ttl later r] by (auto simp: leases_held_def)
  ultimately show ?thesis by blast
qed

theorem aged_out_stays_out_witness:
  "heartbeat Some 30 100000 ''a'' 7 two_nodes = (Inl NodeUnknown, two_nodes)"
  using aged_out_stays_out [of two_nodes "''a''" 30 50000 Some "''a''" 100000 7]
  by (simp add: two_nodes_def register_def empty_registry_def cutoff_def)

section \<open>The directory\<close>

lemma sql_like_percent: "sql_like ''%'' s"
  by (induction s) simp_all

text \<open>The type-ahead filter is prefix matching: the pattern built from a user's text matches a name
  exactly when the name starts with that text, wildcards and backslashes included.\<close>

theorem like_prefix_matches: "sql_like (like_prefix p) s \<longleftrightarrow> starts_with s p"
proof (induction p arbitrary: s)
  case Nil
  then show ?case by (simp add: like_prefix_def sql_like_percent del: sql_like.simps)
next
  case (Cons c p)
  have l: "like_prefix (c # p) = (if c \<in> {CHR ''%'', CHR ''_'', CHR 0x5C} then [CHR 0x5C, c] else [c]) @ like_prefix p"
    by (simp add: like_prefix_def)
  show ?case
    using Cons.IH by (cases s) (auto simp: l)
qed

text \<open>Paging loses and repeats nothing: with one page size, the pages from zero up to any page past
  the end, laid end to end, are the whole sorted listing, and every page reports its length.\<close>

theorem pages_cover_listing:
  assumes "length (matching_instances (List.map_filter parse ids) cls prefix r) \<le> n * nat (page_size sz)" "n < 2 ^ 32"
  shows "concat (map (\<lambda>k. fst (list_instances parse ids cls prefix (of_nat k) sz r)) [0 ..< n])
      = matching_instances (List.map_filter parse ids) cls prefix r"
proof -
  let ?rows = "matching_instances (List.map_filter parse ids) cls prefix r" and ?l = "nat (page_size sz)"
  have page: "fst (list_instances parse ids cls prefix (of_nat k) sz r) = take ?l (drop (k * ?l) ?rows)" if "k < n" for k
  proof -
    have "uint (of_nat k :: 32 word) = int k"
      using that assms(2) by (simp add: uint_nat unat_of_nat)
    then have "nat (uint (of_nat k :: 32 word) * page_size sz) = k * ?l" by (simp add: nat_mult_distrib)
    then show ?thesis by (simp add: list_instances_def Let_def)
  qed
  have cover: "concat (map (\<lambda>k. take l (drop (k * l) xs)) [0 ..< m]) = take (m * l) xs" for l m and xs :: "instance_row list"
  proof (induction m)
    case (Suc m)
    have "take (Suc m * l) xs = take (m * l) xs @ take l (drop (m * l) xs)"
      by (metis add.commute mult_Suc take_add)
    with Suc show ?case by simp
  qed simp
  have "map (\<lambda>k. fst (list_instances parse ids cls prefix (of_nat k) sz r)) [0 ..< n]
      = map (\<lambda>k. take ?l (drop (k * ?l) ?rows)) [0 ..< n]" by (simp add: page)
  then show ?thesis unfolding cover [of ?l ?rows n, symmetric] using cover [of ?l ?rows n] assms(1)
    by (metis take_all)
qed

theorem pages_cover_listing_witness:
  "concat (map (\<lambda>k. fst (list_instances Some [''p''] '''' '''' (of_nat k) 0 (insert_instance ''p'' ''Room'' ''a'' ''s'' 0 empty_registry))) [0 ..< 2])
      = matching_instances [''p''] '''' '''' (insert_instance ''p'' ''Room'' ''a'' ''s'' 0 empty_registry)"
proof -
  have "List.map_filter Some [''p''] = [''p'']" by (simp add: List.map_filter_def)
  then show ?thesis
    using pages_cover_listing [of Some "[''p'']" "''''" "''''" "insert_instance ''p'' ''Room'' ''a'' ''s'' 0 empty_registry" 2 0]
    by (simp add: page_size_def matching_instances_def insert_instance_def empty_registry_def length_filter_le)
qed

end
