(* ===== verification/Shipping.thy ===== *)
theory Shipping
  imports Registry_Spec
begin

text \<open>
  Snapshot shipping (\<open>actias-worker/src/object_store.rs\<close>) and the residency it serves (the spawn path
  \<open>resolve_local\<close> of \<open>actias-worker/src/routing.rs\<close>): a manifest with the shipper's epoch fences
  uploads, a restore brings the last snapshot to a node without a local file. A ship is three
  requests that other shippers may interleave; each may fail with the store's error. The file is
  a value of any type.
\<close>

section \<open>The bucket\<close>

record manifest =
  mf_epoch :: "64 word"
  mf_shipped_at :: int

record 'f bucket =
  b_snapshot :: "string \<rightharpoonup> 'f"
  b_manifest :: "string \<rightharpoonup> manifest"

definition empty_bucket :: "'f bucket" where
  "empty_bucket = \<lparr>b_snapshot = Map.empty, b_manifest = Map.empty\<rparr>"

definition snapshot_key :: "string \<Rightarrow> string" where
  "snapshot_key obj = ''objects/'' @ obj @ ''/snapshot.db''"

definition manifest_key :: "string \<Rightarrow> string" where
  "manifest_key obj = ''objects/'' @ obj @ ''/manifest.json''"

section \<open>Shipping\<close>

datatype ship_pc = Checking | Uploading | Stamping | Shipped "string + unit"

definition fenced_text :: "64 word \<Rightarrow> 64 word \<Rightarrow> string" where
  "fenced_text epoch newer = ''fenced: epoch '' @ show_nat (unat epoch) @ '' lost to '' @ show_nat (unat newer)
     @ ''; this node no longer owns the object''"

text \<open>One request; \<open>net\<close> is the error it failed with, if it did.\<close>

fun ship_step :: "string \<Rightarrow> 64 word \<Rightarrow> 'f \<Rightarrow> int \<Rightarrow> string option \<Rightarrow> ship_pc \<Rightarrow> 'f bucket \<Rightarrow> ship_pc \<times> 'f bucket" where
  "ship_step obj epoch file now net Checking b =
     (case net of
        Some e \<Rightarrow> (Shipped (Inl e), b)
      | None \<Rightarrow>
          (case b_manifest b (manifest_key obj) of
             Some m \<Rightarrow> if mf_epoch m > epoch then (Shipped (Inl (fenced_text epoch (mf_epoch m))), b) else (Uploading, b)
           | None \<Rightarrow> (Uploading, b)))"
| "ship_step obj epoch file now net Uploading b =
     (case net of
        Some e \<Rightarrow> (Shipped (Inl e), b)
      | None \<Rightarrow> (Stamping, b\<lparr>b_snapshot := (b_snapshot b)(snapshot_key obj \<mapsto> file)\<rparr>))"
| "ship_step obj epoch file now net Stamping b =
     (case net of
        Some e \<Rightarrow> (Shipped (Inl e), b)
      | None \<Rightarrow> (Shipped (Inr ()), b\<lparr>b_manifest := (b_manifest b)(manifest_key obj \<mapsto> \<lparr>mf_epoch = epoch, mf_shipped_at = now\<rparr>)\<rparr>))"
| "ship_step obj epoch file now net (Shipped a) b = (Shipped a, b)"

text \<open>A ship nobody interrupts, on a store that answers as \<open>net\<close> says.\<close>

definition ship :: "string \<Rightarrow> 64 word \<Rightarrow> 'f \<Rightarrow> int \<Rightarrow> (nat \<Rightarrow> string option) \<Rightarrow> 'f bucket \<Rightarrow> (string + unit) \<times> 'f bucket" where
  "ship obj epoch file now net b =
     (let (pc1, b1) = ship_step obj epoch file now (net 0) Checking b;
          (pc2, b2) = ship_step obj epoch file now (net 1) pc1 b1;
          (pc3, b3) = ship_step obj epoch file now (net 2) pc2 b2
      in (case pc3 of Shipped a \<Rightarrow> a | _ \<Rightarrow> Inl '''', b3))"

definition restore :: "string \<Rightarrow> (nat \<Rightarrow> string option) \<Rightarrow> 'f bucket \<Rightarrow> string + 'f option" where
  "restore obj net b =
     (case net 0 of
        Some e \<Rightarrow> Inl e
      | None \<Rightarrow>
          (case b_manifest b (manifest_key obj) of
             None \<Rightarrow> Inr None
           | Some _ \<Rightarrow>
               (case net 1 of
                  Some e \<Rightarrow> Inl e
                | None \<Rightarrow>
                    (case b_snapshot b (snapshot_key obj) of
                       None \<Rightarrow> Inl ''NoSuchKey'' | Some f \<Rightarrow> Inr (Some f)))))"

section \<open>Residency\<close>

text \<open>The file a spawned object starts on: none is a new object.\<close>

definition spawn_file :: "lease \<Rightarrow> string \<Rightarrow> 'f option \<Rightarrow> (nat \<Rightarrow> string option) \<Rightarrow> 'f bucket \<Rightarrow> string + 'f option" where
  "spawn_file l obj local net b =
     (if \<not> ls_acquired l then Inl ''Object is homed on another node.''
      else case local of
        Some f \<Rightarrow> Inr (Some f)
      | None \<Rightarrow>
          (case restore obj net b of
             Inl e \<Rightarrow> Inl (''The object's snapshot could not be restored: '' @ e)
           | Inr f \<Rightarrow> Inr f))"

text \<open>A host: its disk outlives its registrations. A written call claims the object, opens its file,
  writes, and ships before it answers; a refused ship is only logged.\<close>

record 'f cluster =
  cl_registry :: registry
  cl_disks :: "string \<Rightarrow> string \<rightharpoonup> 'f"
  cl_bucket :: "'f bucket"

definition all_well :: "nat \<Rightarrow> string option" where
  "all_well n = None"

definition host_write :: "(string \<Rightarrow> string option) \<Rightarrow> 32 word \<Rightarrow> int \<Rightarrow> string \<Rightarrow> claim_request
    \<Rightarrow> ('f option \<Rightarrow> 'f) \<Rightarrow> 'f cluster \<Rightarrow> ((registry_error + string) + unit) \<times> 'f cluster" where
  "host_write parse ttl now host q write c =
     (case claim parse ttl now q (cl_registry c) of
        (Inl e, r) \<Rightarrow> (Inl (Inl e), c\<lparr>cl_registry := r\<rparr>)
      | (Inr l, r) \<Rightarrow>
          (case spawn_file l (cq_object q) (cl_disks c host (cq_object q)) all_well (cl_bucket c) of
             Inl e \<Rightarrow> (Inl (Inr e), c\<lparr>cl_registry := r\<rparr>)
           | Inr f \<Rightarrow>
               (let f' = write f;
                    b = snd (ship (cq_object q) (word_of_int (ls_epoch l)) f' now all_well (cl_bucket c))
                in (Inr (), c\<lparr>cl_registry := r,
                      cl_disks := (cl_disks c)(host := (cl_disks c host)(cq_object q \<mapsto> f')),
                      cl_bucket := b\<rparr>))))"

section \<open>What shipping guarantees\<close>

definition epoch_of :: "string \<Rightarrow> 'f bucket \<Rightarrow> 64 word option" where
  "epoch_of obj b = map_option mf_epoch (b_manifest b (manifest_key obj))"

lemma ship_cases:
  "ship obj epoch file now all_well b =
     (case epoch_of obj b of
        Some e \<Rightarrow> if e > epoch then (Inl (fenced_text epoch e), b)
                  else (Inr (), \<lparr>b_snapshot = (b_snapshot b)(snapshot_key obj \<mapsto> file),
                          b_manifest = (b_manifest b)(manifest_key obj \<mapsto> \<lparr>mf_epoch = epoch, mf_shipped_at = now\<rparr>)\<rparr>)
      | None \<Rightarrow> (Inr (), \<lparr>b_snapshot = (b_snapshot b)(snapshot_key obj \<mapsto> file),
                   b_manifest = (b_manifest b)(manifest_key obj \<mapsto> \<lparr>mf_epoch = epoch, mf_shipped_at = now\<rparr>)\<rparr>))"
  by (simp add: ship_def all_well_def epoch_of_def split: option.split)

lemma ship_fence:
  "case ship obj epoch file now all_well b of (a, b') \<Rightarrow>
     (if \<exists>e. epoch_of obj b = Some e \<and> e > epoch
      then (\<exists>t. a = Inl t) \<and> b' = b
      else a = Inr () \<and> restore obj all_well b' = Inr (Some file) \<and> epoch_of obj b' = Some epoch)
     \<and> (\<forall>other. other = obj \<or> restore other all_well b' = restore other all_well b)"
  unfolding ship_cases
  by (auto simp: epoch_of_def restore_def all_well_def snapshot_key_def manifest_key_def split: option.splits)


text \<open>Two shippers of one object, the older epoch's requests around the newer's.\<close>

definition overlapped :: "string bucket" where
  "overlapped =
     (let b0 = snd (ship ''o'' 1 ''one'' 0 all_well empty_bucket);
          (pc, b1) = ship_step ''o'' 1 ''zombie'' 5 None Checking b0;
          b2 = snd (ship ''o'' 2 ''two'' 6 all_well b1);
          (pc', b3) = ship_step ''o'' 1 ''zombie'' 7 None pc b2;
          (pc'', b4) = ship_step ''o'' 1 ''zombie'' 8 None pc' b3
      in b4)"

text \<open>The fence is checked once and not held: a shipper of the old epoch that checked before the new
  owner's first ship overwrites the new owner's snapshot afterwards and takes the manifest back to
  its own epoch, so the acknowledged write of the new owner is gone from the store.\<close>

theorem overlapping_ship_loses_newer:
  "restore ''o'' all_well overlapped = Inr (Some ''zombie'') \<and> epoch_of ''o'' overlapped = Some 1"
  by code_simp

section \<open>Rehoming\<close>

text \<open>An object moves with its last shipped state: a host that has no local file and acquires the
  lease opens exactly the snapshot that was last shipped.\<close>

theorem rehomed_on_last_snapshot:
  assumes "ls_acquired l" "ship obj epoch file now all_well b = (Inr (), b')"
  shows "spawn_file l obj None all_well b' = Inr (Some file)"
  using assms unfolding ship_cases
  by (auto simp: spawn_file_def restore_def all_well_def split: option.splits if_splits)

definition home_request :: "string \<Rightarrow> claim_request" where
  "home_request node = \<lparr>cq_object = ''o'', cq_node = node, cq_scope = '''', cq_class = '''', cq_name = '''', cq_script = ''''\<rparr>"

theorem rehomed_on_last_snapshot_witness:
  "spawn_file \<lparr>ls_object = ''o'', ls_node = ''b'', ls_acquired = True, ls_epoch = 2\<rparr> ''o'' None all_well
     (snd (ship ''o'' 1 ''one'' 0 all_well empty_bucket)) = Inr (Some ''one'')"
proof -
  have "ship ''o'' 1 ''one'' 0 all_well empty_bucket = (Inr (), snd (ship ''o'' 1 ''one'' 0 all_well empty_bucket))"
    by (simp add: ship_cases epoch_of_def empty_bucket_def)
  from rehomed_on_last_snapshot [OF _ this] show ?thesis by simp
qed

lemma host_write_cases:
  assumes "plain_request parse q node" "claim_answer (cq_object q) node (reap ttl now (cl_registry c)) = Inr (True, n, e)"
  shows "\<exists>r. host_write parse ttl now host q write c =
     (case spawn_file \<lparr>ls_object = cq_object q, ls_node = n, ls_acquired = True, ls_epoch = e\<rparr> (cq_object q)
         (cl_disks c host (cq_object q)) all_well (cl_bucket c) of
        Inl t \<Rightarrow> (Inl (Inr t), c\<lparr>cl_registry := r\<rparr>)
      | Inr f \<Rightarrow> (Inr (), c\<lparr>cl_registry := r,
            cl_disks := (cl_disks c)(host := (cl_disks c host)(cq_object q \<mapsto> write f)),
            cl_bucket := snd (ship (cq_object q) (word_of_int e) (write f) now all_well (cl_bucket c))\<rparr>))"
proof -
  from claim_result [OF assms(1), of ttl now "cl_registry c"] assms(2) obtain a r where
    c: "claim parse ttl now q (cl_registry c) = (a, r)"
       "map_sum id (\<lambda>l. (ls_acquired l, ls_node l, ls_epoch l)) a = Inr (True, n, e)" by auto
  then obtain l where l: "a = Inr l" "ls_acquired l" "ls_epoch l = e" by (cases a) auto
  show ?thesis
    using c(1) l by (intro exI [of _ r]) (simp add: host_write_def Let_def spawn_file_def split: sum.split option.split)
qed

text \<open>A host that gets an object back serves its old copy: the spawn path restores the snapshot only
  when no local file exists. So a returning host that acquires the lease writes on top of whatever
  file it has, and its ship, fenced by nothing since its epoch is the newest, replaces the last
  shipped snapshot: writes acknowledged elsewhere in between are in neither file.\<close>

theorem returning_host_serves_stale_file:
  assumes "plain_request parse q node" "claim_answer (cq_object q) node (reap ttl now (cl_registry c)) = Inr (True, n, e)"
    and "cl_disks c host (cq_object q) = Some old"
    and "\<forall>k. epoch_of (cq_object q) (cl_bucket c) = Some k \<longrightarrow> k \<le> word_of_int e"
  shows "\<exists>c'. host_write parse ttl now host q write c = (Inr (), c')
    \<and> cl_disks c' host (cq_object q) = Some (write (Some old))
    \<and> restore (cq_object q) all_well (cl_bucket c') = Inr (Some (write (Some old)))"
proof -
  let ?o = "cq_object q" and ?f = "write (Some old)"
  have "\<not> (\<exists>k. epoch_of ?o (cl_bucket c) = Some k \<and> word_of_int e < k)" using assms(4) by (auto simp: not_less)
  then have "restore ?o all_well (snd (ship ?o (word_of_int e) ?f now all_well (cl_bucket c))) = Inr (Some ?f)"
    using ship_fence [of ?o "cl_bucket c" "word_of_int e" ?f now] by (auto split: prod.splits)
  with host_write_cases [OF assms(1,2), of host "write"] assms(3) show ?thesis by (auto simp: spawn_file_def)
qed

text \<open>Host \<open>A\<close> still holds \<open>w1\<close>; the store holds \<open>w1, w2\<close>, shipped by another host at epoch 2.\<close>

definition moved_away :: "string list cluster" where
  "moved_away = \<lparr>cl_registry = (snd (register ''a2'' 0 ''A'' [] empty_registry))\<lparr>rg_epochs := [''o'' \<mapsto> 2]\<rparr>,
     cl_disks = (\<lambda>host. if host = ''A'' then [''o'' \<mapsto> [''w1'']] else Map.empty),
     cl_bucket = \<lparr>b_snapshot = [snapshot_key ''o'' \<mapsto> [''w1'', ''w2'']],
       b_manifest = [manifest_key ''o'' \<mapsto> \<lparr>mf_epoch = 2, mf_shipped_at = 0\<rparr>]\<rparr>\<rparr>"

definition append_to :: "string \<Rightarrow> string list option \<Rightarrow> string list" where
  "append_to w f = (case f of Some ws \<Rightarrow> ws @ [w] | None \<Rightarrow> [w])"

theorem returning_host_serves_stale_file_witness:
  "\<exists>c'. host_write Some 30 1000 ''A'' (home_request ''a2'') (append_to ''w3'') moved_away = (Inr (), c')
    \<and> cl_disks c' ''A'' ''o'' = Some [''w1'', ''w3''] \<and> restore ''o'' all_well (cl_bucket c') = Inr (Some [''w1'', ''w3''])"
proof -
  have q: "cq_object (home_request ''a2'') = ''o''" "plain_request Some (home_request ''a2'') ''a2''"
    by (simp_all add: home_request_def plain_request_def claim_identity_def)
  have a: "claim_answer ''o'' ''a2'' (reap 30 1000 (cl_registry moved_away)) = Inr (True, ''a2'', 3)"
    by (simp add: claim_answer_def moved_away_def register_def empty_registry_def reap_def delete_nodes_def node_ids_def cutoff_def Let_def)
  have d: "cl_disks moved_away ''A'' ''o'' = Some [''w1'']" "epoch_of ''o'' (cl_bucket moved_away) = Some 2"
    by (simp_all add: moved_away_def epoch_of_def)
  from returning_host_serves_stale_file [of Some "home_request ''a2''" "''a2''" 30 1000 moved_away "''a2''" 3 "''A''" "[''w1'']" "append_to ''w3''"]
    q a d show ?thesis by (simp add: append_to_def)
qed

end
