(* ===== verification/Bundles.thy ===== *)
theory Bundles
  imports Cron
begin

text \<open>
  Bundles and what the worker reads out of them (\<open>protobufs/shared/bundle.proto\<close> and
  \<open>PreparedRevision\<close> of \<open>runtime/mod.rs\<close>): files by path, assets by request path, modules by key,
  the contract and its cron events. Contents are byte strings.
\<close>

section \<open>Files\<close>

datatype file_kind = Module | Asset

record bundle_file =
  f_path :: string
  f_content :: string
  f_hash :: string
  f_size :: "64 word"
  f_content_type :: string
  f_kind :: file_kind

record script_bundle =
  b_entry_point :: string
  b_files :: "bundle_file list"

text \<open>\<open>trim_start_matches("./")\<close> drops the prefix as often as it occurs.\<close>

fun trim_dot_slash :: "string \<Rightarrow> string" where
  "trim_dot_slash (c # d # s) = (if c = CHR ''.'' \<and> d = CHR ''/'' then trim_dot_slash s else c # d # s)"
| "trim_dot_slash s = s"

definition module_key :: "string \<Rightarrow> string" where
  "module_key name =
     (let n = trim_dot_slash name;
          m = (case strip_suffix n ''.lua'' of Some p \<Rightarrow> p | None \<Rightarrow> n)
      in map (\<lambda>c. if c = CHR ''/'' then CHR ''.'' else c) m)"

section \<open>The contract\<close>

record capabilities =
  cp_kv :: "string list"
  cp_events :: "string list"
  cp_secrets :: "string list"
  cp_objects :: "string list"
  cp_databases :: "string list"
  cp_queues :: "string list"
  cp_workflows :: "string list"
  cp_workflow_steps :: "string list"

definition no_capabilities :: capabilities where
  "no_capabilities = \<lparr>cp_kv = [], cp_events = [], cp_secrets = [], cp_objects = [], cp_databases = [],
     cp_queues = [], cp_workflows = [], cp_workflow_steps = []\<rparr>"

text \<open>A revision as the worker holds it. The bytecode beside it is the compiler's output for the same
  files, and loading prefers it; the model loads the file.\<close>

record prepared =
  pp_script :: string
  pp_project :: string
  pp_identifier :: string
  pp_revision :: string
  pp_bundle :: script_bundle
  pp_contract :: "capabilities option"

definition find_file :: "prepared \<Rightarrow> string \<Rightarrow> bundle_file option" where
  "find_file pp path = find (\<lambda>f. f_path f = path) (b_files (pp_bundle pp))"

definition find_asset :: "prepared \<Rightarrow> string \<Rightarrow> bundle_file option" where
  "find_asset pp target = find (\<lambda>f. f_kind f = Asset \<and> f_path f = target) (b_files (pp_bundle pp))"

definition asset :: "prepared \<Rightarrow> string \<Rightarrow> bundle_file option" where
  "asset pp path =
     (case find_asset pp path of
        Some f \<Rightarrow> Some f
      | None \<Rightarrow> if path = '''' \<or> ends_with path ''/'' then find_asset pp (path @ ''index.html'') else None)"

definition cron_events :: "prepared \<Rightarrow> string list" where
  "cron_events pp = (case pp_contract pp of
     Some c \<Rightarrow> filter (\<lambda>e. starts_with e ''cron:'') (cp_events c) | None \<Rightarrow> [])"

definition module_by_path :: "prepared \<Rightarrow> string \<Rightarrow> bundle_file option" where
  "module_by_path pp path = find_file pp path"

definition module_by_key :: "prepared \<Rightarrow> string \<Rightarrow> bundle_file option" where
  "module_by_key pp key = find (\<lambda>f. module_key (f_path f) = key) (b_files (pp_bundle pp))"

definition entry_module :: "prepared \<Rightarrow> bundle_file option" where
  "entry_module pp = module_by_path pp (b_entry_point (pp_bundle pp))"

section \<open>Text\<close>

text \<open>Well-formed UTF-8, what \<open>from_utf8\<close> accepts: no overlong form, no surrogate, nothing past
  U+10FFFF.\<close>

fun utf8_tail :: "nat \<Rightarrow> nat list \<Rightarrow> nat list option" where
  "utf8_tail 0 bs = Some bs"
| "utf8_tail (Suc n) (b # bs) = (if 128 \<le> b \<and> b < 192 then utf8_tail n bs else None)"
| "utf8_tail (Suc n) [] = None"

definition utf8_step :: "nat list \<Rightarrow> nat list option" where
  "utf8_step bs =
     (case bs of
        [] \<Rightarrow> None
      | b # r \<Rightarrow>
          if b < 128 then Some r
          else if 194 \<le> b \<and> b < 224 then utf8_tail 1 r
          else if 224 \<le> b \<and> b < 240 then
            (case r of c # _ \<Rightarrow> if (b = 224 \<longrightarrow> 160 \<le> c) \<and> (b = 237 \<longrightarrow> c < 160) then utf8_tail 2 r else None | [] \<Rightarrow> None)
          else if 240 \<le> b \<and> b < 245 then
            (case r of c # _ \<Rightarrow> if (b = 240 \<longrightarrow> 144 \<le> c) \<and> (b = 244 \<longrightarrow> c < 144) then utf8_tail 3 r else None | [] \<Rightarrow> None)
          else None)"

lemma utf8_tail_length: "utf8_tail n bs = Some r \<Longrightarrow> length r \<le> length bs"
  by (induction n bs rule: utf8_tail.induct) (auto split: if_splits)

lemma utf8_step_length: "utf8_step bs = Some r \<Longrightarrow> length r < length bs"
  by (auto simp: utf8_step_def split: list.splits if_splits dest!: utf8_tail_length)

function utf8_valid :: "nat list \<Rightarrow> bool" where
  "utf8_valid bs = (bs = [] \<or> (case utf8_step bs of Some r \<Rightarrow> utf8_valid r | None \<Rightarrow> False))"
  by pat_completeness auto
termination by (relation "measure length") (auto dest: utf8_step_length)

declare utf8_valid.simps [simp del]

definition from_utf8 :: "string \<Rightarrow> string option" where
  "from_utf8 s = (if utf8_valid (map of_char s) then Some s else None)"

lemma ascii_is_utf8: "\<forall>b \<in> set bs. b < 128 \<Longrightarrow> utf8_valid bs"
proof (induction bs)
  case (Cons b bs)
  then show ?case by (subst utf8_valid.simps) (simp add: utf8_step_def)
qed (simp add: utf8_valid.simps)

text \<open>\<open>split_once\<close> and \<open>split\<close> on a text rather than a character.\<close>

fun split_once_str :: "string \<Rightarrow> string \<Rightarrow> (string \<times> string) option" where
  "split_once_str p [] = (if p = [] then Some ([], []) else None)"
| "split_once_str p (c # cs) =
     (case strip_prefix (c # cs) p of
        Some r \<Rightarrow> Some ([], r)
      | None \<Rightarrow> map_option (\<lambda>(a, b). (c # a, b)) (split_once_str p cs))"

lemma split_once_str_eq: "split_once_str p s = Some (a, b) \<Longrightarrow> s = a @ p @ b"
  by (induction p s arbitrary: a rule: split_once_str.induct)
     (auto split: if_splits option.splits simp: strip_prefix_Some_iff)

function split_str :: "string \<Rightarrow> string \<Rightarrow> string list" where
  "split_str p s =
     (if p = [] then [s]
      else case split_once_str p s of None \<Rightarrow> [s] | Some (a, b) \<Rightarrow> a # split_str p b)"
  by pat_completeness auto
termination by (relation "measure (length \<circ> snd)") (auto dest: split_once_str_eq)

declare split_str.simps [simp del]

section \<open>Keys\<close>

text \<open>Every spelling the loader documents names the same module.\<close>

lemma trim_dot_slash_drops: "trim_dot_slash (''./'' @ s) = trim_dot_slash s"
  by simp

lemma module_key_spellings:
  "module_key (''./'' @ s) = module_key s"
  "module_key ''dir/mod.lua'' = ''dir.mod''" "module_key ''dir/mod'' = ''dir.mod''" "module_key ''dir.mod'' = ''dir.mod''"
  by (simp_all add: module_key_def strip_suffix_def)

lemma module_key_no_slash: "CHR ''/'' \<notin> set (module_key s)"
  by (auto simp: module_key_def Let_def)

end
