(* ===== verification/Declarations.thy ===== *)
theory Declarations
  imports Bundles
begin

text \<open>
  What a script declares: the publish-time pass that derives a revision's contract
  (\<open>actias-declarations/src/lib.rs\<close>) and the worker's top level, which runs the same code under that
  contract (\<open>runtime/mod.rs\<close> and the declaration forms of \<open>extensions/\<close>). Lua is a parameter: a
  source loads to a tree of the platform calls it makes, with what it does next depending on each
  answer (an error reaches the script, which may catch it). The wall-clock limit of either vm is a
  budget of platform calls, after which every further call is interrupted.
\<close>

section \<open>Top-level code\<close>

datatype form = KvForm | SecretForm | ObjectForm | ObjectsForm | DatabaseForm | QueueForm
  | WorkflowForm | WorkflowsForm | OnForm

datatype 'v chunk = Return 'v | Raise string
  | Declare form string "string + 'v \<Rightarrow> 'v chunk"
  | Require string "string + 'v \<Rightarrow> 'v chunk"
  | Dofile string "string + 'v \<Rightarrow> 'v chunk"

record 'v lua =
  lu_load :: "string \<Rightarrow> string \<Rightarrow> string + 'v chunk"
  lu_nil :: 'v
  lu_stub :: 'v
  lu_registrar :: 'v
  lu_text :: "string \<Rightarrow> 'v"

text \<open>The two vms differ in what their globals do: how a declaration is answered and recorded, which
  file a name loads, and which module results are remembered.\<close>

record 'v surface =
  sf_declare :: "form \<Rightarrow> string \<Rightarrow> capabilities \<Rightarrow> (string + 'v) \<times> capabilities"
  sf_require :: "string \<Rightarrow> (string + string \<times> string) option"
  sf_dofile :: "string \<Rightarrow> (string + string \<times> string) option"
  sf_remember :: "'v \<Rightarrow> bool"
  sf_timeout :: string

record 'v vm =
  vm_recorded :: capabilities
  vm_loaded :: "string \<rightharpoonup> 'v"

fun run_chunk :: "'v lua \<Rightarrow> 'v surface \<Rightarrow> nat \<Rightarrow> 'v chunk \<Rightarrow> 'v vm \<Rightarrow> (string + 'v) \<times> 'v vm \<times> nat" where
  "run_chunk L S n (Return v) vm = (Inr v, vm, n)"
| "run_chunk L S n (Raise e) vm = (Inl e, vm, n)"
| "run_chunk L S 0 (Declare f x k) vm = (Inl (sf_timeout S), vm, 0)"
| "run_chunk L S (Suc n) (Declare f x k) vm =
     (case sf_declare S f x (vm_recorded vm) of
        (r, rec) \<Rightarrow> run_chunk L S n (k r) (vm\<lparr>vm_recorded := rec\<rparr>))"
| "run_chunk L S 0 (Require x k) vm = (Inl (sf_timeout S), vm, 0)"
| "run_chunk L S (Suc n) (Require x k) vm =
     (let key = module_key x in
      case vm_loaded vm key of
        Some v \<Rightarrow> run_chunk L S n (k (Inr v)) vm
      | None \<Rightarrow>
      (case sf_require S key of
         None \<Rightarrow> run_chunk L S n (k (Inr (lu_nil L))) vm
       | Some (Inl e) \<Rightarrow> run_chunk L S n (k (Inl e)) vm
       | Some (Inr (name, source)) \<Rightarrow>
       (case lu_load L name source of
          Inl e \<Rightarrow> run_chunk L S n (k (Inl e)) vm
        | Inr c \<Rightarrow>
        (case run_chunk L S n c vm of
           (Inl e, vm', m) \<Rightarrow> run_chunk L S (min m n) (k (Inl e)) vm'
         | (Inr v, vm', m) \<Rightarrow> run_chunk L S (min m n) (k (Inr v))
             (if sf_remember S v then vm'\<lparr>vm_loaded := (vm_loaded vm')(key \<mapsto> v)\<rparr> else vm')))))"
| "run_chunk L S 0 (Dofile x k) vm = (Inl (sf_timeout S), vm, 0)"
| "run_chunk L S (Suc n) (Dofile x k) vm =
     (case sf_dofile S x of
        None \<Rightarrow> run_chunk L S n (k (Inr (lu_nil L))) vm
      | Some (Inl e) \<Rightarrow> run_chunk L S n (k (Inl e)) vm
      | Some (Inr (name, source)) \<Rightarrow>
      (case lu_load L name source of
         Inl e \<Rightarrow> run_chunk L S n (k (Inl e)) vm
       | Inr c \<Rightarrow>
       (case run_chunk L S n c vm of
          (r, vm', m) \<Rightarrow> run_chunk L S (min m n) (k r) vm')))"

section \<open>The publish-time pass\<close>

fun record_form :: "form \<Rightarrow> string \<Rightarrow> capabilities \<Rightarrow> capabilities" where
  "record_form KvForm x d = d\<lparr>cp_kv := cp_kv d @ [x]\<rparr>"
| "record_form SecretForm x d = d\<lparr>cp_secrets := cp_secrets d @ [x]\<rparr>"
| "record_form ObjectForm x d = d\<lparr>cp_objects := cp_objects d @ [x]\<rparr>"
| "record_form ObjectsForm x d = d"
| "record_form DatabaseForm x d = d\<lparr>cp_databases := cp_databases d @ [x]\<rparr>"
| "record_form QueueForm x d = d\<lparr>cp_queues := cp_queues d @ [x]\<rparr>"
| "record_form WorkflowForm x d = d\<lparr>cp_workflows := cp_workflows d @ [x]\<rparr>"
| "record_form WorkflowsForm x d = d"
| "record_form OnForm x d = d\<lparr>cp_events := cp_events d @ [x]\<rparr>"

definition validate_cron :: "cron_lib \<Rightarrow> string \<Rightarrow> string + unit" where
  "validate_cron lib e =
     (let expr = trim e in
      case lib (cron_normalized expr) of
        Inl why \<Rightarrow> Inl (quoted expr @ '' is not a cron expression: '' @ why)
      | Inr _ \<Rightarrow> Inr ())"

definition bad_workflow_name :: "string \<Rightarrow> bool" where
  "bad_workflow_name x \<longleftrightarrow> trim x = '''' \<or> CHR ''/'' \<in> set x"

definition WORKFLOW_NAME_TEXT :: string where
  "WORKFLOW_NAME_TEXT = ''A workflow name is a non-empty string without '' @ quoted ''/'' @ ''.''"

definition extract_declare :: "'v lua \<Rightarrow> cron_lib \<Rightarrow> form \<Rightarrow> string \<Rightarrow> capabilities \<Rightarrow> (string + 'v) \<times> capabilities" where
  "extract_declare L lib f x d =
     (case f of
        SecretForm \<Rightarrow> (Inr (lu_text L ''''), record_form f x d)
      | ObjectForm \<Rightarrow> (Inr (lu_registrar L), record_form f x d)
      | WorkflowForm \<Rightarrow>
          if bad_workflow_name x then (Inl WORKFLOW_NAME_TEXT, d)
          else (Inr (lu_registrar L), record_form f x d)
      | OnForm \<Rightarrow>
          (case strip_prefix x ''cron:'' of
             Some expr \<Rightarrow>
               (case validate_cron lib expr of
                  Inl e \<Rightarrow> (Inl e, d) | Inr _ \<Rightarrow> (Inr (lu_registrar L), record_form f x d))
           | None \<Rightarrow> (Inr (lu_registrar L), record_form f x d))
      | _ \<Rightarrow> (Inr (lu_stub L), record_form f x d))"

text \<open>\<open>sources\<close> are the Lua files in the order their hash map yields them; two paths with one key leave
  the later.\<close>

definition by_key :: "(string \<times> string) list \<Rightarrow> string \<rightharpoonup> string" where
  "by_key sources = map_of (rev (map (\<lambda>(p, s). (module_key p, s)) sources))"

definition extract_surface :: "'v lua \<Rightarrow> cron_lib \<Rightarrow> (string \<times> string) list \<Rightarrow> 'v surface" where
  "extract_surface L lib sources = \<lparr>
     sf_declare = extract_declare L lib,
     sf_require = (\<lambda>key. map_option (\<lambda>s. Inr (key, s)) (by_key sources key)),
     sf_dofile = (\<lambda>name. map_option (\<lambda>s. Inr (name, s)) (by_key sources (module_key name))),
     sf_remember = (\<lambda>v. True),
     sf_timeout = ''Top-level evaluation took too long.''\<rparr>"

definition step_name :: "string \<Rightarrow> string option" where
  "step_name window =
     (case strip_prefix (trim_start window) [CHR 0x22] of
        None \<Rightarrow> None
      | Some rest \<Rightarrow> (case split_once CHR 0x22 rest of
          Some (name, _) \<Rightarrow> if name = '''' then None else Some name | None \<Rightarrow> None))"

definition scan_step_literals :: "(string \<times> string) list \<Rightarrow> string list" where
  "scan_step_literals sources =
     fold (\<lambda>(path, source). \<lambda>names.
         if \<not> ends_with path ''.lua'' then names
         else fold (\<lambda>w ns. (case step_name w of Some n \<Rightarrow> if n \<in> set ns then ns else ns @ [n] | None \<Rightarrow> ns))
                (split_str '':step('' source) names) sources []"

definition extract_run :: "'v lua \<Rightarrow> cron_lib \<Rightarrow> nat \<Rightarrow> (string \<times> string) list \<Rightarrow> string \<Rightarrow> (string + 'v chunk)
    \<Rightarrow> (string + 'v) \<times> 'v vm \<times> nat" where
  "extract_run L lib n sources entry loaded =
     (let vm = \<lparr>vm_recorded = no_capabilities, vm_loaded = Map.empty\<rparr> in
      case loaded of
        Inl e \<Rightarrow> (Inl e, vm, n)
      | Inr c \<Rightarrow> run_chunk L (extract_surface L lib sources) n c vm)"

definition extract_contract :: "'v lua \<Rightarrow> cron_lib \<Rightarrow> nat \<Rightarrow> (string \<times> string) list \<Rightarrow> string \<Rightarrow> string + capabilities" where
  "extract_contract L lib n sources entry =
     (case find (\<lambda>(p, _). p = entry) sources of
        None \<Rightarrow> Inl (''Entry point '' @ quoted entry @ '' is not in the bundle'')
      | Some (_, source) \<Rightarrow>
          (case extract_run L lib n sources entry (lu_load L entry source) of
             (Inl e, _) \<Rightarrow> Inl (''Declaration pass failed: '' @ e)
           | (Inr _, vm, _) \<Rightarrow> Inr ((vm_recorded vm)\<lparr>cp_workflow_steps := scan_step_literals sources\<rparr>)))"

section \<open>The worker's top level\<close>

record worker_env =
  we_contract :: "capabilities option"
  we_cron :: cron_lib
  we_now :: int
  we_secret :: "string \<Rightarrow> string + string"

fun contract_list :: "form \<Rightarrow> capabilities \<Rightarrow> (string list \<times> string) option" where
  "contract_list KvForm c = Some (cp_kv c, ''Namespace'')"
| "contract_list SecretForm c = Some (cp_secrets c, ''Secret'')"
| "contract_list ObjectForm c = Some (cp_objects c, ''Object class'')"
| "contract_list DatabaseForm c = Some (cp_databases c, ''Database'')"
| "contract_list QueueForm c = Some (cp_queues c, ''Queue'')"
| "contract_list _ c = None"

definition assert_contract_allows :: "worker_env \<Rightarrow> form \<Rightarrow> string \<Rightarrow> string + unit" where
  "assert_contract_allows env f x =
     (case we_contract env of
        None \<Rightarrow> Inr ()
      | Some c \<Rightarrow>
          (case contract_list f c of
             None \<Rightarrow> Inr ()
           | Some (allowed, what) \<Rightarrow>
               if x \<in> set allowed then Inr ()
               else Inl (what @ '' '' @ quoted x @ '' is not in this revision's capability contract; republish after declaring it.'')))"

definition EVENTS :: "string list" where
  "EVENTS = [''fetch'']"

definition event_error :: "worker_env \<Rightarrow> string \<Rightarrow> string option" where
  "event_error env event =
     (if starts_with event ''cron:'' then
        (let expr = cron_expr event in
         case we_cron env (cron_normalized expr) of
           Inl e \<Rightarrow> Some (quoted expr @ '' is not a cron expression: '' @ e)
         | Inr upcoming \<Rightarrow> (case upcoming (we_now env) of None \<Rightarrow> Some (quoted expr @ '' never occurs'') | Some _ \<Rightarrow> None))
      else (case strip_prefix event ''queue:'' of
         Some name \<Rightarrow>
           if trim name = '''' then Some (''A queue event names its queue: on '' @ [CHR 0x22] @ ''queue:<name>'' @ [CHR 0x22] @ ''.'') else None
       | None \<Rightarrow>
           if event \<in> set EVENTS then None
           else Some (''Invalid event '' @ quoted event @ '', expected one of: '' @ join '', '' EVENTS @ ''.'')))"

definition reserved_text :: "string \<Rightarrow> string \<Rightarrow> string" where
  "reserved_text what x = what @ '' '' @ quoted x @ '' is reserved for the platform.''"

text \<open>A name the form refuses before it asks the contract.\<close>

definition form_error :: "worker_env \<Rightarrow> form \<Rightarrow> string \<Rightarrow> string option" where
  "form_error env f x =
     (case f of
        KvForm \<Rightarrow> if starts_with x ''__'' then Some (reserved_text ''Namespace'' x) else None
      | ObjectForm \<Rightarrow> if starts_with x ''__'' then Some (reserved_text ''Class name'' x) else None
      | ObjectsForm \<Rightarrow> if starts_with x ''__'' then Some (reserved_text ''Class name'' x) else None
      | WorkflowForm \<Rightarrow> if bad_workflow_name x then Some WORKFLOW_NAME_TEXT else None
      | OnForm \<Rightarrow> event_error env x
      | _ \<Rightarrow> None)"

definition worker_value :: "'v lua \<Rightarrow> worker_env \<Rightarrow> form \<Rightarrow> string \<Rightarrow> string + 'v" where
  "worker_value L env f x =
     (case f of
        SecretForm \<Rightarrow> (case we_secret env x of Inl e \<Rightarrow> Inl e | Inr t \<Rightarrow> Inr (lu_text L t))
      | ObjectForm \<Rightarrow> Inr (lu_registrar L)
      | WorkflowForm \<Rightarrow> Inr (lu_registrar L)
      | OnForm \<Rightarrow> Inr (lu_registrar L)
      | _ \<Rightarrow> Inr (lu_stub L))"

definition worker_declare :: "'v lua \<Rightarrow> worker_env \<Rightarrow> form \<Rightarrow> string \<Rightarrow> capabilities \<Rightarrow> (string + 'v) \<times> capabilities" where
  "worker_declare L env f x d =
     (case form_error env f x of
        Some e \<Rightarrow> (Inl e, d)
      | None \<Rightarrow>
          (case assert_contract_allows env f x of
             Inl e \<Rightarrow> (Inl e, d)
           | Inr _ \<Rightarrow> (worker_value L env f x, record_form f x d)))"

definition load_file :: "bundle_file \<Rightarrow> string + string \<times> string" where
  "load_file f = Inr (f_path f, f_content f)"

definition worker_surface :: "'v lua \<Rightarrow> worker_env \<Rightarrow> prepared \<Rightarrow> 'v surface" where
  "worker_surface L env pp = \<lparr>
     sf_declare = worker_declare L env,
     sf_require = (\<lambda>key. map_option load_file (module_by_key pp key)),
     sf_dofile = (\<lambda>name. map_option load_file (module_by_path pp name)),
     sf_remember = (\<lambda>v. v \<noteq> lu_nil L),
     sf_timeout = ''Script timed out, limit is 1 seconds.''\<rparr>"

text \<open>\<open>register_extensions\<close>: the platform's own modules, which \<open>require\<close> finds before the bundle's.\<close>

definition extension_names :: "string list" where
  "extension_names = [''json'', ''uuid'', ''http'', ''kv'', ''secret'', ''log'', ''jwt'', ''crypto'', ''object'']"

definition worker_start :: "'v lua \<Rightarrow> 'v vm" where
  "worker_start L = \<lparr>vm_recorded = no_capabilities, vm_loaded = (\<lambda>k. if k \<in> set extension_names then Some (lu_stub L) else None)\<rparr>"

definition worker_top_level :: "'v lua \<Rightarrow> worker_env \<Rightarrow> nat \<Rightarrow> prepared \<Rightarrow> (string + unit) \<times> 'v vm \<times> nat" where
  "worker_top_level L env n pp =
     (case entry_module pp of
        None \<Rightarrow> (Inr (), worker_start L, n)
      | Some f \<Rightarrow>
          (case lu_load L (f_path f) (f_content f) of
             Inl e \<Rightarrow> (Inl e, worker_start L, n)
           | Inr c \<Rightarrow>
               (case run_chunk L (worker_surface L env pp) n c (worker_start L) of
                  (Inl e, vm, m) \<Rightarrow> (Inl e, vm, m)
                | (Inr v, vm, m) \<Rightarrow> (Inr (), vm, m))))"

end
