(* ===== verification/Script_Service.thy ===== *)
theory Script_Service
  imports Declarations Registry
begin

text \<open>
  The script service (\<open>actias-script-service/src/script_service.rs\<close>, \<open>database_types.rs\<close>,
  \<open>blob_store.rs\<close>): scripts, their immutable revisions, the manifests of their files, aliases, the
  blob store behind them, and the contract-derived owner of an object class. Tables are lists in
  insertion order; the foreign keys cascade as the migrations declare. Generated ids and the clock
  are arguments, the uuid parser, the content hash and Lua are parameters.
\<close>

section \<open>Tables\<close>

record script_row =
  sc_id :: string
  sc_project :: string
  sc_identifier :: string
  sc_updated :: int
  sc_current :: "string option"

record script_config =
  cf_id :: string
  cf_entry_point :: string
  cf_includes :: "string list"
  cf_ignore :: "string list"
  cf_capabilities :: "capabilities option"

record revision_row =
  rv_id :: string
  rv_created :: int
  rv_script :: string
  rv_entry_point :: string
  rv_config :: script_config

record file_row =
  fl_revision :: string
  fl_path :: string
  fl_hash :: string
  fl_size :: "64 word"
  fl_content_type :: string
  fl_kind :: file_kind

record alias_row =
  al_script :: string
  al_name :: string
  al_revision :: string

record script_store =
  st_scripts :: "script_row list"
  st_revisions :: "revision_row list"
  st_files :: "file_row list"
  st_aliases :: "alias_row list"
  st_blobs :: "string \<rightharpoonup> string"

record 'v service =
  sv_parse :: "string \<Rightarrow> string option"
  sv_why :: "string \<Rightarrow> string"
  sv_hash :: "string \<Rightarrow> string"
  sv_lua :: "'v lua"
  sv_cron :: cron_lib
  sv_budget :: nat

text \<open>A column of bounded width refuses a longer text.\<close>

definition fits :: "nat \<Rightarrow> string \<Rightarrow> bool" where
  "fits n s \<longleftrightarrow> utf8_len s \<le> n"

definition too_long :: "nat \<Rightarrow> status" where
  "too_long n = Internal (''value too long for type character varying('' @ show_nat n @ '')'')"

text \<open>\<open>DELETE FROM revisions\<close> and \<open>DELETE FROM scripts\<close> with what hangs off them.\<close>

definition delete_revisions :: "(revision_row \<Rightarrow> bool) \<Rightarrow> script_store \<Rightarrow> script_store" where
  "delete_revisions P s =
     (let gone = rv_id ` {r \<in> set (st_revisions s). P r} in
      s\<lparr>st_revisions := filter (\<lambda>r. \<not> P r) (st_revisions s),
        st_files := filter (\<lambda>f. fl_revision f \<notin> gone) (st_files s),
        st_aliases := filter (\<lambda>a. al_revision a \<notin> gone) (st_aliases s)\<rparr>)"

definition delete_scripts :: "(script_row \<Rightarrow> bool) \<Rightarrow> script_store \<Rightarrow> script_store" where
  "delete_scripts P s =
     (let gone = sc_id ` {r \<in> set (st_scripts s). P r};
          s1 = delete_revisions (\<lambda>r. rv_script r \<in> gone) s
      in s1\<lparr>st_scripts := filter (\<lambda>r. \<not> P r) (st_scripts s1),
            st_aliases := filter (\<lambda>a. al_script a \<notin> gone) (st_aliases s1)\<rparr>)"

section \<open>Blobs\<close>

definition missing_text :: "string \<Rightarrow> status" where
  "missing_text h = FailedPrecondition (''Blob '' @ quoted h @ '' is not stored.'')"

definition blob_put :: "string \<Rightarrow> string \<Rightarrow> script_store \<Rightarrow> script_store" where
  "blob_put h bytes s = s\<lparr>st_blobs := (st_blobs s)(h \<mapsto> bytes)\<rparr>"

definition blob_get :: "string \<Rightarrow> script_store \<Rightarrow> status + string" where
  "blob_get h s = (case st_blobs s h of Some b \<Rightarrow> Inr b | None \<Rightarrow> Inl (missing_text h))"

definition blob_head :: "string \<Rightarrow> script_store \<Rightarrow> 64 word option" where
  "blob_head h s = map_option (\<lambda>b. of_nat (length b)) (st_blobs s h)"

definition missing_blobs :: "string list \<Rightarrow> script_store \<Rightarrow> string list" where
  "missing_blobs hs s = filter (\<lambda>h. blob_head h s = None) hs"

section \<open>Lookups\<close>

datatype script_query = ById string | ByName string

definition get_script_info :: "'v service \<Rightarrow> script_query \<Rightarrow> script_store \<Rightarrow> status + script_row" where
  "get_script_info sv q s =
     (case q of
        ById v \<Rightarrow>
          (case sv_parse sv v of
             None \<Rightarrow> Inl (InvalidArgument (quoted ''id'' @ '' was not a valid uuid''))
           | Some i \<Rightarrow>
               (case find (\<lambda>r. sc_id r = i) (st_scripts s) of
                  Some r \<Rightarrow> Inr r | None \<Rightarrow> Inl (NotFound ''Script with that id was not found'')))
      | ByName v \<Rightarrow>
          (case find (\<lambda>r. sc_identifier r = v) (st_scripts s) of
             Some r \<Rightarrow> Inr r | None \<Rightarrow> Inl (NotFound ''Script with that identifier was not found'')))"

definition get_db_revision :: "'v service \<Rightarrow> string \<Rightarrow> script_store \<Rightarrow> status + revision_row" where
  "get_db_revision sv v s =
     (case sv_parse sv v of
        None \<Rightarrow> Inl (InvalidArgument (quoted ''id'' @ '' was not a valid uuid''))
      | Some i \<Rightarrow>
          (case find (\<lambda>r. rv_id r = i) (st_revisions s) of
             Some r \<Rightarrow> Inr r | None \<Rightarrow> Inl (NotFound ''Revision with that ID was not found'')))"

text \<open>The row a script's pointer joins, and the contract in it.\<close>

definition current_contract :: "script_store \<Rightarrow> script_row \<Rightarrow> capabilities option" where
  "current_contract s r =
     (case sc_current r of
        None \<Rightarrow> None
      | Some i \<Rightarrow>
          (case find (\<lambda>v. rv_id v = i) (st_revisions s) of
             None \<Rightarrow> None | Some v \<Rightarrow> cf_capabilities (rv_config v)))"

section \<open>Owners\<close>

datatype contract_member = Events | Workflows | Queues | Databases | Objects

definition for_class :: "string \<Rightarrow> contract_member list option" where
  "for_class cls =
     (if cls = QUEUE_CLASS then Some [Events, Queues]
      else if cls = DATABASE_CLASS then Some [Databases]
      else if cls = WORKFLOW_CLASS then Some [Workflows]
      else if starts_with cls ''__'' then None
      else Some [Objects])"

fun member_of :: "contract_member \<Rightarrow> capabilities \<Rightarrow> string list" where
  "member_of Events = cp_events"
| "member_of Workflows = cp_workflows"
| "member_of Queues = cp_queues"
| "member_of Databases = cp_databases"
| "member_of Objects = cp_objects"

fun needle :: "contract_member \<Rightarrow> string \<Rightarrow> string \<Rightarrow> string" where
  "needle Events cls name = ''queue:'' @ name"
| "needle Workflows cls name = List.hd (split_char CHR ''/'' name)"
| "needle Queues cls name = name"
| "needle Databases cls name = name"
| "needle Objects cls name = cls"

definition declares :: "script_store \<Rightarrow> contract_member \<Rightarrow> string \<Rightarrow> script_row \<Rightarrow> bool" where
  "declares s m x r = (case current_contract s r of Some c \<Rightarrow> x \<in> set (member_of m c) | None \<Rightarrow> False)"

text \<open>\<open>ORDER BY s.id LIMIT 1\<close>.\<close>

definition least_id :: "script_row list \<Rightarrow> string option" where
  "least_id rs = (case sort (map sc_id rs) of [] \<Rightarrow> None | i # _ \<Rightarrow> Some i)"

definition contract_owner :: "string \<Rightarrow> contract_member \<Rightarrow> string \<Rightarrow> string \<Rightarrow> script_store \<Rightarrow> string option" where
  "contract_owner project m cls name s =
     least_id (filter (\<lambda>r. sc_project r = project \<and> declares s m (needle m cls name) r) (st_scripts s))"

fun first_owner :: "string \<Rightarrow> contract_member list \<Rightarrow> string \<Rightarrow> string \<Rightarrow> script_store \<Rightarrow> string option" where
  "first_owner project [] cls name s = None"
| "first_owner project (m # ms) cls name s =
     (case contract_owner project m cls name s of Some i \<Rightarrow> Some i | None \<Rightarrow> first_owner project ms cls name s)"

definition resolve_class_owner :: "'v service \<Rightarrow> string \<Rightarrow> string \<Rightarrow> string \<Rightarrow> script_store \<Rightarrow> registry \<Rightarrow> status + string" where
  "resolve_class_owner sv project cls name s rg =
     (case sv_parse sv project of
        None \<Rightarrow> Inl (InvalidArgument (quoted ''project_id'' @ '' was not a valid uuid''))
      | Some p \<Rightarrow>
     (case for_class cls of
        None \<Rightarrow> Inl (InvalidArgument ''Platform class has no contract-derived owner.'')
      | Some ms \<Rightarrow>
     (case first_owner p ms cls name s of
        Some i \<Rightarrow> Inr i
      | None \<Rightarrow>
     (case find (\<lambda>i. i_scope i = p \<and> i_class i = cls \<and> i_name i = name) (rg_instances rg) of
        Some i \<Rightarrow> Inr (i_script i)
      | None \<Rightarrow> Inl (NotFound ''No current contract in the project owns that identity.'')))))"

section \<open>Publishing\<close>

definition conflict_checks :: "capabilities \<Rightarrow> (contract_member \<times> string list \<times> string) list" where
  "conflict_checks c = [
     (Events, filter (\<lambda>e. starts_with e ''queue:'') (cp_events c), ''already consumes''),
     (Objects, cp_objects c, ''already declares''),
     (Workflows, cp_workflows c, ''already declares'')]"

text \<open>The sibling rows a check joins, one per name held; the query keeps any one of them.\<close>

definition held_names :: "string \<Rightarrow> contract_member \<Rightarrow> script_store \<Rightarrow> (string \<times> string) list" where
  "held_names script m s =
     concat (map (\<lambda>r. case current_contract s r of
         Some c \<Rightarrow> map (\<lambda>x. (sc_identifier r, x)) (member_of m c) | None \<Rightarrow> [])
       (filter (\<lambda>r. sc_id r \<noteq> script \<and> (\<exists>q \<in> set (st_scripts s). sc_id q = script \<and> sc_project r = sc_project q))
         (st_scripts s)))"

fun refuse_conflicts :: "string \<Rightarrow> (contract_member \<times> string list \<times> string) list \<Rightarrow> script_store \<Rightarrow> status option" where
  "refuse_conflicts script [] s = None"
| "refuse_conflicts script ((m, names, verb) # cs) s =
     (if names = [] then refuse_conflicts script cs s
      else case find (\<lambda>(_, x). x \<in> set names) (held_names script m s) of
        Some (ident, x) \<Rightarrow>
          Some (FailedPrecondition (''Script '' @ quoted ident @ '' '' @ verb @ '' '' @ quoted x
            @ '' in this project; it has exactly one owner. Remove one declaration and publish again.''))
      | None \<Rightarrow> refuse_conflicts script cs s)"

definition refuse_contract_conflicts :: "string \<Rightarrow> capabilities \<Rightarrow> script_store \<Rightarrow> status option" where
  "refuse_contract_conflicts script c s = refuse_conflicts script (conflict_checks c) s"

definition inline :: "bundle_file \<Rightarrow> bool" where
  "inline f \<longleftrightarrow> f_hash f = '''' \<or> f_content f \<noteq> ''''"

definition source_bytes :: "bundle_file \<Rightarrow> script_store \<Rightarrow> status + string" where
  "source_bytes f s = (if inline f then Inr (f_content f) else blob_get (f_hash f) s)"

fun collect_sources :: "bundle_file list \<Rightarrow> script_store \<Rightarrow> status + (string \<times> string) list" where
  "collect_sources [] s = Inr []"
| "collect_sources (f # fs) s =
     (if \<not> ends_with (f_path f) ''.lua'' then collect_sources fs s
      else case source_bytes f s of
        Inl e \<Rightarrow> Inl e
      | Inr bytes \<Rightarrow>
          (case collect_sources fs s of
             Inl e \<Rightarrow> Inl e
           | Inr rest \<Rightarrow>
               (case from_utf8 bytes of
                  Some src \<Rightarrow> Inr (if f_path f \<in> fst ` set rest then rest else (f_path f, src) # rest)
                | None \<Rightarrow> Inr rest)))"

fun store_files :: "(string \<Rightarrow> string) \<Rightarrow> bundle_file list \<Rightarrow> script_store \<Rightarrow> (status + bundle_file list) \<times> script_store" where
  "store_files hash [] s = (Inr [], s)"
| "store_files hash (f # fs) s =
     (if inline f then
        (let h = hash (f_content f) in
         case store_files hash fs (blob_put h (f_content f) s) of
           (Inl e, s') \<Rightarrow> (Inl e, s')
         | (Inr gs, s') \<Rightarrow> (Inr (f\<lparr>f_hash := h, f_size := of_nat (length (f_content f)), f_content := ''''\<rparr> # gs), s'))
      else
        (case blob_head (f_hash f) s of
           None \<Rightarrow> (Inl (FailedPrecondition (''Blob for '' @ quoted (f_path f) @ '' is not stored; upload it first.'')), s)
         | Some sz \<Rightarrow>
             (case store_files hash fs s of
                (Inl e, s') \<Rightarrow> (Inl e, s') | (Inr gs, s') \<Rightarrow> (Inr (f\<lparr>f_size := sz\<rparr> # gs), s'))))"

definition set_current :: "string \<Rightarrow> string option \<Rightarrow> int \<Rightarrow> script_store \<Rightarrow> script_store" where
  "set_current script ptr now s =
     s\<lparr>st_scripts := map (\<lambda>r. if sc_id r = script then r\<lparr>sc_current := ptr, sc_updated := now\<rparr> else r) (st_scripts s)\<rparr>"

definition file_row_of :: "string \<Rightarrow> bundle_file \<Rightarrow> file_row" where
  "file_row_of rid f = \<lparr>fl_revision = rid, fl_path = f_path f, fl_hash = f_hash f, fl_size = f_size f,
     fl_content_type = f_content_type f, fl_kind = f_kind f\<rparr>"

definition row_error :: "string \<Rightarrow> bundle_file list \<Rightarrow> status option" where
  "row_error entry fs =
     (if \<not> fits 32767 entry then Some (too_long 32767)
      else case find (\<lambda>f. \<not> (fits 32767 (f_path f) \<and> fits 64 (f_hash f) \<and> fits 256 (f_content_type f))) fs of
        Some f \<Rightarrow> Some (too_long (if \<not> fits 32767 (f_path f) then 32767 else if \<not> fits 64 (f_hash f) then 64 else 256))
      | None \<Rightarrow> None)"

text \<open>The transaction at the end: the revision, its manifest, the pointer; \<open>rid\<close> is the id the database
  generates.\<close>

definition insert_revision :: "string \<Rightarrow> int \<Rightarrow> string \<Rightarrow> script_config \<Rightarrow> string \<Rightarrow> bundle_file list
    \<Rightarrow> script_store \<Rightarrow> (status + revision_row) \<times> script_store" where
  "insert_revision rid now script cfg entry fs s =
     (case row_error entry fs of
        Some e \<Rightarrow> (Inl e, s)
      | None \<Rightarrow>
          (let r = \<lparr>rv_id = rid, rv_created = now, rv_script = script, rv_entry_point = entry, rv_config = cfg\<rparr>
           in (Inr r, set_current script (Some rid) now
                 (s\<lparr>st_revisions := st_revisions s @ [r],
                    st_files := st_files s @ map (file_row_of rid) fs\<rparr>))))"

definition create_db_revision :: "'v service \<Rightarrow> string \<Rightarrow> int \<Rightarrow> string \<Rightarrow> script_config \<Rightarrow> script_bundle
    \<Rightarrow> script_store \<Rightarrow> (status + revision_row) \<times> script_store" where
  "create_db_revision sv rid now script cfg b s =
     (if cf_id cfg \<noteq> script then (Inl (InvalidArgument ''Script config contains a different ID than the target.''), s)
      else case collect_sources (b_files b) s of
        Inl e \<Rightarrow> (Inl e, s)
      | Inr src \<Rightarrow>
     (case extract_contract (sv_lua sv) (sv_cron sv) (sv_budget sv) src (b_entry_point b) of
        Inl e \<Rightarrow> (Inl (InvalidArgument e), s)
      | Inr c \<Rightarrow>
     (case refuse_contract_conflicts script c s of
        Some e \<Rightarrow> (Inl e, s)
      | None \<Rightarrow>
     (case store_files (sv_hash sv) (b_files b) s of
        (Inl e, s1) \<Rightarrow> (Inl e, s1)
      | (Inr fs, s1) \<Rightarrow>
          insert_revision rid now script (cfg\<lparr>cf_capabilities := Some c\<rparr>) (b_entry_point b) fs s1))))"

text \<open>The wire's config carries its id as text.\<close>

definition parse_config :: "'v service \<Rightarrow> script_config \<Rightarrow> status + script_config" where
  "parse_config sv cfg = (case sv_parse sv (cf_id cfg) of
     None \<Rightarrow> Inl (InvalidArgument (sv_why sv (cf_id cfg))) | Some i \<Rightarrow> Inr (cfg\<lparr>cf_id := i\<rparr>))"

definition create_revision :: "'v service \<Rightarrow> string \<Rightarrow> int \<Rightarrow> string \<Rightarrow> script_config option \<Rightarrow> script_bundle option
    \<Rightarrow> script_store \<Rightarrow> (status + revision_row) \<times> script_store" where
  "create_revision sv rid now script cfg b s =
     (case get_script_info sv (ById script) s of
        Inl e \<Rightarrow> (Inl e, s)
      | Inr row \<Rightarrow>
     (case cfg of
        None \<Rightarrow> (Inl (InvalidArgument ''script_config is required''), s)
      | Some cfg \<Rightarrow>
     (case parse_config sv cfg of
        Inl e \<Rightarrow> (Inl e, s)
      | Inr cfg \<Rightarrow>
     (case b of
        None \<Rightarrow> (Inl (InvalidArgument ''bundle is required''), s)
      | Some b \<Rightarrow> create_db_revision sv rid now (sc_id row) cfg b s))))"


section \<open>Revisions\<close>

definition hydrate :: "bool \<Rightarrow> file_row \<Rightarrow> script_store \<Rightarrow> status + bundle_file" where
  "hydrate manifest_only fl s =
     (let h = trim (fl_hash fl);
          g = (\<lambda>content. \<lparr>f_path = fl_path fl, f_content = content, f_hash = h, f_size = fl_size fl,
                 f_content_type = fl_content_type fl, f_kind = fl_kind fl\<rparr>)
      in if manifest_only then Inr (g '''')
         else case blob_get h s of Inl e \<Rightarrow> Inl e | Inr content \<Rightarrow> Inr (g content))"

fun hydrate_all :: "bool \<Rightarrow> file_row list \<Rightarrow> script_store \<Rightarrow> status + bundle_file list" where
  "hydrate_all m [] s = Inr []"
| "hydrate_all m (fl # fls) s =
     (case hydrate m fl s of
        Inl e \<Rightarrow> Inl e
      | Inr f \<Rightarrow> (case hydrate_all m fls s of Inl e \<Rightarrow> Inl e | Inr fs \<Rightarrow> Inr (f # fs)))"

definition get_revision :: "'v service \<Rightarrow> string \<Rightarrow> bool \<Rightarrow> bool \<Rightarrow> script_store \<Rightarrow> status + (revision_row \<times> script_bundle option)" where
  "get_revision sv v with_bundle manifest_only s =
     (case sv_parse sv v of
        None \<Rightarrow> Inl (Internal (sv_why sv v))
      | Some i \<Rightarrow>
     (case find (\<lambda>r. rv_id r = i) (st_revisions s) of
        None \<Rightarrow> Inl (NotFound ''Revision with that ID was not found'')
      | Some r \<Rightarrow>
          if \<not> with_bundle then Inr (r, None)
          else (case hydrate_all manifest_only (filter (\<lambda>f. fl_revision f = rv_id r) (st_files s)) s of
             Inl e \<Rightarrow> Inl e
           | Inr fs \<Rightarrow> Inr (r, Some \<lparr>b_entry_point = rv_entry_point r, b_files = fs\<rparr>))))"

text \<open>\<open>safe_divide\<close> on \<open>i32\<close>: no result is a division that panics.\<close>

definition safe_divide :: "32 word \<Rightarrow> 32 word \<Rightarrow> 32 word option" where
  "safe_divide a b =
     (if a = 0 then Some 0
      else if b = 0 \<or> (sint b = -1 \<and> sint a = -(2 ^ 31)) then None
      else Some (word_of_int (trunc_div (sint a) (sint b))))"

definition sql_page :: "32 word \<Rightarrow> 32 word \<Rightarrow> 'a list \<Rightarrow> status + 'a list" where
  "sql_page limit offset xs =
     (if sint limit < 0 then Inl (Internal ''LIMIT must not be negative'')
      else if sint offset < 0 then Inl (Internal ''OFFSET must not be negative'')
      else Inr (take (nat (sint limit)) (drop (nat (sint offset)) xs)))"

text \<open>A listing answers its page number, the number of pages and the rows. Fields are evaluated in that
  order, so the division comes before the rows are fetched. Products wrap.\<close>

definition list_page :: "32 word \<Rightarrow> 32 word \<Rightarrow> nat \<Rightarrow> 'a list \<Rightarrow> (status + 32 word \<times> 32 word \<times> 'a list) option" where
  "list_page page per_page count rows =
     (case safe_divide (of_nat count) per_page of
        None \<Rightarrow> None
      | Some pages \<Rightarrow>
          Some (case sql_page per_page (per_page * (page - 1)) rows of
             Inl e \<Rightarrow> Inl e | Inr rs \<Rightarrow> Inr (page, pages, rs)))"

definition list_revisions :: "'v service \<Rightarrow> string option \<Rightarrow> 32 word \<Rightarrow> 32 word \<Rightarrow> script_store
    \<Rightarrow> (status + 32 word \<times> 32 word \<times> revision_row list) option" where
  "list_revisions sv script page per_page s =
     (if sint page < 1 then Some (Inl (InvalidArgument ''invalid page number provided!''))
      else case (case script of None \<Rightarrow> Inr (\<lambda>r. True)
          | Some v \<Rightarrow> (case sv_parse sv v of None \<Rightarrow> Inl (Internal (sv_why sv v)) | Some i \<Rightarrow> Inr (\<lambda>r. rv_script r = i))) of
        Inl e \<Rightarrow> Some (Inl e)
      | Inr P \<Rightarrow>
          (let rows = filter P (st_revisions s)
           in list_page page per_page (length rows) (sort_key (\<lambda>r. - rv_created r) rows)))"

definition delete_revision :: "'v service \<Rightarrow> int \<Rightarrow> string \<Rightarrow> script_store \<Rightarrow> (status + string \<times> string option) \<times> script_store" where
  "delete_revision sv now v s =
     (case get_db_revision sv v s of
        Inl e \<Rightarrow> (Inl e, s)
      | Inr r \<Rightarrow>
     (case find (\<lambda>q. sc_id q = rv_script r) (st_scripts s) of
        None \<Rightarrow> (Inl (NotFound ''Script with that id was not found''), s)
      | Some q \<Rightarrow>
          (let s1 = delete_revisions (\<lambda>x. rv_id x = rv_id r) s;
               newest = (case sort_key rv_created (filter (\<lambda>x. rv_script x = sc_id q) (st_revisions s1)) of
                  [] \<Rightarrow> None | x # _ \<Rightarrow> Some (rv_id x))
           in (Inr (sc_id q, newest), set_current (sc_id q) newest now s1))))"

definition set_script_revision :: "'v service \<Rightarrow> int \<Rightarrow> string \<Rightarrow> string \<Rightarrow> script_store
    \<Rightarrow> (status + string \<times> string option) \<times> script_store" where
  "set_script_revision sv now script v s =
     (case get_script_info sv (ById script) s of
        Inl e \<Rightarrow> (Inl e, s)
      | Inr q \<Rightarrow>
     (case get_db_revision sv v s of
        Inl e \<Rightarrow> (Inl e, s)
      | Inr r \<Rightarrow>
          if rv_script r \<noteq> sc_id q then
            (Inl (InvalidArgument (''Script ('' @ sc_id q @ '') doesn't own the revision ('' @ rv_id r @ '')'')), s)
          else (Inr (sc_id q, Some (rv_id r)), set_current (sc_id q) (Some (rv_id r)) now s)))"

section \<open>Scripts\<close>

definition list_scripts :: "'v service \<Rightarrow> string \<Rightarrow> 32 word \<Rightarrow> 32 word \<Rightarrow> script_store
    \<Rightarrow> (status + 32 word \<times> 32 word \<times> script_row list) option" where
  "list_scripts sv project page per_page s =
     (if sint page < 1 then Some (Inl (InvalidArgument ''Invalid page number provided!''))
      else case sv_parse sv project of
        None \<Rightarrow> Some (Inl (InvalidArgument (sv_why sv project)))
      | Some p \<Rightarrow> list_page page per_page (length (st_scripts s))
          (sort_key (\<lambda>r. - sc_updated r) (filter (\<lambda>r. sc_project r = p) (st_scripts s))))"

definition create_script :: "'v service \<Rightarrow> string \<Rightarrow> int \<Rightarrow> string \<Rightarrow> string \<Rightarrow> script_store \<Rightarrow> (status + script_row) \<times> script_store" where
  "create_script sv sid now ident project s =
     (case sv_parse sv project of
        None \<Rightarrow> (Inl (InvalidArgument (sv_why sv project)), s)
      | Some p \<Rightarrow>
     (case get_script_info sv (ByName ident) s of
        Inr _ \<Rightarrow> (Inl (AlreadyExists ''Script with that identifier already exists''), s)
      | Inl (NotFound _) \<Rightarrow>
          if \<not> fits 64 ident then (Inl (too_long 64), s)
          else (let r = \<lparr>sc_id = sid, sc_project = p, sc_identifier = ident, sc_updated = now, sc_current = None\<rparr>
                in (Inr r, s\<lparr>st_scripts := st_scripts s @ [r]\<rparr>))
      | Inl e \<Rightarrow> (Inl e, s)))"

definition delete_script :: "'v service \<Rightarrow> string \<Rightarrow> script_store \<Rightarrow> (status + unit) \<times> script_store" where
  "delete_script sv v s =
     (case sv_parse sv v of
        None \<Rightarrow> (Inl (Internal (sv_why sv v)), s)
      | Some i \<Rightarrow>
          ((if \<exists>r \<in> set (st_scripts s). sc_id r = i then Inr () else Inl (NotFound ''Script was not found.'')),
           delete_scripts (\<lambda>r. sc_id r = i) s))"

definition delete_project :: "'v service \<Rightarrow> string \<Rightarrow> script_store \<Rightarrow> (status + string list) \<times> script_store" where
  "delete_project sv v s =
     (case sv_parse sv v of
        None \<Rightarrow> (Inl (Internal (sv_why sv v)), s)
      | Some p \<Rightarrow> (Inr (map sc_id (filter (\<lambda>r. sc_project r = p) (st_scripts s))),
                  delete_scripts (\<lambda>r. sc_project r = p) s))"

section \<open>Aliases\<close>

definition ascii_lowercase :: "char \<Rightarrow> bool" where
  "ascii_lowercase c \<longleftrightarrow> 97 \<le> (of_char c :: nat) \<and> (of_char c :: nat) \<le> 122"

definition ascii_digit :: "char \<Rightarrow> bool" where
  "ascii_digit c \<longleftrightarrow> 48 \<le> (of_char c :: nat) \<and> (of_char c :: nat) \<le> 57"

fun contains_dashes :: "string \<Rightarrow> bool" where
  "contains_dashes (c # d # s) = ((c = CHR ''-'' \<and> d = CHR ''-'') \<or> contains_dashes (d # s))"
| "contains_dashes s = False"

definition alias_name_error :: "string \<Rightarrow> string option" where
  "alias_name_error name =
     (if \<not> (name \<noteq> '''' \<and> length name \<le> 64
            \<and> (\<forall>c \<in> set name. ascii_lowercase c \<or> ascii_digit c \<or> c = CHR ''-'')
            \<and> \<not> starts_with name ''-'' \<and> \<not> ends_with name ''-'' \<and> \<not> contains_dashes name)
      then Some ''An alias is 1-64 lowercase letters, digits or single dashes.''
      else if starts_with name ''live-'' \<or> starts_with name ''r-''
      then Some (''Alias names starting with '' @ quoted ''live-'' @ '' or '' @ quoted ''r-'' @ '' are reserved for routing.'')
      else None)"

definition set_alias :: "'v service \<Rightarrow> string \<Rightarrow> string \<Rightarrow> string \<Rightarrow> script_store \<Rightarrow> (status + alias_row) \<times> script_store" where
  "set_alias sv script name revision s =
     (case alias_name_error name of
        Some e \<Rightarrow> (Inl (InvalidArgument e), s)
      | None \<Rightarrow>
     (case sv_parse sv script of
        None \<Rightarrow> (Inl (Internal (sv_why sv script)), s)
      | Some i \<Rightarrow>
     (case sv_parse sv revision of
        None \<Rightarrow> (Inl (InvalidArgument ''Revision id is not a uuid.''), s)
      | Some r \<Rightarrow>
          if map_option rv_script (find (\<lambda>x. rv_id x = r) (st_revisions s)) \<noteq> Some i
          then (Inl (FailedPrecondition ''Revision does not exist for this script.''), s)
          else (let a = \<lparr>al_script = i, al_name = name, al_revision = r\<rparr> in
            (Inr a, s\<lparr>st_aliases := filter (\<lambda>x. \<not> (al_script x = i \<and> al_name x = name)) (st_aliases s) @ [a]\<rparr>)))))"

definition get_alias :: "'v service \<Rightarrow> string \<Rightarrow> string \<Rightarrow> script_store \<Rightarrow> status + alias_row" where
  "get_alias sv script name s =
     (case sv_parse sv script of
        None \<Rightarrow> Inl (Internal (sv_why sv script))
      | Some i \<Rightarrow>
          (case find (\<lambda>x. al_script x = i \<and> al_name x = name) (st_aliases s) of
             Some a \<Rightarrow> Inr a | None \<Rightarrow> Inl (NotFound ''No alias with that name.'')))"

definition list_aliases :: "'v service \<Rightarrow> string \<Rightarrow> script_store \<Rightarrow> status + alias_row list" where
  "list_aliases sv script s =
     (case sv_parse sv script of
        None \<Rightarrow> Inl (Internal (sv_why sv script))
      | Some i \<Rightarrow> Inr (sort_key al_name (filter (\<lambda>x. al_script x = i) (st_aliases s))))"

end
