(* ===== verification/Declarations_Spec.thy ===== *)
theory Declarations_Spec
  imports Declarations
begin

text \<open>
  What the contract derived at publish means to the worker that runs the code: the lists only grow
  while the top level runs, what enters them is well formed, and the code the contract was derived
  from runs under it. The conditions of that last statement are exactly the places where the two
  vms disagree; two of them are shown to matter.
\<close>

section \<open>Running a chunk\<close>

text \<open>A loader call either goes on at once or runs a module first.\<close>

lemma run_require_cases:
  assumes "run_chunk L S (Suc n) (Require x k) vm = (r, vm', m)"
  obtains (at_once) a where "run_chunk L S n (k a) vm = (r, vm', m)"
  | (module) c ri vmi mi vmk where "run_chunk L S n c vm = (ri, vmi, mi)"
      "vm_recorded vmk = vm_recorded vmi" "run_chunk L S (min mi n) (k ri) vmk = (r, vm', m)"
proof (cases "vm_loaded vm (module_key x)")
  case None
  show ?thesis
  proof (cases "sf_require S (module_key x)")
    case (Some a)
    show ?thesis
    proof (cases a)
      case (Inr p)
      obtain name source where p: "p = (name, source)" by force
      show ?thesis
      proof (cases "lu_load L name source")
        case (Inr c)
        obtain ri vmi mi where run: "run_chunk L S n c vm = (ri, vmi, mi)" by (cases "run_chunk L S n c vm")
        show ?thesis
        proof (rule module [OF run])
          show "run_chunk L S (min mi n) (k ri)
              (case ri of Inl e \<Rightarrow> vmi | Inr v \<Rightarrow>
                 if sf_remember S v then vmi\<lparr>vm_loaded := (vm_loaded vmi)(module_key x \<mapsto> v)\<rparr> else vmi) = (r, vm', m)"
            using assms None Some \<open>a = Inr p\<close> p Inr run by (cases ri) (auto simp: Let_def)
        qed (simp split: sum.split)
      qed (use assms None Some \<open>a = Inr p\<close> p in \<open>auto simp: Let_def intro: at_once\<close>)
    qed (use assms None Some in \<open>auto simp: Let_def intro: at_once\<close>)
  qed (use assms None in \<open>auto simp: Let_def intro: at_once\<close>)
qed (use assms in \<open>auto simp: Let_def intro: at_once\<close>)

lemma run_dofile_cases:
  assumes "run_chunk L S (Suc n) (Dofile x k) vm = (r, vm', m)"
  obtains (at_once) a where "run_chunk L S n (k a) vm = (r, vm', m)"
  | (module) c ri vmi mi where "run_chunk L S n c vm = (ri, vmi, mi)" "run_chunk L S (min mi n) (k ri) vmi = (r, vm', m)"
proof (cases "sf_dofile S x")
  case (Some a)
  show ?thesis
  proof (cases a)
    case (Inr p)
    obtain name source where p: "p = (name, source)" by force
    show ?thesis
      by (cases "lu_load L name source") (use assms Some Inr p in \<open>auto split: prod.splits intro: at_once module\<close>)
  qed (use assms Some in \<open>auto intro: at_once\<close>)
qed (use assms in \<open>auto intro: at_once\<close>)

lemma run_chunk_budget: "run_chunk L S n c vm = (r, vm', m) \<Longrightarrow> m \<le> n"
proof (induction n arbitrary: c vm r vm' m rule: less_induct)
  case (less n)
  note IH = less.IH
  show ?case
  proof (cases c)
    case (Declare f x k)
    show ?thesis
    proof (cases n)
      case (Suc n')
      obtain r' d where d: "sf_declare S f x (vm_recorded vm) = (r', d)" by force
      from IH [of n' "k r'"] less.prems Declare Suc d show ?thesis by fastforce
    qed (use less.prems Declare in simp)
  next
    case (Require x k)
    show ?thesis
    proof (cases n)
      case (Suc n')
      with less.prems Require have "run_chunk L S (Suc n') (Require x k) vm = (r, vm', m)" by simp
      then show ?thesis
      proof (cases rule: run_require_cases)
        case (at_once a)
        from IH [OF _ at_once] Suc show ?thesis by simp
      next
        case module
        from IH [OF _ module(3)] Suc show ?thesis by (simp add: less_Suc_eq_le)
      qed
    qed (use less.prems Require in simp)
  next
    case (Dofile x k)
    show ?thesis
    proof (cases n)
      case (Suc n')
      with less.prems Dofile have "run_chunk L S (Suc n') (Dofile x k) vm = (r, vm', m)" by simp
      then show ?thesis
      proof (cases rule: run_dofile_cases)
        case (at_once a)
        from IH [OF _ at_once] Suc show ?thesis by simp
      next
        case module
        from IH [OF _ module(2)] Suc show ?thesis by (simp add: less_Suc_eq_le)
      qed
    qed (use less.prems Dofile in simp)
  qed (use less.prems in auto)
qed

text \<open>A relation on the recorded declarations that every form keeps holds between the start and the
  end of a run.\<close>

locale form_relation =
  fixes S :: "'v surface" and R :: "capabilities \<Rightarrow> capabilities \<Rightarrow> bool"
  assumes refl: "R d d" and trans: "R a b \<Longrightarrow> R b c \<Longrightarrow> R a c"
    and declares: "sf_declare S f x d = (r, d') \<Longrightarrow> R d d'"
begin

lemma run_chunk_related: "run_chunk L S n c vm = (r, vm', m) \<Longrightarrow> R (vm_recorded vm) (vm_recorded vm')"
proof (induction n arbitrary: c vm r vm' m rule: less_induct)
  case (less n)
  note IH = less.IH
  show ?case
  proof (cases c)
    case (Declare f x k)
    show ?thesis
    proof (cases n)
      case (Suc n')
      obtain r' d where d: "sf_declare S f x (vm_recorded vm) = (r', d)" by force
      from IH [of n' "k r'"] less.prems Declare Suc d have "R d (vm_recorded vm')" by fastforce
      with declares [OF d] show ?thesis by (rule trans)
    qed (use less.prems Declare in \<open>simp add: refl\<close>)
  next
    case (Require x k)
    show ?thesis
    proof (cases n)
      case (Suc n')
      with less.prems Require have "run_chunk L S (Suc n') (Require x k) vm = (r, vm', m)" by simp
      then show ?thesis
      proof (cases rule: run_require_cases)
        case (module c ri vmi mi vmk)
        from IH [OF _ module(1)] IH [OF _ module(3)] Suc have "R (vm_recorded vm) (vm_recorded vmi)" "R (vm_recorded vmk) (vm_recorded vm')" by auto
        with module(2) show ?thesis by (auto intro: trans)
      qed (use IH Suc in blast)
    qed (use less.prems Require in \<open>simp add: refl\<close>)
  next
    case (Dofile x k)
    show ?thesis
    proof (cases n)
      case (Suc n')
      with less.prems Dofile have "run_chunk L S (Suc n') (Dofile x k) vm = (r, vm', m)" by simp
      then show ?thesis
      proof (cases rule: run_dofile_cases)
        case (module c ri vmi mi)
        from IH [OF _ module(1)] IH [OF _ module(2)] Suc show ?thesis by (auto intro: trans)
      qed (use IH Suc in blast)
    qed (use less.prems Dofile in \<open>simp add: refl\<close>)
  qed (use less.prems refl in auto)
qed

end

text \<open>Both vms only ever append to the lists.\<close>

definition grows :: "capabilities \<Rightarrow> capabilities \<Rightarrow> bool" where
  "grows d e \<longleftrightarrow> (\<forall>(g :: capabilities \<Rightarrow> string list) \<in>
     {cp_kv, cp_events, cp_secrets, cp_objects, cp_databases, cp_queues, cp_workflows}. set (g d) \<subseteq> set (g e))"

lemma grows_refl [simp]: "grows d d" by (auto simp: grows_def)

lemma grows_trans: "grows a b \<Longrightarrow> grows b c \<Longrightarrow> grows a c" unfolding grows_def by (simp, blast)

lemma grows_record [simp]: "grows d (record_form f x d)"
  by (cases f) (auto simp: grows_def)

lemma extract_declare_cases:
  "sf_declare (extract_surface L lib src) f x d = (r, d') \<Longrightarrow>
     (d' = d \<and> (\<exists>e. r = Inl e)) \<or> (d' = record_form f x d \<and> (\<exists>v. r = Inr v))"
  by (auto simp: extract_surface_def extract_declare_def split: form.splits option.splits sum.splits if_splits)

interpretation extraction_grows: form_relation "extract_surface L lib src" grows for L lib src
proof
  show "grows d d" for d by simp
  show "grows a b \<Longrightarrow> grows b c \<Longrightarrow> grows a c" for a b c by (rule grows_trans)
  show "grows d d'" if "sf_declare (extract_surface L lib src) f x d = (r, d')" for f x d r d'
    using extract_declare_cases [OF that] by auto
qed

section \<open>What a contract holds\<close>

text \<open>A name that entered the contract has passed the form's publish-time check.\<close>

definition contract_checked :: "cron_lib \<Rightarrow> capabilities \<Rightarrow> bool" where
  "contract_checked lib d \<longleftrightarrow> (\<forall>w \<in> set (cp_workflows d). \<not> bad_workflow_name w)
     \<and> (\<forall>e \<in> set (cp_events d). \<forall>x. strip_prefix e ''cron:'' = Some x \<longrightarrow> validate_cron lib x = Inr ())"

definition checked_step :: "cron_lib \<Rightarrow> capabilities \<Rightarrow> capabilities \<Rightarrow> bool" where
  "checked_step lib d e \<longleftrightarrow> (contract_checked lib d \<longrightarrow> contract_checked lib e)"

lemma checked_record:
  assumes "sf_declare (extract_surface L lib src) f x d = (r, d')" "contract_checked lib d"
  shows "contract_checked lib d'"
  using assms
  by (auto simp: contract_checked_def extract_surface_def extract_declare_def
      split: form.splits option.splits sum.splits if_splits)

interpretation extraction_checked: form_relation "extract_surface L lib src" "checked_step lib" for L lib src
  by (rule form_relation.intro) (auto simp: checked_step_def intro: checked_record)

lemma contract_checked_steps [simp]: "contract_checked lib (d\<lparr>cp_workflow_steps := s\<rparr>) = contract_checked lib d"
  by (simp add: contract_checked_def)


section \<open>Published code runs\<close>

text \<open>The Lua files of a bundle as the publish pass collects them.\<close>

definition lua_sources :: "script_bundle \<Rightarrow> (string \<times> string) list" where
  "lua_sources b = map (\<lambda>f. (f_path f, f_content f)) (filter (\<lambda>f. ends_with (f_path f) ''.lua'') (b_files b))"

text \<open>A declaration both vms answer alike: the worker's own checks let the name pass, or it is a
  workflow name that both refuse.\<close>

definition accepted :: "worker_env \<Rightarrow> form \<Rightarrow> string \<Rightarrow> bool" where
  "accepted env f x \<longleftrightarrow>
     (case form_error env f x of
        None \<Rightarrow> f = SecretForm \<longrightarrow> (\<exists>t. we_secret env x = Inr t)
      | Some _ \<Rightarrow> f = WorkflowForm)"

text \<open>Code that does not look inside a handle or a secret while it declares, requires Lua modules of
  the bundle only, and names a \<open>dofile\<close> by its path.\<close>

primrec steady :: "worker_env \<Rightarrow> script_bundle \<Rightarrow> 'v chunk \<Rightarrow> bool" where
  "steady env b (Return v) = True"
| "steady env b (Raise e) = True"
| "steady env b (Declare f x k) =
     (accepted env f x \<and> (\<forall>v w. k (Inr v) = k (Inr w)) \<and> (\<forall>a. steady env b (k a)))"
| "steady env b (Require x k) =
     (module_key x \<notin> set extension_names \<and> module_key x \<noteq> module_key (b_entry_point b)
      \<and> (\<forall>f \<in> set (b_files b). module_key (f_path f) = module_key x \<longrightarrow> ends_with (f_path f) ''.lua'')
      \<and> (\<forall>a. steady env b (k a)))"
| "steady env b (Dofile x k) =
     ((x \<in> fst ` set (lua_sources b) \<or> module_key x \<notin> (module_key \<circ> f_path) ` set (b_files b))
      \<and> (\<forall>a. steady env b (k a)))"

primrec never_nil :: "'v \<Rightarrow> 'v chunk \<Rightarrow> bool" where
  "never_nil z (Return v) = (v \<noteq> z)"
| "never_nil z (Raise e) = True"
| "never_nil z (Declare f x k) = (\<forall>a. never_nil z (k a))"
| "never_nil z (Require x k) = (\<forall>a. never_nil z (k a))"
| "never_nil z (Dofile x k) = (\<forall>a. never_nil z (k a))"

definition steady_bundle :: "'v lua \<Rightarrow> worker_env \<Rightarrow> script_bundle \<Rightarrow> bool" where
  "steady_bundle L env b \<longleftrightarrow> distinct (map (module_key \<circ> f_path) (b_files b))
     \<and> (\<forall>f \<in> set (b_files b). ends_with (f_path f) ''.lua'' \<longrightarrow>
          (\<exists>c. (\<forall>nm. lu_load L nm (f_content f) = Inr c) \<and> steady env b c
             \<and> (f_path f \<noteq> b_entry_point b \<longrightarrow> never_nil (lu_nil L) c)))"

lemma never_nil_result: "never_nil z c \<Longrightarrow> run_chunk L S n c vm = (Inr v, vm', m) \<Longrightarrow> v \<noteq> z"
proof (induction n arbitrary: c vm rule: less_induct)
  case (less n)
  show ?case
  proof (cases c)
    case (Declare f x k)
    with less show ?thesis by (cases n) (auto split: prod.splits)
  next
    case (Require x k)
    show ?thesis
    proof (cases n)
      case (Suc n')
      with less.prems(2) Require have "run_chunk L S (Suc n') (Require x k) vm = (Inr v, vm', m)" by simp
      then show ?thesis
        by (cases rule: run_require_cases)
           (use less.IH less.prems(1) Require Suc in \<open>auto simp: less_Suc_eq_le intro: min.coboundedI2\<close>)
    qed (use less.prems Require in simp)
  next
    case (Dofile x k)
    show ?thesis
    proof (cases n)
      case (Suc n')
      with less.prems(2) Dofile have "run_chunk L S (Suc n') (Dofile x k) vm = (Inr v, vm', m)" by simp
      then show ?thesis
        by (cases rule: run_dofile_cases)
           (use less.IH less.prems(1) Dofile Suc in \<open>auto simp: less_Suc_eq_le intro: min.coboundedI2\<close>)
    qed (use less.prems Dofile in simp)
  qed (use less.prems in auto)
qed

text \<open>The two module tables agree on Lua keys.\<close>

lemma find_by_key:
  assumes "distinct (map key fs)" "f \<in> set fs"
  shows "find (\<lambda>g. key g = key f) fs = Some f"
  using assms by (induction fs) (auto simp: image_iff)

lemma by_key_file:
  assumes "distinct (map (module_key \<circ> f_path) (b_files (pp_bundle pp)))" "set src = set (lua_sources (pp_bundle pp))" "distinct (map fst src)"
    and "\<forall>f \<in> set (b_files (pp_bundle pp)). module_key (f_path f) = key \<longrightarrow> ends_with (f_path f) ''.lua''"
  shows "by_key src key = map_option f_content (module_by_key pp key)"
proof -
  let ?fs = "b_files (pp_bundle pp)"
  have "inj_on (module_key \<circ> f_path) (set ?fs)" using assms(1) by (simp add: distinct_map)
  then have inj: "inj_on module_key (fst ` set src)"
    unfolding assms(2) by (force simp: inj_on_def lua_sources_def)
  have e: "map fst (map (\<lambda>(p, s). (module_key p, s)) src) = map module_key (map fst src)" by (induction src) auto
  have d: "distinct (map fst (map (\<lambda>(p, s). (module_key p, s)) src))"
    unfolding e using assms(3) inj by (simp add: distinct_map comp_inj_on)
  have m: "by_key src key = Some s \<longleftrightarrow> (\<exists>f \<in> set ?fs. ends_with (f_path f) ''.lua'' \<and> module_key (f_path f) = key \<and> f_content f = s)" for s
    using d unfolding by_key_def by (subst map_of_eq_Some_iff)
      (auto simp: distinct_rev rev_map [symmetric] assms(2) lua_sources_def)
  show ?thesis
  proof (cases "\<exists>f \<in> set ?fs. module_key (f_path f) = key")
    case True
    then obtain f where f: "f \<in> set ?fs" "module_key (f_path f) = key" by blast
    with find_by_key [OF assms(1) f(1)] have "module_by_key pp key = Some f" by (simp add: module_by_key_def)
    moreover have "by_key src key = Some (f_content f)" using m f assms(4) by blast
    ultimately show ?thesis by simp
  next
    case False
    then have "module_by_key pp key = None" by (simp add: module_by_key_def find_None_iff)
    moreover have "by_key src key = None" using False m by (metis option.exhaust)
    ultimately show ?thesis by simp
  qed
qed


lemma dofile_file:
  assumes "distinct (map (module_key \<circ> f_path) (b_files (pp_bundle pp)))" "set src = set (lua_sources (pp_bundle pp))" "distinct (map fst src)"
    and "x \<in> fst ` set (lua_sources (pp_bundle pp)) \<or> module_key x \<notin> (module_key \<circ> f_path) ` set (b_files (pp_bundle pp))"
  shows "by_key src (module_key x) = map_option f_content (module_by_path pp x)"
  using assms(4)
proof
  assume "x \<in> fst ` set (lua_sources (pp_bundle pp))"
  then obtain f where f: "f \<in> set (b_files (pp_bundle pp))" "f_path f = x" "ends_with x ''.lua''" by (auto simp: lua_sources_def)
  from find_by_key [OF assms(1) f(1)] f(2) have k: "module_by_key pp (module_key x) = Some f" by (simp add: module_by_key_def)
  have inj: "inj_on (module_key \<circ> f_path) (set (b_files (pp_bundle pp)))" using assms(1) by (simp add: distinct_map)
  then have "by_key src (module_key x) = map_option f_content (module_by_key pp (module_key x))"
    by (intro by_key_file [OF assms(1-3)]) (use f in \<open>auto simp: inj_on_def\<close>)
  moreover have "module_by_path pp x = Some f"
    using find_by_key [of f_path "b_files (pp_bundle pp)" f] f assms(1)
    by (auto simp: module_by_path_def find_file_def distinct_map inj_on_def)
  ultimately show ?thesis using k by simp
next
  assume n: "module_key x \<notin> (module_key \<circ> f_path) ` set (b_files (pp_bundle pp))"
  then have "module_by_path pp x = None" "module_by_key pp (module_key x) = None"
    by (force simp: module_by_path_def find_file_def module_by_key_def find_None_iff)+
  moreover have "\<forall>f \<in> set (b_files (pp_bundle pp)). module_key (f_path f) = module_key x \<longrightarrow> ends_with (f_path f) ''.lua''"
    using n by force
  ultimately show ?thesis using by_key_file [OF assms(1-3), of "module_key x"] by simp
qed

text \<open>A declaration the worker meets under a contract that holds it.\<close>

lemma contract_grows: "contract_list f d = Some (xs, what) \<Longrightarrow> grows d c \<Longrightarrow> x \<in> set xs \<Longrightarrow>
    \<exists>ys. contract_list f c = Some (ys, what) \<and> x \<in> set ys"
  by (cases f) (auto simp: grows_def)

lemma contract_recorded: "contract_list f (record_form f x d) = Some (xs, what) \<Longrightarrow> x \<in> set xs"
  by (cases f) auto

lemma contract_list_None: "contract_list f d = None \<Longrightarrow> contract_list f c = None"
  by (cases f) auto

lemma contract_allows:
  assumes "we_contract env = Some c" "grows (record_form f x d) c"
  shows "assert_contract_allows env f x = Inr ()"
proof (cases "contract_list f (record_form f x d)")
  case None
  then have "contract_list f c = None" by (rule contract_list_None)
  with assms(1) show ?thesis by (simp add: assert_contract_allows_def)
next
  case (Some p)
  obtain xs what where p: "p = (xs, what)" by force
  have "x \<in> set xs" by (rule contract_recorded [OF Some [unfolded p]])
  from contract_grows [OF Some [unfolded p] assms(2) this] assms(1)
  show ?thesis by (auto simp: assert_contract_allows_def)
qed

lemma cron_prefix: "strip_prefix x ''cron:'' = Some e \<longleftrightarrow> starts_with x ''cron:'' \<and> cron_expr x = trim e \<and> x = ''cron:'' @ e"
  by (auto simp: strip_prefix_Some_iff cron_expr_def)

lemma declare_alike:
  assumes "accepted env f x" "extract_declare L (we_cron env) f x d = (r, d')" "we_contract env = Some c" "grows d' c"
  shows "\<exists>r'. worker_declare L env f x d = (r', d') \<and> (r' = r \<or> (\<exists>v w. r' = Inr v \<and> r = Inr w))"
proof (cases "form_error env f x")
  case (Some e)
  with assms(1) have "f = WorkflowForm" by (simp add: accepted_def)
  with Some assms(2) show ?thesis
    by (auto simp: worker_declare_def extract_declare_def form_error_def split: if_splits)
next
  case None
  have ok: "d' = record_form f x d \<and> (\<exists>w. r = Inr w)"
    using assms(2) None
    by (cases f) (auto simp: extract_declare_def form_error_def event_error_def validate_cron_def Let_def cron_prefix
        split: option.splits if_splits sum.splits)
  with assms(4) have "assert_contract_allows env f x = Inr ()" by (intro contract_allows [OF assms(3)]) auto
  moreover have "\<exists>v. worker_value L env f x = Inr v"
    using assms(1) None by (cases f) (auto simp: accepted_def worker_value_def)
  ultimately show ?thesis using None ok by (auto simp: worker_declare_def)
qed


definition alike :: "'v vm \<Rightarrow> 'v vm \<Rightarrow> bool" where
  "alike w vm \<longleftrightarrow> vm_recorded w = vm_recorded vm
     \<and> (\<forall>k. k \<notin> set extension_names \<longrightarrow> vm_loaded w k = vm_loaded vm k)"

lemma worker_follows:
  fixes L :: "'v lua"
  assumes files: "steady_bundle L env (pp_bundle pp)" "set src = set (lua_sources (pp_bundle pp))" "distinct (map fst src)"
    and contract: "we_contract env = Some fin"
  shows "run_chunk L (extract_surface L (we_cron env) src) n c vm = (r, vm', m) \<Longrightarrow> 0 < m \<Longrightarrow> steady env (pp_bundle pp) c
    \<Longrightarrow> grows (vm_recorded vm') fin \<Longrightarrow> alike w vm
    \<Longrightarrow> \<exists>w'. run_chunk L (worker_surface L env pp) n c w = (r, w', m) \<and> alike w' vm'"
proof (induction n arbitrary: c vm r vm' m w rule: less_induct)
  case (less n)
  let ?E = "extract_surface L (we_cron env) src" and ?W = "worker_surface L env pp"
  have dist: "distinct (map (module_key \<circ> f_path) (b_files (pp_bundle pp)))" using files(1) by (simp add: steady_bundle_def)
  have load: "\<exists>c. (\<forall>nm. lu_load L nm (f_content f) = Inr c) \<and> steady env (pp_bundle pp) c \<and> (f_path f \<noteq> b_entry_point (pp_bundle pp) \<longrightarrow> never_nil (lu_nil L) c)"
    if "f \<in> set (b_files (pp_bundle pp))" "ends_with (f_path f) ''.lua''" for f
    using files(1) that by (simp add: steady_bundle_def)
  show ?case
  proof (cases c)
    case (Declare f x k)
    then obtain n' where n: "n = Suc n'" using less.prems(1,2) by (cases n) auto
    obtain a d where d: "extract_declare L (we_cron env) f x (vm_recorded vm) = (a, d)" by force
    with less.prems(1) Declare n have run: "run_chunk L ?E n' (k a) (vm\<lparr>vm_recorded := d\<rparr>) = (r, vm', m)"
      by (simp add: extract_surface_def)
    from extraction_grows.run_chunk_related [OF run] less.prems(4) have g: "grows d fin" by (auto intro: grows_trans)
    from declare_alike [OF _ d contract g] less.prems(3) Declare obtain a' where
      a': "worker_declare L env f x (vm_recorded vm) = (a', d)" "a' = a \<or> (\<exists>v w. a' = Inr v \<and> a = Inr w)" by auto
    then have "k a' = k a" using less.prems(3) Declare by auto
    moreover have "\<exists>w'. run_chunk L ?W n' (k a) (w\<lparr>vm_recorded := d\<rparr>) = (r, w', m) \<and> alike w' vm'"
      by (rule less.IH [OF _ run less.prems(2)]) (use n less.prems Declare in \<open>auto simp: alike_def\<close>)
    ultimately show ?thesis using a' n Declare less.prems(5) by (simp add: worker_surface_def alike_def)
  next
    case (Require x k)
    then obtain n' where n: "n = Suc n'" using less.prems(1,2) by (cases n) auto
    let ?key = "module_key x"
    have same: "vm_loaded w ?key = vm_loaded vm ?key" using less.prems(3,5) Require by (simp add: alike_def)
    have key: "by_key src ?key = map_option f_content (module_by_key pp ?key)"
      by (rule by_key_file [OF dist files(2,3)]) (use less.prems(3) Require in auto)
    have go: "\<exists>w'. run_chunk L ?W n' (k a) w = (r, w', m) \<and> alike w' vm'" if "run_chunk L ?E n' (k a) vm = (r, vm', m)" for a
      by (rule less.IH [OF _ that less.prems(2)]) (use n less.prems Require in auto)
    show ?thesis
    proof (cases "vm_loaded vm ?key")
      case (Some v)
      with less.prems(1) Require n same go [of "Inr v"] show ?thesis by simp
    next
      case None
      show ?thesis
      proof (cases "module_by_key pp ?key")
        case mod: None
        with less.prems(1) Require n same key None go [of "Inr (lu_nil L)"] show ?thesis
          by (simp add: extract_surface_def worker_surface_def)
      next
        case mod: (Some f)
        then have f: "f \<in> set (b_files (pp_bundle pp))" "module_key (f_path f) = ?key"
          by (auto simp: module_by_key_def find_Some_iff)
        with less.prems(3) Require have "ends_with (f_path f) ''.lua''" "f_path f \<noteq> b_entry_point (pp_bundle pp)" by auto
        from load [OF f(1) this(1)] this(2) obtain c' where c': "\<forall>nm. lu_load L nm (f_content f) = Inr c'" "steady env (pp_bundle pp) c'" "never_nil (lu_nil L) c'" by blast
        obtain ri vmi mi where run: "run_chunk L ?E n' c' vm = (ri, vmi, mi)" by (cases "run_chunk L ?E n' c' vm")
        let ?keep = "\<lambda>vm :: 'v vm. case ri of Inl e \<Rightarrow> vm | Inr v \<Rightarrow> vm\<lparr>vm_loaded := (vm_loaded vm)(?key \<mapsto> v)\<rparr>"
        have rest: "run_chunk L ?E (min mi n') (k ri) (?keep vmi) = (r, vm', m)"
          using less.prems(1) Require n None key mod c'(1) run by (cases ri) (auto simp: extract_surface_def)
        from run_chunk_budget [OF rest] less.prems(2) have "0 < mi" by simp
        have "grows (vm_recorded vmi) fin"
          using extraction_grows.run_chunk_related [OF rest] less.prems(4) by (auto intro: grows_trans split: sum.splits)
        from less.IH [OF _ run \<open>0 < mi\<close> c'(2) this less.prems(5)] n obtain wi where
          wi: "run_chunk L ?W n' c' w = (ri, wi, mi)" "alike wi vmi" by auto
        have "alike (?keep wi) (?keep vmi)" using wi(2) by (auto simp: alike_def split: sum.split)
        from less.IH [OF _ rest less.prems(2) _ less.prems(4) this] n less.prems(3) Require obtain w' where
          w': "run_chunk L ?W (min mi n') (k ri) (?keep wi) = (r, w', m)" "alike w' vm'" by (auto simp: less_Suc_eq_le)
        have "sf_remember ?W v" if "ri = Inr v" for v
          using never_nil_result [OF c'(3) run [unfolded that]] by (simp add: worker_surface_def)
        with w' wi(1) Require n None same mod c'(1) show ?thesis
          by (cases ri) (auto simp: worker_surface_def load_file_def)
      qed
    qed
  next
    case (Dofile x k)
    then obtain n' where n: "n = Suc n'" using less.prems(1,2) by (cases n) auto
    have key: "by_key src (module_key x) = map_option f_content (module_by_path pp x)"
      by (rule dofile_file [OF dist files(2,3)]) (use less.prems(3) Dofile in auto)
    show ?thesis
    proof (cases "module_by_path pp x")
      case None
      with less.prems(1) Dofile n key have "run_chunk L ?E n' (k (Inr (lu_nil L))) vm = (r, vm', m)"
        by (simp add: extract_surface_def)
      from less.IH [OF _ this less.prems(2) _ less.prems(4,5)] n less.prems(3) Dofile None show ?thesis
        by (simp add: worker_surface_def)
    next
      case (Some f)
      then have f: "f \<in> set (b_files (pp_bundle pp))" "f_path f = x"
        by (auto simp: module_by_path_def find_file_def find_Some_iff)
      with less.prems(3) Dofile have "x \<in> fst ` set (lua_sources (pp_bundle pp))" by auto
      then have "ends_with (f_path f) ''.lua''" using f(2) by (auto simp: lua_sources_def)
      from load [OF f(1) this] obtain c' where c': "\<forall>nm. lu_load L nm (f_content f) = Inr c'" "steady env (pp_bundle pp) c'" by blast
      obtain ri vmi mi where run: "run_chunk L ?E n' c' vm = (ri, vmi, mi)" by (cases "run_chunk L ?E n' c' vm")
      have rest: "run_chunk L ?E (min mi n') (k ri) vmi = (r, vm', m)"
        using less.prems(1) Dofile n key Some c'(1) run by (simp add: extract_surface_def)
      from run_chunk_budget [OF rest] less.prems(2) have "0 < mi" by simp
      have "grows (vm_recorded vmi) fin"
        using extraction_grows.run_chunk_related [OF rest] less.prems(4) by (rule grows_trans)
      from less.IH [OF _ run \<open>0 < mi\<close> c'(2) this less.prems(5)] n obtain wi where
        wi: "run_chunk L ?W n' c' w = (ri, wi, mi)" "alike wi vmi" by auto
      from less.IH [OF _ rest less.prems(2) _ less.prems(4) wi(2)] n less.prems(3) Dofile obtain w' where
        "run_chunk L ?W (min mi n') (k ri) wi = (r, w', m)" "alike w' vm'" by (auto simp: less_Suc_eq_le)
      with wi(1) Dofile n Some c'(1) show ?thesis by (auto simp: worker_surface_def load_file_def)
    qed
  qed (use less.prems in auto)
qed


lemma published_run:
  assumes "extract_contract L (we_cron env) n src (b_entry_point (pp_bundle pp)) = Inr c"
    and "we_contract env = Some c" "steady_bundle L env (pp_bundle pp)"
    and "set src = set (lua_sources (pp_bundle pp))" "distinct (map fst src)"
    and "\<exists>p s. (p, s) \<in> set src \<and> p = b_entry_point (pp_bundle pp) \<and> 0 < snd (snd (extract_run L (we_cron env) n src p (lu_load L p s)))"
  shows "\<exists>vm m. worker_top_level L env n pp = (Inr (), vm, m) \<and> (vm_recorded vm)\<lparr>cp_workflow_steps := cp_workflow_steps c\<rparr> = c"
proof -
  let ?b = "pp_bundle pp" and ?p = "b_entry_point (pp_bundle pp)"
  from assms(6) obtain s where s: "(?p, s) \<in> set src" "0 < snd (snd (extract_run L (we_cron env) n src ?p (lu_load L ?p s)))" by blast
  then obtain f where f: "f \<in> set (b_files ?b)" "f_path f = ?p" "f_content f = s" "ends_with ?p ''.lua''"
    unfolding assms(4) by (auto simp: lua_sources_def)
  have inj: "distinct (map f_path (b_files ?b))"
    using assms(3) by (auto simp: steady_bundle_def distinct_map inj_on_def)
  have em: "entry_module pp = Some f"
    using find_by_key [OF inj f(1)] f(2) by (simp add: entry_module_def module_by_path_def find_file_def)
  have fs: "find (\<lambda>(q, _). q = ?p) src = Some (?p, s)"
    using find_by_key [OF assms(5) s(1)] by (simp add: case_prod_beta')
  from assms(3) f obtain ch where ch: "\<forall>nm. lu_load L nm s = Inr ch" "steady env ?b ch" by (auto simp: steady_bundle_def)
  let ?vm = "\<lparr>vm_recorded = no_capabilities, vm_loaded = Map.empty\<rparr> :: 'a vm"
  obtain r vm m where run: "run_chunk L (extract_surface L (we_cron env) src) n ch ?vm = (r, vm, m)"
    by (cases "run_chunk L (extract_surface L (we_cron env) src) n ch ?vm")
  with assms(1) fs ch(1) obtain v where r: "r = Inr v" and c: "c = (vm_recorded vm)\<lparr>cp_workflow_steps := scan_step_literals src\<rparr>"
    by (auto simp: extract_contract_def extract_run_def split: sum.splits)
  have m: "0 < m" using s(2) ch(1) run by (simp add: extract_run_def)
  have "grows (vm_recorded vm) c" by (simp add: c grows_def)
  moreover have "alike (worker_start L) ?vm" by (simp add: alike_def worker_start_def)
  ultimately obtain w where w: "run_chunk L (worker_surface L env pp) n ch (worker_start L) = (Inr v, w, m)" "alike w vm"
    using worker_follows [OF assms(3-5,2) run m ch(2)] r by blast
  then have "worker_top_level L env n pp = (Inr (), w, m)"
    using em f ch(1) by (simp add: worker_top_level_def)
  with w(2) c show ?thesis by (simp add: alike_def)
qed


text \<open>A contract names only what its declaration forms let through: every workflow name is
  non-empty and slash-free, so a run's name splits back into definition and id, and every cron event
  carries an expression the scheduler parses.\<close>

theorem contract_is_checked:
  assumes "extract_contract L lib n src entry = Inr c"
  shows "(\<forall>w \<in> set (cp_workflows c). w \<noteq> '''' \<and> CHR ''/'' \<notin> set w)
    \<and> (\<forall>e \<in> set (cp_events c). \<forall>x. strip_prefix e ''cron:'' = Some x \<longrightarrow> validate_cron lib x = Inr ())"
proof -
  from assms obtain p s r vm m where run: "extract_run L lib n src entry (lu_load L p s) = (r, vm, m)"
      and c: "c = (vm_recorded vm)\<lparr>cp_workflow_steps := scan_step_literals src\<rparr>"
    by (auto simp: extract_contract_def split: option.splits prod.splits sum.splits)
  have "contract_checked lib no_capabilities" by (simp add: contract_checked_def no_capabilities_def)
  then have "contract_checked lib (vm_recorded vm)"
  proof (cases "lu_load L p s")
    case (Inr ch)
    with run have "run_chunk L (extract_surface L lib src) n ch \<lparr>vm_recorded = no_capabilities, vm_loaded = Map.empty\<rparr> = (r, vm, m)"
      by (simp add: extract_run_def)
    from extraction_checked.run_chunk_related [OF this] \<open>contract_checked lib no_capabilities\<close> show ?thesis
      by (simp add: checked_step_def)
  qed (use run in \<open>auto simp: extract_run_def\<close>)
  moreover have "trim '''' = ''''" by (simp add: trim_def)
  ultimately show ?thesis by (auto simp: c contract_checked_def bad_workflow_name_def)
qed

section \<open>Where the two disagree\<close>

text \<open>Values are not inspected below, so one suffices; each source is named by its text.\<close>

definition small_lua :: "(string \<Rightarrow> bool chunk) \<Rightarrow> bool lua" where
  "small_lua prog = \<lparr>lu_load = (\<lambda>nm s. Inr (prog s)), lu_nil = False, lu_stub = True, lu_registrar = True, lu_text = (\<lambda>t. True)\<rparr>"

definition no_cron :: cron_lib where
  "no_cron e = Inl ''unsupported''"

definition on_event :: "string \<Rightarrow> bool chunk" where
  "on_event e = Declare OnForm e (\<lambda>a. case a of Inl t \<Rightarrow> Raise t | Inr v \<Rightarrow> Return True)"

definition one_file :: "string \<Rightarrow> script_bundle" where
  "one_file s = \<lparr>b_entry_point = ''main.lua'', b_files = [
     \<lparr>f_path = ''main.lua'', f_content = s, f_hash = '''', f_size = 0, f_content_type = '''', f_kind = Module\<rparr>]\<rparr>"

definition prepared_of :: "script_bundle \<Rightarrow> capabilities \<Rightarrow> prepared" where
  "prepared_of b c = \<lparr>pp_script = ''s'', pp_project = ''p'', pp_identifier = ''app'', pp_revision = ''r'', pp_bundle = b, pp_contract = Some c\<rparr>"

definition plain_env :: "capabilities \<Rightarrow> worker_env" where
  "plain_env c = \<lparr>we_contract = Some c, we_cron = no_cron, we_now = 0, we_secret = (\<lambda>x. Inl ''absent'')\<rparr>"

definition tick_contract :: capabilities where
  "tick_contract = no_capabilities\<lparr>cp_events := [''tick'']\<rparr>"

text \<open>A bundle can publish and then never start: the publish pass accepts any event name, the worker
  only \<open>fetch\<close>, \<open>queue:\<close> and \<open>cron:\<close>. A script that declares \<open>on "tick"\<close> gets its contract and
  becomes current, and every vm built from it fails at the top level.\<close>

theorem publishes_but_never_runs:
  "extract_contract (small_lua (\<lambda>s. on_event ''tick'')) no_cron 5 [(''main.lua'', ''on tick'')] ''main.lua'' = Inr tick_contract
   \<and> fst (worker_top_level (small_lua (\<lambda>s. on_event ''tick'')) (plain_env tick_contract) 5 (prepared_of (one_file ''on tick'') tick_contract))
       = Inl ''Invalid event 'tick', expected one of: fetch.''"
  by code_simp

definition fetch_contract :: capabilities where
  "fetch_contract = no_capabilities\<lparr>cp_events := [''fetch'']\<rparr>"


theorem contract_is_checked_witness:
  "extract_contract (small_lua (\<lambda>s. Declare WorkflowForm ''a'' (\<lambda>r. Return True))) no_cron 5 [(''main.lua'', '''')] ''main.lua''
     = Inr (no_capabilities\<lparr>cp_workflows := [''a'']\<rparr>)
   \<and> CHR ''/'' \<notin> set ''a''"
proof -
  have e: "extract_contract (small_lua (\<lambda>s. Declare WorkflowForm ''a'' (\<lambda>r. Return True))) no_cron 5 [(''main.lua'', '''')] ''main.lua''
     = Inr (no_capabilities\<lparr>cp_workflows := [''a'']\<rparr>)" by code_simp
  with contract_is_checked [OF e] show ?thesis by simp
qed

text \<open>Two more of the conditions matter as well. A module that returns nothing is run once by the pass
  but again by every \<open>require\<close> of the worker, and \<open>dofile\<close> without its extension finds the file only
  in the pass.\<close>

definition twice :: "string \<Rightarrow> bool chunk" where
  "twice s = (if s = ''main'' then Require ''m'' (\<lambda>a. Require ''m'' (\<lambda>b. Return True))
     else Declare KvForm ''x'' (\<lambda>a. Return False))"

definition two_files :: script_bundle where
  "two_files = \<lparr>b_entry_point = ''main.lua'', b_files = map (\<lambda>(p, s).
     \<lparr>f_path = p, f_content = s, f_hash = '''', f_size = 0, f_content_type = '''', f_kind = Module\<rparr>) [(''main.lua'', ''main''), (''m.lua'', ''m'')]\<rparr>"

lemma nil_module_runs_again:
  "map_sum id cp_kv (extract_contract (small_lua twice) no_cron 9 (lua_sources two_files) ''main.lua'') = Inr [''x'']"
  "cp_kv (vm_recorded (fst (snd (worker_top_level (small_lua twice) (plain_env (no_capabilities\<lparr>cp_kv := [''x'']\<rparr>)) 9
     (prepared_of two_files no_capabilities))))) = [''x'', ''x'']"
  by code_simp+

lemma dofile_needs_its_extension:
  "sf_dofile (extract_surface (small_lua twice) no_cron (lua_sources two_files)) ''m'' = Some (Inr (''m'', ''m''))"
  "sf_dofile (worker_surface (small_lua twice) (plain_env no_capabilities) (prepared_of two_files no_capabilities)) ''m'' = None"
  by code_simp+

end
