(* ===== verification/Script_Spec.thy ===== *)
theory Script_Spec
  imports Script_Service Declarations_Spec
begin

text \<open>
  What the script service promises: its tables stay consistent under every sequence of requests, a
  publish keeps each queue consumer, class and workflow with one owner and that owner is found, and
  a published bundle comes back byte for byte. Also where it does not: moving a script's pointer
  asks no contract check, and deleting a revision moves the pointer to the oldest one.
\<close>

section \<open>Consistent tables\<close>

definition scripts_ok :: "script_store \<Rightarrow> bool" where
  "scripts_ok s \<longleftrightarrow> distinct (map sc_id (st_scripts s)) \<and> distinct (map sc_identifier (st_scripts s))
     \<and> distinct (map rv_id (st_revisions s))"

definition refs_ok :: "script_store \<Rightarrow> bool" where
  "refs_ok s \<longleftrightarrow> rv_script ` set (st_revisions s) \<subseteq> sc_id ` set (st_scripts s)
     \<and> fl_revision ` set (st_files s) \<subseteq> rv_id ` set (st_revisions s)"

definition pointers_ok :: "script_store \<Rightarrow> bool" where
  "pointers_ok s \<longleftrightarrow>
     (\<forall>q \<in> set (st_scripts s). \<forall>i. sc_current q = Some i \<longrightarrow> (\<exists>r \<in> set (st_revisions s). rv_id r = i \<and> rv_script r = sc_id q))
     \<and> (\<forall>a \<in> set (st_aliases s). alias_name_error (al_name a) = None
          \<and> (\<exists>r \<in> set (st_revisions s). rv_id r = al_revision a \<and> rv_script r = al_script a))"

definition aliases_ok :: "script_store \<Rightarrow> bool" where
  "aliases_ok s \<longleftrightarrow> distinct (map (\<lambda>a. (al_script a, al_name a)) (st_aliases s))"

definition store_ok :: "script_store \<Rightarrow> bool" where
  "store_ok s \<longleftrightarrow> scripts_ok s \<and> refs_ok s \<and> pointers_ok s \<and> aliases_ok s"

lemmas store_ok_defs = store_ok_def scripts_ok_def refs_ok_def pointers_ok_def aliases_ok_def

text \<open>One request. Generated ids are fresh.\<close>

inductive script_step :: "'v service \<Rightarrow> script_store \<Rightarrow> script_store \<Rightarrow> bool" for sv where
  made: "sid \<notin> sc_id ` set (st_scripts s) \<Longrightarrow> script_step sv s (snd (create_script sv sid now ident project s))"
| published: "rid \<notin> rv_id ` set (st_revisions s) \<Longrightarrow> script_step sv s (snd (create_revision sv rid now v cfg b s))"
| unpublished: "script_step sv s (snd (delete_revision sv now v s))"
| pointed: "script_step sv s (snd (set_script_revision sv now script v s))"
| deleted: "script_step sv s (snd (delete_script sv v s))"
| project_deleted: "script_step sv s (snd (delete_project sv v s))"
| aliased: "script_step sv s (snd (set_alias sv script name v s))"

inductive script_reach :: "'v service \<Rightarrow> script_store \<Rightarrow> script_store \<Rightarrow> bool" for sv s0 where
  here: "script_reach sv s0 s0"
| more: "script_reach sv s0 s \<Longrightarrow> script_step sv s s' \<Longrightarrow> script_reach sv s0 s'"

definition empty_store :: script_store where
  "empty_store = \<lparr>st_scripts = [], st_revisions = [], st_files = [], st_aliases = [], st_blobs = Map.empty\<rparr>"

lemma empty_store_ok [simp]: "store_ok empty_store"
  by (simp add: store_ok_defs empty_store_def)

lemma blob_put_tables [simp]:
  "st_scripts (blob_put h b s) = st_scripts s" "st_revisions (blob_put h b s) = st_revisions s"
  "st_files (blob_put h b s) = st_files s" "st_aliases (blob_put h b s) = st_aliases s"
  by (simp_all add: blob_put_def)

lemma store_files_tables:
  "st_scripts (snd (store_files hash fs s)) = st_scripts s \<and> st_revisions (snd (store_files hash fs s)) = st_revisions s
   \<and> st_files (snd (store_files hash fs s)) = st_files s \<and> st_aliases (snd (store_files hash fs s)) = st_aliases s"
proof (induction hash fs s rule: store_files.induct)
  case (2 hash f fs s)
  then show ?case
    by (cases "inline f"; cases "blob_head (f_hash f) s")
       (auto simp: Let_def split: prod.splits sum.splits)
qed simp

text \<open>The store's checks read its tables only.\<close>

lemma store_ok_cong:
  "st_scripts s = st_scripts t \<Longrightarrow> st_revisions s = st_revisions t \<Longrightarrow> st_files s = st_files t \<Longrightarrow> st_aliases s = st_aliases t
    \<Longrightarrow> store_ok s \<Longrightarrow> store_ok t"
  by (simp add: store_ok_defs)

lemma set_current_simps [simp]:
  "st_revisions (set_current i p now s) = st_revisions s" "st_files (set_current i p now s) = st_files s"
  "st_aliases (set_current i p now s) = st_aliases s" "st_blobs (set_current i p now s) = st_blobs s"
  "map sc_id (st_scripts (set_current i p now s)) = map sc_id (st_scripts s)"
  "map sc_identifier (st_scripts (set_current i p now s)) = map sc_identifier (st_scripts s)"
  "map sc_project (st_scripts (set_current i p now s)) = map sc_project (st_scripts s)"
  by (auto simp: set_current_def)

lemma set_current_ids [simp]: "sc_id ` set (st_scripts (set_current i p now s)) = sc_id ` set (st_scripts s)"
  by (metis list.set_map set_current_simps(5))

text \<open>Pointing a script at a revision of its own, or at none.\<close>

lemma set_current_ok:
  assumes "scripts_ok s" "refs_ok s" "aliases_ok s"
    and "\<forall>q \<in> set (st_scripts s). sc_id q \<noteq> i \<longrightarrow> (\<forall>j. sc_current q = Some j \<longrightarrow> (\<exists>r \<in> set (st_revisions s). rv_id r = j \<and> rv_script r = sc_id q))"
    and "\<forall>a \<in> set (st_aliases s). alias_name_error (al_name a) = None
          \<and> (\<exists>r \<in> set (st_revisions s). rv_id r = al_revision a \<and> rv_script r = al_script a)"
    and "\<forall>j. p = Some j \<longrightarrow> (\<exists>r \<in> set (st_revisions s). rv_id r = j \<and> rv_script r = i)"
  shows "store_ok (set_current i p now s)"
proof -
  have "pointers_ok (set_current i p now s)"
    using assms(4-6) unfolding pointers_ok_def by (auto simp: set_current_def)
  with assms(1-3) show ?thesis by (simp add: store_ok_def scripts_ok_def refs_ok_def aliases_ok_def)
qed

lemma delete_revisions_simps [simp]:
  "st_scripts (delete_revisions P s) = st_scripts s"
  "st_revisions (delete_revisions P s) = filter (\<lambda>r. \<not> P r) (st_revisions s)"
  "st_blobs (delete_revisions P s) = st_blobs s"
  by (simp_all add: delete_revisions_def Let_def)

lemma insert_revision_ok:
  assumes "store_ok s" "rid \<notin> rv_id ` set (st_revisions s)" "script \<in> sc_id ` set (st_scripts s)"
  shows "store_ok (snd (insert_revision rid now script cfg entry fs s))"
proof (cases "row_error entry fs")
  case None
  let ?r = "\<lparr>rv_id = rid, rv_created = now, rv_script = script, rv_entry_point = entry, rv_config = cfg\<rparr>"
  let ?s = "s\<lparr>st_revisions := st_revisions s @ [?r], st_files := st_files s @ map (file_row_of rid) fs\<rparr>"
  have "store_ok (set_current script (Some rid) now ?s)"
    by (rule set_current_ok) (use assms in \<open>force simp: store_ok_defs file_row_of_def\<close>)+
  with None show ?thesis by (simp add: insert_revision_def Let_def)
qed (use assms in \<open>simp add: insert_revision_def\<close>)

lemma create_db_revision_ok:
  assumes "store_ok s" "rid \<notin> rv_id ` set (st_revisions s)" "script \<in> sc_id ` set (st_scripts s)"
  shows "store_ok (snd (create_db_revision sv rid now script cfg b s))"
proof -
  let ?s1 = "snd (store_files (sv_hash sv) (b_files b) s)"
  have s1: "store_ok ?s1" "st_revisions ?s1 = st_revisions s" "st_scripts ?s1 = st_scripts s"
    using store_files_tables [of "sv_hash sv" "b_files b" s] assms(1) by (auto intro: store_ok_cong [of s])
  with assms(1) insert_revision_ok [of ?s1 rid script] assms(2,3) show ?thesis
    by (auto simp: create_db_revision_def split: sum.splits option.splits prod.splits)
qed


lemma find_script: "get_script_info sv (ById v) s = Inr q \<Longrightarrow> q \<in> set (st_scripts s)"
  by (auto simp: get_script_info_def find_Some_iff split: option.splits)

lemma find_revision: "get_db_revision sv v s = Inr r \<Longrightarrow> r \<in> set (st_revisions s)"
  by (auto simp: get_db_revision_def find_Some_iff split: option.splits)

lemma store_okD:
  assumes "store_ok s"
  shows "q \<in> set (st_scripts s) \<Longrightarrow> sc_current q = Some i \<Longrightarrow> \<exists>r \<in> set (st_revisions s). rv_id r = i \<and> rv_script r = sc_id q"
    and "a \<in> set (st_aliases s) \<Longrightarrow> alias_name_error (al_name a) = None"
    and "a \<in> set (st_aliases s) \<Longrightarrow> \<exists>r \<in> set (st_revisions s). rv_id r = al_revision a \<and> rv_script r = al_script a"
    and "f \<in> set (st_files s) \<Longrightarrow> \<exists>r \<in> set (st_revisions s). rv_id r = fl_revision f"
    and "r \<in> set (st_revisions s) \<Longrightarrow> \<exists>q \<in> set (st_scripts s). sc_id q = rv_script r"
  using assms unfolding store_ok_defs by (blast, blast, blast, force, force)

text \<open>Deleting revisions keeps everything but the pointers at them.\<close>

lemma delete_revisions_parts:
  assumes "store_ok s"
  shows "scripts_ok (delete_revisions P s)" "refs_ok (delete_revisions P s)" "aliases_ok (delete_revisions P s)"
    "\<forall>a \<in> set (st_aliases (delete_revisions P s)). alias_name_error (al_name a) = None
       \<and> (\<exists>r \<in> set (st_revisions (delete_revisions P s)). rv_id r = al_revision a \<and> rv_script r = al_script a)"
proof -
  have kept: "\<exists>r \<in> set (st_revisions (delete_revisions P s)). rv_id r = i \<and> Q r"
    if "\<exists>r \<in> set (st_revisions s). rv_id r = i \<and> Q r" "i \<notin> rv_id ` {r \<in> set (st_revisions s). P r}" for i Q
    using that by auto
  show "scripts_ok (delete_revisions P s)" "aliases_ok (delete_revisions P s)"
    using assms by (simp_all add: store_ok_defs distinct_map_filter delete_revisions_def Let_def)
  have "fl_revision f \<in> rv_id ` set (st_revisions (delete_revisions P s))" if "f \<in> set (st_files (delete_revisions P s))" for f
  proof -
    from that have f: "f \<in> set (st_files s)" "fl_revision f \<notin> rv_id ` {r \<in> set (st_revisions s). P r}"
      by (auto simp: delete_revisions_def Let_def)
    from store_okD(4) [OF assms f(1)] have "\<exists>r \<in> set (st_revisions s). rv_id r = fl_revision f \<and> True" by blast
    from kept [OF this f(2)] show ?thesis by (metis image_eqI)
  qed
  moreover have "rv_script ` set (st_revisions (delete_revisions P s)) \<subseteq> sc_id ` set (st_scripts (delete_revisions P s))"
    using assms by (auto simp: store_ok_defs)
  ultimately show "refs_ok (delete_revisions P s)" by (auto simp: refs_ok_def)
  show "\<forall>a \<in> set (st_aliases (delete_revisions P s)). alias_name_error (al_name a) = None
       \<and> (\<exists>r \<in> set (st_revisions (delete_revisions P s)). rv_id r = al_revision a \<and> rv_script r = al_script a)"
  proof
    fix a assume "a \<in> set (st_aliases (delete_revisions P s))"
    then have a: "a \<in> set (st_aliases s)" "al_revision a \<notin> rv_id ` {r \<in> set (st_revisions s). P r}"
      by (auto simp: delete_revisions_def Let_def)
    from kept [OF store_okD(3) [OF assms a(1)] a(2)] store_okD(2) [OF assms a(1)]
    show "alias_name_error (al_name a) = None
       \<and> (\<exists>r \<in> set (st_revisions (delete_revisions P s)). rv_id r = al_revision a \<and> rv_script r = al_script a)" by blast
  qed
qed

lemma same_revision: "scripts_ok s \<Longrightarrow> r \<in> set (st_revisions s) \<Longrightarrow> r' \<in> set (st_revisions s) \<Longrightarrow> rv_id r = rv_id r' \<Longrightarrow> r = r'"
  by (auto simp: scripts_ok_def distinct_map inj_on_def)

lemma delete_revision_ok:
  assumes "store_ok s"
  shows "store_ok (snd (delete_revision sv now v s))"
proof (cases "get_db_revision sv v s")
  case (Inr r)
  show ?thesis
  proof (cases "find (\<lambda>q. sc_id q = rv_script r) (st_scripts s)")
    case (Some q)
    then have q: "q \<in> set (st_scripts s)" "sc_id q = rv_script r" by (auto simp: find_Some_iff)
    let ?s = "delete_revisions (\<lambda>x. rv_id x = rv_id r) s"
    let ?mine = "sort_key rv_created (filter (\<lambda>x. rv_script x = sc_id q) (st_revisions ?s))"
    have r: "r \<in> set (st_revisions s)" using Inr by (rule find_revision)
    have others: "\<exists>r \<in> set (st_revisions ?s). rv_id r = j \<and> rv_script r = sc_id p"
      if "p \<in> set (st_scripts s)" "sc_id p \<noteq> sc_id q" "sc_current p = Some j" for p j
    proof -
      from store_okD(1) [OF assms that(1,3)] obtain x where x: "x \<in> set (st_revisions s)" "rv_id x = j" "rv_script x = sc_id p"
        by blast
      have "x \<noteq> r" using x(3) that(2) q(2) by auto
      then have "rv_id x \<noteq> rv_id r" using same_revision [of s x r] assms x(1) r by (auto simp: store_ok_def)
      with x show ?thesis by auto
    qed
    have newest: "\<exists>r \<in> set (st_revisions ?s). rv_id r = j \<and> rv_script r = sc_id q"
      if "(case ?mine of [] \<Rightarrow> None | x # _ \<Rightarrow> Some (rv_id x)) = Some j" for j
    proof -
      from that obtain x xs where x: "?mine = x # xs" "rv_id x = j" by (auto split: list.splits)
      then have "x \<in> set ?mine" by simp
      with x(2) show ?thesis by auto
    qed
    have "store_ok (set_current (sc_id q) (case ?mine of [] \<Rightarrow> None | x # _ \<Rightarrow> Some (rv_id x)) now ?s)"
      by (rule set_current_ok [OF delete_revisions_parts(1-3) [OF assms] _ delete_revisions_parts(4) [OF assms]])
         (use others newest in auto)
    with Inr Some show ?thesis by (simp add: delete_revision_def Let_def)
  qed (use assms Inr in \<open>simp add: delete_revision_def\<close>)
qed (use assms in \<open>simp add: delete_revision_def\<close>)

lemma delete_scripts_ok:
  assumes "store_ok s"
  shows "store_ok (delete_scripts P s)"
proof -
  let ?gone = "sc_id ` {r \<in> set (st_scripts s). P r}"
  note parts = delete_revisions_parts [OF assms, of "\<lambda>r. rv_script r \<in> ?gone"]
  have kept: "sc_id r \<notin> ?gone" if "r \<in> set (st_scripts s)" "\<not> P r" for r
    using assms that by (auto simp: store_ok_defs distinct_map inj_on_def)
  have tables: "st_scripts (delete_scripts P s) = filter (\<lambda>r. \<not> P r) (st_scripts s)"
      "st_revisions (delete_scripts P s) = filter (\<lambda>r. rv_script r \<notin> ?gone) (st_revisions s)"
      "st_files (delete_scripts P s) = st_files (delete_revisions (\<lambda>r. rv_script r \<in> ?gone) s)"
      "set (st_aliases (delete_scripts P s)) \<subseteq> set (st_aliases (delete_revisions (\<lambda>r. rv_script r \<in> ?gone) s))"
    by (auto simp: delete_scripts_def Let_def)
  have "scripts_ok (delete_scripts P s)" "aliases_ok (delete_scripts P s)"
    using parts(1,3) by (auto simp: scripts_ok_def aliases_ok_def delete_scripts_def Let_def distinct_map_filter)
  moreover have "refs_ok (delete_scripts P s)"
  proof -
    have "rv_script r \<in> sc_id ` set (st_scripts (delete_scripts P s))" if "r \<in> set (st_revisions (delete_scripts P s))" for r
    proof -
      from that have r: "r \<in> set (st_revisions s)" "rv_script r \<notin> ?gone" by (auto simp: tables)
      from store_okD(5) [OF assms r(1)] obtain q where "q \<in> set (st_scripts s)" "sc_id q = rv_script r" by blast
      with r(2) have "q \<in> set (st_scripts (delete_scripts P s))" by (force simp: tables)
      with \<open>sc_id q = rv_script r\<close> show ?thesis by (metis image_eqI)
    qed
    with parts(2) tables(2,3) show ?thesis by (auto simp: refs_ok_def)
  qed
  moreover have "pointers_ok (delete_scripts P s)"
    unfolding pointers_ok_def
  proof (intro conjI ballI allI impI)
    fix q i assume q: "q \<in> set (st_scripts (delete_scripts P s))" "sc_current q = Some i"
    then have m: "q \<in> set (st_scripts s)" "\<not> P q" by (auto simp: tables)
    from store_okD(1) [OF assms m(1) q(2)] obtain r where r: "r \<in> set (st_revisions s)" "rv_id r = i" "rv_script r = sc_id q" by blast
    then have "r \<in> set (st_revisions (delete_scripts P s))" using kept [OF m] unfolding tables(2) by simp
    with r(2,3) show "\<exists>r \<in> set (st_revisions (delete_scripts P s)). rv_id r = i \<and> rv_script r = sc_id q" by blast
  qed (use parts(4) tables(2,4) in auto)
  ultimately show ?thesis by (simp add: store_ok_def)
qed

lemma set_alias_ok: "store_ok s \<Longrightarrow> store_ok (snd (set_alias sv script name v s))"
  by (auto simp: set_alias_def Let_def store_ok_defs distinct_map_filter find_Some_iff split: option.splits)

lemma create_script_ok: "store_ok s \<Longrightarrow> sid \<notin> sc_id ` set (st_scripts s) \<Longrightarrow> store_ok (snd (create_script sv sid now ident project s))"
  by (auto simp: create_script_def get_script_info_def Let_def store_ok_defs find_None_iff split: option.splits sum.splits status.splits)

lemma create_revision_ok:
  "store_ok s \<Longrightarrow> rid \<notin> rv_id ` set (st_revisions s) \<Longrightarrow> store_ok (snd (create_revision sv rid now v cfg b s))"
  by (auto simp: create_revision_def split: sum.splits option.splits intro!: create_db_revision_ok dest: find_script)

lemma set_script_revision_ok:
  assumes "store_ok s" shows "store_ok (snd (set_script_revision sv now script v s))"
proof -
  have "store_ok (set_current (sc_id q) (Some (rv_id r)) now s)" if "r \<in> set (st_revisions s)" "rv_script r = sc_id q" for q r
    by (rule set_current_ok) (use assms that in \<open>auto simp: store_ok_defs\<close>)
  with assms show ?thesis
    by (auto simp: set_script_revision_def split: sum.splits dest: find_revision)
qed

lemma script_step_ok: "script_step sv s s' \<Longrightarrow> store_ok s \<Longrightarrow> store_ok s'"
proof (induction rule: script_step.induct)
  case (deleted v s)
  then show ?case by (auto simp: delete_script_def split: option.split intro: delete_scripts_ok)
next
  case (project_deleted v s)
  then show ?case by (auto simp: delete_project_def split: option.split intro: delete_scripts_ok)
qed (simp_all add: create_script_ok create_revision_ok delete_revision_ok set_script_revision_ok set_alias_ok)

lemma script_reach_ok: "script_reach sv s0 s \<Longrightarrow> store_ok s0 \<Longrightarrow> store_ok s"
  by (induction rule: script_reach.induct) (auto intro: script_step_ok)


lemma find_append: "find P (xs @ ys) = (case find P xs of Some x \<Rightarrow> Some x | None \<Rightarrow> find P ys)"
  by (induction xs) auto

lemma find_distinct: "distinct (map key xs) \<Longrightarrow> x \<in> set xs \<Longrightarrow> find (\<lambda>y. key y = key x) xs = Some x"
  by (rule find_by_key)

text \<open>C20. No pointer dangles: in every state that any sequence of requests reaches from empty tables, the
  current revision of every script and the target of every alias exist and belong to that script,
  and every alias has a name the router can address.\<close>

theorem pointers_never_dangle:
  assumes "script_reach sv empty_store s"
  shows "(\<forall>q \<in> set (st_scripts s). \<forall>i. sc_current q = Some i \<longrightarrow>
            (\<exists>r. find (\<lambda>r. rv_id r = i) (st_revisions s) = Some r \<and> rv_script r = sc_id q))
    \<and> (\<forall>a \<in> set (st_aliases s). alias_name_error (al_name a) = None
          \<and> (\<exists>r. find (\<lambda>r. rv_id r = al_revision a) (st_revisions s) = Some r \<and> rv_script r = al_script a))"
proof -
  have ok: "store_ok s" by (rule script_reach_ok [OF assms]) simp
  then have d: "distinct (map rv_id (st_revisions s))" by (simp add: store_ok_defs)
  have found: "\<exists>r. find (\<lambda>r. rv_id r = i) (st_revisions s) = Some r \<and> rv_script r = j"
    if "\<exists>r \<in> set (st_revisions s). rv_id r = i \<and> rv_script r = j" for i j
    using that find_distinct [OF d] by auto
  show ?thesis using found store_okD(1-3) [OF ok] by simp
qed

section \<open>One owner per declaration\<close>

definition exclusive :: "contract_member \<Rightarrow> string \<Rightarrow> bool" where
  "exclusive m x \<longleftrightarrow> m = Objects \<or> m = Workflows \<or> (m = Events \<and> starts_with x ''queue:'')"

definition single_owner :: "script_store \<Rightarrow> bool" where
  "single_owner s \<longleftrightarrow> (\<forall>p \<in> set (st_scripts s). \<forall>q \<in> set (st_scripts s). \<forall>m x.
     sc_project p = sc_project q \<and> exclusive m x \<and> declares s m x p \<and> declares s m x q \<longrightarrow> sc_id p = sc_id q)"

lemma find_pair_None: "find (\<lambda>(_, x). x \<in> A) ps = None \<longleftrightarrow> (\<forall>(i, x) \<in> set ps. x \<notin> A)"
  by (auto simp: find_None_iff)

lemma refused_conflict:
  assumes "refuse_conflicts script cs s = None" "(m, names, verb) \<in> set cs" "x \<in> set names"
    and "p \<in> set (st_scripts s)" "sc_id p = script" "q \<in> set (st_scripts s)" "sc_id q \<noteq> script" "sc_project q = sc_project p"
  shows "\<not> declares s m x q"
proof -
  have "find (\<lambda>(_, x). x \<in> set names) (held_names script m s) = None"
    using assms(1-3)
  proof (induction script cs s rule: refuse_conflicts.induct)
    case (2 script m' names' verb' cs s)
    then show ?case by (cases "names' = []") (auto split: option.splits)
  qed simp
  then have none: "\<forall>(i, y) \<in> set (held_names script m s). y \<notin> set names" by (simp add: find_pair_None)
  show ?thesis
  proof
    assume "declares s m x q"
    then obtain c where c: "current_contract s q = Some c" "x \<in> set (member_of m c)" by (auto simp: declares_def split: option.splits)
    then have "(sc_identifier q, x) \<in> set (held_names script m s)"
      using assms(4-8) by (force simp: held_names_def)
    with none assms(3) show False by blast
  qed
qed

lemma no_conflict:
  assumes "refuse_contract_conflicts script c s = None" "exclusive m x" "x \<in> set (member_of m c)"
    and "p \<in> set (st_scripts s)" "sc_id p = script" "q \<in> set (st_scripts s)" "sc_id q \<noteq> script" "sc_project q = sc_project p"
  shows "\<not> declares s m x q"
proof -
  have "\<exists>names verb. (m, names, verb) \<in> set (conflict_checks c) \<and> x \<in> set names"
    using assms(2,3) by (auto simp: exclusive_def conflict_checks_def)
  then show ?thesis using refused_conflict [OF assms(1) [unfolded refuse_contract_conflicts_def] _ _ assms(4-8)] by blast
qed

text \<open>A successful publish, taken apart.\<close>

lemma created_revision:
  assumes "create_revision sv rid now v cfg b s = (Inr r, s')"
  obtains row c fs s1 cfg' where "row \<in> set (st_scripts s)" "refuse_contract_conflicts (sc_id row) c s = None"
    "st_scripts s1 = st_scripts s" "st_revisions s1 = st_revisions s" "st_files s1 = st_files s"
    "r = \<lparr>rv_id = rid, rv_created = now, rv_script = sc_id row, rv_entry_point = rv_entry_point r,
          rv_config = cfg'\<lparr>cf_capabilities := Some c\<rparr>\<rparr>"
    "s' = set_current (sc_id row) (Some rid) now (s1\<lparr>st_revisions := st_revisions s1 @ [r],
        st_files := st_files s1 @ map (file_row_of rid) fs\<rparr>)"
    "\<exists>b'. b = Some b' \<and> rv_entry_point r = b_entry_point b' \<and> store_files (sv_hash sv) (b_files b') s = (Inr fs, s1)"
proof -
  from assms obtain row cfg0 cfg' b' where row: "get_script_info sv (ById v) s = Inr row" and b: "b = Some b'"
    and cr: "create_db_revision sv rid now (sc_id row) cfg' b' s = (Inr r, s')"
    by (auto simp: create_revision_def split: sum.splits option.splits)
  from cr obtain c fs s1 where c: "refuse_contract_conflicts (sc_id row) c s = None"
    and st: "store_files (sv_hash sv) (b_files b') s = (Inr fs, s1)"
    and ins: "insert_revision rid now (sc_id row) (cfg'\<lparr>cf_capabilities := Some c\<rparr>) (b_entry_point b') fs s1 = (Inr r, s')"
    by (auto simp: create_db_revision_def split: sum.splits option.splits prod.splits if_splits)
  have t: "st_scripts s1 = st_scripts s" "st_revisions s1 = st_revisions s" "st_files s1 = st_files s"
    using store_files_tables [of "sv_hash sv" "b_files b'" s] st by auto
  from ins have r: "r = \<lparr>rv_id = rid, rv_created = now, rv_script = sc_id row, rv_entry_point = b_entry_point b', rv_config = cfg'\<lparr>cf_capabilities := Some c\<rparr>\<rparr>"
    and s': "s' = set_current (sc_id row) (Some rid) now (s1\<lparr>st_revisions := st_revisions s1 @ [r], st_files := st_files s1 @ map (file_row_of rid) fs\<rparr>)"
    by (auto simp: insert_revision_def Let_def split: option.splits)
  show ?thesis by (rule that [OF find_script [OF row] c t _ s']) (use r b st in auto)
qed

lemma publish_contracts:
  assumes "store_ok s" "rid \<notin> rv_id ` set (st_revisions s)" "st_scripts s1 = st_scripts s" "st_revisions s1 = st_revisions s"
    and "rv_id r = rid" "cf_capabilities (rv_config r) = Some c" "row \<in> set (st_scripts s)"
    and "s' = set_current (sc_id row) (Some rid) now (s1\<lparr>st_revisions := st_revisions s1 @ [r], st_files := fs\<rparr>)"
    and "q' \<in> set (st_scripts s')"
  shows "(sc_id q' = sc_id row \<and> sc_project q' = sc_project row \<and> current_contract s' q' = Some c)
    \<or> (sc_id q' \<noteq> sc_id row \<and> q' \<in> set (st_scripts s) \<and> current_contract s' q' = current_contract s q')"
proof -
  have "find (\<lambda>v. rv_id v = rid) (st_revisions s) = None" using assms(2) by (force simp: find_None_iff)
  then have f: "find (\<lambda>v. rv_id v = rid) (st_revisions s @ [r]) = Some r" using assms(5) by (simp add: find_append)
  from assms(3,8,9) obtain q where q: "q \<in> set (st_scripts s)"
      "q' = (if sc_id q = sc_id row then q\<lparr>sc_current := Some rid, sc_updated := now\<rparr> else q)"
    by (auto simp: set_current_def)
  show ?thesis
  proof (cases "sc_id q = sc_id row")
    case True
    then have "q = row" using assms(1,7) q(1) by (auto simp: store_ok_defs distinct_map inj_on_def)
    with q(2) f assms(4,6,8) show ?thesis by (simp add: current_contract_def)
  next
    case False
    have "find (\<lambda>v. rv_id v = i) (st_revisions s @ [r]) = find (\<lambda>v. rv_id v = i) (st_revisions s)" if "sc_current q = Some i" for i
    proof -
      from store_okD(1) [OF assms(1) q(1) that] obtain x where "find (\<lambda>v. rv_id v = i) (st_revisions s) = Some x"
        by (metis (mono_tags, lifting) find_None_iff option.exhaust)
      then show ?thesis by (simp add: find_append)
    qed
    with False q assms(4,8) show ?thesis by (auto simp: current_contract_def split: option.split)
  qed
qed


lemma least_id_only:
  assumes "rs \<noteq> []" "\<forall>r \<in> set rs. sc_id r = i"
  shows "least_id rs = Some i"
proof -
  have "sort (map sc_id rs) \<noteq> []" using assms(1) by (metis length_0_conv length_map length_sort)
  then obtain j js where j: "sort (map sc_id rs) = j # js" by (cases "sort (map sc_id rs)") auto
  then have "j \<in> set (map sc_id rs)" by (metis list.set_intros(1) set_sort)
  with assms(2) j show ?thesis by (auto simp: least_id_def)
qed

lemma sole_declarer_owns:
  assumes "single_owner s" "q \<in> set (st_scripts s)" "sc_project q = p" "for_class cls = Some (m # ms)"
    and "exclusive m (needle m cls name)" "declares s m (needle m cls name) q" "sv_parse sv v = Some p"
  shows "resolve_class_owner sv v cls name s rg = Inr (sc_id q)"
proof -
  let ?rows = "filter (\<lambda>r. sc_project r = p \<and> declares s m (needle m cls name) r) (st_scripts s)"
  have "q \<in> set ?rows" using assms(2,3,6) by simp
  then have "?rows \<noteq> []" by (metis empty_iff list.set(1))
  moreover have "\<forall>r \<in> set ?rows. sc_id r = sc_id q"
  proof
    fix r assume "r \<in> set ?rows"
    then have "r \<in> set (st_scripts s)" "sc_project r = sc_project q" "declares s m (needle m cls name) r" using assms(3) by auto
    with assms(1,2,5,6) show "sc_id r = sc_id q" unfolding single_owner_def by blast
  qed
  ultimately have "contract_owner p m cls name s = Some (sc_id q)"
    unfolding contract_owner_def by (rule least_id_only)
  with assms(4,7) show ?thesis by (simp add: resolve_class_owner_def)
qed

lemma publish_single_owner:
  assumes "store_ok s" "rid \<notin> rv_id ` set (st_revisions s)" "create_revision sv rid now v cfg b s = (Inr r, s')" "single_owner s"
  shows "single_owner s' \<and> (\<exists>q c. q \<in> set (st_scripts s') \<and> sc_id q = rv_script r \<and> cf_capabilities (rv_config r) = Some c
    \<and> current_contract s' q = Some c)"
proof -
  obtain row c fs s1 cfg' where p: "row \<in> set (st_scripts s)" "refuse_contract_conflicts (sc_id row) c s = None"
    "st_scripts s1 = st_scripts s" "st_revisions s1 = st_revisions s"
    "r = \<lparr>rv_id = rid, rv_created = now, rv_script = sc_id row, rv_entry_point = rv_entry_point r, rv_config = cfg'\<lparr>cf_capabilities := Some c\<rparr>\<rparr>"
    "s' = set_current (sc_id row) (Some rid) now (s1\<lparr>st_revisions := st_revisions s1 @ [r], st_files := st_files s1 @ map (file_row_of rid) fs\<rparr>)"
    by (rule created_revision [OF assms(3)])
  have r: "rv_id r = rid" "rv_script r = sc_id row" "cf_capabilities (rv_config r) = Some c" by (subst p(5); simp)+
  note rows = publish_contracts [OF assms(1,2) p(3,4) r(1,3) p(1) p(6)]
  have clash: False
    if "q \<in> set (st_scripts s')" "sc_id q = sc_id row" "q' \<in> set (st_scripts s')" "sc_id q' \<noteq> sc_id row"
      "sc_project q = sc_project q'" "exclusive m x" "declares s' m x q" "declares s' m x q'" for q q' m x
  proof -
    from rows [OF that(1)] that(2,7) have "x \<in> set (member_of m c)" "sc_project q = sc_project row" by (auto simp: declares_def)
    moreover from rows [OF that(3)] that(4,8) have "q' \<in> set (st_scripts s)" "declares s m x q'" by (auto simp: declares_def)
    ultimately show False using no_conflict [OF p(2) that(6) _ p(1) refl] that(4,5) by metis
  qed
  have "single_owner s'"
    unfolding single_owner_def
  proof (intro ballI allI impI, elim conjE)
    fix q q' m x
    assume q: "q \<in> set (st_scripts s')" "q' \<in> set (st_scripts s')" "sc_project q = sc_project q'" "exclusive m x"
      "declares s' m x q" "declares s' m x q'"
    show "sc_id q = sc_id q'"
    proof (cases "sc_id q = sc_id row \<or> sc_id q' = sc_id row")
      case True
      then show ?thesis using clash [OF q(1) _ q(2) _ q(3-6)] clash [OF q(2) _ q(1) _ q(3) [symmetric] q(4,6,5)] by metis
    next
      case False
      then have "q \<in> set (st_scripts s)" "q' \<in> set (st_scripts s)" "declares s m x q" "declares s m x q'"
        using rows [OF q(1)] rows [OF q(2)] q(5,6) by (auto simp: declares_def)
      with assms(4) q(3,4) show ?thesis unfolding single_owner_def by blast
    qed
  qed
  moreover have "sc_id row \<in> sc_id ` set (st_scripts s')" using p(1,3) unfolding p(6) set_current_ids by simp
  then obtain q where q: "q \<in> set (st_scripts s')" "sc_id q = sc_id row" by auto
  from rows [OF q(1)] q(2) have "current_contract s' q = Some c" by auto
  with q r have "\<exists>q c. q \<in> set (st_scripts s') \<and> sc_id q = rv_script r \<and> cf_capabilities (rv_config r) = Some c
    \<and> current_contract s' q = Some c" by metis
  ultimately show ?thesis by blast
qed

text \<open>C19. A publish takes ownership and nobody else's: when the current contracts of a project name each
  queue consumer, object class and workflow once, a successful publish keeps that so, and every
  identity of what it declares then resolves to the publishing script, whatever the directory
  remembers.\<close>

theorem publish_takes_ownership:
  assumes "store_ok s" "rid \<notin> rv_id ` set (st_revisions s)" "create_revision sv rid now v cfg b s = (Inr r, s')" "single_owner s"
  shows "single_owner s' \<and> (\<exists>q c. q \<in> set (st_scripts s') \<and> sc_id q = rv_script r \<and> current_contract s' q = Some c
    \<and> (\<forall>cls name m ms. for_class cls = Some (m # ms) \<and> exclusive m (needle m cls name) \<and> needle m cls name \<in> set (member_of m c)
         \<and> sv_parse sv project = Some (sc_project q) \<longrightarrow> resolve_class_owner sv project cls name s' rg = Inr (rv_script r)))"
proof -
  obtain q c where q: "single_owner s'" "q \<in> set (st_scripts s')" "sc_id q = rv_script r" "current_contract s' q = Some c"
    using publish_single_owner [OF assms] by blast
  then have "resolve_class_owner sv project cls name s' rg = Inr (rv_script r)"
    if "for_class cls = Some (m # ms)" "exclusive m (needle m cls name)" "needle m cls name \<in> set (member_of m c)"
      "sv_parse sv project = Some (sc_project q)" for cls name m ms
    using sole_declarer_owns [OF q(1,2) refl that(1,2) _ that(4)] that(3) q(3,4) by (simp add: declares_def)
  with q show ?thesis by blast
qed

section \<open>Moving the pointer\<close>

text \<open>A source says what it declares: the text \<open>C\<close> declares the class \<open>C\<close>.\<close>

definition class_prog :: "string \<Rightarrow> bool chunk" where
  "class_prog s = (if s = ''C'' then Declare ObjectForm ''C'' (\<lambda>a. Return True) else Return True)"

definition demo_service :: "bool service" where
  "demo_service = \<lparr>sv_parse = Some, sv_why = (\<lambda>s. ''invalid uuid''), sv_hash = (\<lambda>s. CHR ''h'' # s), sv_lua = small_lua class_prog,
     sv_cron = no_cron, sv_budget = 9\<rparr>"

definition demo_config :: "string \<Rightarrow> script_config option" where
  "demo_config i = Some \<lparr>cf_id = i, cf_entry_point = ''main.lua'', cf_includes = [], cf_ignore = [], cf_capabilities = None\<rparr>"

definition demo_publish :: "string \<Rightarrow> int \<Rightarrow> string \<Rightarrow> string \<Rightarrow> script_store \<Rightarrow> script_store" where
  "demo_publish rid now script src s = snd (create_revision demo_service rid now script (demo_config script) (Some (one_file src)) s)"

definition two_scripts :: script_store where
  "two_scripts = snd (create_script demo_service ''b'' 1 ''second'' ''p'' (snd (create_script demo_service ''a'' 0 ''first'' ''p'' empty_store)))"

definition handed_over :: script_store where
  "handed_over = demo_publish ''r3'' 4 ''b'' ''C'' (demo_publish ''r2'' 3 ''a'' ''other'' (demo_publish ''r1'' 2 ''a'' ''C'' two_scripts))"

definition repointed :: script_store where
  "repointed = snd (set_script_revision demo_service 5 ''a'' ''r1'' handed_over)"

definition class_contract :: "string \<Rightarrow> capabilities" where
  "class_contract src = (if src = ''C'' then no_capabilities\<lparr>cp_objects := [''C'']\<rparr> else no_capabilities)"

definition demo_row :: "string \<Rightarrow> int \<Rightarrow> string \<Rightarrow> string \<Rightarrow> revision_row" where
  "demo_row rid now script src = \<lparr>rv_id = rid, rv_created = now, rv_script = script, rv_entry_point = ''main.lua'',
     rv_config = \<lparr>cf_id = script, cf_entry_point = ''main.lua'', cf_includes = [], cf_ignore = [], cf_capabilities = Some (class_contract src)\<rparr>\<rparr>"

lemma class_contract_extracted: "extract_contract (small_lua class_prog) no_cron 9 [(''main.lua'', src)] ''main.lua''
    = Inr ((class_contract src)\<lparr>cp_workflow_steps := scan_step_literals [(''main.lua'', src)]\<rparr>)"
  by (simp add: extract_contract_def extract_run_def small_lua_def class_prog_def class_contract_def extract_surface_def extract_declare_def
      no_capabilities_def numeral_eq_Suc)

lemma demo_created:
  assumes "src \<in> {''C'', ''other''}" "script \<in> sc_id ` set (st_scripts s)" "refuse_contract_conflicts script (class_contract src) s = None"
  shows "create_revision demo_service rid now script (demo_config script) (Some (one_file src)) s
    = (Inr (demo_row rid now script src), set_current script (Some rid) now (s\<lparr>
     st_blobs := (st_blobs s)(CHR ''h'' # src \<mapsto> src),
     st_revisions := st_revisions s @ [demo_row rid now script src],
     st_files := st_files s @ [\<lparr>fl_revision = rid, fl_path = ''main.lua'', fl_hash = CHR ''h'' # src, fl_size = of_nat (length src), fl_content_type = '''', fl_kind = Module\<rparr>]\<rparr>))"
proof -
  have "scan_step_literals [(''main.lua'', ''C'')] = []" "scan_step_literals [(''main.lua'', ''other'')] = []" by code_simp+
  then have x: "extract_contract (small_lua class_prog) no_cron 9 [(''main.lua'', src)] ''main.lua'' = Inr (class_contract src)"
    using assms(1) by (auto simp: class_contract_extracted class_contract_def no_capabilities_def)
  have c: "collect_sources [\<lparr>f_path = ''main.lua'', f_content = src, f_hash = '''', f_size = 0, f_content_type = '''', f_kind = Module\<rparr>] s
      = Inr [(''main.lua'', src)]"
    using assms(1) by (auto simp: ends_with_def source_bytes_def inline_def from_utf8_def ascii_is_utf8)
  obtain q where q: "find (\<lambda>r. sc_id r = script) (st_scripts s) = Some q" "sc_id q = script"
    using assms(2) by (metis (mono_tags, lifting) find_None_iff find_Some_iff imageE option.exhaust)
  have l: "utf8_len ''main.lua'' = 8" "utf8_len (CHR ''h'' # src) \<le> 64" using assms(1) by (auto simp: utf8_len_def is_cont_def)
  show ?thesis
    using q c x assms(3) l
    by (simp add: create_revision_def get_script_info_def demo_service_def demo_config_def parse_config_def
        create_db_revision_def one_file_def inline_def blob_put_def Let_def insert_revision_def row_error_def fits_def
        file_row_of_def demo_row_def utf8_len_def)
qed


definition demo_script :: "string \<Rightarrow> string \<Rightarrow> int \<Rightarrow> string option \<Rightarrow> script_row" where
  "demo_script i ident t ptr = \<lparr>sc_id = i, sc_project = ''p'', sc_identifier = ident, sc_updated = t, sc_current = ptr\<rparr>"

lemma two_scripts_tables:
  "st_scripts two_scripts = [demo_script ''a'' ''first'' 0 None, demo_script ''b'' ''second'' 1 None]"
  "st_revisions two_scripts = []"
  by (simp_all add: two_scripts_def create_script_def demo_service_def get_script_info_def empty_store_def Let_def fits_def
      utf8_len_def is_cont_def demo_script_def)

lemma published_tables:
  assumes "src \<in> {''C'', ''other''}" "script \<in> sc_id ` set (st_scripts s)" "refuse_contract_conflicts script (class_contract src) s = None"
  shows "st_scripts (demo_publish rid now script src s) = map (\<lambda>r. if sc_id r = script then r\<lparr>sc_current := Some rid, sc_updated := now\<rparr> else r) (st_scripts s)"
    "st_revisions (demo_publish rid now script src s) = st_revisions s @ [demo_row rid now script src]"
  by (simp_all add: demo_publish_def demo_created [OF assms] set_current_def)

lemma conflict_free:
  assumes "\<And>q c. q \<in> set (st_scripts s) \<Longrightarrow> current_contract s q = Some c \<Longrightarrow> sc_id q \<noteq> script \<Longrightarrow> cp_objects c = []"
  shows "refuse_contract_conflicts script (class_contract src) s = None"
proof -
  have "held_names script Objects s = []" using assms by (auto simp: held_names_def split: option.splits)
  then show ?thesis
    by (simp add: refuse_contract_conflicts_def conflict_checks_def class_contract_def no_capabilities_def)
qed

lemma class_contract_objects: "cp_objects (class_contract src) = (if src = ''C'' then [''C''] else [])"
  by (simp add: class_contract_def no_capabilities_def)

lemma first_tables:
  "st_scripts (demo_publish ''r1'' 2 ''a'' ''C'' two_scripts) = [demo_script ''a'' ''first'' 2 (Some ''r1''), demo_script ''b'' ''second'' 1 None]"
  "st_revisions (demo_publish ''r1'' 2 ''a'' ''C'' two_scripts) = [demo_row ''r1'' 2 ''a'' ''C'']"
proof -
  have "refuse_contract_conflicts ''a'' (class_contract ''C'') two_scripts = None"
    by (rule conflict_free) (auto simp: two_scripts_tables demo_script_def current_contract_def)
  then show "st_scripts (demo_publish ''r1'' 2 ''a'' ''C'' two_scripts) = [demo_script ''a'' ''first'' 2 (Some ''r1''), demo_script ''b'' ''second'' 1 None]"
    "st_revisions (demo_publish ''r1'' 2 ''a'' ''C'' two_scripts) = [demo_row ''r1'' 2 ''a'' ''C'']"
    by (simp_all add: published_tables two_scripts_tables demo_script_def)
qed

lemma second_tables:
  "st_scripts (demo_publish ''r2'' 3 ''a'' ''other'' (demo_publish ''r1'' 2 ''a'' ''C'' two_scripts))
     = [demo_script ''a'' ''first'' 3 (Some ''r2''), demo_script ''b'' ''second'' 1 None]"
  "st_revisions (demo_publish ''r2'' 3 ''a'' ''other'' (demo_publish ''r1'' 2 ''a'' ''C'' two_scripts))
     = [demo_row ''r1'' 2 ''a'' ''C'', demo_row ''r2'' 3 ''a'' ''other'']"
proof -
  let ?s = "demo_publish ''r1'' 2 ''a'' ''C'' two_scripts"
  have "refuse_contract_conflicts ''a'' (class_contract ''other'') ?s = None"
    by (rule conflict_free) (auto simp: first_tables demo_script_def current_contract_def)
  then show "st_scripts (demo_publish ''r2'' 3 ''a'' ''other'' ?s) = [demo_script ''a'' ''first'' 3 (Some ''r2''), demo_script ''b'' ''second'' 1 None]"
    "st_revisions (demo_publish ''r2'' 3 ''a'' ''other'' ?s) = [demo_row ''r1'' 2 ''a'' ''C'', demo_row ''r2'' 3 ''a'' ''other'']"
    by (simp_all add: published_tables first_tables demo_script_def)
qed

lemma handed_over_tables:
  "st_scripts handed_over = [demo_script ''a'' ''first'' 3 (Some ''r2''), demo_script ''b'' ''second'' 4 (Some ''r3'')]"
  "st_revisions handed_over = [demo_row ''r1'' 2 ''a'' ''C'', demo_row ''r2'' 3 ''a'' ''other'', demo_row ''r3'' 4 ''b'' ''C'']"
proof -
  let ?s = "demo_publish ''r2'' 3 ''a'' ''other'' (demo_publish ''r1'' 2 ''a'' ''C'' two_scripts)"
  have "refuse_contract_conflicts ''b'' (class_contract ''C'') ?s = None"
    by (rule conflict_free)
       (auto simp: second_tables demo_script_def current_contract_def demo_row_def class_contract_objects split: if_splits)
  then show "st_scripts handed_over = [demo_script ''a'' ''first'' 3 (Some ''r2''), demo_script ''b'' ''second'' 4 (Some ''r3'')]"
    "st_revisions handed_over = [demo_row ''r1'' 2 ''a'' ''C'', demo_row ''r2'' 3 ''a'' ''other'', demo_row ''r3'' 4 ''b'' ''C'']"
    by (simp_all add: handed_over_def published_tables second_tables demo_script_def)
qed

lemma repointed_tables:
  "st_scripts repointed = [demo_script ''a'' ''first'' 5 (Some ''r1''), demo_script ''b'' ''second'' 4 (Some ''r3'')]"
  "st_revisions repointed = st_revisions handed_over"
  by (simp_all add: repointed_def set_script_revision_def get_script_info_def get_db_revision_def demo_service_def handed_over_tables
      demo_script_def demo_row_def set_current_def)

lemma demo_reach: "script_reach demo_service empty_store handed_over"
proof -
  have a: "script_reach demo_service empty_store (snd (create_script demo_service ''a'' 0 ''first'' ''p'' empty_store))"
    by (rule script_reach.more [OF script_reach.here script_step.made]) (simp add: empty_store_def)
  have b: "script_reach demo_service empty_store two_scripts"
    unfolding two_scripts_def
    by (rule script_reach.more [OF a script_step.made])
       (simp add: create_script_def demo_service_def get_script_info_def empty_store_def Let_def fits_def utf8_len_def is_cont_def)
  have publish: "script_reach demo_service empty_store (demo_publish rid now script src s)"
    if "script_reach demo_service empty_store s" "rid \<notin> rv_id ` set (st_revisions s)" for rid now script src s
    unfolding demo_publish_def by (rule script_reach.more [OF that(1) script_step.published [OF that(2)]])
  show ?thesis
    unfolding handed_over_def
    by (intro publish b) (simp_all add: second_tables first_tables two_scripts_tables demo_row_def)
qed

text \<open>Moving a script back to an older revision asks no contract check: after one script dropped a
  class and another took it over, pointing the first back at its old revision gives the class two
  declarers in one project, which publishing refuses, and calls go to the one with the smaller id.\<close>

theorem repointing_splits_ownership:
  "script_reach demo_service empty_store repointed
   \<and> map sc_id (filter (declares repointed Objects ''C'') (st_scripts repointed)) = [''a'', ''b'']
   \<and> resolve_class_owner demo_service ''p'' ''C'' ''x'' handed_over empty_registry = Inr ''b''
   \<and> resolve_class_owner demo_service ''p'' ''C'' ''x'' repointed empty_registry = Inr ''a''"
proof (intro conjI)
  have r: "script_reach demo_service empty_store repointed"
    unfolding repointed_def by (rule script_reach.more [OF demo_reach script_step.pointed])
  then show "script_reach demo_service empty_store repointed" .
  have d: "declares repointed Objects ''C'' q" if "q \<in> set (st_scripts repointed)" for q
    using that by (auto simp: declares_def current_contract_def repointed_tables handed_over_tables demo_script_def demo_row_def class_contract_objects)
  then show "map sc_id (filter (declares repointed Objects ''C'') (st_scripts repointed)) = [''a'', ''b'']"
    by (simp add: repointed_tables demo_script_def)
  have h: "declares handed_over Objects ''C'' q \<longleftrightarrow> sc_id q = ''b''" if "q \<in> set (st_scripts handed_over)" for q
    using that by (auto simp: declares_def current_contract_def handed_over_tables demo_script_def demo_row_def class_contract_objects)
  show "resolve_class_owner demo_service ''p'' ''C'' ''x'' handed_over empty_registry = Inr ''b''"
    using h by (simp add: resolve_class_owner_def demo_service_def for_class_def QUEUE_CLASS_def DATABASE_CLASS_def WORKFLOW_CLASS_def
        contract_owner_def least_id_def handed_over_tables demo_script_def)
  show "resolve_class_owner demo_service ''p'' ''C'' ''x'' repointed empty_registry = Inr ''a''"
    using d by (simp add: resolve_class_owner_def demo_service_def for_class_def QUEUE_CLASS_def DATABASE_CLASS_def WORKFLOW_CLASS_def
        contract_owner_def least_id_def repointed_tables demo_script_def less_eq_char_def)
qed


theorem pointers_never_dangle_witness:
  "\<exists>r. find (\<lambda>r. rv_id r = ''r3'') (st_revisions handed_over) = Some r \<and> rv_script r = ''b''"
proof -
  have "demo_script ''b'' ''second'' 4 (Some ''r3'') \<in> set (st_scripts handed_over)" by (simp add: handed_over_tables)
  moreover have "sc_current (demo_script ''b'' ''second'' 4 (Some ''r3'')) = Some ''r3''" "sc_id (demo_script ''b'' ''second'' 4 (Some ''r3'')) = ''b''"
    by (simp_all add: demo_script_def)
  ultimately show ?thesis using pointers_never_dangle [OF demo_reach] by metis
qed

theorem publish_takes_ownership_witness:
  "resolve_class_owner demo_service ''p'' ''C'' ''x'' (demo_publish ''r1'' 2 ''a'' ''C'' two_scripts) empty_registry = Inr ''a''"
proof -
  have ok: "store_ok two_scripts" by (simp add: store_ok_defs two_scripts_def create_script_def demo_service_def get_script_info_def
      empty_store_def Let_def fits_def utf8_len_def is_cont_def)
  have f: "refuse_contract_conflicts ''a'' (class_contract ''C'') two_scripts = None"
    by (rule conflict_free) (auto simp: two_scripts_tables demo_script_def current_contract_def)
  have c: "create_revision demo_service ''r1'' 2 ''a'' (demo_config ''a'') (Some (one_file ''C'')) two_scripts
      = (Inr (demo_row ''r1'' 2 ''a'' ''C''), demo_publish ''r1'' 2 ''a'' ''C'' two_scripts)"
    using demo_created [of "''C''" "''a''" two_scripts "''r1''" 2] f
    by (simp add: demo_publish_def two_scripts_tables demo_script_def)
  have so: "single_owner two_scripts"
    by (auto simp: single_owner_def two_scripts_tables demo_script_def declares_def current_contract_def)
  from publish_takes_ownership [OF ok _ c so, of "''p''" empty_registry] obtain q cc where
    q: "q \<in> set (st_scripts (demo_publish ''r1'' 2 ''a'' ''C'' two_scripts))" "sc_id q = ''a''"
      "current_contract (demo_publish ''r1'' 2 ''a'' ''C'' two_scripts) q = Some cc"
    and all: "\<And>cls name m ms. for_class cls = Some (m # ms) \<and> exclusive m (needle m cls name) \<and> needle m cls name \<in> set (member_of m cc)
         \<and> sv_parse demo_service ''p'' = Some (sc_project q)
         \<Longrightarrow> resolve_class_owner demo_service ''p'' cls name (demo_publish ''r1'' 2 ''a'' ''C'' two_scripts) empty_registry = Inr ''a''"
    by (auto simp: two_scripts_tables demo_row_def)
  have "for_class ''C'' = Some [Objects]" by (simp add: for_class_def QUEUE_CLASS_def DATABASE_CLASS_def WORKFLOW_CLASS_def)
  moreover have "cp_objects cc = [''C'']" "sc_project q = ''p''"
    using q by (auto simp: first_tables demo_script_def current_contract_def demo_row_def class_contract_objects)
  ultimately show ?thesis by (intro all) (auto simp: exclusive_def demo_service_def)
qed

section \<open>Deleting a revision\<close>

lemma sort_key_hd_least: "sort_key f xs = y # ys \<Longrightarrow> x \<in> set xs \<Longrightarrow> f y \<le> f x"
proof -
  assume a: "sort_key f xs = y # ys" "x \<in> set xs"
  then have "sorted (map f (y # ys))" "x \<in> set (y # ys)" by (metis sorted_sort_key, metis set_sort)
  then show ?thesis by auto
qed

text \<open>Deleting any revision of a script makes its oldest remaining revision the current one: the query
  named for the newest orders by creation ascending, and the pointer is rewritten even when the
  deleted revision was not the current one. So while an older revision remains, the pointer leaves
  the current revision although nobody deleted it.\<close>

theorem deleting_rolls_back_to_oldest:
  assumes "store_ok s" "get_db_revision sv v s = Inr r" "old \<in> set (st_revisions s)" "rv_script old = rv_script r" "rv_id old \<noteq> rv_id r"
    and "cur \<in> set (st_revisions s)" "rv_created old < rv_created cur"
  shows "\<exists>s' i. delete_revision sv now v s = (Inr (rv_script r, Some i), s') \<and> i \<noteq> rv_id cur
    \<and> (\<forall>q \<in> set (st_scripts s'). sc_id q = rv_script r \<longrightarrow> sc_current q = Some i)"
proof -
  have r: "r \<in> set (st_revisions s)" by (rule find_revision [OF assms(2)])
  obtain q where q: "find (\<lambda>q. sc_id q = rv_script r) (st_scripts s) = Some q" "sc_id q = rv_script r"
    using store_okD(5) [OF assms(1) r] by (metis (mono_tags, lifting) find_None_iff find_Some_iff option.exhaust)
  let ?s = "delete_revisions (\<lambda>x. rv_id x = rv_id r) s"
  let ?mine = "filter (\<lambda>x. rv_script x = sc_id q) (st_revisions ?s)"
  have m: "old \<in> set ?mine" using assms(3-5) q(2) by simp
  then have "sort_key rv_created ?mine \<noteq> []" by (metis empty_iff list.set(1) set_sort)
  then obtain x xs where x: "sort_key rv_created ?mine = x # xs" by (cases "sort_key rv_created ?mine") auto
  then have "x \<in> set ?mine" by (metis list.set_intros(1) set_sort)
  then have "x \<in> set (st_revisions s)" by simp
  have "rv_created x \<le> rv_created old" by (rule sort_key_hd_least [OF x m])
  then have "x \<noteq> cur" using assms(7) by auto
  then have "rv_id x \<noteq> rv_id cur"
    using same_revision [of s x cur] \<open>x \<in> set (st_revisions s)\<close> assms(1,6) by (auto simp: store_ok_def)
  moreover have "delete_revision sv now v s = (Inr (rv_script r, Some (rv_id x)), set_current (rv_script r) (Some (rv_id x)) now ?s)"
    using assms(2) q x by (simp add: delete_revision_def Let_def)
  moreover have "\<forall>p \<in> set (st_scripts (set_current (rv_script r) (Some (rv_id x)) now ?s)). sc_id p = rv_script r \<longrightarrow> sc_current p = Some (rv_id x)"
    by (auto simp: set_current_def)
  ultimately show ?thesis by blast
qed

definition three_revisions :: script_store where
  "three_revisions = empty_store\<lparr>st_scripts := [demo_script ''a'' ''first'' 3 (Some ''r3'')],
     st_revisions := [demo_row ''r1'' 1 ''a'' ''one'', demo_row ''r2'' 2 ''a'' ''two'', demo_row ''r3'' 3 ''a'' ''three'']\<rparr>"

theorem deleting_rolls_back_to_oldest_witness:
  "\<exists>s' i. delete_revision demo_service 9 ''r2'' three_revisions = (Inr (''a'', Some i), s') \<and> i \<noteq> ''r3''"
proof -
  have ok: "store_ok three_revisions"
    by (simp add: store_ok_defs three_revisions_def empty_store_def demo_script_def demo_row_def)
  have g: "get_db_revision demo_service ''r2'' three_revisions = Inr (demo_row ''r2'' 2 ''a'' ''two'')"
    by (simp add: get_db_revision_def demo_service_def three_revisions_def demo_row_def)
  have m: "demo_row ''r1'' 1 ''a'' ''one'' \<in> set (st_revisions three_revisions)" "demo_row ''r3'' 3 ''a'' ''three'' \<in> set (st_revisions three_revisions)"
    by (simp_all add: three_revisions_def)
  from deleting_rolls_back_to_oldest [OF ok g m(1) _ _ m(2), of 9] show ?thesis by (auto simp: demo_row_def)
qed


section \<open>What was published comes back\<close>

definition manifest_of :: "(string \<Rightarrow> string) \<Rightarrow> bundle_file \<Rightarrow> bundle_file" where
  "manifest_of hash f = f\<lparr>f_hash := hash (f_content f), f_size := of_nat (length (f_content f))\<rparr>"

lemma store_inline_Cons:
  "inline g \<Longrightarrow> snd (store_files hash (g # fs) s) = snd (store_files hash fs (blob_put (hash (f_content g)) (f_content g) s))"
  by (auto simp: Let_def split: prod.splits sum.splits)

lemma store_inline:
  "\<forall>f \<in> set fs. inline f \<Longrightarrow> fst (store_files hash fs s) = Inr (map (\<lambda>f. (manifest_of hash f)\<lparr>f_content := ''''\<rparr>) fs)"
proof (induction fs arbitrary: s)
  case (Cons g fs)
  let ?s = "blob_put (hash (f_content g)) (f_content g) s"
  obtain s' where "store_files hash fs ?s = (Inr (map (\<lambda>f. (manifest_of hash f)\<lparr>f_content := ''''\<rparr>) fs), s')"
    using Cons.IH [of ?s] Cons.prems by (cases "store_files hash fs ?s") auto
  with Cons.prems show ?case by (simp add: Let_def) (simp add: manifest_of_def)
qed simp

lemma store_inline_other:
  "\<forall>f \<in> set fs. inline f \<Longrightarrow> h \<notin> (hash \<circ> f_content) ` set fs \<Longrightarrow> st_blobs (snd (store_files hash fs s)) h = st_blobs s h"
proof (induction fs arbitrary: s)
  case (Cons g fs)
  then show ?case by (simp add: store_inline_Cons blob_put_def del: store_files.simps)
qed simp

lemma store_inline_blob:
  "\<forall>f \<in> set fs. inline f \<Longrightarrow> inj_on hash (f_content ` set fs) \<Longrightarrow> f \<in> set fs \<Longrightarrow>
     st_blobs (snd (store_files hash fs s)) (hash (f_content f)) = Some (f_content f)"
proof (induction fs arbitrary: s f)
  case (Cons g fs)
  let ?s = "blob_put (hash (f_content g)) (f_content g) s"
  have e: "snd (store_files hash (g # fs) s) = snd (store_files hash fs ?s)"
    using Cons.prems(1) by (intro store_inline_Cons) simp
  show ?case
  proof (cases "\<exists>f' \<in> set fs. f_content f' = f_content f")
    case True
    then obtain f' where "f' \<in> set fs" "f_content f' = f_content f" by blast
    with Cons.IH [of f' ?s] Cons.prems show ?thesis unfolding e by (simp add: inj_on_def)
  next
    case False
    then have "f_content f = f_content g" using Cons.prems(3) by auto
    moreover have "hash (f_content f) \<notin> (hash \<circ> f_content) ` set fs" using False Cons.prems(2,3) by (auto simp: inj_on_def)
    ultimately show ?thesis unfolding e using store_inline_other [of fs "hash (f_content f)" hash ?s] Cons.prems(1) by (simp add: blob_put_def)
  qed
qed simp

lemma hydrate_stored:
  assumes "\<forall>f \<in> set fs. trim (hash (f_content f)) = hash (f_content f) \<and> st_blobs s (hash (f_content f)) = Some (f_content f)"
  shows "hydrate_all False (map (\<lambda>f. file_row_of rid ((manifest_of hash f)\<lparr>f_content := ''''\<rparr>)) fs) s = Inr (map (manifest_of hash) fs)"
  using assms by (induction fs) (auto simp: hydrate_def Let_def blob_get_def file_row_of_def manifest_of_def)

text \<open>A revision whose files were stored, and whose blobs are there, reads back.\<close>

lemma read_back:
  assumes "store_ok s" "rid \<notin> rv_id ` set (st_revisions s)" "create_revision sv rid now v cfg (Some b) s = (Inr r, s')"
    and stored: "store_files (sv_hash sv) (b_files b) s = (Inr (map (\<lambda>f. (manifest_of (sv_hash sv) f)\<lparr>f_content := ''''\<rparr>) fs), s1)"
    and blobs: "\<forall>f \<in> set fs. trim (sv_hash sv (f_content f)) = sv_hash sv (f_content f) \<and> st_blobs s1 (sv_hash sv (f_content f)) = Some (f_content f)"
    and "sv_parse sv rid = Some rid"
  shows "get_revision sv rid True False s' = Inr (r, Some (b\<lparr>b_files := map (manifest_of (sv_hash sv)) fs\<rparr>))"
proof -
  let ?stored = "map (\<lambda>f. (manifest_of (sv_hash sv) f)\<lparr>f_content := ''''\<rparr>) fs"
  obtain row c gs s2 cfg' where p0: "row \<in> set (st_scripts s)" "refuse_contract_conflicts (sc_id row) c s = None"
    "st_scripts s2 = st_scripts s" "st_revisions s2 = st_revisions s" "st_files s2 = st_files s"
    "r = \<lparr>rv_id = rid, rv_created = now, rv_script = sc_id row, rv_entry_point = rv_entry_point r, rv_config = cfg'\<lparr>cf_capabilities := Some c\<rparr>\<rparr>"
    "s' = set_current (sc_id row) (Some rid) now (s2\<lparr>st_revisions := st_revisions s2 @ [r], st_files := st_files s2 @ map (file_row_of rid) gs\<rparr>)"
    "\<exists>b'. Some b = Some b' \<and> rv_entry_point r = b_entry_point b' \<and> store_files (sv_hash sv) (b_files b') s = (Inr gs, s2)"
    by (rule created_revision [OF assms(3)])
  have entry: "rv_entry_point r = b_entry_point b" and "gs = ?stored" and s2: "s2 = s1" using p0(8) stored by auto
  note p = p0(4,5) [unfolded s2] p0(6) p0(7) [unfolded s2 \<open>gs = ?stored\<close>] entry
  have there: "\<forall>f \<in> set fs. trim (sv_hash sv (f_content f)) = sv_hash sv (f_content f) \<and> st_blobs s' (sv_hash sv (f_content f)) = Some (f_content f)"
    using blobs p(4) by simp
  have id: "rv_id r = rid" by (subst p(3)) simp
  have "find (\<lambda>x. rv_id x = rid) (st_revisions s) = None" using assms(2) by (force simp: find_None_iff)
  then have f: "find (\<lambda>x. rv_id x = rid) (st_revisions s') = Some r" using p(1,4) id by (simp add: find_append)
  have "filter (\<lambda>x. fl_revision x = rid) (st_files s) = []"
    unfolding filter_empty_conv using store_okD(4) [OF assms(1)] assms(2) by (metis image_eqI)
  then have files: "filter (\<lambda>x. fl_revision x = rid) (st_files s') = map (\<lambda>f. file_row_of rid ((manifest_of (sv_hash sv) f)\<lparr>f_content := ''''\<rparr>)) fs"
    using p(2,4) by (auto simp: filter_id_conv file_row_of_def comp_def)
  show ?thesis
    using assms(6) f id files hydrate_stored [OF there, of rid] p(5) by (simp add: get_revision_def)
qed

text \<open>A bundle sent with its bytes comes back as it was: once a publish has answered, reading the new
  revision with its bundle gives the entry point and every file in order with its path, kind, type
  and content, now with hash and size filled in. The hash is trusted to be free of blanks and to
  tell the bundle's own contents apart.\<close>

theorem publish_round_trip:
  assumes "store_ok s" "rid \<notin> rv_id ` set (st_revisions s)" "create_revision sv rid now v cfg (Some b) s = (Inr r, s')"
    and "\<forall>f \<in> set (b_files b). inline f" "inj_on (sv_hash sv) (f_content ` set (b_files b))"
    and "\<forall>f \<in> set (b_files b). trim (sv_hash sv (f_content f)) = sv_hash sv (f_content f)" "sv_parse sv rid = Some rid"
  shows "get_revision sv rid True False s' = Inr (r, Some (b\<lparr>b_files := map (manifest_of (sv_hash sv)) (b_files b)\<rparr>))"
proof (rule read_back [OF assms(1-3) _ _ assms(7)])
  show "store_files (sv_hash sv) (b_files b) s
      = (Inr (map (\<lambda>f. (manifest_of (sv_hash sv) f)\<lparr>f_content := ''''\<rparr>) (b_files b)), snd (store_files (sv_hash sv) (b_files b) s))"
    using store_inline [OF assms(4)] by (metis prod.collapse)
  show "\<forall>f \<in> set (b_files b). trim (sv_hash sv (f_content f)) = sv_hash sv (f_content f)
      \<and> st_blobs (snd (store_files (sv_hash sv) (b_files b) s)) (sv_hash sv (f_content f)) = Some (f_content f)"
    using store_inline_blob [OF assms(4,5)] assms(6) by blast
qed


theorem publish_round_trip_witness:
  "get_revision demo_service ''r1'' True False (demo_publish ''r1'' 2 ''a'' ''C'' two_scripts)
     = Inr (demo_row ''r1'' 2 ''a'' ''C'', Some ((one_file ''C'')\<lparr>b_files := map (manifest_of (sv_hash demo_service)) (b_files (one_file ''C''))\<rparr>))"
proof -
  have ok: "store_ok two_scripts" by (simp add: store_ok_defs two_scripts_def create_script_def demo_service_def get_script_info_def
      empty_store_def Let_def fits_def utf8_len_def is_cont_def)
  have f: "refuse_contract_conflicts ''a'' (class_contract ''C'') two_scripts = None"
    by (rule conflict_free) (auto simp: two_scripts_tables demo_script_def current_contract_def)
  have c: "create_revision demo_service ''r1'' 2 ''a'' (demo_config ''a'') (Some (one_file ''C'')) two_scripts
      = (Inr (demo_row ''r1'' 2 ''a'' ''C''), demo_publish ''r1'' 2 ''a'' ''C'' two_scripts)"
    using demo_created [of "''C''" "''a''" two_scripts "''r1''" 2] f
    by (simp add: demo_publish_def two_scripts_tables demo_script_def)
  show ?thesis
    by (rule publish_round_trip [OF ok _ c])
       (auto simp: two_scripts_tables one_file_def inline_def demo_service_def trim_def is_space_def)
qed


section \<open>Paging\<close>

text \<open>The page count rounds down, and for scripts it counts every project's: with five rows and pages of
  two the third page is not counted, and a project with no scripts reports pages. A page size of
  zero divides by it.\<close>

lemma page_counts:
  "list_page 3 2 5 [''a'', ''b'', ''c'', ''d'', ''e''] = Some (Inr (3, 2, [''e'']))"
  "list_scripts demo_service ''elsewhere'' 1 1 three_revisions = Some (Inr (1, 1, []))"
  "list_page 1 0 5 [''a''] = None"
proof -
  show "list_page 3 2 5 [''a'', ''b'', ''c'', ''d'', ''e''] = Some (Inr (3, 2, [''e'']))" "list_page 1 0 5 [''a''] = None" by code_simp+
  show "list_scripts demo_service ''elsewhere'' 1 1 three_revisions = Some (Inr (1, 1, []))"
    by (simp add: list_scripts_def demo_service_def three_revisions_def demo_script_def list_page_def safe_divide_def trunc_div_def sql_page_def)
qed

end
