(* ===== verification/Http_Serving.thy ===== *)
theory Http_Serving
  imports Script_Spec
begin

text \<open>
  The worker's http face (\<open>actias-worker/src/server.rs\<close>, \<open>cached_revision\<close> of \<open>routing.rs\<close>): what a
  request addresses by host or by path, how the addressed revision is found through the caches, and
  what answers it: a text, an asset of the bundle, or the script. The script service is the model
  of its component; running the script's listener is the vm's business and ends the model.
\<close>

section \<open>Addresses\<close>

datatype addressed = Published string | Live string string | Revision string string | Aliased string string

fun consumed_segments :: "addressed \<Rightarrow> nat" where
  "consumed_segments (Published i) = 1"
| "consumed_segments (Live i s) = 3"
| "consumed_segments (Revision i r) = 3"
| "consumed_segments (Aliased i a) = 3"

definition segments :: "string \<Rightarrow> string list" where
  "segments path = filter (\<lambda>p. p \<noteq> '''') (split_char CHR ''/'' path)"

definition route_by_path :: "string \<Rightarrow> addressed option" where
  "route_by_path path =
     (case segments path of
        [] \<Rightarrow> None
      | first # rest \<Rightarrow>
          if first = ''_live'' then (case rest of i # s # _ \<Rightarrow> Some (Live i s) | _ \<Rightarrow> None)
          else if first = ''_rev'' then (case rest of i # r # _ \<Rightarrow> Some (Revision i r) | _ \<Rightarrow> None)
          else if first = ''_alias'' then (case rest of i # a # _ \<Rightarrow> Some (Aliased i a) | _ \<Rightarrow> None)
          else Some (Published first))"

definition route_by_host :: "string \<Rightarrow> string \<Rightarrow> addressed option" where
  "route_by_host host base =
     (let h = List.hd (split_char CHR '':'' host) in
      case strip_suffix h base of
        None \<Rightarrow> None
      | Some l \<Rightarrow>
     (case strip_suffix l ''.'' of
        None \<Rightarrow> None
      | Some label \<Rightarrow>
          if label = '''' \<or> CHR ''.'' \<in> set label then None
          else case split_once_str ''--live-'' label of
            Some (i, s) \<Rightarrow> Some (Live i s)
          | None \<Rightarrow>
         (case split_once_str ''--r-'' label of
            Some (i, r) \<Rightarrow> Some (Revision i r)
          | None \<Rightarrow>
         (case split_once_str ''--'' label of
            Some (i, a) \<Rightarrow> Some (Aliased i a)
          | None \<Rightarrow> Some (Published label)))))"

definition script_relative_path :: "string \<Rightarrow> nat \<Rightarrow> string" where
  "script_relative_path path consumed =
     (let relative = join ''/'' (drop consumed (segments path))
      in if relative \<noteq> '''' \<and> ends_with path ''/'' then relative @ ''/'' else relative)"

section \<open>Responses\<close>

record response =
  rs_status :: nat
  rs_body :: string
  rs_headers :: "(string \<times> string) list"

definition text_response :: "nat \<Rightarrow> string \<Rightarrow> response" where
  "text_response code body = \<lparr>rs_status = code, rs_body = body, rs_headers = []\<rparr>"

text \<open>\<open>trim_start_matches("W/")\<close>.\<close>

fun trim_weak :: "string \<Rightarrow> string" where
  "trim_weak (c # d # s) = (if c = CHR ''W'' \<and> d = CHR ''/'' then trim_weak s else c # d # s)"
| "trim_weak s = s"

definition etag_of :: "bundle_file \<Rightarrow> string option" where
  "etag_of f = (if f_hash f = '''' then None else Some ([CHR 0x22] @ f_hash f @ [CHR 0x22]))"

definition revalidated :: "bundle_file \<Rightarrow> string option \<Rightarrow> bool" where
  "revalidated f if_none_match =
     (case (etag_of f, if_none_match) of
        (Some etag, Some held) \<Rightarrow>
          (\<exists>c \<in> set (map (\<lambda>c. trim_weak (trim c)) (split_char CHR '','' held)). c = etag \<or> c = ''*'')
      | _ \<Rightarrow> False)"

text \<open>A header value is visible ASCII or a tab; anything else does not parse.\<close>

definition header_value :: "string \<Rightarrow> bool" where
  "header_value s \<longleftrightarrow> (\<forall>c \<in> set s. of_char c = (9 :: nat) \<or> (32 \<le> (of_char c :: nat) \<and> (of_char c :: nat) < 127))"

definition asset_response :: "bundle_file \<Rightarrow> string option \<Rightarrow> response option" where
  "asset_response f if_none_match =
     (let same = revalidated f if_none_match;
          ct = (if f_content_type f = '''' then ''application/octet-stream'' else f_content_type f);
          tag = (case etag_of f of Some e \<Rightarrow> [(''etag'', e)] | None \<Rightarrow> [])
      in if \<forall>(k, v) \<in> set ((''content-type'', ct) # tag). header_value v
         then Some \<lparr>rs_status = (if same then 304 else 200), rs_body = (if same then '''' else f_content f),
                    rs_headers = (''content-type'', ct) # tag\<rparr>
         else None)"

section \<open>Caches\<close>

text \<open>Pointers expire; a prepared revision stays until it is evicted, which may happen at any time and
  is a smaller map. A load that fails leaves no entry.\<close>

record caches =
  ch_pointers :: "string \<rightharpoonup> script_row \<times> int"
  ch_aliases :: "string \<rightharpoonup> string \<times> int"
  ch_revisions :: "string \<rightharpoonup> prepared"

text \<open>\<open>anyhow\<close> errors: the status of an rpc, or a text.\<close>

datatype load_error = Rpc status | Text string

definition FOREIGN_REVISION :: string where
  "FOREIGN_REVISION = ''the revision does not belong to this script''"

definition target_absent :: "load_error \<Rightarrow> bool" where
  "target_absent e = (case e of Rpc (NotFound _) \<Rightarrow> True | Rpc _ \<Rightarrow> False | Text t \<Rightarrow> t = FOREIGN_REVISION)"

definition fresh_entry :: "int \<Rightarrow> ('a \<times> int) option \<Rightarrow> 'a option" where
  "fresh_entry now entry = (case entry of Some (v, e) \<Rightarrow> if now < e then Some v else None | None \<Rightarrow> None)"

definition resolve_script :: "'v service \<Rightarrow> int \<Rightarrow> int \<Rightarrow> string \<Rightarrow> script_store \<Rightarrow> caches \<Rightarrow> (load_error + script_row) \<times> caches" where
  "resolve_script sv ttl now ident s ch =
     (case fresh_entry now (ch_pointers ch ident) of
        Some row \<Rightarrow> (Inr row, ch)
      | None \<Rightarrow>
          (case get_script_info sv (ByName ident) s of
             Inl e \<Rightarrow> (Inl (Rpc e), ch)
           | Inr row \<Rightarrow> (Inr row, ch\<lparr>ch_pointers := (ch_pointers ch)(ident \<mapsto> (row, now + ttl))\<rparr>)))"

text \<open>The blob cache in front of the store: bytes by hash.\<close>

fun fetch_contents :: "script_store \<Rightarrow> bundle_file list \<Rightarrow> load_error + bundle_file list" where
  "fetch_contents s [] = Inr []"
| "fetch_contents s (f # fs) =
     (case (if f_content f = '''' \<and> f_hash f \<noteq> '''' then blob_get (f_hash f) s else Inr (f_content f)) of
        Inl e \<Rightarrow> Inl (Text ''blob'')
      | Inr bytes \<Rightarrow> (case fetch_contents s fs of Inl e \<Rightarrow> Inl e | Inr gs \<Rightarrow> Inr (f\<lparr>f_content := bytes\<rparr> # gs)))"

definition prepare :: "script_row \<Rightarrow> string \<Rightarrow> capabilities option \<Rightarrow> script_bundle \<Rightarrow> prepared" where
  "prepare row rid contract b = \<lparr>pp_script = sc_id row, pp_project = sc_project row, pp_identifier = sc_identifier row,
     pp_revision = rid, pp_bundle = b, pp_contract = contract\<rparr>"

definition load_revision :: "'v service \<Rightarrow> script_row \<Rightarrow> string \<Rightarrow> script_store \<Rightarrow> load_error + prepared" where
  "load_revision sv row rid s =
     (case get_revision sv rid True True s of
        Inl e \<Rightarrow> Inl (Rpc e)
      | Inr (r, b) \<Rightarrow>
          if rv_script r \<noteq> sc_id row then Inl (Text FOREIGN_REVISION)
          else (case b of
             None \<Rightarrow> Inl (Text ''Revision was fetched without its bundle.'')
           | Some b \<Rightarrow>
               (case fetch_contents s (b_files b) of
                  Inl e \<Rightarrow> Inl e
                | Inr fs \<Rightarrow> Inr (prepare row (rv_id r) (cf_capabilities (rv_config r)) (b\<lparr>b_files := fs\<rparr>)))))"

definition cached_revision :: "'v service \<Rightarrow> script_row \<Rightarrow> string \<Rightarrow> script_store \<Rightarrow> caches \<Rightarrow> (load_error + prepared) \<times> caches" where
  "cached_revision sv row rid s ch =
     (case ch_revisions ch rid of
        Some pp \<Rightarrow> (Inr pp, ch)
      | None \<Rightarrow>
          (case load_revision sv row rid s of
             Inl e \<Rightarrow> (Inl e, ch)
           | Inr pp \<Rightarrow> (Inr pp, ch\<lparr>ch_revisions := (ch_revisions ch)(rid \<mapsto> pp)\<rparr>)))"

definition aliased_revision :: "'v service \<Rightarrow> int \<Rightarrow> int \<Rightarrow> script_row \<Rightarrow> string \<Rightarrow> script_store \<Rightarrow> caches \<Rightarrow> (load_error + string) \<times> caches" where
  "aliased_revision sv ttl now row name s ch =
     (let key = sc_id row @ ''/'' @ name in
      case fresh_entry now (ch_aliases ch key) of
        Some rid \<Rightarrow> (Inr rid, ch)
      | None \<Rightarrow>
          (case get_alias sv (sc_id row) name s of
             Inl e \<Rightarrow> (Inl (Rpc e), ch)
           | Inr a \<Rightarrow> (Inr (al_revision a), ch\<lparr>ch_aliases := (ch_aliases ch)(key \<mapsto> (al_revision a, now + ttl))\<rparr>)))"

section \<open>A request\<close>

record request =
  rq_host :: "string option"
  rq_path :: string
  rq_method :: string
  rq_body_ok :: bool
  rq_if_none_match :: "string option"

text \<open>What a request meets: an answer, an internal error, or the script's listener with the path it
  sees. \<open>session\<close> is the live session store.\<close>

datatype meets = Answer response | Broken load_error | Listener prepared string

definition address :: "string option \<Rightarrow> request \<Rightarrow> (addressed \<times> nat) option" where
  "address base_domain rq =
     (case (case (base_domain, rq_host rq) of (Some base, Some host) \<Rightarrow> route_by_host host base | _ \<Rightarrow> None) of
        Some a \<Rightarrow> Some (a, 0)
      | None \<Rightarrow> map_option (\<lambda>a. (a, consumed_segments a)) (route_by_path (rq_path rq)))"

fun identifier_of :: "addressed \<Rightarrow> string" where
  "identifier_of (Published i) = i"
| "identifier_of (Live i s) = i"
| "identifier_of (Revision i r) = i"
| "identifier_of (Aliased i a) = i"

definition target_revision :: "'v service \<Rightarrow> (string \<Rightarrow> string \<Rightarrow> status + script_bundle) \<Rightarrow> int \<Rightarrow> int \<Rightarrow> addressed \<Rightarrow> script_row
    \<Rightarrow> script_store \<Rightarrow> caches \<Rightarrow> (meets + prepared) \<times> caches" where
  "target_revision sv session ttl now a row s ch =
     (case a of
        Live _ sid \<Rightarrow>
          (case session (sc_id row) sid of
             Inl (NotFound _) \<Rightarrow> (Inl (Answer (text_response 404 ''No live session with that id.'')), ch)
           | Inl e \<Rightarrow> (Inl (Broken (Rpc e)), ch)
           | Inr b \<Rightarrow> (Inr (prepare row '''' None b), ch))
      | Published _ \<Rightarrow>
          (case sc_current row of
             None \<Rightarrow> (Inl (Answer (text_response 404 ''Script did not have a revision.'')), ch)
           | Some rid \<Rightarrow> (case cached_revision sv row rid s ch of (Inl e, ch') \<Rightarrow> (Inl (Broken e), ch') | (Inr pp, ch') \<Rightarrow> (Inr pp, ch')))
      | Revision _ rid \<Rightarrow>
          (case cached_revision sv row rid s ch of
             (Inl e, ch') \<Rightarrow> (Inl (if target_absent e then Answer (text_response 404 ''No such revision for this script.'') else Broken e), ch')
           | (Inr pp, ch') \<Rightarrow> (Inr pp, ch'))
      | Aliased _ name \<Rightarrow>
          (case aliased_revision sv ttl now row name s ch of
             (Inl e, ch') \<Rightarrow> (Inl (if target_absent e then Answer (text_response 404 ''No such alias for this script.'') else Broken e), ch')
           | (Inr rid, ch') \<Rightarrow>
               (case cached_revision sv row rid s ch' of (Inl e, ch'') \<Rightarrow> (Inl (Broken e), ch'') | (Inr pp, ch'') \<Rightarrow> (Inr pp, ch''))))"

definition run_script :: "'v service \<Rightarrow> (string \<Rightarrow> string \<Rightarrow> status + script_bundle) \<Rightarrow> int \<Rightarrow> int \<Rightarrow> string option \<Rightarrow> request
    \<Rightarrow> script_store \<Rightarrow> caches \<Rightarrow> meets \<times> caches" where
  "run_script sv session ttl now base_domain rq s ch =
     (case address base_domain rq of
        None \<Rightarrow> (Answer (text_response 404 ''Invalid script.''), ch)
      | Some (a, consumed) \<Rightarrow>
          if \<not> rq_body_ok rq then (Answer (text_response 413 ''Request body exceeds the limit.''), ch)
          else case resolve_script sv ttl now (identifier_of a) s ch of
            (Inl e, ch1) \<Rightarrow>
              (if target_absent e then Answer (text_response 404 ''No script with that identifier.'') else Broken e, ch1)
          | (Inr row, ch1) \<Rightarrow>
         (case target_revision sv session ttl now a row s ch1 of
            (Inl m, ch2) \<Rightarrow> (m, ch2)
          | (Inr pp, ch2) \<Rightarrow>
              (let relative = script_relative_path (rq_path rq) consumed in
               case (if rq_method rq \<in> {''GET'', ''HEAD''} then asset pp relative else None) of
                 Some f \<Rightarrow> (case asset_response f (rq_if_none_match rq) of
                     Some rs \<Rightarrow> (Answer rs, ch2) | None \<Rightarrow> (Broken (Text ''failed to parse header value''), ch2))
               | None \<Rightarrow> (Listener pp relative, ch2))))"


section \<open>Hosts read back\<close>

definition addressable :: "string \<Rightarrow> bool" where
  "addressable i \<longleftrightarrow> i \<noteq> '''' \<and> \<not> contains_dashes (i @ ''-'') \<and> CHR ''.'' \<notin> set i \<and> CHR '':'' \<notin> set i"

lemma strip_suffix_append [simp]: "strip_suffix (s @ p) p = Some s"
  by (simp add: strip_suffix_def)

lemma host_without_port:
  "CHR '':'' \<notin> set h \<Longrightarrow> p = '''' \<or> List.hd p = CHR '':'' \<Longrightarrow> List.hd (split_char CHR '':'' (h @ p)) = h"
proof (induction h)
  case Nil
  then show ?case by (cases p) auto
qed (auto split: list.split)

lemma no_dashes_no_marker: "\<not> contains_dashes s \<Longrightarrow> split_once_str (''--'' @ q) s = None"
  by (induction s rule: contains_dashes.induct) (auto split: option.split)

lemma starts_with_strip: "strip_prefix s p = None \<longleftrightarrow> \<not> starts_with s p"
  by (induction s p rule: strip_prefix.induct) auto

lemma marker_split:
  assumes "\<not> contains_dashes (i @ ''-'')" "\<not> contains_dashes (CHR ''-'' # a)"
  shows "split_once_str (''--'' @ q) (i @ ''--'' @ a) = (case strip_prefix a q of Some r \<Rightarrow> Some (i, r) | None \<Rightarrow> None)"
  using assms(1)
proof (induction i)
  case Nil
  have "split_once_str (''--'' @ q) (CHR ''-'' # a) = None" by (rule no_dashes_no_marker [OF assms(2)])
  then show ?case by (simp split: option.split)
next
  case (Cons c i)
  then have "strip_prefix (c # i @ ''--'' @ a) (''--'' @ q) = None" "\<not> contains_dashes (i @ ''-'')"
    by (cases i; auto)+
  with Cons.IH show ?case by (auto split: option.split)
qed

lemma alias_name_shape:
  assumes "alias_name_error a = None"
  shows "\<not> contains_dashes (CHR ''-'' # a)" "\<not> starts_with a ''live-''" "\<not> starts_with a ''r-''" "CHR ''.'' \<notin> set a" "CHR '':'' \<notin> set a" "a \<noteq> ''''"
proof -
  from assms have s: "a \<noteq> ''''" "\<forall>c \<in> set a. ascii_lowercase c \<or> ascii_digit c \<or> c = CHR ''-''" "\<not> starts_with a ''-''" "\<not> contains_dashes a"
      "\<not> starts_with a ''live-''" "\<not> starts_with a ''r-''"
    by (auto simp: alias_name_error_def split: if_splits)
  show "CHR ''.'' \<notin> set a" "CHR '':'' \<notin> set a"
    using s(2) by (auto simp: ascii_lowercase_def ascii_digit_def dest!: bspec)
  show "\<not> contains_dashes (CHR ''-'' # a)" using s(3,4) by (cases a) auto
qed (use assms in \<open>auto simp: alias_name_error_def split: if_splits\<close>)

text \<open>C23. Every alias the service accepts is reachable by its host name: the label built from an
  identifier and an alias, under the base domain and with or without a port, reads back as exactly
  that script and that alias, never as a live session or a preview.\<close>

theorem alias_host_round_trip:
  assumes "alias_name_error a = None" "addressable i" "CHR '':'' \<notin> set base" "port = '''' \<or> List.hd port = CHR '':''"
  shows "route_by_host (i @ ''--'' @ a @ ''.'' @ base @ port) base = Some (Aliased i a)"
proof -
  note a = alias_name_shape [OF assms(1)]
  have i: "\<not> contains_dashes (i @ ''-'')" "CHR ''.'' \<notin> set i" "CHR '':'' \<notin> set i" using assms(2) by (auto simp: addressable_def)
  note split = marker_split [OF i(1) a(1)]
  have "List.hd (split_char CHR '':'' ((i @ ''--'' @ a @ ''.'' @ base) @ port)) = i @ ''--'' @ a @ ''.'' @ base"
    by (rule host_without_port) (use a i assms in auto)
  moreover have "strip_suffix (i @ ''--'' @ a @ ''.'' @ base) base = Some (i @ ''--'' @ a @ ''.'')"
    "strip_suffix (i @ ''--'' @ a @ ''.'') ''.'' = Some (i @ ''--'' @ a)"
    using strip_suffix_append [of "i @ ''--'' @ a @ ''.''" base] strip_suffix_append [of "i @ ''--'' @ a" "''.''"]
    by (simp_all del: strip_suffix_append)
  moreover have "split_once_str ''--live-'' (i @ ''--'' @ a) = None" "split_once_str ''--r-'' (i @ ''--'' @ a) = None"
      "split_once_str ''--'' (i @ ''--'' @ a) = Some (i, a)"
    using split [of "''live-''"] split [of "''r-''"] split [of "''''"] a(2,3) by (simp_all add: starts_with_strip [symmetric] split: option.splits)
  ultimately show ?thesis using a i by (simp add: route_by_host_def Let_def)
qed

theorem alias_host_round_trip_witness:
  "route_by_host ''app--staging.actias.dev:8080'' ''actias.dev'' = Some (Aliased ''app'' ''staging'')"
proof -
  have "alias_name_error ''staging'' = None" "addressable ''app''" by code_simp+
  from alias_host_round_trip [OF this, of "''actias.dev''" "'':8080''"] show ?thesis by simp
qed

section \<open>Whose code answers\<close>

text \<open>Over the life of a worker a revision id names one script and a script id one identifier and project
  (\<open>own\<close> and \<open>nm\<close>); ids in the tables are in canonical form and have no slash.\<close>

definition served_store :: "'v service \<Rightarrow> (string \<Rightarrow> string) \<Rightarrow> (string \<Rightarrow> string \<times> string) \<Rightarrow> script_store \<Rightarrow> bool" where
  "served_store sv own nm s \<longleftrightarrow> store_ok s
     \<and> (\<forall>r \<in> set (st_revisions s). sv_parse sv (rv_id r) = Some (rv_id r) \<and> own (rv_id r) = rv_script r)
     \<and> (\<forall>q \<in> set (st_scripts s). sv_parse sv (sc_id q) = Some (sc_id q) \<and> CHR ''/'' \<notin> set (sc_id q) \<and> nm (sc_id q) = (sc_identifier q, sc_project q))"

text \<open>A script row as it was read, now or earlier.\<close>

definition row_ok :: "'v service \<Rightarrow> (string \<Rightarrow> string) \<Rightarrow> (string \<Rightarrow> string \<times> string) \<Rightarrow> script_row \<Rightarrow> bool" where
  "row_ok sv own nm q \<longleftrightarrow> sv_parse sv (sc_id q) = Some (sc_id q) \<and> CHR ''/'' \<notin> set (sc_id q) \<and> nm (sc_id q) = (sc_identifier q, sc_project q)
     \<and> (\<forall>r. sc_current q = Some r \<longrightarrow> sv_parse sv r = Some r \<and> own r = sc_id q)"

definition prepared_ok :: "'v service \<Rightarrow> (string \<Rightarrow> string) \<Rightarrow> (string \<Rightarrow> string \<times> string) \<Rightarrow> string \<Rightarrow> prepared \<Rightarrow> bool" where
  "prepared_ok sv own nm rid pp \<longleftrightarrow> sv_parse sv rid = Some (pp_revision pp) \<and> own (pp_revision pp) = pp_script pp
     \<and> nm (pp_script pp) = (pp_identifier pp, pp_project pp)"

definition caches_ok :: "'v service \<Rightarrow> (string \<Rightarrow> string) \<Rightarrow> (string \<Rightarrow> string \<times> string) \<Rightarrow> caches \<Rightarrow> bool" where
  "caches_ok sv own nm ch \<longleftrightarrow>
     (\<forall>rid pp. ch_revisions ch rid = Some pp \<longrightarrow> prepared_ok sv own nm rid pp)
   \<and> (\<forall>i q e. ch_pointers ch i = Some (q, e) \<longrightarrow> row_ok sv own nm q \<and> sc_identifier q = i)
   \<and> (\<forall>j n rid e. CHR ''/'' \<notin> set j \<longrightarrow> ch_aliases ch (j @ ''/'' @ n) = Some (rid, e) \<longrightarrow> sv_parse sv rid = Some rid \<and> own rid = j)"

lemmas serving_defs = served_store_def row_ok_def prepared_ok_def caches_ok_def

lemma append_slash_eq:
  "CHR ''/'' \<notin> set j \<Longrightarrow> CHR ''/'' \<notin> set k \<Longrightarrow> j @ CHR ''/'' # n = k @ CHR ''/'' # m \<longleftrightarrow> j = k \<and> n = m"
proof (induction j arbitrary: k)
  case (Cons c j)
  then show ?case by (cases k) auto
qed (auto simp: Cons_eq_append_conv)

lemma caches_ok_entries:
  assumes "caches_ok sv own nm ch"
  shows "prepared_ok sv own nm rid pp \<Longrightarrow> caches_ok sv own nm (ch\<lparr>ch_revisions := (ch_revisions ch)(rid \<mapsto> pp)\<rparr>)"
    and "row_ok sv own nm q \<Longrightarrow> caches_ok sv own nm (ch\<lparr>ch_pointers := (ch_pointers ch)(sc_identifier q \<mapsto> (q, e))\<rparr>)"
    and "CHR ''/'' \<notin> set j \<Longrightarrow> sv_parse sv r = Some r \<Longrightarrow> own r = j \<Longrightarrow>
           caches_ok sv own nm (ch\<lparr>ch_aliases := (ch_aliases ch)(j @ ''/'' @ n \<mapsto> (r, e))\<rparr>)"
  using assms by (auto simp: caches_ok_def append_slash_eq)

lemma caches_okD:
  assumes "caches_ok sv own nm ch"
  shows "ch_revisions ch rid = Some pp \<Longrightarrow> prepared_ok sv own nm rid pp"
    and "ch_pointers ch i = Some (q, e) \<Longrightarrow> row_ok sv own nm q \<and> sc_identifier q = i"
    and "CHR ''/'' \<notin> set j \<Longrightarrow> ch_aliases ch (j @ ''/'' @ n) = Some (rid, e) \<Longrightarrow> sv_parse sv rid = Some rid \<and> own rid = j"
  using assms unfolding caches_ok_def by blast+

lemma resolved_row:
  assumes "served_store sv own nm s" "caches_ok sv own nm ch" "resolve_script sv ttl now i s ch = (res, ch')"
  shows "caches_ok sv own nm ch' \<and> (\<forall>q. res = Inr q \<longrightarrow> row_ok sv own nm q \<and> sc_identifier q = i)"
proof (cases "fresh_entry now (ch_pointers ch i)")
  case (Some q)
  then obtain e where "ch_pointers ch i = Some (q, e)" by (auto simp: fresh_entry_def split: option.splits if_splits)
  with Some assms(2,3) caches_okD(2) [OF assms(2)] show ?thesis by (auto simp: resolve_script_def)
next
  case None
  show ?thesis
  proof (cases "get_script_info sv (ByName i) s")
    case (Inl e)
    with None assms show ?thesis by (auto simp: resolve_script_def)
  next
    case (Inr q)
    then have q: "q \<in> set (st_scripts s)" "sc_identifier q = i" by (auto simp: get_script_info_def find_Some_iff split: option.splits)
    have "own r = sc_id q \<and> sv_parse sv r = Some r" if "sc_current q = Some r" for r
      using assms(1) q(1) that store_okD(1) [of s q r] by (auto simp: served_store_def)
    with q assms(1) have "row_ok sv own nm q" by (simp add: row_ok_def served_store_def)
    with Inr None assms(3) q caches_ok_entries(2) [OF assms(2), of q] show ?thesis by (auto simp: resolve_script_def)
  qed
qed

lemma cached_own:
  assumes "served_store sv own nm s" "caches_ok sv own nm ch" "row_ok sv own nm q" "cached_revision sv q rid s ch = (res, ch')"
  shows "caches_ok sv own nm ch' \<and> (\<forall>pp. res = Inr pp \<longrightarrow> prepared_ok sv own nm rid pp)"
proof (cases "ch_revisions ch rid")
  case (Some pp)
  with assms(2,4) caches_okD(1) [OF assms(2) Some] show ?thesis by (auto simp: cached_revision_def)
next
  case None
  have "prepared_ok sv own nm rid pp" if "load_revision sv q rid s = Inr pp" for pp
    using that assms(1,3)
    by (auto simp: load_revision_def get_revision_def prepare_def prepared_ok_def served_store_def row_ok_def find_Some_iff
        split: option.splits sum.splits if_splits)
  with None assms(2,4) caches_ok_entries(1) [OF assms(2)] show ?thesis by (auto simp: cached_revision_def split: sum.splits)
qed

lemma aliased_own:
  assumes "served_store sv own nm s" "caches_ok sv own nm ch" "row_ok sv own nm q" "aliased_revision sv ttl now q n s ch = (res, ch')"
  shows "caches_ok sv own nm ch' \<and> (\<forall>rid. res = Inr rid \<longrightarrow> sv_parse sv rid = Some rid \<and> own rid = sc_id q)"
proof (cases "fresh_entry now (ch_aliases ch (sc_id q @ ''/'' @ n))")
  case (Some rid)
  then obtain e where "ch_aliases ch (sc_id q @ ''/'' @ n) = Some (rid, e)" by (auto simp: fresh_entry_def split: option.splits if_splits)
  with Some assms(2-4) caches_okD(3) [OF assms(2)] show ?thesis by (auto simp: aliased_revision_def row_ok_def Let_def)
next
  case None
  show ?thesis
  proof (cases "get_alias sv (sc_id q) n s")
    case (Inl e)
    with None assms show ?thesis by (auto simp: aliased_revision_def)
  next
    case (Inr a)
    then have a: "a \<in> set (st_aliases s)" "al_script a = sc_id q"
      using assms(3) by (auto simp: get_alias_def row_ok_def find_Some_iff split: option.splits)
    from assms(1) have "sv_parse sv (al_revision a) = Some (al_revision a) \<and> own (al_revision a) = sc_id q"
      using store_okD(3) [of s a] a by (force simp: served_store_def)
    moreover have "CHR ''/'' \<notin> set (sc_id q)" using assms(3) by (simp add: row_ok_def)
    ultimately show ?thesis
      using Inr None assms(4) caches_ok_entries(3) [OF assms(2), of "sc_id q" "al_revision a" n] by (auto simp: aliased_revision_def Let_def)
  qed
qed

lemma target_own:
  assumes "served_store sv own nm s" "caches_ok sv own nm ch" "row_ok sv own nm q" "target_revision sv session ttl now a q s ch = (res, ch')"
  shows "caches_ok sv own nm ch' \<and> (\<forall>pp. res = Inr pp \<longrightarrow> (\<forall>i r. a \<noteq> Revision i r) \<longrightarrow> pp_script pp = sc_id q \<and> pp_identifier pp = sc_identifier q)"
proof (cases a)
  case (Published i)
  show ?thesis
  proof (cases "sc_current q")
    case None
    with Published assms(2,4) show ?thesis by (auto simp: target_revision_def)
  next
    case (Some r)
    obtain r2 ch2 where c: "cached_revision sv q r s ch = (r2, ch2)" by fastforce
    have "sv_parse sv r = Some r \<and> own r = sc_id q" "nm (sc_id q) = (sc_identifier q, sc_project q)" using assms(3) Some by (auto simp: row_ok_def)
    with Published Some c cached_own [OF assms(1-3) c] assms(4) show ?thesis
      by (cases r2) (auto simp: target_revision_def prepared_ok_def)
  qed
next
  case (Live i sid)
  with assms show ?thesis by (auto simp: target_revision_def prepare_def split: sum.splits status.splits)
next
  case (Revision i r)
  obtain r2 ch2 where c: "cached_revision sv q r s ch = (r2, ch2)" by fastforce
  with Revision assms(4) cached_own [OF assms(1-3) c] show ?thesis
    by (cases r2) (auto simp: target_revision_def)
next
  case (Aliased i n)
  obtain r1 ch1 where al: "aliased_revision sv ttl now q n s ch = (r1, ch1)" by fastforce
  note ok = aliased_own [OF assms(1-3) al]
  show ?thesis
  proof (cases r1)
    case (Inl e)
    with Aliased al ok assms(4) show ?thesis by (auto simp: target_revision_def)
  next
    case (Inr rid)
    obtain r2 ch2 where c: "cached_revision sv q rid s ch1 = (r2, ch2)" by fastforce
    from ok have "caches_ok sv own nm ch1" by simp
    note own = cached_own [OF assms(1) this assms(3) c]
    have "nm (sc_id q) = (sc_identifier q, sc_project q)" using assms(3) by (simp add: row_ok_def)
    with Inr Aliased al c own ok assms(4) show ?thesis
      by (cases r2) (auto simp: target_revision_def prepared_ok_def)
  qed
qed

text \<open>C24. A request by name or by alias is answered by that script's own code: however stale the caches are,
  as long as each entry was true when it was made, the listener that runs belongs to the script the
  identifier names, and serving the request, a preview of another script's revision included,
  leaves the caches true. The caches speak of what was true once, so publishes, rollbacks and
  deletions in between do not matter.\<close>

theorem published_serves_own_code:
  assumes "served_store sv own nm s" "caches_ok sv own nm ch"
    and "run_script sv session ttl now base rq s ch = (m, ch')" "address base rq = Some (a, n)"
  shows "caches_ok sv own nm ch'
    \<and> (\<forall>pp path. m = Listener pp path \<longrightarrow> (\<forall>i r. a \<noteq> Revision i r) \<longrightarrow>
         pp_identifier pp = identifier_of a \<and> fst (nm (pp_script pp)) = identifier_of a)"
proof (cases "rq_body_ok rq")
  case True
  obtain r1 ch1 where r: "resolve_script sv ttl now (identifier_of a) s ch = (r1, ch1)" by fastforce
  note ok = resolved_row [OF assms(1,2) r]
  show ?thesis
  proof (cases r1)
    case (Inl e)
    with True r ok assms(3,4) show ?thesis by (auto simp: run_script_def split: if_splits)
  next
    case (Inr q)
    obtain r2 ch2 where t: "target_revision sv session ttl now a q s ch1 = (r2, ch2)" by fastforce
    from ok Inr have q: "caches_ok sv own nm ch1" "row_ok sv own nm q" "sc_identifier q = identifier_of a" by auto
    note own = target_own [OF assms(1) q(1,2) t]
    show ?thesis
    proof (cases r2)
      case (Inl m')
      then have "m' \<noteq> Listener pp path" for pp path
        using t by (auto simp: target_revision_def split: addressed.splits sum.splits status.splits option.splits prod.splits if_splits)
      with Inl True r Inr t own assms(3,4) show ?thesis using \<open>r1 = Inr q\<close> by (auto simp: run_script_def)
    next
      case (Inr pp)
      have "ch' = ch2 \<and> (\<forall>pp' path. m = Listener pp' path \<longrightarrow> pp' = pp)"
        using True r Inr t assms(3,4) \<open>r1 = Inr q\<close> by (simp add: run_script_def Let_def split: option.splits if_splits) (auto split: option.splits)
      with Inr own q(2,3) show ?thesis by (auto simp: row_ok_def)
    qed
  qed
qed (use assms in \<open>auto simp: run_script_def\<close>)

text \<open>Two scripts, each with its one revision.\<close>

definition two_served :: script_store where
  "two_served = \<lparr>st_scripts = [demo_script ''a'' ''first'' 1 (Some ''r1''), demo_script ''b'' ''second'' 2 (Some ''r2'')],
     st_revisions = [demo_row ''r1'' 1 ''a'' ''one'', demo_row ''r2'' 2 ''b'' ''two''],
     st_files = [\<lparr>fl_revision = ''r1'', fl_path = ''main.lua'', fl_hash = ''hone'', fl_size = 3, fl_content_type = '''', fl_kind = Module\<rparr>,
                 \<lparr>fl_revision = ''r2'', fl_path = ''main.lua'', fl_hash = ''htwo'', fl_size = 3, fl_content_type = '''', fl_kind = Module\<rparr>],
     st_aliases = [], st_blobs = [''hone'' \<mapsto> ''one'', ''htwo'' \<mapsto> ''two'']\<rparr>"

definition no_caches :: caches where
  "no_caches = \<lparr>ch_pointers = Map.empty, ch_aliases = Map.empty, ch_revisions = Map.empty\<rparr>"

definition get_path :: "string \<Rightarrow> request" where
  "get_path path = \<lparr>rq_host = None, rq_path = path, rq_method = ''GET'', rq_body_ok = True, rq_if_none_match = None\<rparr>"

definition no_session :: "string \<Rightarrow> string \<Rightarrow> status + script_bundle" where
  "no_session script sid = Inl (NotFound ''session'')"

definition served_file :: "string \<Rightarrow> bundle_file" where
  "served_file src = \<lparr>f_path = ''main.lua'', f_content = src, f_hash = CHR ''h'' # src, f_size = 3, f_content_type = '''', f_kind = Module\<rparr>"

definition second_prepared :: prepared where
  "second_prepared = prepare (demo_script ''b'' ''second'' 2 (Some ''r2'')) ''r2'' (Some no_capabilities)
     \<lparr>b_entry_point = ''main.lua'', b_files = [served_file ''two'']\<rparr>"

lemma addresses:
  "address None (get_path ''/second'') = Some (Published ''second'', 1)"
  "address None (get_path ''/_rev/first/r2'') = Some (Revision ''first'' ''r2'', 3)"
  by code_simp+

lemma loaded_second:
  "load_revision demo_service (demo_script ''b'' ''second'' 2 (Some ''r2'')) ''r2'' two_served = Inr second_prepared"
  by (simp add: load_revision_def get_revision_def demo_service_def two_served_def demo_row_def demo_script_def hydrate_def Let_def blob_get_def
      trim_def is_space_def second_prepared_def prepare_def served_file_def class_contract_def)

lemma foreign_load:
  "load_revision demo_service (demo_script ''a'' ''first'' 1 (Some ''r1'')) ''r2'' two_served = Inl (Text FOREIGN_REVISION)"
  by (simp add: load_revision_def get_revision_def demo_service_def two_served_def demo_row_def demo_script_def hydrate_def Let_def)

lemma found_by_name:
  "get_script_info demo_service (ByName ''first'') two_served = Inr (demo_script ''a'' ''first'' 1 (Some ''r1''))"
  "get_script_info demo_service (ByName ''second'') two_served = Inr (demo_script ''b'' ''second'' 2 (Some ''r2''))"
  by (simp_all add: get_script_info_def two_served_def demo_script_def)

definition warmed :: caches where
  "warmed = snd (run_script demo_service no_session 60 0 None (get_path ''/second'') two_served no_caches)"

lemma second_asset: "asset second_prepared p = None"
  by (simp add: asset_def find_asset_def second_prepared_def prepare_def served_file_def)

lemma warm_request:
  "run_script demo_service no_session 60 0 None (get_path ''/second'') two_served no_caches
     = (Listener second_prepared '''', \<lparr>ch_pointers = [''second'' \<mapsto> (demo_script ''b'' ''second'' 2 (Some ''r2''), 60)],
          ch_aliases = Map.empty, ch_revisions = [''r2'' \<mapsto> second_prepared]\<rparr>)"
proof -
  have "script_relative_path ''/second'' 1 = ''''" by code_simp
  moreover have "sc_current (demo_script ''b'' ''second'' 2 (Some ''r2'')) = Some ''r2''" by (simp add: demo_script_def)
  moreover have "rq_body_ok (get_path ''/second'')" "rq_path (get_path ''/second'') = ''/second''" by (simp_all add: get_path_def)
  ultimately show ?thesis
    by (simp add: run_script_def addresses no_caches_def resolve_script_def fresh_entry_def found_by_name
        target_revision_def cached_revision_def loaded_second second_asset)
qed

lemmas warmed_eq = warmed_def [unfolded warm_request snd_conv]

text \<open>A preview link does run another script's revision: the check that a revision belongs to the
  addressed script stands in the cache's loader, so a cold worker answers not found, and once the
  owner's traffic has loaded the revision the same link runs it under the wrong identifier.\<close>

theorem preview_serves_other_script:
  "fst (run_script demo_service no_session 60 0 None (get_path ''/_rev/first/r2'') two_served no_caches)
     = Answer (text_response 404 ''No such revision for this script.'')
   \<and> fst (run_script demo_service no_session 60 1 None (get_path ''/_rev/first/r2'') two_served warmed) = Listener second_prepared ''''
   \<and> pp_script second_prepared = ''b'' \<and> get_script_info demo_service (ByName ''first'') two_served = Inr (demo_script ''a'' ''first'' 1 (Some ''r1''))"
proof (intro conjI)
  have p: "script_relative_path ''/_rev/first/r2'' 3 = ''''" by code_simp
  have g: "rq_body_ok (get_path ''/_rev/first/r2'')" "rq_path (get_path ''/_rev/first/r2'') = ''/_rev/first/r2''" by (simp_all add: get_path_def)
  show "fst (run_script demo_service no_session 60 0 None (get_path ''/_rev/first/r2'') two_served no_caches)
     = Answer (text_response 404 ''No such revision for this script.'')"
    by (simp add: run_script_def addresses g p no_caches_def resolve_script_def fresh_entry_def found_by_name
        target_revision_def cached_revision_def foreign_load target_absent_def)
  show "fst (run_script demo_service no_session 60 1 None (get_path ''/_rev/first/r2'') two_served warmed) = Listener second_prepared ''''"
    by (simp add: run_script_def addresses g p warmed_eq resolve_script_def fresh_entry_def found_by_name
        target_revision_def cached_revision_def second_asset)
qed (simp_all add: second_prepared_def prepare_def demo_script_def found_by_name)

definition demo_owner :: "string \<Rightarrow> string" where
  "demo_owner r = (if r = ''r1'' then ''a'' else ''b'')"

definition demo_name :: "string \<Rightarrow> string \<times> string" where
  "demo_name i = (if i = ''a'' then ''first'' else ''second'', ''p'')"

lemma two_served_ok: "served_store demo_service demo_owner demo_name two_served"
  by (simp add: served_store_def store_ok_defs two_served_def demo_script_def demo_row_def demo_service_def demo_owner_def demo_name_def)

theorem published_serves_own_code_witness:
  "pp_identifier second_prepared = ''second'' \<and> fst (demo_name (pp_script second_prepared)) = ''second'' \<and> caches_ok demo_service demo_owner demo_name warmed"
proof -
  have c: "caches_ok demo_service demo_owner demo_name no_caches" by (simp add: caches_ok_def no_caches_def)
  from published_serves_own_code [OF two_served_ok c warm_request addresses(1)] show ?thesis by (simp add: warmed_def warm_request)
qed

end
