(* ===== verification/Routing.thy ===== *)
theory Routing
  imports Classes Shipping Identity Http_Serving
begin

text \<open>
  Routing an object call (\<open>actias-worker/src/routing.rs\<close>, \<open>dispatch\<close> and the token gate of
  \<open>data_plane.rs\<close>): whose code an object runs, the lease claim, making an object resident, the read
  bypass, and the one hop to the node that holds the lease. A node is its identity, its registry of
  live tasks, its disk and its caches; script service, placement store and bucket are shared. What a
  delivered call does in the object's task is the model of the task loop; here a call ends in a
  mailbox.
\<close>

section \<open>Nodes\<close>

text \<open>\<open>nd_homes\<close>: what the task behind a handle closed over, its object and the epoch of its lease.\<close>

record 'u node =
  nd_identity :: "string option"
  nd_host :: host
  nd_homes :: "nat \<rightharpoonup> string \<times> int"
  nd_disk :: "string \<rightharpoonup> 'u db"
  nd_replicas :: "string \<rightharpoonup> 'u db \<times> int"
  nd_caches :: caches
  nd_owners :: "string \<rightharpoonup> prepared \<times> int"

record 'u shared =
  sh_scripts :: script_store
  sh_registry :: registry
  sh_bucket :: "'u db bucket"

text \<open>What every node is configured with: the backends' pure parts, times to live, and the texts tonic
  and serde give their errors. \<open>fc_net\<close> is the bucket's weather and \<open>fc_wire\<close> that of a peer.\<close>

record ('u, 'v) fleet_config =
  fc_service :: "'v service"
  fc_hash :: "string \<Rightarrow> string"
  fc_pointer_ttl :: int
  fc_node_ttl :: "32 word"
  fc_replica_ttl :: int
  fc_env :: worker_env
  fc_budget :: nat
  fc_codec :: codec
  fc_row_why :: "string \<Rightarrow> string"
  fc_text_why :: "string \<Rightarrow> string"
  fc_status :: "status \<Rightarrow> string"
  fc_engine :: "'u sql_engine"
  fc_new :: 'u
  fc_net :: "nat \<Rightarrow> string option"
  fc_wire :: "string \<Rightarrow> string option"
  fc_token :: string

section \<open>Whose code an object runs\<close>

definition load_text :: "('u, 'v) fleet_config \<Rightarrow> load_error \<Rightarrow> string" where
  "load_text fc e = (case e of Rpc st \<Rightarrow> fc_status fc st | Text t \<Rightarrow> t)"

definition owner_script :: "('u, 'v) fleet_config \<Rightarrow> object_key \<Rightarrow> 'u shared \<Rightarrow> string + string" where
  "owner_script fc k sh =
     (if is_cron k then Inr (k_scope k)
      else case resolve_class_owner (fc_service fc) (k_scope k) (k_class k) (k_name k) (sh_scripts sh) (sh_registry sh) of
        Inl (NotFound _) \<Rightarrow> Inl ''No script in the project owns this object.''
      | Inl e \<Rightarrow> Inl (fc_status fc e)
      | Inr i \<Rightarrow> Inr i)"

definition owner_prepared :: "('u, 'v) fleet_config \<Rightarrow> int \<Rightarrow> object_key \<Rightarrow> 'u shared \<Rightarrow> 'u node \<Rightarrow> (string + prepared) \<times> 'u node" where
  "owner_prepared fc now k sh nd =
     (case fresh_entry now (nd_owners nd (key_display k)) of
        Some pp \<Rightarrow> (Inr pp, nd)
      | None \<Rightarrow>
     (case owner_script fc k sh of
        Inl e \<Rightarrow> (Inl e, nd)
      | Inr i \<Rightarrow>
     (case get_script_info (fc_service fc) (ById i) (sh_scripts sh) of
        Inl e \<Rightarrow> (Inl (fc_status fc e), nd)
      | Inr row \<Rightarrow>
     (case sc_current row of
        None \<Rightarrow> (Inl ''The owner script has no published revision.'', nd)
      | Some rid \<Rightarrow>
     (case cached_revision (fc_service fc) row rid (sh_scripts sh) (nd_caches nd) of
        (Inl e, ch) \<Rightarrow> (Inl (load_text fc e), nd\<lparr>nd_caches := ch\<rparr>)
      | (Inr pp, ch) \<Rightarrow>
          (Inr pp, nd\<lparr>nd_caches := ch,
             nd_owners := (nd_owners nd)(key_display k \<mapsto> (pp, now + fc_pointer_ttl fc))\<rparr>))))))"

section \<open>Making an object resident\<close>

definition claim_lease :: "('u, 'v) fleet_config \<Rightarrow> int \<Rightarrow> object_key \<Rightarrow> string \<Rightarrow> 'u node \<Rightarrow> 'u shared \<Rightarrow> (string + lease) \<times> 'u shared" where
  "claim_lease fc now k owner nd sh =
     (case nd_identity nd of
        None \<Rightarrow> (Inl ''This node has not finished registering; try again.'', sh)
      | Some i \<Rightarrow>
          (case claim (sv_parse (fc_service fc)) (fc_node_ttl fc) now
                  \<lparr>cq_object = object_id (fc_hash fc) k, cq_node = i, cq_scope = k_scope k, cq_class = k_class k,
                   cq_name = k_name k, cq_script = owner\<rparr> (sh_registry sh) of
             (Inl e, rg) \<Rightarrow> (Inl (fc_status fc (status_of e)), sh\<lparr>sh_registry := rg\<rparr>)
           | (Inr l, rg) \<Rightarrow> (Inr l, sh\<lparr>sh_registry := rg\<rparr>)))"

text \<open>The script row a prepared revision carries; loading another revision reads these three fields.\<close>

definition script_of :: "prepared \<Rightarrow> script_row" where
  "script_of pp = \<lparr>sc_id = pp_script pp, sc_project = pp_project pp, sc_identifier = pp_identifier pp,
     sc_updated = 0, sc_current = Some (pp_revision pp)\<rparr>"

text \<open>The code a task runs: a workflow instance stays on the revision it started with.\<close>

definition code_for :: "('u, 'v) fleet_config \<Rightarrow> object_key \<Rightarrow> prepared \<Rightarrow> 'u db option \<Rightarrow> 'u shared \<Rightarrow> caches \<Rightarrow> (string + prepared) \<times> caches" where
  "code_for fc k owner file sh ch =
     (case Option.bind file (pinned_revision (fc_codec fc) (fc_row_why fc)) of
        Some pinned \<Rightarrow>
          if k_class k = WORKFLOW_CLASS \<and> pinned \<noteq> pp_revision owner
          then (case cached_revision (fc_service fc) (script_of owner) pinned (sh_scripts sh) ch of
                  (Inl e, ch') \<Rightarrow> (Inl (''The run's pinned revision could not load: '' @ load_text fc e), ch')
                | (Inr pp, ch') \<Rightarrow> (Inr pp, ch'))
          else (Inr owner, ch)
      | None \<Rightarrow> (Inr owner, ch))"

definition boot_error :: "('u, 'v) fleet_config \<Rightarrow> prepared \<Rightarrow> string option" where
  "boot_error fc pp =
     (case worker_top_level (sv_lua (fc_service fc)) ((fc_env fc)\<lparr>we_contract := pp_contract pp\<rparr>) (fc_budget fc) pp of
        (Inl e, _) \<Rightarrow> Some e | (Inr _, _) \<Rightarrow> None)"

text \<open>A workflow's file is opened and brought to the journal's schema before the vm boots, so that its
  secret pins are known; any other file is opened after.\<close>

definition pre_open :: "object_key \<Rightarrow> 'u \<Rightarrow> 'u db option \<Rightarrow> (string + unit) \<times> 'u db option" where
  "pre_open k u file =
     (if k_class k = WORKFLOW_CLASS
      then (case ensure_schema (open_file (case file of Some d \<Rightarrow> d | None \<Rightarrow> fresh_db u)) of
              (r, st) \<Rightarrow> (r, Some (committed st)))
      else (Inr (), file))"

text \<open>The factory: claim, restore, choose the code, boot the vm, open the file.\<close>

definition spawn :: "('u, 'v) fleet_config \<Rightarrow> int \<Rightarrow> object_key \<Rightarrow> prepared \<Rightarrow> 'u node \<Rightarrow> 'u shared \<Rightarrow> (string + int) \<times> 'u node \<times> 'u shared" where
  "spawn fc now k owner nd sh =
     (let oid = object_id (fc_hash fc) k;
          on_disk = (\<lambda>file nd. nd\<lparr>nd_disk := (nd_disk nd)(oid := file)\<rparr>) in
      case claim_lease fc now k (pp_script owner) nd sh of
        (Inl e, sh1) \<Rightarrow> (Inl e, nd, sh1)
      | (Inr l, sh1) \<Rightarrow>
     (case spawn_file l oid (nd_disk nd oid) (fc_net fc) (sh_bucket sh1) of
        Inl e \<Rightarrow> (Inl e, nd, sh1)
      | Inr file \<Rightarrow>
     (case code_for fc k owner file sh1 (nd_caches nd) of
        (Inl e, ch) \<Rightarrow> (Inl e, on_disk file (nd\<lparr>nd_caches := ch\<rparr>), sh1)
      | (Inr pp, ch) \<Rightarrow>
     (case pre_open k (fc_new fc) file of
        (Inl e, opened) \<Rightarrow> (Inl e, on_disk opened (nd\<lparr>nd_caches := ch\<rparr>), sh1)
      | (Inr _, opened) \<Rightarrow>
     (case boot_error fc pp of
        Some e \<Rightarrow> (Inl e, on_disk opened (nd\<lparr>nd_caches := ch\<rparr>), sh1)
      | None \<Rightarrow>
          (Inr (ls_epoch l), on_disk (Some (case opened of Some d \<Rightarrow> d | None \<Rightarrow> fresh_db (fc_new fc))) (nd\<lparr>nd_caches := ch\<rparr>), sh1))))))"

definition resolve_local :: "('u, 'v) fleet_config \<Rightarrow> int \<Rightarrow> object_key \<Rightarrow> prepared \<Rightarrow> 'u node \<Rightarrow> 'u shared \<Rightarrow> (string + nat) \<times> 'u node \<times> 'u shared" where
  "resolve_local fc now k owner nd sh =
     (let key = key_display k; marker = pp_revision owner in
      if (case tasks (nd_host nd) key of Some (held, handle) \<Rightarrow> held = marker \<and> \<not> closed (nd_host nd) handle | None \<Rightarrow> False)
      then (fst (get_or_spawn key marker None (nd_host nd)), nd, sh)
      else case spawn fc now k owner nd sh of
        (Inl e, nd1, sh1) \<Rightarrow> (Inl e, nd1, sh1)
      | (Inr epoch, nd1, sh1) \<Rightarrow>
          (case get_or_spawn key marker None (nd_host nd1) of
             (Inl e, hs) \<Rightarrow> (Inl e, nd1\<lparr>nd_host := hs\<rparr>, sh1)
           | (Inr handle, hs) \<Rightarrow>
               (Inr handle, nd1\<lparr>nd_host := hs, nd_homes := (nd_homes nd1)(handle \<mapsto> (object_id (fc_hash fc) k, epoch))\<rparr>, sh1)))"

datatype resolve_error = Elsewhere string | Other string

definition resolve_handle :: "('u, 'v) fleet_config \<Rightarrow> int \<Rightarrow> object_key \<Rightarrow> 'u node \<Rightarrow> 'u shared \<Rightarrow> (resolve_error + nat) \<times> 'u node \<times> 'u shared" where
  "resolve_handle fc now k nd sh =
     (case owner_prepared fc now k sh nd of
        (Inl e, nd1) \<Rightarrow> (Inl (Other e), nd1, sh)
      | (Inr owner, nd1) \<Rightarrow>
     (case (if is_resident (key_display k) (nd_host nd1) then (Inr None, sh)
            else case claim_lease fc now k (pp_script owner) nd1 sh of
              (Inl e, sh1) \<Rightarrow> (Inl e, sh1)
            | (Inr l, sh1) \<Rightarrow> (Inr (if ls_acquired l then None else Some (ls_node l)), sh1)) of
        (Inl e, sh1) \<Rightarrow> (Inl (Other e), nd1, sh1)
      | (Inr (Some holder), sh1) \<Rightarrow> (Inl (Elsewhere holder), nd1, sh1)
      | (Inr None, sh1) \<Rightarrow>
          (case resolve_local fc now k owner nd1 sh1 of
             (Inl e, nd2, sh2) \<Rightarrow> (Inl (Other e), nd2, sh2)
           | (Inr h, nd2, sh2) \<Rightarrow> (Inr h, nd2, sh2))))"

section \<open>Calls\<close>

record object_target =
  ot_class :: string
  ot_name :: string
  ot_method :: string
  ot_args :: "json list"
  ot_chain :: "string list"
  ot_caller :: "caller option"

text \<open>\<open>worker_data::ObjectCall\<close>: a call on the wire.\<close>

record object_call =
  oc_scope :: string
  oc_class :: string
  oc_name :: string
  oc_method :: string
  oc_args_json :: string
  oc_chain :: "string list"
  oc_caller :: "caller option"
  oc_first_hop :: bool

definition dispatch_payload :: "object_target \<Rightarrow> string list \<Rightarrow> json" where
  "dispatch_payload t chain = JObj [
     (''args'', JArr (ot_args t)),
     (''caller'', case ot_caller t of None \<Rightarrow> JNull
        | Some c \<Rightarrow> JObj [(''revision'', JStr (cl_revision c)), (''script'', JStr (cl_script c))]),
     (''chain'', JArr (map JStr chain)),
     (''class'', JStr (ot_class t)),
     (''method'', JStr (ot_method t)),
     (''name'', JStr (ot_name t))]"

text \<open>Where a call stands on one node: in a mailbox, answered, refused, or to be sent to the holder.\<close>

datatype routed = Deliver nat json | Value json | Fail string | Hop string object_call

section \<open>Reads beside the mailbox\<close>

definition fresh_replica_file :: "('u, 'v) fleet_config \<Rightarrow> int \<Rightarrow> string \<Rightarrow> 'u node \<Rightarrow> 'u shared \<Rightarrow> (string + 'u db option) \<times> 'u node" where
  "fresh_replica_file fc now oid nd sh =
     (case nd_replicas nd oid of
        Some (d, modified) \<Rightarrow>
          if modified \<le> now \<and> now - modified < fc_replica_ttl fc then (Inr (Some d), nd)
          else (case restore oid (fc_net fc) (sh_bucket sh) of
                  Inl e \<Rightarrow> (Inl e, nd)
                | Inr None \<Rightarrow> (Inr None, nd)
                | Inr (Some d') \<Rightarrow> (Inr (Some d'), nd\<lparr>nd_replicas := (nd_replicas nd)(oid \<mapsto> (d', now))\<rparr>))
      | None \<Rightarrow>
          (case restore oid (fc_net fc) (sh_bucket sh) of
             Inl e \<Rightarrow> (Inl e, nd)
           | Inr None \<Rightarrow> (Inr None, nd)
           | Inr (Some d') \<Rightarrow> (Inr (Some d'), nd\<lparr>nd_replicas := (nd_replicas nd)(oid \<mapsto> (d', now))\<rparr>)))"

definition read_bypass :: "'u sql_engine \<Rightarrow> 'u db \<Rightarrow> object_target \<Rightarrow> string + json option" where
  "read_bypass eng d t =
     (case arg 0 (ot_args t) of
        Some (JStr sql) \<Rightarrow>
          (case (case arg 1 (ot_args t) of Some (JArr ps) \<Rightarrow> Some ps | Some JNull \<Rightarrow> Some [] | None \<Rightarrow> Some [] | Some _ \<Rightarrow> None) of
             None \<Rightarrow> Inr None
           | Some params \<Rightarrow>
               (case fst (query eng sql params (open_file d)) of
                  Inl e \<Rightarrow> Inl e
                | Inr rows \<Rightarrow> Inr (Some (if ot_method t = ''read_one'' then (case rows of [] \<Rightarrow> JNull | r # _ \<Rightarrow> r) else JArr rows))))
      | _ \<Rightarrow> Inr None)"

text \<open>The bypass: an answer, an error, or neither.\<close>

definition bypassed :: "('u, 'v) fleet_config \<Rightarrow> int \<Rightarrow> object_key \<Rightarrow> object_target \<Rightarrow> 'u node \<Rightarrow> 'u shared \<Rightarrow> (string + json option) \<times> 'u node" where
  "bypassed fc now k t nd sh =
     (if ot_class t = DATABASE_CLASS \<and> ot_method t \<in> {''read'', ''read_one''} then
        (let oid = object_id (fc_hash fc) k in
         case (if is_resident (key_display k) (nd_host nd) then nd_disk nd oid else None) of
           Some d \<Rightarrow> (read_bypass (fc_engine fc) d t, nd)
         | None \<Rightarrow>
             (case fresh_replica_file fc now oid nd sh of
                (Inl e, nd1) \<Rightarrow> (Inl e, nd1)
              | (Inr None, nd1) \<Rightarrow> (Inr None, nd1)
              | (Inr (Some d), nd1) \<Rightarrow> (read_bypass (fc_engine fc) d t, nd1)))
      else (Inr None, nd))"

section \<open>Routing\<close>

definition wire_call :: "('u, 'v) fleet_config \<Rightarrow> object_key \<Rightarrow> object_target \<Rightarrow> string list \<Rightarrow> object_call" where
  "wire_call fc k t chain = \<lparr>oc_scope = k_scope k, oc_class = ot_class t, oc_name = ot_name t, oc_method = ot_method t,
     oc_args_json = to_text (fc_codec fc) (JArr (ot_args t)), oc_chain = chain, oc_caller = ot_caller t, oc_first_hop = False\<rparr>"

definition call_chain :: "object_key \<Rightarrow> object_target \<Rightarrow> string + string list" where
  "call_chain k t =
     (if ot_chain t \<noteq> [] \<and> last (ot_chain t) = key_display k then Inr (ot_chain t)
      else extend_call_chain (ot_chain t) (key_display k))"

definition route_inner :: "('u, 'v) fleet_config \<Rightarrow> int \<Rightarrow> prepared \<Rightarrow> object_target \<Rightarrow> bool \<Rightarrow> 'u node \<Rightarrow> 'u shared \<Rightarrow> routed \<times> 'u node \<times> 'u shared" where
  "route_inner fc now pp t allow_forward nd sh =
     (let k = key_scoped (pp_project pp) (pp_script pp) (ot_class t) (ot_name t) in
      case bypassed fc now k t nd sh of
        (Inl e, nd1) \<Rightarrow> (Fail e, nd1, sh)
      | (Inr (Some v), nd1) \<Rightarrow> (Value v, nd1, sh)
      | (Inr None, nd1) \<Rightarrow>
     (case call_chain k t of
        Inl e \<Rightarrow> (Fail e, nd1, sh)
      | Inr chain \<Rightarrow>
     (case resolve_handle fc now k nd1 sh of
        (Inl (Elsewhere holder), nd2, sh2) \<Rightarrow>
          (if allow_forward then Hop holder (wire_call fc k t chain)
           else Fail (''Object is homed on '' @ holder @ '', but this call may not forward again.''), nd2, sh2)
      | (Inl (Other e), nd2, sh2) \<Rightarrow> (Fail e, nd2, sh2)
      | (Inr h, nd2, sh2) \<Rightarrow> (Deliver h (dispatch_payload t chain), nd2, sh2))))"

text \<open>A call leaving a vm speaks as that vm's script.\<close>

definition route_call :: "('u, 'v) fleet_config \<Rightarrow> int \<Rightarrow> prepared \<Rightarrow> object_target \<Rightarrow> 'u node \<Rightarrow> 'u shared \<Rightarrow> routed \<times> 'u node \<times> 'u shared" where
  "route_call fc now pp t nd sh =
     route_inner fc now pp (t\<lparr>ot_caller := Some \<lparr>cl_script = pp_identifier pp, cl_revision = pp_revision pp\<rparr>\<rparr>) True nd sh"

section \<open>The data plane\<close>

definition require_internal_token :: "string \<Rightarrow> string option \<Rightarrow> status + unit" where
  "require_internal_token token header =
     (if header = Some token then Inr () else Inl (Unauthenticated ''Internal transport only.''))"

text \<open>A token that is no header value travels absent.\<close>

definition authed :: "string \<Rightarrow> string option" where
  "authed token = (if header_value token then Some token else None)"

definition dispatch_rpc :: "('u, 'v) fleet_config \<Rightarrow> int \<Rightarrow> object_call \<Rightarrow> 'u node \<Rightarrow> 'u shared \<Rightarrow> routed \<times> 'u node \<times> 'u shared" where
  "dispatch_rpc fc now c nd sh =
     (case (if oc_args_json c = '''' then Some []
            else Option.bind (from_text (fc_codec fc) (oc_args_json c)) as_array) of
        None \<Rightarrow> (Fail (''Malformed object call arguments: '' @ fc_text_why fc (oc_args_json c)), nd, sh)
      | Some args \<Rightarrow>
          (case owner_prepared fc now (key_received (oc_scope c) (oc_class c) (oc_name c)) sh nd of
             (Inl e, nd1) \<Rightarrow> (Fail e, nd1, sh)
           | (Inr owner, nd1) \<Rightarrow>
               route_inner fc now owner \<lparr>ot_class = oc_class c, ot_name = oc_name c, ot_method = oc_method c, ot_args = args,
                 ot_chain = oc_chain c, ot_caller = oc_caller c\<rparr> (oc_first_hop c) nd1 sh))"

text \<open>The envelope an answer travels in, and how the caller opens it.\<close>

definition envelope :: "codec \<Rightarrow> string + json \<Rightarrow> string \<times> string" where
  "envelope J a = (case a of Inr v \<Rightarrow> (to_text J v, '''') | Inl e \<Rightarrow> ('''', e))"

definition open_envelope :: "('u, 'v) fleet_config \<Rightarrow> string \<times> string \<Rightarrow> string + json" where
  "open_envelope fc r =
     (if snd r \<noteq> '''' then Inl (snd r)
      else case from_text (fc_codec fc) (fst r) of
        Some v \<Rightarrow> Inr v
      | None \<Rightarrow> Inl (''The object's home answered garbage: '' @ fc_text_why fc (fst r)))"

section \<open>The fleet\<close>

record 'u fleet =
  ft_nodes :: "string \<Rightarrow> 'u node"
  ft_shared :: "'u shared"

text \<open>Where a call ends: in the mailbox of a handle on the node at an address, or with an answer.\<close>

datatype landed = Landed string nat json | Finished "string + json"

definition put_node :: "string \<Rightarrow> 'u node \<times> 'u shared \<Rightarrow> 'u fleet \<Rightarrow> 'u fleet" where
  "put_node a x ft = ft\<lparr>ft_nodes := (ft_nodes ft)(a := fst x), ft_shared := snd x\<rparr>"

definition forward :: "('u, 'v) fleet_config \<Rightarrow> int \<Rightarrow> string \<Rightarrow> object_call \<Rightarrow> 'u fleet \<Rightarrow> landed \<times> 'u fleet" where
  "forward fc now holder c ft =
     (case get_node (sv_parse (fc_service fc)) (fc_node_ttl fc) now holder (sh_registry (ft_shared ft)) of
        Inl e \<Rightarrow> (Finished (Inl (''The object's home could not be resolved: '' @ fc_status fc (status_of e))), ft)
      | Inr n \<Rightarrow>
     (case fc_wire fc (n_address n) of
        Some m \<Rightarrow> (Finished (Inl (''The object's home did not answer: '' @ m)), ft)
      | None \<Rightarrow>
     (case require_internal_token (fc_token fc) (authed (fc_token fc)) of
        Inl _ \<Rightarrow> (Finished (Inl (''The object's home did not answer: '' @ ''Internal transport only.'')), ft)
      | Inr _ \<Rightarrow>
          (case dispatch_rpc fc now c (ft_nodes ft (n_address n)) (ft_shared ft) of
             (r, x) \<Rightarrow>
               (case r of
                  Deliver h p \<Rightarrow> Landed (n_address n) h p
                | Value v \<Rightarrow> Finished (open_envelope fc (envelope (fc_codec fc) (Inr v)))
                | Fail e \<Rightarrow> Finished (open_envelope fc (envelope (fc_codec fc) (Inl e)))
                | Hop _ _ \<Rightarrow> Finished (Inl ''''),
                put_node (n_address n) x ft)))))"

definition land :: "('u, 'v) fleet_config \<Rightarrow> int \<Rightarrow> string \<Rightarrow> routed \<times> 'u node \<times> 'u shared \<Rightarrow> 'u fleet \<Rightarrow> landed \<times> 'u fleet" where
  "land fc now a res ft =
     (case res of
        (r, x) \<Rightarrow>
          (let ft1 = put_node a x ft in
           case r of
             Deliver h p \<Rightarrow> (Landed a h p, ft1)
           | Value v \<Rightarrow> (Finished (Inr v), ft1)
           | Fail e \<Rightarrow> (Finished (Inl e), ft1)
           | Hop holder c \<Rightarrow> forward fc now holder c ft1))"

text \<open>A call from a vm on the node at an address, and one that arrives at its data plane.\<close>

definition fleet_call :: "('u, 'v) fleet_config \<Rightarrow> int \<Rightarrow> string \<Rightarrow> prepared \<Rightarrow> object_target \<Rightarrow> 'u fleet \<Rightarrow> landed \<times> 'u fleet" where
  "fleet_call fc now a pp t ft = land fc now a (route_call fc now pp t (ft_nodes ft a) (ft_shared ft)) ft"

definition plane_call :: "('u, 'v) fleet_config \<Rightarrow> int \<Rightarrow> string \<Rightarrow> object_call \<Rightarrow> 'u fleet \<Rightarrow> landed \<times> 'u fleet" where
  "plane_call fc now a c ft = land fc now a (dispatch_rpc fc now c (ft_nodes ft a) (ft_shared ft)) ft"

text \<open>The output gate of a delivered call that wrote: its snapshot ships under the epoch the task was
  spawned with, and a refused ship is only logged.\<close>

definition home_write :: "('u, 'v) fleet_config \<Rightarrow> int \<Rightarrow> nat \<Rightarrow> ('u db \<Rightarrow> 'u db) \<Rightarrow> 'u node \<Rightarrow> 'u shared \<Rightarrow> 'u node \<times> 'u shared" where
  "home_write fc now h f nd sh =
     (case nd_homes nd h of
        None \<Rightarrow> (nd, sh)
      | Some (oid, epoch) \<Rightarrow>
          (case nd_disk nd oid of
             None \<Rightarrow> (nd, sh)
           | Some d \<Rightarrow>
               (nd\<lparr>nd_disk := (nd_disk nd)(oid \<mapsto> f d)\<rparr>,
                sh\<lparr>sh_bucket := snd (ship oid (word_of_int epoch) (f d) now (fc_net fc) (sh_bucket sh))\<rparr>)))"

end
