(* ===== verification/Routing_Spec.thy ===== *)
theory Routing_Spec
  imports Routing
begin

text \<open>
  What routing promises: a call takes at most one hop and arrives as it was made, in the mailbox of
  the object it names; cycles are refused, a direct self-call excepted; and while every registered
  node's heartbeat is current an object lives on one node. Also what happens when a heartbeat was
  late: the old home keeps answering.
\<close>

section \<open>At most one hop\<close>

lemma route_inner_no_hop: "fst (route_inner fc now pp t False nd sh) \<noteq> Hop holder c"
  by (auto simp: route_inner_def Let_def split: prod.split sum.split option.split resolve_error.split)

lemma dispatch_no_hop: "\<not> oc_first_hop c \<Longrightarrow> fst (dispatch_rpc fc now c nd sh) \<noteq> Hop holder c'"
  by (auto simp: dispatch_rpc_def route_inner_no_hop split: option.split prod.split sum.split)

section \<open>Handles\<close>

lemma get_or_spawn_live:
  "get_or_spawn key m None hs = (Inr h, hs') \<Longrightarrow> tasks hs' key = Some (m, h) \<and> \<not> closed hs' h"
  by (auto simp: get_or_spawn_def split: option.splits if_splits prod.splits)

lemma resolve_local_live:
  assumes "resolve_local fc now k owner nd sh = (Inr h, nd', sh')"
  shows "tasks (nd_host nd') (key_display k) = Some (pp_revision owner, h) \<and> \<not> closed (nd_host nd') h"
proof (cases "case tasks (nd_host nd) (key_display k) of Some (held, handle) \<Rightarrow> held = pp_revision owner \<and> \<not> closed (nd_host nd) handle | None \<Rightarrow> False")
  case True
  with assms show ?thesis by (auto simp: resolve_local_def get_or_spawn_def Let_def split: option.splits)
next
  case False
  obtain r nd1 sh1 where "spawn fc now k owner nd sh = (r, nd1, sh1)" by (metis prod_cases3)
  with False assms show ?thesis
    by (auto simp: resolve_local_def Let_def dest!: get_or_spawn_live split: sum.splits prod.splits)
qed

lemma resolve_handle_live:
  assumes "resolve_handle fc now k nd sh = (Inr h, nd', sh')"
  shows "\<exists>m. tasks (nd_host nd') (key_display k) = Some (m, h) \<and> \<not> closed (nd_host nd') h"
  using assms by (auto simp: resolve_handle_def dest!: resolve_local_live split: prod.splits sum.splits option.splits)

text \<open>What a delivery on one node carries.\<close>

lemma route_inner_deliver:
  assumes "route_inner fc now pp t fwd nd sh = (Deliver h p, nd', sh')"
    and "k = key_scoped (pp_project pp) (pp_script pp) (ot_class t) (ot_name t)"
  shows "\<exists>m chain. tasks (nd_host nd') (key_display k) = Some (m, h) \<and> \<not> closed (nd_host nd') h
    \<and> call_chain k t = Inr chain \<and> p = dispatch_payload t chain"
  using assms by (auto simp: route_inner_def Let_def dest: resolve_handle_live
      split: prod.splits sum.splits option.splits resolve_error.splits if_splits)

lemma route_inner_hop:
  assumes "route_inner fc now pp t fwd nd sh = (Hop holder c, nd', sh')"
    and "k = key_scoped (pp_project pp) (pp_script pp) (ot_class t) (ot_name t)"
  shows "\<exists>chain. call_chain k t = Inr chain \<and> c = wire_call fc k t chain"
  using assms by (auto simp: route_inner_def Let_def
      split: prod.splits sum.splits option.splits resolve_error.splits if_splits)

lemma call_chain_last: "call_chain k t = Inr chain \<Longrightarrow> chain \<noteq> [] \<and> last chain = key_display k"
  by (auto simp: call_chain_def extend_call_chain_def split: if_splits)

lemma call_chain_again: "call_chain k t = Inr chain \<Longrightarrow> call_chain k (t'\<lparr>ot_chain := chain\<rparr>) = Inr chain"
  by (drule call_chain_last) (simp add: call_chain_def)

section \<open>Owners are in scope\<close>

text \<open>The code an owner lookup may answer for a key.\<close>

definition in_scope :: "object_key \<Rightarrow> prepared \<Rightarrow> bool" where
  "in_scope k pp \<longleftrightarrow> (if is_cron k then pp_script pp = k_scope k else pp_project pp = k_scope k)"

definition clean_key :: "object_key \<Rightarrow> bool" where
  "clean_key k \<longleftrightarrow> CHR ''/'' \<notin> set (k_scope k) \<and> CHR ''/'' \<notin> set (k_class k)"

definition owners_ok :: "'v service \<Rightarrow> (string \<Rightarrow> string) \<Rightarrow> (string \<Rightarrow> string \<times> string) \<Rightarrow> 'u node \<Rightarrow> bool" where
  "owners_ok sv own nm nd \<longleftrightarrow> (\<forall>k pp e. clean_key k \<longrightarrow> nd_owners nd (key_display k) = Some (pp, e) \<longrightarrow>
     in_scope k pp \<and> row_ok sv own nm (script_of pp))"

text \<open>A directory row names a script of the project it is scoped to.\<close>

definition directory_ok :: "'v service \<Rightarrow> (string \<Rightarrow> string \<times> string) \<Rightarrow> registry \<Rightarrow> bool" where
  "directory_ok sv nm rg \<longleftrightarrow> (\<forall>i \<in> set (rg_instances rg). i_class i \<noteq> CRON_CLASS \<longrightarrow>
     sv_parse sv (i_script i) = Some (i_script i) \<and> snd (nm (i_script i)) = i_scope i)"

definition true_node :: "'v service \<Rightarrow> (string \<Rightarrow> string) \<Rightarrow> (string \<Rightarrow> string \<times> string) \<Rightarrow> 'u node \<Rightarrow> bool" where
  "true_node sv own nm nd \<longleftrightarrow> caches_ok sv own nm (nd_caches nd) \<and> owners_ok sv own nm nd"

definition true_shared :: "'v service \<Rightarrow> (string \<Rightarrow> string) \<Rightarrow> (string \<Rightarrow> string \<times> string) \<Rightarrow> 'u shared \<Rightarrow> bool" where
  "true_shared sv own nm sh \<longleftrightarrow> served_store sv own nm (sh_scripts sh) \<and> directory_ok sv nm (sh_registry sh)"

lemma find_SomeD: "find P xs = Some x \<Longrightarrow> x \<in> set xs \<and> P x"
  by (auto simp: find_Some_iff)

lemma served_row:
  assumes "served_store sv own nm s" "q \<in> set (st_scripts s)"
  shows "row_ok sv own nm q"
proof -
  have "own r = sc_id q \<and> sv_parse sv r = Some r" if "sc_current q = Some r" for r
    using assms that store_okD(1) [of s q r] by (auto simp: served_store_def)
  with assms show ?thesis by (simp add: row_ok_def served_store_def)
qed

lemma least_id_in: "least_id rs = Some i \<Longrightarrow> \<exists>r \<in> set rs. sc_id r = i"
proof -
  assume "least_id rs = Some i"
  then obtain js where "sort (map sc_id rs) = i # js" by (auto simp: least_id_def split: list.splits)
  then have "i \<in> set (sort (map sc_id rs))" by (simp del: set_sort)
  then show ?thesis by auto
qed

lemma first_owner_in:
  "first_owner p ms cls name s = Some i \<Longrightarrow> \<exists>q \<in> set (st_scripts s). sc_id q = i \<and> sc_project q = p"
  by (induction ms) (auto simp: contract_owner_def dest!: least_id_in split: option.splits)

lemma owner_script_scope:
  assumes "true_shared sv own nm sh" "owner_script fc k sh = Inr i" "fc_service fc = sv" "sv_parse sv (k_scope k) = Some (k_scope k)"
  shows "sv_parse sv i = Some i \<and> (if is_cron k then i = k_scope k else snd (nm i) = k_scope k)"
proof (cases "is_cron k")
  case True
  with assms show ?thesis by (simp add: owner_script_def)
next
  case False
  with assms(2,3) have r: "resolve_class_owner sv (k_scope k) (k_class k) (k_name k) (sh_scripts sh) (sh_registry sh) = Inr i"
    by (auto simp: owner_script_def split: sum.splits status.splits)
  then obtain ms where ms: "for_class (k_class k) = Some ms"
    by (auto simp: resolve_class_owner_def split: option.splits)
  show ?thesis
  proof (cases "first_owner (k_scope k) ms (k_class k) (k_name k) (sh_scripts sh)")
    case None
    with r ms assms(4) obtain x where "x \<in> set (rg_instances (sh_registry sh))" "i_script x = i" "i_scope x = k_scope k" "i_class x = k_class k"
      by (auto simp: resolve_class_owner_def dest!: find_SomeD split: option.splits)
    with assms(1) False show ?thesis by (force simp: true_shared_def directory_ok_def is_cron_def)
  next
    case (Some j)
    with r ms assms(4) have "j = i" by (simp add: resolve_class_owner_def)
    with first_owner_in [OF Some] assms(1) False show ?thesis by (auto simp: true_shared_def served_store_def)
  qed
qed

lemma key_display_inj: "clean_key k \<Longrightarrow> clean_key k' \<Longrightarrow> key_display k = key_display k' \<longleftrightarrow> k = k'"
  by (auto simp: clean_key_def key_display_def append_slash_eq)

lemma owners_ok_caches [simp]: "owners_ok sv own nm (nd\<lparr>nd_caches := ch\<rparr>) = owners_ok sv own nm nd"
  by (simp add: owners_ok_def)

lemma owners_ok_entry:
  assumes "owners_ok sv own nm nd" "clean_key k" "in_scope k pp" "row_ok sv own nm (script_of pp)"
  shows "owners_ok sv own nm (nd\<lparr>nd_owners := (nd_owners nd)(key_display k \<mapsto> (pp, e))\<rparr>)"
  using assms by (auto simp: owners_ok_def key_display_inj)

lemma owner_in_scope:
  assumes sh: "true_shared sv own nm sh" and nd: "true_node sv own nm nd" and sv: "fc_service fc = sv"
    and k: "sv_parse sv (k_scope k) = Some (k_scope k)" "clean_key k" and r: "owner_prepared fc now k sh nd = (r, nd')"
  shows "true_node sv own nm nd' \<and> (\<forall>pp. r = Inr pp \<longrightarrow> in_scope k pp \<and> row_ok sv own nm (script_of pp))"
proof (cases "fresh_entry now (nd_owners nd (key_display k))")
  case (Some pp)
  then obtain e where "nd_owners nd (key_display k) = Some (pp, e)" by (auto simp: fresh_entry_def split: option.splits if_splits)
  with Some r nd k show ?thesis by (auto simp: owner_prepared_def true_node_def owners_ok_def)
next
  case None
  show ?thesis
  proof (cases "\<exists>i q rid. owner_script fc k sh = Inr i \<and> get_script_info sv (ById i) (sh_scripts sh) = Inr q \<and> sc_current q = Some rid")
    case False
    with None r nd sv show ?thesis by (auto simp: owner_prepared_def split: sum.splits option.splits)
  next
    case True
    then obtain i q rid where q: "owner_script fc k sh = Inr i" "get_script_info sv (ById i) (sh_scripts sh) = Inr q" "sc_current q = Some rid" by blast
    note i = owner_script_scope [OF sh q(1) sv k(1)]
    have qs: "q \<in> set (st_scripts (sh_scripts sh))" "sc_id q = i"
      using q(2) i by (auto simp: get_script_info_def dest!: find_SomeD split: option.splits)
    have served: "served_store sv own nm (sh_scripts sh)" using sh by (simp add: true_shared_def)
    note row = served_row [OF served qs(1)]
    have ch: "caches_ok sv own nm (nd_caches nd)" using nd by (simp add: true_node_def)
    obtain x ch' where c: "cached_revision sv q rid (sh_scripts sh) (nd_caches nd) = (x, ch')" by fastforce
    note own = cached_own [OF served ch row c]
    have rid: "sv_parse sv rid = Some rid" "own rid = sc_id q" using row q(3) by (simp_all add: row_ok_def)
    show ?thesis
    proof (cases x)
      case (Inl e)
      with None q c sv own r nd show ?thesis by (auto simp: owner_prepared_def true_node_def)
    next
      case (Inr pp)
      with own rid row have pp: "pp_script pp = sc_id q" "pp_revision pp = rid" "pp_identifier pp = sc_identifier q" "pp_project pp = sc_project q"
        by (auto simp: prepared_ok_def row_ok_def)
      have s: "in_scope k pp" "row_ok sv own nm (script_of pp)"
        using i pp qs row rid by (auto simp: in_scope_def row_ok_def script_of_def)
      with Inr None q c sv own r nd k show ?thesis
        by (auto simp: owner_prepared_def true_node_def intro!: owners_ok_entry [where nd = "nd\<lparr>nd_caches := ch'\<rparr>", simplified])
    qed
  qed
qed

section \<open>What a claim leaves\<close>

definition alive :: "32 word \<Rightarrow> int \<Rightarrow> registry \<Rightarrow> string \<Rightarrow> bool" where
  "alive ttl now r i \<longleftrightarrow> (\<exists>n \<in> set (rg_nodes r). n_id n = i \<and> n_heartbeat n > cutoff ttl now)"

lemma reap_keeps_alive:
  "alive ttl now r i \<Longrightarrow> alive ttl now (reap ttl now r) i"
  "alive ttl now r i \<Longrightarrow> rg_leases r obj = Some i \<Longrightarrow> rg_leases (reap ttl now r) obj = Some i"
  by (force simp: alive_def reap_def delete_nodes_def Let_def)+

lemma refused_claim:
  assumes "\<And>node. \<not> plain_request parse q node"
  shows "\<exists>e. claim parse ttl now q r = (Inl e, r)"
proof -
  obtain e where s: "claim_start parse q = Answered (Inl e)"
  proof (cases "parse (cq_node q)")
    case None
    then show ?thesis by (intro that) (simp add: claim_start_def)
  next
    case (Some node)
    with assms [of node] show ?thesis
      by (cases "claim_identity parse q") (auto simp: plain_request_def claim_start_def intro: that)
  qed
  have "((\<lambda>(pc, r). claim_step ttl q now pc r) ^^ n) (Answered a, r) = (Answered a, r)" for n a by (induction n) simp_all
  with s show ?thesis by (simp add: claim_def)
qed

text \<open>Nothing an alive node holds is lost to a claim, and a claim that answers leaves its holder's lease.\<close>

lemma claim_leaves:
  assumes c: "claim parse ttl now q r = (a, r')"
  shows "(\<forall>i. alive ttl now r i \<longrightarrow> alive ttl now r' i)
    \<and> (\<forall>obj i. alive ttl now r i \<longrightarrow> rg_leases r obj = Some i \<longrightarrow> rg_leases r' obj = Some i)
    \<and> (\<forall>l. a = Inr l \<longrightarrow> rg_leases r' (cq_object q) = Some (ls_node l) \<and> (ls_acquired l \<longrightarrow> parse (cq_node q) = Some (ls_node l)))
    \<and> (\<forall>i \<in> set (rg_instances r'). i \<in> set (rg_instances r)
          \<or> (i_class i = cq_class q \<and> parse (cq_scope q) = Some (i_scope i) \<and> parse (cq_script q) = Some (i_script i)))"
proof (cases "\<exists>node. plain_request parse q node")
  case False
  with refused_claim [of parse q ttl now r] c show ?thesis by auto
next
  case True
  then obtain node where True: "plain_request parse q node" by blast
  from claim_run [OF True] obtain ident where id: "claim_identity parse q = Inr ident" and run: "claim parse ttl now q r =
    (case insert_lease (cq_object q) node (reap ttl now r) of
       (Inl e, r1) \<Rightarrow> (Inl e, r1)
     | (Inr claimed, r1) \<Rightarrow>
         (let r2 = (case ident of None \<Rightarrow> r1 | Some (a, b) \<Rightarrow> insert_instance a (cq_class q) (cq_name q) b now r1)
          in case claim_step ttl q now (Reading node claimed) r2 of
               (pc, r3) \<Rightarrow> (case claim_step ttl q now pc r3 of
                   (Answered a, r4) \<Rightarrow> (a, r4) | (_, r4) \<Rightarrow> (Inl ClaimRaced, r4))))" by blast
  define r0 where "r0 = reap ttl now r"
  have r0: "rg_instances r0 = rg_instances r" by (simp add: r0_def reap_def delete_nodes_def Let_def)
  have ident: "ident = Some (x, y) \<Longrightarrow> parse (cq_scope q) = Some x \<and> parse (cq_script q) = Some y" for x y
    using id by (auto simp: claim_identity_def split: if_splits option.splits)
  have inst: "rg_instances (case ident of None \<Rightarrow> s | Some (x, y) \<Rightarrow> insert_instance x (cq_class q) (cq_name q) y now s)
      \<in> {rg_instances s} \<union> {rg_instances s @ [i] |i. i_class i = cq_class q \<and> parse (cq_scope q) = Some (i_scope i) \<and> parse (cq_script q) = Some (i_script i)}" for s
    using ident by (auto simp: insert_instance_def split: option.split)
  have nodes: "rg_nodes (case ident of None \<Rightarrow> s | Some (x, y) \<Rightarrow> insert_instance x (cq_class q) (cq_name q) y now s) = rg_nodes s" for s
    by (auto split: option.split)
  have base: "rg_nodes r' = rg_nodes r0 \<and> (\<forall>obj i. rg_leases r0 obj = Some i \<longrightarrow> rg_leases r' obj = Some i)
      \<and> (\<forall>i \<in> set (rg_instances r'). i \<in> set (rg_instances r)
          \<or> (i_class i = cq_class q \<and> parse (cq_scope q) = Some (i_scope i) \<and> parse (cq_script q) = Some (i_script i)))"
    using c inst [of r0] inst [of "r0\<lparr>rg_leases := (rg_leases r0)(cq_object q \<mapsto> node)\<rparr>"] r0
    unfolding run r0_def [symmetric]
    by (auto simp: insert_lease_def Let_def record_frame nodes bump_epoch_def split: option.splits if_splits)
  have "\<forall>l. a = Inr l \<longrightarrow> rg_leases r' (cq_object q) = Some (ls_node l) \<and> (ls_acquired l \<longrightarrow> parse (cq_node q) = Some (ls_node l))"
    using claim_result [OF True, of ttl now r] True c by (auto simp: plain_request_def)
  with base reap_keeps_alive [of ttl now r] show ?thesis
    unfolding r0_def by (auto simp: alive_def)
qed

section \<open>One node's operations on the shared state\<close>

definition reg_frame :: "('u, 'v) fleet_config \<Rightarrow> int \<Rightarrow> 'u shared \<Rightarrow> 'u shared \<Rightarrow> bool" where
  "reg_frame fc now sh sh' \<longleftrightarrow> sh_scripts sh' = sh_scripts sh \<and> sh_bucket sh' = sh_bucket sh
     \<and> (\<forall>i. alive (fc_node_ttl fc) now (sh_registry sh) i \<longrightarrow> alive (fc_node_ttl fc) now (sh_registry sh') i)
     \<and> (\<forall>obj i. alive (fc_node_ttl fc) now (sh_registry sh) i \<longrightarrow> rg_leases (sh_registry sh) obj = Some i \<longrightarrow>
          rg_leases (sh_registry sh') obj = Some i)"

lemma reg_frame_refl [simp]: "reg_frame fc now sh sh"
  by (simp add: reg_frame_def)

lemma reg_frame_trans: "reg_frame fc now a b \<Longrightarrow> reg_frame fc now b c \<Longrightarrow> reg_frame fc now a c"
  by (auto simp: reg_frame_def)

lemma claim_lease_leaves:
  assumes "claim_lease fc now k owner nd sh = (x, sh')"
  shows "reg_frame fc now sh sh'"
    and "x = Inr l \<Longrightarrow> ls_acquired l \<Longrightarrow> \<exists>i. nd_identity nd = Some i
           \<and> sv_parse (fc_service fc) i = Some (ls_node l) \<and> rg_leases (sh_registry sh') (object_id (fc_hash fc) k) = Some (ls_node l)"
    and "i \<in> set (rg_instances (sh_registry sh')) \<Longrightarrow> i \<in> set (rg_instances (sh_registry sh))
           \<or> (i_class i = k_class k \<and> sv_parse (fc_service fc) (k_scope k) = Some (i_scope i) \<and> sv_parse (fc_service fc) owner = Some (i_script i))"
proof -
  have *: "reg_frame fc now sh sh' \<and> (\<forall>l. x = Inr l \<longrightarrow> ls_acquired l \<longrightarrow> (\<exists>i. nd_identity nd = Some i
           \<and> sv_parse (fc_service fc) i = Some (ls_node l) \<and> rg_leases (sh_registry sh') (object_id (fc_hash fc) k) = Some (ls_node l)))
      \<and> (\<forall>i \<in> set (rg_instances (sh_registry sh')). i \<in> set (rg_instances (sh_registry sh))
           \<or> (i_class i = k_class k \<and> sv_parse (fc_service fc) (k_scope k) = Some (i_scope i) \<and> sv_parse (fc_service fc) owner = Some (i_script i)))"
  proof (cases "nd_identity nd")
    case None
    with assms show ?thesis by (auto simp: claim_lease_def)
  next
    case (Some n)
    obtain a r' where c: "claim (sv_parse (fc_service fc)) (fc_node_ttl fc) now
        \<lparr>cq_object = object_id (fc_hash fc) k, cq_node = n, cq_scope = k_scope k, cq_class = k_class k, cq_name = k_name k, cq_script = owner\<rparr>
        (sh_registry sh) = (a, r')" by fastforce
    with Some assms have "sh' = sh\<lparr>sh_registry := r'\<rparr>" "\<And>l. x = Inr l \<longleftrightarrow> a = Inr l"
      by (auto simp: claim_lease_def split: sum.splits)
    with claim_leaves [OF c] Some show ?thesis by (simp add: reg_frame_def)
  qed
  show "reg_frame fc now sh sh'" using * by blast
  show "x = Inr l \<Longrightarrow> ls_acquired l \<Longrightarrow> \<exists>i. nd_identity nd = Some i
           \<and> sv_parse (fc_service fc) i = Some (ls_node l) \<and> rg_leases (sh_registry sh') (object_id (fc_hash fc) k) = Some (ls_node l)" using * by blast
  show "i \<in> set (rg_instances (sh_registry sh')) \<Longrightarrow> i \<in> set (rg_instances (sh_registry sh))
           \<or> (i_class i = k_class k \<and> sv_parse (fc_service fc) (k_scope k) = Some (i_scope i) \<and> sv_parse (fc_service fc) owner = Some (i_script i))" using * by blast
qed

lemma claim_keeps_truth:
  assumes "claim_lease fc now k (pp_script owner) nd sh = (x, sh')" "true_shared sv own nm sh" "fc_service fc = sv"
    and "sv_parse sv (k_scope k) = Some (k_scope k)" "in_scope k owner" "row_ok sv own nm (script_of owner)"
  shows "true_shared sv own nm sh'"
proof -
  have "sh_scripts sh' = sh_scripts sh" using claim_lease_leaves(1) [OF assms(1)] by (simp add: reg_frame_def)
  moreover have "sv_parse sv (i_script i) = Some (i_script i) \<and> snd (nm (i_script i)) = i_scope i"
    if "i \<in> set (rg_instances (sh_registry sh'))" "i_class i \<noteq> CRON_CLASS" for i
    using claim_lease_leaves(3) [OF assms(1) that(1)] assms(2-6) that(2)
    by (auto simp: true_shared_def directory_ok_def row_ok_def script_of_def in_scope_def is_cron_def)
  ultimately show ?thesis using assms(2) by (simp add: true_shared_def directory_ok_def)
qed

lemma code_for_caches:
  assumes "code_for fc k owner file sh ch = (x, ch')" "served_store sv own nm (sh_scripts sh)" "fc_service fc = sv"
    and "caches_ok sv own nm ch" "row_ok sv own nm (script_of owner)"
  shows "caches_ok sv own nm ch'"
proof -
  have "caches_ok sv own nm c" if "cached_revision sv (script_of owner) p (sh_scripts sh) ch = (y, c)" for p y c
    using cached_own [OF assms(2,4,5) that] by simp
  with assms(1,3,4) show ?thesis by (auto simp: code_for_def split: option.splits if_splits prod.splits sum.splits)
qed

lemma spawn_leaves:
  assumes "spawn fc now k owner nd sh = (x, nd', sh')"
  shows "\<exists>y. claim_lease fc now k (pp_script owner) nd sh = (y, sh')
    \<and> (\<forall>e. x = Inr e \<longrightarrow> (\<exists>l. y = Inr l \<and> ls_acquired l \<and> ls_epoch l = e))
    \<and> nd_identity nd' = nd_identity nd \<and> nd_host nd' = nd_host nd \<and> nd_homes nd' = nd_homes nd \<and> nd_owners nd' = nd_owners nd
    \<and> (nd_caches nd' = nd_caches nd \<or> (\<exists>file z. code_for fc k owner file sh' (nd_caches nd) = (z, nd_caches nd')))"
proof -
  obtain y sh1 where c: "claim_lease fc now k (pp_script owner) nd sh = (y, sh1)" by fastforce
  show ?thesis
  proof (cases y)
    case (Inl e)
    with c assms show ?thesis by (auto simp: spawn_def)
  next
    case (Inr l)
    show ?thesis
    proof (cases "spawn_file l (object_id (fc_hash fc) k) (nd_disk nd (object_id (fc_hash fc) k)) (fc_net fc) (sh_bucket sh1)")
      case (Inl e)
      with c Inr assms show ?thesis by (auto simp: spawn_def)
    next
      case f: (Inr d)
      then have "ls_acquired l" by (auto simp: spawn_file_def split: if_splits)
      obtain z ch where g: "code_for fc k owner d sh1 (nd_caches nd) = (z, ch)" by fastforce
      with c Inr f \<open>ls_acquired l\<close> assms show ?thesis
        by (auto simp: spawn_def Let_def split: sum.splits prod.splits option.splits)
    qed
  qed
qed

lemma spawn_truth:
  assumes "spawn fc now k owner nd sh = (x, nd', sh')" "true_shared sv own nm sh" "true_node sv own nm nd" "fc_service fc = sv"
    and "sv_parse sv (k_scope k) = Some (k_scope k)" "in_scope k owner" "row_ok sv own nm (script_of owner)"
  shows "true_shared sv own nm sh' \<and> true_node sv own nm nd'"
proof -
  from spawn_leaves [OF assms(1)] obtain y where y: "claim_lease fc now k (pp_script owner) nd sh = (y, sh')"
    "nd_owners nd' = nd_owners nd"
    "nd_caches nd' = nd_caches nd \<or> (\<exists>file z. code_for fc k owner file sh' (nd_caches nd) = (z, nd_caches nd'))" by (elim exE conjE) (rule that)
  have sh': "true_shared sv own nm sh'" by (rule claim_keeps_truth [OF y(1) assms(2,4-7)])
  then have "served_store sv own nm (sh_scripts sh')" by (simp add: true_shared_def)
  then have "caches_ok sv own nm (nd_caches nd')"
    using y(3) code_for_caches [OF _ _ assms(4) _ assms(7)] assms(3) by (auto simp: true_node_def)
  with sh' y(2) assms(3) show ?thesis by (simp add: true_node_def owners_ok_def)
qed

section \<open>Residents hold their leases\<close>

definition host_wf :: "host \<Rightarrow> bool" where
  "host_wf hs \<longleftrightarrow> (\<forall>key m h. tasks hs key = Some (m, h) \<longrightarrow> h < next_handle hs)"

definition hosted :: "('u, 'v) fleet_config \<Rightarrow> 'u node \<Rightarrow> 'u shared \<Rightarrow> bool" where
  "hosted fc nd sh \<longleftrightarrow> host_wf (nd_host nd) \<and> (\<forall>key. is_resident key (nd_host nd) \<longrightarrow>
     (\<exists>i. nd_identity nd = Some i \<and> rg_leases (sh_registry sh) (fc_hash fc key) = Some i))"

text \<open>A registered node whose heartbeat is current.\<close>

definition fit :: "('u, 'v) fleet_config \<Rightarrow> int \<Rightarrow> 'u node \<Rightarrow> 'u shared \<Rightarrow> bool" where
  "fit fc now nd sh \<longleftrightarrow> (\<forall>i. nd_identity nd = Some i \<longrightarrow>
     sv_parse (fc_service fc) i = Some i \<and> alive (fc_node_ttl fc) now (sh_registry sh) i)"

lemma fit_frame: "fit fc now nd sh \<Longrightarrow> reg_frame fc now sh sh' \<Longrightarrow> nd_identity nd' = nd_identity nd \<Longrightarrow> fit fc now nd' sh'"
  by (simp add: fit_def reg_frame_def)

lemma hosted_frame:
  assumes "hosted fc nd sh" "fit fc now nd sh" "reg_frame fc now sh sh'" "nd_host nd' = nd_host nd" "nd_identity nd' = nd_identity nd"
  shows "hosted fc nd' sh'"
proof -
  have "\<exists>i. nd_identity nd = Some i \<and> rg_leases (sh_registry sh') (fc_hash fc key) = Some i" if "is_resident key (nd_host nd)" for key
    using that assms(1-3) by (fastforce simp: hosted_def fit_def reg_frame_def)
  with assms(1,4,5) show ?thesis by (simp add: hosted_def)
qed

lemma get_or_spawn_wf:
  assumes "get_or_spawn key m None hs = (Inr h, hs')" "host_wf hs"
  shows "host_wf hs'" and "is_resident key' hs' \<Longrightarrow> key' = key \<or> is_resident key' hs"
  using assms by (auto simp: get_or_spawn_def host_wf_def is_resident_def less_Suc_eq split: option.splits if_splits prod.splits; fastforce)+

lemma resolve_local_leaves:
  assumes "resolve_local fc now k owner nd sh = (x, nd', sh')"
  shows "reg_frame fc now sh sh' \<and> nd_identity nd' = nd_identity nd"
    and "hosted fc nd sh \<Longrightarrow> fit fc now nd sh \<Longrightarrow> hosted fc nd' sh'"
proof -
  have *: "reg_frame fc now sh sh' \<and> nd_identity nd' = nd_identity nd \<and> (hosted fc nd sh \<longrightarrow> fit fc now nd sh \<longrightarrow> hosted fc nd' sh')"
  proof (cases "case tasks (nd_host nd) (key_display k) of Some (held, handle) \<Rightarrow> held = pp_revision owner \<and> \<not> closed (nd_host nd) handle | None \<Rightarrow> False")
    case True
    with assms show ?thesis by (simp add: resolve_local_def Let_def)
  next
    case False
    obtain r nd1 sh1 where s: "spawn fc now k owner nd sh = (r, nd1, sh1)" by (metis prod_cases3)
    from spawn_leaves [OF s] obtain y where y: "claim_lease fc now k (pp_script owner) nd sh = (y, sh1)"
      "\<forall>e. r = Inr e \<longrightarrow> (\<exists>l. y = Inr l \<and> ls_acquired l \<and> ls_epoch l = e)"
      "nd_identity nd1 = nd_identity nd" "nd_host nd1 = nd_host nd" by (elim exE conjE) (rule that)
    note f = claim_lease_leaves(1) [OF y(1)]
    show ?thesis
    proof (cases r)
      case (Inl e)
      with False s assms f y(3,4) hosted_frame [OF _ _ f y(4,3)] show ?thesis by (auto simp: resolve_local_def Let_def)
    next
      case (Inr e)
      obtain z hs where g: "get_or_spawn (key_display k) (pp_revision owner) None (nd_host nd1) = (z, hs)" by fastforce
      then obtain h where z: "z = Inr h" by (auto simp: get_or_spawn_def split: option.splits if_splits)
      from y(1,2) Inr obtain l where "y = Inr l" "ls_acquired l" by blast
      from claim_lease_leaves(2) [OF y(1) this] obtain i where
        i: "nd_identity nd = Some i" "sv_parse (fc_service fc) i = Some (ls_node l)"
          "rg_leases (sh_registry sh1) (object_id (fc_hash fc) k) = Some (ls_node l)" by blast
      have n: "nd' = nd1\<lparr>nd_host := hs, nd_homes := (nd_homes nd1)(h \<mapsto> (object_id (fc_hash fc) k, e))\<rparr>" "sh' = sh1"
        using False s Inr g z assms by (simp_all add: resolve_local_def Let_def)
      have "hosted fc nd' sh'" if hh: "hosted fc nd sh" "fit fc now nd sh"
      proof -
        have "ls_node l = i" using i hh(2) by (simp add: fit_def)
        with i have own: "rg_leases (sh_registry sh1) (fc_hash fc (key_display k)) = Some i" by (simp add: object_id_def)
        have h1: "hosted fc nd1 sh1" by (rule hosted_frame [OF hh f y(4,3)])
        then have w: "host_wf (nd_host nd1)" by (simp add: hosted_def)
        show ?thesis
          using n own i(1) y(3) h1 get_or_spawn_wf [OF g [unfolded z] w] by (auto simp: hosted_def)
      qed
      with n f y(3) show ?thesis by simp
    qed
  qed
  show "reg_frame fc now sh sh' \<and> nd_identity nd' = nd_identity nd" using * by blast
  show "hosted fc nd sh \<Longrightarrow> fit fc now nd sh \<Longrightarrow> hosted fc nd' sh'" using * by blast
qed

lemma owner_prepared_leaves:
  "owner_prepared fc now k sh nd = (x, nd') \<Longrightarrow> nd_identity nd' = nd_identity nd \<and> nd_host nd' = nd_host nd
     \<and> nd_homes nd' = nd_homes nd \<and> nd_disk nd' = nd_disk nd"
  by (auto simp: owner_prepared_def split: option.splits sum.splits prod.splits)

text \<open>The three ways through \<open>resolve_handle\<close>.\<close>

lemma resolve_handle_cases:
  assumes "resolve_handle fc now k nd sh = (x, nd', sh')"
  obtains (no_owner) e where "owner_prepared fc now k sh nd = (Inl e, nd')" "sh' = sh" "x = Inl (Other e)"
  | (not_ours) owner y where "owner_prepared fc now k sh nd = (Inr owner, nd')"
      "claim_lease fc now k (pp_script owner) nd' sh = (y, sh')" "\<forall>h. x \<noteq> Inr h"
  | (ours) owner nd1 sh1 y where "owner_prepared fc now k sh nd = (Inr owner, nd1)"
      "sh1 = sh \<or> (\<exists>z. claim_lease fc now k (pp_script owner) nd1 sh = (z, sh1))"
      "resolve_local fc now k owner nd1 sh1 = (y, nd', sh')" "\<forall>h. x = Inr h \<longleftrightarrow> y = Inr h"
proof -
  obtain r nd1 where o: "owner_prepared fc now k sh nd = (r, nd1)" by fastforce
  show thesis
  proof (cases r)
    case (Inl e)
    with o assms show ?thesis by (intro no_owner [of e]) (simp_all add: resolve_handle_def)
  next
    case (Inr owner)
    show ?thesis
    proof (cases "is_resident (key_display k) (nd_host nd1)")
      case True
      obtain y nd2 sh2 where l: "resolve_local fc now k owner nd1 sh = (y, nd2, sh2)" by (metis prod_cases3)
      with o Inr True assms show ?thesis by (intro ours [of owner nd1 sh y]) (auto simp: resolve_handle_def split: sum.splits)
    next
      case False
      obtain z sh1 where c: "claim_lease fc now k (pp_script owner) nd1 sh = (z, sh1)" by fastforce
      show ?thesis
      proof (cases "\<exists>l. z = Inr l \<and> ls_acquired l")
        case True
        obtain y nd2 sh2 where l: "resolve_local fc now k owner nd1 sh1 = (y, nd2, sh2)" by (metis prod_cases3)
        with o Inr False c True assms show ?thesis by (intro ours [of owner nd1 sh1 y]) (auto simp: resolve_handle_def split: sum.splits)
      next
        case no: False
        with o Inr False c assms show ?thesis by (intro not_ours [of owner z]) (auto simp: resolve_handle_def split: sum.splits if_splits)
      qed
    qed
  qed
qed

lemma resolve_handle_leaves:
  assumes "resolve_handle fc now k nd sh = (x, nd', sh')"
  shows "reg_frame fc now sh sh' \<and> nd_identity nd' = nd_identity nd"
    and "hosted fc nd sh \<Longrightarrow> fit fc now nd sh \<Longrightarrow> hosted fc nd' sh'"
proof -
  have "reg_frame fc now sh sh' \<and> nd_identity nd' = nd_identity nd \<and> (hosted fc nd sh \<longrightarrow> fit fc now nd sh \<longrightarrow> hosted fc nd' sh')"
    using assms
  proof (cases rule: resolve_handle_cases)
    case (no_owner e)
    note o = owner_prepared_leaves [OF no_owner(1)]
    with no_owner(2) show ?thesis by (auto intro: hosted_frame [where sh = sh and sh' = sh])
  next
    case (not_ours owner y)
    note o = owner_prepared_leaves [OF not_ours(1)] and f = claim_lease_leaves(1) [OF not_ours(2)]
    with hosted_frame [OF _ _ f] show ?thesis by auto
  next
    case (ours owner nd1 sh1 y)
    note o = owner_prepared_leaves [OF ours(1)]
    have f: "reg_frame fc now sh sh1" using ours(2) claim_lease_leaves(1) by auto
    note l = resolve_local_leaves [OF ours(3)]
    have "hosted fc nd' sh'" if "hosted fc nd sh" "fit fc now nd sh"
      using that o f by (intro l(2)) (auto intro: hosted_frame fit_frame)
    with l(1) o f show ?thesis by (auto intro: reg_frame_trans)
  qed
  then show "reg_frame fc now sh sh' \<and> nd_identity nd' = nd_identity nd" "hosted fc nd sh \<Longrightarrow> fit fc now nd sh \<Longrightarrow> hosted fc nd' sh'"
    by blast+
qed

lemma resolve_local_truth:
  assumes "resolve_local fc now k owner nd sh = (x, nd', sh')" "true_shared sv own nm sh" "true_node sv own nm nd" "fc_service fc = sv"
    and "sv_parse sv (k_scope k) = Some (k_scope k)" "in_scope k owner" "row_ok sv own nm (script_of owner)"
  shows "true_shared sv own nm sh' \<and> true_node sv own nm nd'"
proof (cases "case tasks (nd_host nd) (key_display k) of Some (held, handle) \<Rightarrow> held = pp_revision owner \<and> \<not> closed (nd_host nd) handle | None \<Rightarrow> False")
  case True
  with assms(1-3) show ?thesis by (simp add: resolve_local_def Let_def)
next
  case False
  obtain r nd1 sh1 where s: "spawn fc now k owner nd sh = (r, nd1, sh1)" by (metis prod_cases3)
  from spawn_truth [OF s assms(2-7)] False s assms(1) show ?thesis
    by (auto simp: resolve_local_def Let_def true_node_def owners_ok_def split: sum.splits prod.splits)
qed

lemma resolve_handle_truth:
  assumes "resolve_handle fc now k nd sh = (x, nd', sh')" "true_shared sv own nm sh" "true_node sv own nm nd" "fc_service fc = sv"
    and "sv_parse sv (k_scope k) = Some (k_scope k)" "clean_key k"
  shows "true_shared sv own nm sh' \<and> true_node sv own nm nd'"
  using assms(1)
proof (cases rule: resolve_handle_cases)
  case (no_owner e)
  with owner_in_scope [OF assms(2-6) no_owner(1)] assms(2) show ?thesis by simp
next
  case (not_ours owner y)
  with owner_in_scope [OF assms(2-6) not_ours(1)] claim_keeps_truth [OF not_ours(2) assms(2,4,5)] show ?thesis by simp
next
  case (ours owner nd1 sh1 y)
  note o = owner_in_scope [OF assms(2-6) ours(1)]
  then have sc: "in_scope k owner" "row_ok sv own nm (script_of owner)" "true_node sv own nm nd1" by auto
  have "true_shared sv own nm sh1" using ours(2) claim_keeps_truth [OF _ assms(2,4,5) sc(1,2)] assms(2) by auto
  from resolve_local_truth [OF ours(3) this sc(3) assms(4,5) sc(1,2)] show ?thesis .
qed

lemma replicas_same [simp]: "\<exists>rep. nd = nd\<lparr>nd_replicas := rep\<rparr>"
  by (rule exI [of _ "nd_replicas nd"]) simp

lemma replica_leaves: "fresh_replica_file fc now oid nd sh = (y, nd') \<Longrightarrow> \<exists>rep. nd' = nd\<lparr>nd_replicas := rep\<rparr>"
  by (auto simp: fresh_replica_file_def split: option.splits sum.splits prod.splits if_splits)

lemma bypassed_leaves: "bypassed fc now k t nd sh = (x, nd') \<Longrightarrow> \<exists>rep. nd' = nd\<lparr>nd_replicas := rep\<rparr>"
  by (auto simp: bypassed_def Let_def dest: replica_leaves split: if_splits option.splits sum.splits prod.splits)

lemma route_inner_steps:
  assumes "route_inner fc now pp t fwd nd sh = (r, nd', sh')" "k = key_scoped (pp_project pp) (pp_script pp) (ot_class t) (ot_name t)"
  shows "\<exists>rep nd1. nd1 = nd\<lparr>nd_replicas := rep\<rparr> \<and> ((nd' = nd1 \<and> sh' = sh) \<or> (\<exists>x. resolve_handle fc now k nd1 sh = (x, nd', sh')))"
proof -
  obtain y nd1 where b: "bypassed fc now k t nd sh = (y, nd1)" by fastforce
  from bypassed_leaves [OF b] obtain rep where rep: "nd1 = nd\<lparr>nd_replicas := rep\<rparr>" by blast
  obtain x nd2 sh2 where h: "resolve_handle fc now k nd1 sh = (x, nd2, sh2)" by (metis prod_cases3)
  from b h assms have "(nd' = nd1 \<and> sh' = sh) \<or> (nd' = nd2 \<and> sh' = sh2)"
    by (auto simp: route_inner_def Let_def split: sum.splits option.splits resolve_error.splits)
  with rep h show ?thesis by blast
qed

lemma route_inner_leaves:
  assumes "route_inner fc now pp t fwd nd sh = (r, nd', sh')"
  shows "reg_frame fc now sh sh' \<and> nd_identity nd' = nd_identity nd"
    and "hosted fc nd sh \<Longrightarrow> fit fc now nd sh \<Longrightarrow> hosted fc nd' sh'"
proof -
  from route_inner_steps [OF assms refl] obtain rep nd1 where n: "nd1 = nd\<lparr>nd_replicas := rep\<rparr>"
    "(nd' = nd1 \<and> sh' = sh) \<or> (\<exists>x. resolve_handle fc now (key_scoped (pp_project pp) (pp_script pp) (ot_class t) (ot_name t)) nd1 sh = (x, nd', sh'))"
    by blast
  have "hosted fc nd1 sh = hosted fc nd sh" "fit fc now nd1 sh = fit fc now nd sh" "nd_identity nd1 = nd_identity nd"
    by (simp_all add: n(1) hosted_def fit_def)
  with n(2) resolve_handle_leaves show "reg_frame fc now sh sh' \<and> nd_identity nd' = nd_identity nd"
    "hosted fc nd sh \<Longrightarrow> fit fc now nd sh \<Longrightarrow> hosted fc nd' sh'" by (metis reg_frame_refl)+
qed

lemma route_inner_truth:
  assumes "route_inner fc now pp t fwd nd sh = (r, nd', sh')" "k = key_scoped (pp_project pp) (pp_script pp) (ot_class t) (ot_name t)"
    and "true_shared sv own nm sh" "true_node sv own nm nd" "fc_service fc = sv" "sv_parse sv (k_scope k) = Some (k_scope k)" "clean_key k"
  shows "true_shared sv own nm sh' \<and> true_node sv own nm nd'"
proof -
  from route_inner_steps [OF assms(1,2)] obtain rep nd1 where n: "nd1 = nd\<lparr>nd_replicas := rep\<rparr>"
    "(nd' = nd1 \<and> sh' = sh) \<or> (\<exists>x. resolve_handle fc now k nd1 sh = (x, nd', sh'))" by blast
  have "true_node sv own nm nd1" using assms(4) by (simp add: n(1) true_node_def owners_ok_def)
  with n(2) assms(3) resolve_handle_truth [OF _ assms(3) _ assms(5-7)] show ?thesis by blast
qed

lemma dispatch_leaves:
  assumes "dispatch_rpc fc now c nd sh = (r, nd', sh')"
  shows "reg_frame fc now sh sh' \<and> nd_identity nd' = nd_identity nd"
    and "hosted fc nd sh \<Longrightarrow> fit fc now nd sh \<Longrightarrow> hosted fc nd' sh'"
proof -
  obtain x nd1 where o: "owner_prepared fc now (key_received (oc_scope c) (oc_class c) (oc_name c)) sh nd = (x, nd1)" by fastforce
  note f = owner_prepared_leaves [OF o]
  then have n: "hosted fc nd1 sh = hosted fc nd sh" "fit fc now nd1 sh = fit fc now nd sh" by (simp_all add: hosted_def fit_def)
  consider (same) "nd' \<in> {nd, nd1}" "sh' = sh" | (inner) pp t where "route_inner fc now pp t (oc_first_hop c) nd1 sh = (r, nd', sh')"
    using assms o by (auto simp: dispatch_rpc_def split: option.splits sum.splits)
  then have "reg_frame fc now sh sh' \<and> nd_identity nd' = nd_identity nd \<and> (hosted fc nd sh \<longrightarrow> fit fc now nd sh \<longrightarrow> hosted fc nd' sh')"
  proof cases
    case same
    with f n show ?thesis by auto
  next
    case (inner pp t)
    from route_inner_leaves [OF inner] f n show ?thesis by auto
  qed
  then show "reg_frame fc now sh sh' \<and> nd_identity nd' = nd_identity nd" "hosted fc nd sh \<Longrightarrow> fit fc now nd sh \<Longrightarrow> hosted fc nd' sh'"
    by blast+
qed

section \<open>The fleet\<close>

definition manned :: "('u, 'v) fleet_config \<Rightarrow> int \<Rightarrow> 'u fleet \<Rightarrow> bool" where
  "manned fc now ft \<longleftrightarrow> (\<forall>a. fit fc now (ft_nodes ft a) (ft_shared ft))
     \<and> (\<forall>a b i. nd_identity (ft_nodes ft a) = Some i \<longrightarrow> nd_identity (ft_nodes ft b) = Some i \<longrightarrow> a = b)"

definition placed :: "('u, 'v) fleet_config \<Rightarrow> 'u fleet \<Rightarrow> bool" where
  "placed fc ft \<longleftrightarrow> (\<forall>a. hosted fc (ft_nodes ft a) (ft_shared ft))"

lemma put_node_simps [simp]:
  "ft_shared (put_node a x ft) = snd x" "ft_nodes (put_node a x ft) b = (if b = a then fst x else ft_nodes ft b)"
  by (simp_all add: put_node_def)

lemma placedD:
  "placed fc ft \<Longrightarrow> is_resident key (nd_host (ft_nodes ft a)) \<Longrightarrow>
     \<exists>i. nd_identity (ft_nodes ft a) = Some i \<and> rg_leases (sh_registry (ft_shared ft)) (fc_hash fc key) = Some i"
  unfolding placed_def hosted_def by blast

text \<open>One node's turn keeps every node's residents leased.\<close>

lemma turn_keeps:
  assumes "manned fc now ft" "placed fc ft" "reg_frame fc now (ft_shared ft) sh'" "nd_identity nd' = nd_identity (ft_nodes ft a)"
    and "hosted fc (ft_nodes ft a) (ft_shared ft) \<Longrightarrow> fit fc now (ft_nodes ft a) (ft_shared ft) \<Longrightarrow> hosted fc nd' sh'"
  shows "manned fc now (put_node a (nd', sh') ft)" "placed fc (put_node a (nd', sh') ft)"
proof -
  show "manned fc now (put_node a (nd', sh') ft)"
    using assms(1,3,4) fit_frame [of fc now _ "ft_shared ft" sh'] by (auto simp: manned_def)
  show "placed fc (put_node a (nd', sh') ft)"
    using assms hosted_frame [of fc _ "ft_shared ft" now sh'] by (auto simp: placed_def manned_def)
qed

lemma forward_keeps:
  assumes "manned fc now ft" "placed fc ft" "forward fc now holder c ft = (x, ft')"
  shows "placed fc ft'"
proof -
  have "placed fc (put_node b y ft)" if "dispatch_rpc fc now c (ft_nodes ft b) (ft_shared ft) = (r, y)" for b r y
  proof -
    obtain nd' sh' where y: "y = (nd', sh')" by fastforce
    from dispatch_leaves [OF that [unfolded y]] turn_keeps(2) [OF assms(1,2)] y show ?thesis by blast
  qed
  with assms(2,3) show ?thesis by (auto simp: forward_def split: sum.splits option.splits prod.splits)
qed

lemma land_keeps:
  assumes "manned fc now ft" "placed fc ft" "reg_frame fc now (ft_shared ft) sh'" "nd_identity nd' = nd_identity (ft_nodes ft a)"
    and "hosted fc (ft_nodes ft a) (ft_shared ft) \<Longrightarrow> fit fc now (ft_nodes ft a) (ft_shared ft) \<Longrightarrow> hosted fc nd' sh'"
  shows "placed fc (snd (land fc now a (r, nd', sh') ft))"
proof -
  note t = turn_keeps [OF assms]
  show ?thesis using t forward_keeps [OF t]
    by (auto simp: land_def Let_def split: routed.splits) (metis surjective_pairing)
qed

text \<open>What happens in a fleet: calls from vms and from the dashboard, wake-ups by the sweep, heartbeats,
  registrations, tasks that end or are evicted, writes that ship, and anything at all in the script
  service. Routing happens only while every registered node's heartbeat is current; a node registers
  once.\<close>

inductive fleet_step :: "('u, 'v) fleet_config \<Rightarrow> 'u fleet \<Rightarrow> 'u fleet \<Rightarrow> bool" for fc where
  called: "manned fc now ft \<Longrightarrow> fleet_step fc ft (snd (fleet_call fc now a pp t ft))"
| arrived: "manned fc now ft \<Longrightarrow> fleet_step fc ft (snd (plane_call fc now a c ft))"
| woken: "manned fc now ft \<Longrightarrow> fleet_step fc ft (put_node a (snd (resolve_handle fc now k (ft_nodes ft a) (ft_shared ft))) ft)"
| beat: "fleet_step fc ft (ft\<lparr>ft_shared := (ft_shared ft)\<lparr>sh_registry :=
     snd (heartbeat (sv_parse (fc_service fc)) (fc_node_ttl fc) now i load (sh_registry (ft_shared ft)))\<rparr>\<rparr>)"
| registered: "nd_identity (ft_nodes ft a) = None \<Longrightarrow> register i now addr caps (sh_registry (ft_shared ft)) = (j, r) \<Longrightarrow>
     fleet_step fc ft (put_node a ((ft_nodes ft a)\<lparr>nd_identity := Some j\<rparr>, (ft_shared ft)\<lparr>sh_registry := r\<rparr>) ft)"
| ended: "fleet_step fc ft (put_node a ((ft_nodes ft a)\<lparr>nd_host := task_ends h (nd_host (ft_nodes ft a))\<rparr>, ft_shared ft) ft)"
| evicted: "fleet_step fc ft (put_node a ((ft_nodes ft a)\<lparr>nd_host := evict key (nd_host (ft_nodes ft a))\<rparr>, ft_shared ft) ft)"
| wrote: "fleet_step fc ft (put_node a (home_write fc now h f (ft_nodes ft a) (ft_shared ft)) ft)"
| published: "fleet_step fc ft (ft\<lparr>ft_shared := (ft_shared ft)\<lparr>sh_scripts := s\<rparr>\<rparr>)"

inductive fleet_reach :: "('u, 'v) fleet_config \<Rightarrow> 'u fleet \<Rightarrow> 'u fleet \<Rightarrow> bool" for fc ft0 where
  here: "fleet_reach fc ft0 ft0"
| more: "fleet_reach fc ft0 ft \<Longrightarrow> fleet_step fc ft ft' \<Longrightarrow> fleet_reach fc ft0 ft'"

lemma hosted_same:
  assumes "hosted fc nd sh" "nd_host nd' = nd_host nd" "nd_identity nd' = nd_identity nd"
    "rg_leases (sh_registry sh') = rg_leases (sh_registry sh)"
  shows "hosted fc nd' sh'"
  using assms by (simp add: hosted_def)

lemma home_write_leaves:
  "nd_host (fst (home_write fc now h f nd sh)) = nd_host nd" "nd_identity (fst (home_write fc now h f nd sh)) = nd_identity nd"
  "sh_registry (snd (home_write fc now h f nd sh)) = sh_registry sh"
  by (auto simp: home_write_def split: option.split)

lemma placed_same:
  assumes "placed fc ft" "\<And>a. nd_host (ft_nodes ft' a) = nd_host (ft_nodes ft a)" "\<And>a. nd_identity (ft_nodes ft' a) = nd_identity (ft_nodes ft a)"
    "rg_leases (sh_registry (ft_shared ft')) = rg_leases (sh_registry (ft_shared ft))"
  shows "placed fc ft'"
  using assms hosted_same by (metis placed_def)

lemma fleet_step_placed: "fleet_step fc ft ft' \<Longrightarrow> placed fc ft \<Longrightarrow> placed fc ft'"
proof (induction rule: fleet_step.induct)
  case (called now ft a pp t)
  obtain r nd' sh' where c: "route_call fc now pp t (ft_nodes ft a) (ft_shared ft) = (r, nd', sh')" by (metis prod_cases3)
  note l = route_inner_leaves [OF c [unfolded route_call_def]]
  from land_keeps [OF called(1,2) _ _ l(2)] l(1) show ?case by (simp add: fleet_call_def c)
next
  case (arrived now ft a c)
  obtain r nd' sh' where d: "dispatch_rpc fc now c (ft_nodes ft a) (ft_shared ft) = (r, nd', sh')" by (metis prod_cases3)
  note l = dispatch_leaves [OF d]
  from land_keeps [OF arrived(1,2) _ _ l(2)] l(1) show ?case by (simp add: plane_call_def d)
next
  case (woken now ft a k)
  obtain x nd' sh' where h: "resolve_handle fc now k (ft_nodes ft a) (ft_shared ft) = (x, nd', sh')" by (metis prod_cases3)
  note l = resolve_handle_leaves [OF h]
  from turn_keeps(2) [OF woken(1,2) _ _ l(2)] l(1) h show ?case by simp
next
  case (beat ft now i load)
  obtain y r' where "heartbeat (sv_parse (fc_service fc)) (fc_node_ttl fc) now i load (sh_registry (ft_shared ft)) = (y, r')" by fastforce
  with beat show ?case by (auto intro: placed_same simp: heartbeat_frame)
next
  case (registered ft a i now addr caps j r)
  then have none: "\<not> is_resident key (nd_host (ft_nodes ft a))" for key using placedD [of fc ft key a] by auto
  have "rg_leases r = rg_leases (sh_registry (ft_shared ft))" using registered(2) by (auto simp: register_def)
  with registered(3) none show ?case by (simp add: placed_def hosted_def)
next
  case (ended ft a h)
  then show ?case by (auto simp: placed_def hosted_def host_wf_def is_resident_def task_ends_def split: option.splits prod.splits if_splits)
next
  case (evicted ft a key)
  then show ?case by (auto simp: placed_def hosted_def host_wf_def is_resident_def evict_def split: option.splits prod.splits if_splits)
next
  case (wrote ft a now h f)
  then show ?case by (rule placed_same) (simp_all add: home_write_leaves)
next
  case (published ft s)
  then show ?case by (rule placed_same) simp_all
qed

lemma fleet_reach_placed: "fleet_reach fc ft0 ft \<Longrightarrow> placed fc ft0 \<Longrightarrow> placed fc ft"
  by (induction rule: fleet_reach.induct) (auto intro: fleet_step_placed)


section \<open>A call arrives as it was made\<close>

lemma str_list_map [simp]: "str_list (map JStr xs) = Some xs"
  by (induction xs) auto

text \<open>The receiving side reads the payload back as the call that was made.\<close>

lemma decode_dispatch_payload:
  "decode_call why (dispatch_payload t chain) = Inr \<lparr>c_class = ot_class t, c_method = ot_method t, c_name = ot_name t,
     c_args = ot_args t, c_chain = chain, c_caller = ot_caller t\<rparr>"
  by (cases "ot_caller t") (auto simp: decode_call_def dispatch_payload_def has_key_def Let_def)

lemma dispatch_deliver:
  assumes d: "dispatch_rpc fc now (wire_call fc k t chain) nd sh = (Deliver h p, nd', sh')"
    and k: "k = key_received (k_scope k) (ot_class t) (ot_name t)" "call_chain k t = Inr chain"
    and truth: "true_shared sv own nm sh" "true_node sv own nm nd" "fc_service fc = sv" "sv_parse sv (k_scope k) = Some (k_scope k)" "clean_key k"
    and codec: "codec_round_trips (fc_codec fc)" "list_all float_free (ot_args t)" "\<forall>v. to_text (fc_codec fc) v \<noteq> ''''"
  shows "\<exists>m. tasks (nd_host nd') (key_display k) = Some (m, h) \<and> \<not> closed (nd_host nd') h \<and> p = dispatch_payload t chain"
proof -
  let ?t = "t\<lparr>ot_chain := chain\<rparr>"
  have args: "from_text (fc_codec fc) (to_text (fc_codec fc) (JArr (ot_args t))) = Some (JArr (ot_args t))"
    using codec(1,2) by (simp add: codec_round_trips_def)
  have t: "\<lparr>ot_class = ot_class t, ot_name = ot_name t, ot_method = ot_method t, ot_args = ot_args t, ot_chain = chain, ot_caller = ot_caller t\<rparr> = ?t"
    by (cases t) simp
  obtain x nd1 where o: "owner_prepared fc now k sh nd = (x, nd1)" by fastforce
  from d args codec(3) o k(1) obtain owner where w: "x = Inr owner" "route_inner fc now owner ?t False nd1 sh = (Deliver h p, nd', sh')"
    by (cases x) (auto simp: dispatch_rpc_def wire_call_def t)
  have "in_scope k owner" using owner_in_scope [OF truth o] w(1) by simp
  then have "key_scoped (pp_project owner) (pp_script owner) (ot_class ?t) (ot_name ?t) = k"
    using arg_cong [OF k(1), of k_class] arg_cong [OF k(1), of k_name] by (auto simp: key_scoped_def key_received_def in_scope_def is_cron_def)
  from route_inner_deliver [OF w(2) this [symmetric]] call_chain_again [OF k(2), of t]
  show ?thesis by (auto simp: dispatch_payload_def)
qed


section \<open>An object that is resident\<close>

text \<open>The object's task is live on this node under the revision its owner is known to run.\<close>

definition resident_as :: "int \<Rightarrow> object_key \<Rightarrow> nat \<Rightarrow> 'u node \<Rightarrow> bool" where
  "resident_as now k h nd \<longleftrightarrow> (\<exists>owner e. nd_owners nd (key_display k) = Some (owner, e) \<and> now < e
     \<and> tasks (nd_host nd) (key_display k) = Some (pp_revision owner, h) \<and> \<not> closed (nd_host nd) h)"

definition plain_call :: "object_target \<Rightarrow> bool" where
  "plain_call t \<longleftrightarrow> \<not> (ot_class t = DATABASE_CLASS \<and> ot_method t \<in> {''read'', ''read_one''})"

definition spoken_by :: "prepared \<Rightarrow> object_target \<Rightarrow> object_target" where
  "spoken_by pp t = t\<lparr>ot_caller := Some \<lparr>cl_script = pp_identifier pp, cl_revision = pp_revision pp\<rparr>\<rparr>"

lemma spoken_chain [simp]: "call_chain k (spoken_by pp t) = call_chain k t"
  by (simp add: call_chain_def spoken_by_def)

lemma route_call_spoken: "route_call fc now pp t nd sh = route_inner fc now pp (spoken_by pp t) True nd sh"
  by (simp add: route_call_def spoken_by_def)

lemma spoken_simps [simp]:
  "ot_class (spoken_by pp t) = ot_class t" "ot_name (spoken_by pp t) = ot_name t" "ot_chain (spoken_by pp t) = ot_chain t"
  by (simp_all add: spoken_by_def)

lemma resident_resolves:
  assumes "resident_as now k h nd"
  shows "resolve_handle fc now k nd sh = (Inr h, nd, sh)"
proof -
  from assms obtain owner e where o: "nd_owners nd (key_display k) = Some (owner, e)" "now < e"
    "tasks (nd_host nd) (key_display k) = Some (pp_revision owner, h)" "\<not> closed (nd_host nd) h" by (auto simp: resident_as_def)
  then have "owner_prepared fc now k sh nd = (Inr owner, nd)" by (simp add: owner_prepared_def fresh_entry_def)
  moreover have "is_resident (key_display k) (nd_host nd)" using o by (simp add: is_resident_def)
  moreover have "resolve_local fc now k owner nd sh = (Inr h, nd, sh)" using o by (simp add: resolve_local_def get_or_spawn_def)
  ultimately show ?thesis by (simp add: resolve_handle_def)
qed

lemma plain_not_bypassed: "plain_call t \<Longrightarrow> bypassed fc now k (spoken_by pp t) nd sh = (Inr None, nd)"
  by (auto simp: plain_call_def bypassed_def spoken_by_def)

lemma fleet_call_resident:
  assumes "resident_as now k h (ft_nodes ft a)" "plain_call t" "k = key_scoped (pp_project pp) (pp_script pp) (ot_class t) (ot_name t)"
    and "call_chain k t = Inr chain"
  shows "fleet_call fc now a pp t ft = (Landed a h (dispatch_payload (spoken_by pp t) chain), ft)"
proof -
  have "call_chain k (spoken_by pp t) = Inr chain" using assms(4) by simp
  then have "route_call fc now pp t (ft_nodes ft a) (ft_shared ft) = (Deliver h (dispatch_payload (spoken_by pp t) chain), ft_nodes ft a, ft_shared ft)"
    by (simp add: route_call_spoken route_inner_def Let_def assms(3) [symmetric] plain_not_bypassed [OF assms(2)] resident_resolves [OF assms(1)])
  then show ?thesis by (simp add: fleet_call_def land_def put_node_def)
qed

text \<open>Cycles are refused, one excepted: a call whose object is on its chain is refused with the cycle
  spelled out, but an object that calls itself directly has its own key last on the chain, which
  routing takes for a forwarded call, and the call lands in the mailbox whose task is waiting for it.\<close>

theorem self_call_waits_on_itself:
  assumes "resident_as now k h (ft_nodes ft a)" "plain_call t" "k = key_scoped (pp_project pp) (pp_script pp) (ot_class t) (ot_name t)"
    and "key_display k \<in> set (ot_chain t)"
  shows "fst (fleet_call fc now a pp t ft) =
    (if last (ot_chain t) = key_display k then Landed a h (dispatch_payload (spoken_by pp t) (ot_chain t))
     else Finished (Inl (''Reentrant object call refused: '' @ join '' -> '' (ot_chain t) @ '' -> '' @ key_display k @ '' would deadlock.'')))"
proof (cases "last (ot_chain t) = key_display k")
  case True
  then have "call_chain k t = Inr (ot_chain t)" using assms(4) by (auto simp: call_chain_def)
  from fleet_call_resident [OF assms(1-3) this, of fc] True show ?thesis by simp
next
  case False
  then have "call_chain k (spoken_by pp t) = Inl (''Reentrant object call refused: '' @ join '' -> '' (ot_chain t) @ '' -> '' @ key_display k @ '' would deadlock.'')"
    using assms(4) by (simp add: call_chain_def extend_call_chain_def)
  with False show ?thesis
    by (simp add: fleet_call_def route_call_spoken route_inner_def Let_def land_def assms(3) [symmetric] plain_not_bypassed [OF assms(2)])
qed

text \<open>A home that lost its lease keeps answering: a node that registered again after a late heartbeat,
  or never noticed, still delivers calls to its resident tasks, whoever holds the lease now, and
  asks nobody. What such a call writes stays on that node's disk: once the new home has shipped,
  the ship is refused as fenced, which is only logged, and the next home restores without it.\<close>

theorem stale_home_keeps_answering:
  assumes "resident_as now k h (ft_nodes ft a)" "plain_call t" "k = key_scoped (pp_project pp) (pp_script pp) (ot_class t) (ot_name t)"
    and "key_display k \<notin> set (ot_chain t)" "fc_net fc = all_well"
    and "nd_homes (ft_nodes ft a) h = Some (oid, e)" "nd_disk (ft_nodes ft a) oid = Some d"
    and "epoch_of oid (sh_bucket (ft_shared ft)) = Some newer" "newer > word_of_int e"
  shows "fleet_call fc now a pp t ft = (Landed a h (dispatch_payload (spoken_by pp t) (ot_chain t @ [key_display k])), ft)
    \<and> (case home_write fc now h f (ft_nodes ft a) (ft_shared ft) of
         (nd', sh') \<Rightarrow> nd_disk nd' oid = Some (f d) \<and> restore oid all_well (sh_bucket sh') = restore oid all_well (sh_bucket (ft_shared ft)))"
proof -
  have "call_chain k t = Inr (ot_chain t @ [key_display k])"
    using assms(4) by (auto simp: call_chain_def extend_call_chain_def dest: last_in_set)
  from fleet_call_resident [OF assms(1-3) this, of fc] show ?thesis
    using assms(5-9) by (simp add: home_write_def ship_cases)
qed

section \<open>A fleet of two\<close>

definition fleet_of_two_config :: "(unit, bool) fleet_config" where
  "fleet_of_two_config = \<lparr>fc_service = demo_service, fc_hash = (\<lambda>s. s), fc_pointer_ttl = 60, fc_node_ttl = 30, fc_replica_ttl = 5,
     fc_env = plain_env no_capabilities, fc_budget = 9, fc_codec = text_codec, fc_row_why = (\<lambda>s. s), fc_text_why = (\<lambda>s. s),
     fc_status = (\<lambda>_. ''status''), fc_engine = closed_engine, fc_new = (), fc_net = all_well, fc_wire = (\<lambda>_. None), fc_token = ''t''\<rparr>"

definition room_key :: object_key where
  "room_key = \<lparr>k_scope = ''p'', k_class = ''Room'', k_name = ''x''\<rparr>"

definition first_prepared :: prepared where
  "first_prepared = prepare (demo_script ''a'' ''first'' 1 (Some ''r1'')) ''r1'' (Some no_capabilities)
     \<lparr>b_entry_point = ''main.lua'', b_files = [served_file ''one'']\<rparr>"

definition idle_host :: host where
  "idle_host = \<lparr>tasks = Map.empty, closed = (\<lambda>_. False), next_handle = 0\<rparr>"

definition room_host :: host where
  "room_host = \<lparr>tasks = [''p/Room/x'' \<mapsto> (''r1'', 0)], closed = (\<lambda>_. False), next_handle = 1\<rparr>"

definition a_node :: "string option \<Rightarrow> host \<Rightarrow> unit node" where
  "a_node i hs = \<lparr>nd_identity = i, nd_host = hs, nd_homes = [0 \<mapsto> (''p/Room/x'', 1)], nd_disk = [''p/Room/x'' \<mapsto> fresh_db ()],
     nd_replicas = Map.empty, nd_caches = no_caches, nd_owners = [''p/Room/x'' \<mapsto> (first_prepared, 100)]\<rparr>"

definition two_node_registry :: registry where
  "two_node_registry = \<lparr>rg_nodes = [
       \<lparr>n_id = ''na'', n_address = ''A'', n_capabilities = [], n_load = 0, n_registered = 0, n_heartbeat = 0\<rparr>,
       \<lparr>n_id = ''nb'', n_address = ''B'', n_capabilities = [], n_load = 0, n_registered = 0, n_heartbeat = 0\<rparr>],
     rg_leases = [''p/Room/x'' \<mapsto> ''nb''], rg_epochs = [''p/Room/x'' \<mapsto> 2], rg_instances = [], rg_alarms = []\<rparr>"

definition fleet_of_two :: "unit fleet" where
  "fleet_of_two = \<lparr>ft_nodes = (\<lambda>a. if a = ''A'' then a_node (Some ''na'') idle_host else if a = ''B'' then a_node (Some ''nb'') room_host
       else a_node None idle_host),
     ft_shared = \<lparr>sh_scripts = two_served, sh_registry = two_node_registry,
       sh_bucket = \<lparr>b_snapshot = [''objects/p/Room/x/snapshot.db'' \<mapsto> fresh_db ()],
         b_manifest = [''objects/p/Room/x/manifest.json'' \<mapsto> \<lparr>mf_epoch = 2, mf_shipped_at = 0\<rparr>]\<rparr>\<rparr>\<rparr>"

definition say_hello :: "string list \<Rightarrow> object_target" where
  "say_hello chain = \<lparr>ot_class = ''Room'', ot_name = ''x'', ot_method = ''hello'', ot_args = [JInt 7], ot_chain = chain, ot_caller = None\<rparr>"

lemma room_key_facts:
  "key_display room_key = ''p/Room/x''" "key_scoped (pp_project first_prepared) (pp_script first_prepared) ''Room'' ''x'' = room_key"
  "clean_key room_key" "key_received ''p'' ''Room'' ''x'' = room_key" "\<not> is_cron room_key" "k_scope room_key = ''p''"
  by (simp_all add: room_key_def key_display_def key_scoped_def first_prepared_def prepare_def demo_script_def clean_key_def
      key_received_def is_cron_def CRON_CLASS_def)

lemma two_true_shared: "true_shared demo_service demo_owner demo_name (ft_shared fleet_of_two)"
  using two_served_ok by (simp add: true_shared_def fleet_of_two_def directory_ok_def two_node_registry_def)

lemma a_node_true: "true_node demo_service demo_owner demo_name (a_node i hs)"
proof -
  have "in_scope room_key first_prepared \<and> row_ok demo_service demo_owner demo_name (script_of first_prepared)"
    by (simp add: in_scope_def room_key_facts first_prepared_def prepare_def demo_script_def row_ok_def script_of_def demo_service_def
        demo_owner_def demo_name_def)
  then have "in_scope k pp \<and> row_ok demo_service demo_owner demo_name (script_of pp)"
    if "clean_key k" "nd_owners (a_node i hs) (key_display k) = Some (pp, e)" for k pp e
    using that key_display_inj [OF that(1) room_key_facts(3)] by (auto simp: a_node_def room_key_facts split: if_splits)
  moreover have "caches_ok demo_service demo_owner demo_name (nd_caches (a_node i hs))" by (simp add: a_node_def caches_ok_def no_caches_def)
  ultimately show ?thesis by (simp add: true_node_def owners_ok_def)
qed

lemma two_true_nodes: "\<forall>a. true_node demo_service demo_owner demo_name (ft_nodes fleet_of_two a)"
  by (simp add: fleet_of_two_def a_node_true)

lemma text_codec_prints: "\<forall>v. to_text text_codec v \<noteq> ''''"
proof
  fix v show "to_text text_codec v \<noteq> ''''" by (cases v) (auto simp: text_codec_def)
qed

definition room_row :: instance_row where
  "room_row = \<lparr>i_scope = ''p'', i_class = ''Room'', i_name = ''x'', i_script = ''a'', i_created = 1\<rparr>"

lemma a_claims_room:
  "claim_lease fleet_of_two_config 1 room_key ''a'' (a_node (Some ''na'') hs) (ft_shared fleet_of_two)
     = (Inr \<lparr>ls_object = ''p/Room/x'', ls_node = ''nb'', ls_acquired = False, ls_epoch = 2\<rparr>,
        (ft_shared fleet_of_two)\<lparr>sh_registry := two_node_registry\<lparr>rg_instances := [room_row]\<rparr>\<rparr>)"
proof -
  have "reap 30 1 two_node_registry = two_node_registry"
    by (simp add: reap_def delete_nodes_def two_node_registry_def cutoff_def Let_def fun_eq_iff)
  then show ?thesis
    by (simp add: claim_lease_def a_node_def fleet_of_two_config_def fleet_of_two_def demo_service_def room_key_facts object_id_def
        claim_def claim_start_def claim_identity_def eval_nat_numeral insert_lease_def insert_instance_def lease_of_def Let_def
        room_key_def key_display_def two_node_registry_def room_row_def)
qed

lemma room_resident: "now < 100 \<Longrightarrow> resident_as now room_key 0 (a_node i room_host)"
  by (simp add: resident_as_def a_node_def room_key_facts room_host_def first_prepared_def prepare_def demo_script_def)

lemma owner_cached: "now < 100 \<Longrightarrow> owner_prepared fc now room_key sh (a_node i hs) = (Inr first_prepared, a_node i hs)"
  by (simp add: owner_prepared_def fresh_entry_def a_node_def room_key_facts)

lemma hello_chain: "call_chain room_key (say_hello []) = Inr [''p/Room/x'']"
  by (simp add: call_chain_def say_hello_def extend_call_chain_def room_key_facts)

lemma hello_plain: "plain_call (say_hello chain)" "ot_class (say_hello chain) = ''Room''" "ot_name (say_hello chain) = ''x''" "ot_chain (say_hello chain) = chain"
  by (simp_all add: plain_call_def say_hello_def DATABASE_CLASS_def)

definition told :: "unit shared" where
  "told = (ft_shared fleet_of_two)\<lparr>sh_registry := two_node_registry\<lparr>rg_instances := [room_row]\<rparr>\<rparr>"

definition hello_call :: object_call where
  "hello_call = wire_call fleet_of_two_config room_key (spoken_by first_prepared (say_hello [])) [''p/Room/x'']"

lemma hello_leaves_a:
  "route_call fleet_of_two_config 1 first_prepared (say_hello []) (a_node (Some ''na'') idle_host) (ft_shared fleet_of_two)
     = (Hop ''nb'' hello_call, a_node (Some ''na'') idle_host, told)"
proof -
  have "\<not> is_resident (key_display room_key) (nd_host (a_node (Some ''na'') idle_host))" by (simp add: is_resident_def a_node_def idle_host_def)
  moreover have "pp_script first_prepared = ''a''" by (simp add: first_prepared_def prepare_def demo_script_def)
  ultimately have "resolve_handle fleet_of_two_config 1 room_key (a_node (Some ''na'') idle_host) (ft_shared fleet_of_two)
      = (Inl (Elsewhere ''nb''), a_node (Some ''na'') idle_host, told)"
    by (simp add: resolve_handle_def owner_cached a_claims_room told_def)
  then show ?thesis
    by (simp add: route_call_spoken route_inner_def Let_def hello_plain room_key_facts plain_not_bypassed hello_chain hello_call_def)
qed

lemma hello_call_eq: "hello_call = \<lparr>oc_scope = ''p'', oc_class = ''Room'', oc_name = ''x'', oc_method = ''hello'',
    oc_args_json = to_text text_codec (JArr [JInt 7]), oc_chain = [''p/Room/x''],
    oc_caller = Some \<lparr>cl_script = pp_identifier first_prepared, cl_revision = pp_revision first_prepared\<rparr>, oc_first_hop = False\<rparr>"
  by (simp add: hello_call_def wire_call_def fleet_of_two_config_def spoken_by_def say_hello_def room_key_facts)

lemma fleet_of_two_codec: "fc_codec fleet_of_two_config = text_codec" "fc_service fleet_of_two_config = demo_service"
  by (simp_all add: fleet_of_two_config_def)

lemma hello_arrives_b:
  "dispatch_rpc fleet_of_two_config 1 hello_call (a_node (Some ''nb'') room_host) told
     = (Deliver 0 (dispatch_payload (spoken_by first_prepared (say_hello [''p/Room/x''])) [''p/Room/x'']), a_node (Some ''nb'') room_host, told)"
proof -
  have args: "from_text text_codec (to_text text_codec (JArr [JInt 7])) = Some (JArr [JInt 7])"
    using text_codec_round_trips by (simp add: codec_round_trips_def)
  have t: "\<lparr>ot_class = ''Room'', ot_name = ''x'', ot_method = ''hello'', ot_args = [JInt 7], ot_chain = [''p/Room/x''],
      ot_caller = Some \<lparr>cl_script = pp_identifier first_prepared, cl_revision = pp_revision first_prepared\<rparr>\<rparr> = spoken_by first_prepared (say_hello [''p/Room/x''])"
    by (simp add: spoken_by_def say_hello_def)
  have "call_chain room_key (say_hello [''p/Room/x'']) = Inr [''p/Room/x'']" by (simp add: call_chain_def hello_plain room_key_facts)
  then have "route_inner fleet_of_two_config 1 first_prepared (spoken_by first_prepared (say_hello [''p/Room/x''])) False (a_node (Some ''nb'') room_host) told
      = (Deliver 0 (dispatch_payload (spoken_by first_prepared (say_hello [''p/Room/x''])) [''p/Room/x'']), a_node (Some ''nb'') room_host, told)"
    by (simp add: route_inner_def Let_def hello_plain room_key_facts plain_not_bypassed resident_resolves [OF room_resident])
  then show ?thesis
    using args text_codec_prints
    by (simp add: dispatch_rpc_def hello_call_eq fleet_of_two_codec room_key_facts owner_cached t)
qed

lemma two_nodes_of: "ft_nodes fleet_of_two ''A'' = a_node (Some ''na'') idle_host" "ft_nodes fleet_of_two ''B'' = a_node (Some ''nb'') room_host"
  by (simp_all add: fleet_of_two_def)

lemma hello_forwarded:
  "fleet_call fleet_of_two_config 1 ''A'' first_prepared (say_hello []) fleet_of_two
     = (Landed ''B'' 0 (dispatch_payload (spoken_by first_prepared (say_hello [''p/Room/x''])) [''p/Room/x'']), fleet_of_two\<lparr>ft_shared := told\<rparr>)"
proof -
  have n: "get_node Some 30 1 ''nb'' (sh_registry told) = Inr \<lparr>n_id = ''nb'', n_address = ''B'', n_capabilities = [], n_load = 0, n_registered = 0, n_heartbeat = 0\<rparr>"
    by (simp add: get_node_def told_def two_node_registry_def cutoff_def)
  have a: "require_internal_token ''t'' (authed ''t'') = Inr ()" by (simp add: require_internal_token_def authed_def header_value_def)
  have p: "put_node ''A'' (a_node (Some ''na'') idle_host, told) fleet_of_two = fleet_of_two\<lparr>ft_shared := told\<rparr>"
    "put_node ''B'' (a_node (Some ''nb'') room_host, told) (fleet_of_two\<lparr>ft_shared := told\<rparr>) = fleet_of_two\<lparr>ft_shared := told\<rparr>"
    using two_nodes_of by (simp_all add: put_node_def fun_upd_idem)
  have c: "fc_wire fleet_of_two_config ''B'' = None" "fc_token fleet_of_two_config = ''t''" "sv_parse demo_service = Some" "fc_node_ttl fleet_of_two_config = 30"
    by (simp_all add: fleet_of_two_config_def demo_service_def)
  have "forward fleet_of_two_config 1 ''nb'' hello_call (fleet_of_two\<lparr>ft_shared := told\<rparr>)
      = (Landed ''B'' 0 (dispatch_payload (spoken_by first_prepared (say_hello [''p/Room/x''])) [''p/Room/x'']), fleet_of_two\<lparr>ft_shared := told\<rparr>)"
    by (simp add: forward_def fleet_of_two_codec c n a two_nodes_of hello_arrives_b p)
  then show ?thesis by (simp add: fleet_call_def land_def two_nodes_of hello_leaves_a p)
qed



theorem self_call_waits_on_itself_witness:
  "fst (fleet_call fleet_of_two_config 1 ''B'' first_prepared (say_hello [''p/Room/x'']) fleet_of_two)
     = Landed ''B'' 0 (dispatch_payload (spoken_by first_prepared (say_hello [''p/Room/x''])) [''p/Room/x''])"
proof -
  have "resident_as 1 room_key 0 (ft_nodes fleet_of_two ''B'')" by (simp add: two_nodes_of room_resident)
  moreover have "room_key = key_scoped (pp_project first_prepared) (pp_script first_prepared) (ot_class (say_hello [''p/Room/x''])) (ot_name (say_hello [''p/Room/x'']))"
    by (simp add: hello_plain room_key_facts)
  ultimately show ?thesis
    using self_call_waits_on_itself [of 1 room_key 0 fleet_of_two "''B''" "say_hello [''p/Room/x'']" first_prepared fleet_of_two_config]
    by (simp add: hello_plain room_key_facts)
qed

text \<open>The lease went to the other node, which has shipped under its epoch.\<close>

definition moved_on :: "unit fleet" where
  "moved_on = fleet_of_two\<lparr>ft_shared := (ft_shared fleet_of_two)\<lparr>sh_registry := two_node_registry\<lparr>rg_leases := [''p/Room/x'' \<mapsto> ''na'']\<rparr>\<rparr>\<rparr>"

theorem stale_home_keeps_answering_witness:
  "rg_leases (sh_registry (ft_shared moved_on)) ''p/Room/x'' = Some ''na'' \<and> nd_identity (ft_nodes moved_on ''B'') = Some ''nb''
   \<and> fst (fleet_call fleet_of_two_config 1 ''B'' first_prepared (say_hello []) moved_on)
       = Landed ''B'' 0 (dispatch_payload (spoken_by first_prepared (say_hello [])) [''p/Room/x''])
   \<and> (case home_write fleet_of_two_config 1 0 (\<lambda>d. d\<lparr>user_version := 5\<rparr>) (ft_nodes moved_on ''B'') (ft_shared moved_on) of
         (nd', sh') \<Rightarrow> nd_disk nd' ''p/Room/x'' = Some ((fresh_db ())\<lparr>user_version := 5\<rparr>)
           \<and> restore ''p/Room/x'' all_well (sh_bucket sh') = Inr (Some (fresh_db ())))"
proof -
  have k: "room_key = key_scoped (pp_project first_prepared) (pp_script first_prepared) (ot_class (say_hello [])) (ot_name (say_hello []))"
    by (simp add: hello_plain room_key_facts)
  have n: "ft_nodes moved_on ''B'' = a_node (Some ''nb'') room_host" by (simp add: moved_on_def two_nodes_of)
  have h: "nd_homes (ft_nodes moved_on ''B'') 0 = Some (''p/Room/x'', 1)" "nd_disk (ft_nodes moved_on ''B'') ''p/Room/x'' = Some (fresh_db ())"
    by (simp_all add: n a_node_def)
  have e: "epoch_of ''p/Room/x'' (sh_bucket (ft_shared moved_on)) = Some 2"
    by (simp add: epoch_of_def moved_on_def fleet_of_two_def manifest_key_def)
  have res: "resident_as 1 room_key 0 (ft_nodes moved_on ''B'')" by (simp add: n room_resident)
  have c: "key_display room_key \<notin> set (ot_chain (say_hello []))" "fc_net fleet_of_two_config = all_well" "(2 :: 64 word) > word_of_int 1"
    by (simp_all add: hello_plain fleet_of_two_config_def)
  have r: "restore ''p/Room/x'' all_well (sh_bucket (ft_shared moved_on)) = Inr (Some (fresh_db ()))"
    by (simp add: restore_def all_well_def moved_on_def fleet_of_two_def manifest_key_def snapshot_key_def)
  from stale_home_keeps_answering [OF res hello_plain(1) k c(1,2) h e c(3), of "\<lambda>d. d\<lparr>user_version := 5\<rparr>"] r
  show ?thesis by (simp add: moved_on_def n [unfolded moved_on_def] two_nodes_of a_node_def hello_plain room_key_facts split: prod.splits)
qed

end
