(* ===== verification/Reads.thy ===== *)
theory Reads
  imports Routing_Spec
begin

text \<open>
  The data plane's reads (\<open>read_stats\<close>, \<open>read_journal\<close> and their helpers in
  \<open>actias-worker/src/data_plane.rs\<close>): the local file, else the lease holder's node, else the shipped
  replica, else nothing. What a file answers is the model of the platform's typed reads.
\<close>

section \<open>Requests\<close>

record read_request =
  rr_scope :: string
  rr_class :: string
  rr_name :: string
  rr_sql :: "string option"
  rr_messages :: bool
  rr_since :: int
  rr_first_hop :: bool

definition stats_read :: "read_request \<Rightarrow> status + platform_read" where
  "stats_read q =
     (case rr_sql q of
        Some sql \<Rightarrow> Inr (Query sql)
      | None \<Rightarrow>
          if rr_messages q then Inr QueueMessages
          else (case stats_for_class (rr_class q) of
             Some r \<Rightarrow> Inr r | None \<Rightarrow> Inl (InvalidArgument ''No stats for that class.'')))"

definition journal_read :: "read_request \<Rightarrow> platform_read" where
  "journal_read q = (if rr_class q = WORKFLOW_CLASS then WorkflowJournal (rr_since q) else QueueEvents (rr_since q))"

section \<open>Answering\<close>

text \<open>The reader: the platform's codec and engine, and the catalogue overview of a database file.\<close>

record 'u reader =
  rd_platform :: "'u platform"
  rd_overview :: "('u sqlite, json) cmd"

definition read_file :: "'u reader \<Rightarrow> int \<Rightarrow> platform_read \<Rightarrow> 'u db option \<Rightarrow> status + string" where
  "read_file rd now r file =
     (let J = pl_codec (rd_platform rd) in
      case file of
        None \<Rightarrow> Inr (to_text J JNull)
      | Some d \<Rightarrow>
          (case run_read (rd_platform rd) (rd_overview rd) now r d of
             Inl e \<Rightarrow> Inl (InvalidArgument e) | Inr v \<Rightarrow> Inr (to_text J v)))"

text \<open>A read that may not hop: this node's file or its replica.\<close>

definition read_here :: "('u, 'v) fleet_config \<Rightarrow> 'u reader \<Rightarrow> int \<Rightarrow> object_key \<Rightarrow> platform_read \<Rightarrow> 'u node \<Rightarrow> 'u shared \<Rightarrow> (status + string) \<times> 'u node" where
  "read_here fc rd now k r nd sh =
     (let oid = object_id (fc_hash fc) k in
      case nd_disk nd oid of
        Some d \<Rightarrow> (read_file rd now r (Some d), nd)
      | None \<Rightarrow>
          (case fresh_replica_file fc now oid nd sh of
             (Inl e, nd1) \<Rightarrow> (Inl (InvalidArgument e), nd1)
           | (Inr file, nd1) \<Rightarrow> (read_file rd now r file, nd1)))"

definition request_key :: "read_request \<Rightarrow> object_key" where
  "request_key q = key_received (rr_scope q) (rr_class q) (rr_name q)"

text \<open>\<open>read_stats\<close> as the holder's node serves it to a peer.\<close>

definition read_stats_here :: "('u, 'v) fleet_config \<Rightarrow> 'u reader \<Rightarrow> int \<Rightarrow> read_request \<Rightarrow> 'u node \<Rightarrow> 'u shared \<Rightarrow> (status + string) \<times> 'u node" where
  "read_stats_here fc rd now q nd sh =
     (case stats_read q of
        Inl e \<Rightarrow> (Inl e, nd)
      | Inr r \<Rightarrow> read_here fc rd now (request_key q) r nd sh)"

definition read_from_holder :: "('u, 'v) fleet_config \<Rightarrow> 'u reader \<Rightarrow> int \<Rightarrow> read_request \<Rightarrow> string \<Rightarrow> 'u fleet \<Rightarrow> (status + string option) \<times> 'u fleet" where
  "read_from_holder fc rd now q a ft =
     (case get_lease (fc_node_ttl fc) now (object_id (fc_hash fc) (request_key q)) (sh_registry (ft_shared ft)) of
        (Inl _, rg) \<Rightarrow> (Inr None, ft\<lparr>ft_shared := (ft_shared ft)\<lparr>sh_registry := rg\<rparr>\<rparr>)
      | (Inr l, rg) \<Rightarrow>
          (let ft1 = ft\<lparr>ft_shared := (ft_shared ft)\<lparr>sh_registry := rg\<rparr>\<rparr> in
           if nd_identity (ft_nodes ft a) = Some (ls_node l) then (Inr None, ft1)
           else case get_node (sv_parse (fc_service fc)) (fc_node_ttl fc) now (ls_node l) rg of
             Inl _ \<Rightarrow> (Inr None, ft1)
           | Inr n \<Rightarrow>
          (case fc_wire fc (n_address n) of
             Some _ \<Rightarrow> (Inr None, ft1)
           | None \<Rightarrow>
          (case require_internal_token (fc_token fc) (authed (fc_token fc)) of
             Inl _ \<Rightarrow> (Inr None, ft1)
           | Inr _ \<Rightarrow>
               (case read_stats_here fc rd now (q\<lparr>rr_first_hop := False\<rparr>) (ft_nodes ft1 (n_address n)) (ft_shared ft1) of
                  (Inl (InvalidArgument e), nd) \<Rightarrow> (Inl (InvalidArgument e), put_node (n_address n) (nd, ft_shared ft1) ft1)
                | (Inl _, nd) \<Rightarrow> (Inr None, put_node (n_address n) (nd, ft_shared ft1) ft1)
                | (Inr v, nd) \<Rightarrow> (Inr (Some v), put_node (n_address n) (nd, ft_shared ft1) ft1))))))"

definition read_routed :: "('u, 'v) fleet_config \<Rightarrow> 'u reader \<Rightarrow> int \<Rightarrow> read_request \<Rightarrow> platform_read \<Rightarrow> string \<Rightarrow> 'u fleet \<Rightarrow> (status + string) \<times> 'u fleet" where
  "read_routed fc rd now q r a ft =
     (let k = request_key q;
          here = (\<lambda>ft. case read_here fc rd now k r (ft_nodes ft a) (ft_shared ft) of
                    (x, nd) \<Rightarrow> (x, put_node a (nd, ft_shared ft) ft)) in
      if nd_disk (ft_nodes ft a) (object_id (fc_hash fc) k) \<noteq> None \<or> \<not> rr_first_hop q then here ft
      else case read_from_holder fc rd now q a ft of
        (Inl e, ft1) \<Rightarrow> (Inl e, ft1)
      | (Inr (Some v), ft1) \<Rightarrow> (Inr v, ft1)
      | (Inr None, ft1) \<Rightarrow> here ft1)"

definition read_stats_rpc :: "('u, 'v) fleet_config \<Rightarrow> 'u reader \<Rightarrow> int \<Rightarrow> read_request \<Rightarrow> string \<Rightarrow> 'u fleet \<Rightarrow> (status + string) \<times> 'u fleet" where
  "read_stats_rpc fc rd now q a ft =
     (case stats_read q of Inl e \<Rightarrow> (Inl e, ft) | Inr r \<Rightarrow> read_routed fc rd now q r a ft)"

definition read_journal_rpc :: "('u, 'v) fleet_config \<Rightarrow> 'u reader \<Rightarrow> int \<Rightarrow> read_request \<Rightarrow> string \<Rightarrow> 'u fleet \<Rightarrow> (status + string) \<times> 'u fleet" where
  "read_journal_rpc fc rd now q a ft = read_routed fc rd now q (journal_read q) a ft"

section \<open>What a read answers\<close>

text \<open>The object is homed on another, reachable node, which has its file, and this node has none.\<close>

definition homed_at :: "('u, 'v) fleet_config \<Rightarrow> int \<Rightarrow> object_key \<Rightarrow> string \<Rightarrow> 'u db \<Rightarrow> string \<Rightarrow> 'u fleet \<Rightarrow> bool" where
  "homed_at fc now k b d a ft \<longleftrightarrow>
     (\<exists>i l n rg. get_lease (fc_node_ttl fc) now (object_id (fc_hash fc) k) (sh_registry (ft_shared ft)) = (Inr l, rg) \<and> ls_node l = i
        \<and> nd_identity (ft_nodes ft a) \<noteq> Some i \<and> get_node (sv_parse (fc_service fc)) (fc_node_ttl fc) now i rg = Inr n \<and> n_address n = b)
     \<and> fc_wire fc b = None \<and> header_value (fc_token fc)
     \<and> nd_disk (ft_nodes ft b) (object_id (fc_hash fc) k) = Some d
     \<and> nd_disk (ft_nodes ft a) (object_id (fc_hash fc) k) = None"

lemma hop_irrelevant [simp]: "stats_read (q\<lparr>rr_first_hop := b\<rparr>) = stats_read q" "request_key (q\<lparr>rr_first_hop := b\<rparr>) = request_key q"
  by (cases "rr_sql q"; simp add: stats_read_def request_key_def)+

lemma holder_read:
  assumes "homed_at fc now (request_key q) b d a ft" "stats_read q = Inr r"
  shows "fst (read_from_holder fc rd now q a ft) =
    (case run_read (rd_platform rd) (rd_overview rd) now r d of
       Inl e \<Rightarrow> Inl (InvalidArgument e) | Inr v \<Rightarrow> Inr (Some (to_text (pl_codec (rd_platform rd)) v)))"
proof -
  let ?oid = "object_id (fc_hash fc) (request_key q)"
  from assms(1) obtain l n rg where h: "get_lease (fc_node_ttl fc) now ?oid (sh_registry (ft_shared ft)) = (Inr l, rg)"
    "nd_identity (ft_nodes ft a) \<noteq> Some (ls_node l)" "get_node (sv_parse (fc_service fc)) (fc_node_ttl fc) now (ls_node l) rg = Inr n"
    "n_address n = b" "fc_wire fc b = None" "header_value (fc_token fc)" "nd_disk (ft_nodes ft b) ?oid = Some d"
    by (auto simp: homed_at_def)
  have "stats_read (q\<lparr>rr_first_hop := False\<rparr>) = Inr r" "request_key (q\<lparr>rr_first_hop := False\<rparr>) = request_key q"
    using assms(2) by simp_all
  then have "read_stats_here fc rd now (q\<lparr>rr_first_hop := False\<rparr>) (ft_nodes ft b) sh = (read_file rd now r (Some d), ft_nodes ft b)" for sh
    using h(7) by (simp add: read_stats_here_def read_here_def Let_def)
  with h show ?thesis
    by (simp add: read_from_holder_def require_internal_token_def authed_def read_file_def Let_def split: sum.split)
qed

text \<open>A stats read reaches the freshest copy: asked of a node without the object's file, it answers
  what the holder's own file answers, value or refusal.\<close>

theorem stats_read_asks_the_home:
  assumes "homed_at fc now (request_key q) b d a ft" "stats_read q = Inr r" "rr_first_hop q"
  shows "fst (read_stats_rpc fc rd now q a ft) = fst (read_stats_rpc fc rd now (q\<lparr>rr_first_hop := False\<rparr>) b ft)"
proof -
  have *: "stats_read (q\<lparr>rr_first_hop := False\<rparr>) = Inr r" "request_key (q\<lparr>rr_first_hop := False\<rparr>) = request_key q"
    using assms(2) by simp_all
  have d: "nd_disk (ft_nodes ft b) (object_id (fc_hash fc) (request_key q)) = Some d" "nd_disk (ft_nodes ft a) (object_id (fc_hash fc) (request_key q)) = None"
    using assms(1) by (simp_all add: homed_at_def)
  obtain x ft1 where x: "read_from_holder fc rd now q a ft = (x, ft1)" by fastforce
  with holder_read [OF assms(1,2), of rd] have "x = (case run_read (rd_platform rd) (rd_overview rd) now r d of
       Inl e \<Rightarrow> Inl (InvalidArgument e) | Inr v \<Rightarrow> Inr (Some (to_text (pl_codec (rd_platform rd)) v)))" by simp
  with x d assms(2,3) * show ?thesis
    by (auto simp: read_stats_rpc_def read_routed_def read_here_def read_file_def Let_def split: sum.splits)
qed

text \<open>A journal read does not: asked of a node without the object's file, it answers the stats read of
  the holder's file, whatever journal was asked for, because every hop to the holder is a stats
  read.\<close>

theorem journal_read_answers_stats:
  assumes "homed_at fc now (request_key q) b d a ft" "stats_read q = Inr r" "rr_first_hop q"
  shows "fst (read_journal_rpc fc rd now q a ft) =
    (case run_read (rd_platform rd) (rd_overview rd) now r d of
       Inl e \<Rightarrow> Inl (InvalidArgument e) | Inr v \<Rightarrow> Inr (to_text (pl_codec (rd_platform rd)) v))"
proof -
  have d: "nd_disk (ft_nodes ft a) (object_id (fc_hash fc) (request_key q)) = None" using assms(1) by (simp add: homed_at_def)
  obtain x ft1 where x: "read_from_holder fc rd now q a ft = (x, ft1)" by fastforce
  with holder_read [OF assms(1,2), of rd] have "x = (case run_read (rd_platform rd) (rd_overview rd) now r d of
       Inl e \<Rightarrow> Inl (InvalidArgument e) | Inr v \<Rightarrow> Inr (Some (to_text (pl_codec (rd_platform rd)) v)))" by simp
  with x d assms(3) show ?thesis by (simp add: read_journal_rpc_def read_routed_def Let_def split: sum.split)
qed

section \<open>A queue on the other node\<close>

definition queue_reader :: "unit reader" where
  "queue_reader = \<lparr>rd_platform = demo_platform, rd_overview = failE ''no catalogue''\<rparr>"

definition jobs_request :: "bool \<Rightarrow> read_request" where
  "jobs_request hop = \<lparr>rr_scope = ''p'', rr_class = ''__queue'', rr_name = ''jobs'', rr_sql = None, rr_messages = False, rr_since = 0, rr_first_hop = hop\<rparr>"

definition jobs_fleet :: "unit fleet" where
  "jobs_fleet = fleet_of_two\<lparr>ft_nodes := (ft_nodes fleet_of_two)(''B'' := (a_node (Some ''nb'') idle_host)\<lparr>nd_disk := [''p/__queue/jobs'' \<mapsto> fresh_db ()]\<rparr>),
     ft_shared := (ft_shared fleet_of_two)\<lparr>sh_registry := two_node_registry\<lparr>rg_leases := [''p/__queue/jobs'' \<mapsto> ''nb'']\<rparr>\<rparr>\<rparr>"

lemma jobs_key: "object_id (fc_hash fleet_of_two_config) (request_key (jobs_request hop)) = ''p/__queue/jobs''"
  by (simp add: object_id_def fleet_of_two_config_def request_key_def key_received_def key_display_def jobs_request_def)

lemma jobs_homed: "homed_at fleet_of_two_config 1 (request_key (jobs_request hop)) ''B'' (fresh_db ()) ''A'' jobs_fleet"
proof -
  have g: "get_lease 30 1 ''p/__queue/jobs'' (sh_registry (ft_shared jobs_fleet))
      = (Inr \<lparr>ls_object = ''p/__queue/jobs'', ls_node = ''nb'', ls_acquired = False, ls_epoch = 1\<rparr>, reap 30 1 (sh_registry (ft_shared jobs_fleet)))"
    by (simp add: get_lease_def Let_def jobs_fleet_def reap_def delete_nodes_def two_node_registry_def cutoff_def)
  have n: "get_node Some 30 1 ''nb'' (reap 30 1 (sh_registry (ft_shared jobs_fleet))) =
      Inr \<lparr>n_id = ''nb'', n_address = ''B'', n_capabilities = [], n_load = 0, n_registered = 0, n_heartbeat = 0\<rparr>"
    by (simp add: get_node_def jobs_fleet_def reap_def delete_nodes_def two_node_registry_def cutoff_def Let_def)
  have c: "fc_node_ttl fleet_of_two_config = 30" "sv_parse (fc_service fleet_of_two_config) = Some" "fc_wire fleet_of_two_config x = None"
    "header_value (fc_token fleet_of_two_config)" for x
    by (simp_all add: fleet_of_two_config_def demo_service_def header_value_def)
  have a: "nd_identity (ft_nodes jobs_fleet ''A'') = Some ''na''" "nd_disk (ft_nodes jobs_fleet ''A'') ''p/__queue/jobs'' = None"
    "nd_disk (ft_nodes jobs_fleet ''B'') ''p/__queue/jobs'' = Some (fresh_db ())"
    by (simp_all add: jobs_fleet_def two_nodes_of a_node_def)
  show ?thesis unfolding homed_at_def jobs_key c using g n a c(4) by auto
qed

lemma jobs_stats: "stats_read (jobs_request hop) = Inr QueueStats"
  by (simp add: stats_read_def jobs_request_def stats_for_class_def QUEUE_CLASS_def)

theorem stats_read_asks_the_home_witness:
  "fst (read_stats_rpc fleet_of_two_config queue_reader 1 (jobs_request True) ''A'' jobs_fleet)
     = fst (read_stats_rpc fleet_of_two_config queue_reader 1 (jobs_request False) ''B'' jobs_fleet)"
  using stats_read_asks_the_home [OF jobs_homed jobs_stats, of True queue_reader] by (simp add: jobs_request_def)

theorem journal_read_answers_stats_witness:
  "fst (read_journal_rpc fleet_of_two_config queue_reader 1 (jobs_request True) ''A'' jobs_fleet)
     = Inr (to_text demo_codec (stats_json (read_stats 1 (fresh_db ()))))
   \<and> fst (read_journal_rpc fleet_of_two_config queue_reader 1 (jobs_request False) ''B'' jobs_fleet) = Inr (to_text demo_codec (JArr []))"
proof
  have p: "rd_platform queue_reader = demo_platform" "pl_codec demo_platform = demo_codec" by (simp_all add: queue_reader_def demo_platform_def)
  have "rr_first_hop (jobs_request True)" by (simp add: jobs_request_def)
  from journal_read_answers_stats [OF jobs_homed jobs_stats this, of queue_reader]
  show "fst (read_journal_rpc fleet_of_two_config queue_reader 1 (jobs_request True) ''A'' jobs_fleet)
     = Inr (to_text demo_codec (stats_json (read_stats 1 (fresh_db ()))))"
    by (simp add: p run_read_def Let_def)
  have j: "journal_read (jobs_request False) = QueueEvents 0" "rr_first_hop (jobs_request False) = False"
    by (simp_all add: journal_read_def jobs_request_def WORKFLOW_CLASS_def)
  have "nd_disk (ft_nodes jobs_fleet ''B'') ''p/__queue/jobs'' = Some (fresh_db ())" by (simp add: jobs_fleet_def)
  then show "fst (read_journal_rpc fleet_of_two_config queue_reader 1 (jobs_request False) ''B'' jobs_fleet) = Inr (to_text demo_codec (JArr []))"
    by (simp add: read_journal_rpc_def read_routed_def read_here_def jobs_key read_file_def p j run_read_def read_events_def fresh_db_def Let_def)
qed

end
