(* ===== verification/Sweep.thy ===== *)
theory Sweep
  imports Routing_Spec
begin

text \<open>
  Timers that outlive their node (\<open>actias-worker/src/sweeper.rs\<close>, \<open>alarm_mirror\<close> of \<open>routing.rs\<close>, and
  the membership loop of \<open>heartbeat.rs\<close>): the mirror of armed alarms in the placement store, the boot
  scan that repairs it, the sweep that wakes the objects of due rows, and how a node joins, beats and
  joins again.
\<close>

section \<open>The mirror\<close>

text \<open>Three attempts, each of which may fail with the registry's error; the first that lands ends it.\<close>

definition MIRROR_ATTEMPTS :: nat where
  "MIRROR_ATTEMPTS = 3"

definition mirror_write :: "string \<Rightarrow> string \<Rightarrow> int option \<Rightarrow> registry \<Rightarrow> registry" where
  "mirror_write oid key due rg =
     (case due of Some d \<Rightarrow> registry_set_alarm oid key d rg | None \<Rightarrow> registry_clear_alarm oid rg)"

fun mirror_attempts :: "nat \<Rightarrow> (nat \<Rightarrow> string option) \<Rightarrow> string \<Rightarrow> string \<Rightarrow> int option \<Rightarrow> registry \<Rightarrow> registry" where
  "mirror_attempts 0 net oid key due rg = rg"
| "mirror_attempts (Suc n) net oid key due rg =
     (case net (MIRROR_ATTEMPTS - Suc n) of
        None \<Rightarrow> mirror_write oid key due rg
      | Some _ \<Rightarrow> mirror_attempts n net oid key due rg)"

definition alarm_mirror :: "(nat \<Rightarrow> string option) \<Rightarrow> string \<Rightarrow> string \<Rightarrow> int option \<Rightarrow> registry \<Rightarrow> registry" where
  "alarm_mirror net oid key due rg = mirror_attempts MIRROR_ATTEMPTS net oid key due rg"

section \<open>The boot scan\<close>

text \<open>\<open>names\<close> is what the directory listing yields: the ids of the data files, in any order.\<close>

definition scan_alarms :: "string list \<Rightarrow> 'u node \<Rightarrow> (string \<times> int) list" where
  "scan_alarms names nd =
     List.map_filter (\<lambda>oid. case nd_disk nd oid of
        None \<Rightarrow> None
      | Some d \<Rightarrow> (case fst (peek_alarm (open_file d)) of
          Inr (Some (due, _, _, own_key)) \<Rightarrow> if own_key \<noteq> '''' then Some (own_key, due) else None
        | _ \<Rightarrow> None)) names"

definition mirror_local_alarms :: "(string \<Rightarrow> string) \<Rightarrow> (nat \<Rightarrow> string option) \<Rightarrow> (string \<times> int) list \<Rightarrow> registry \<Rightarrow> registry" where
  "mirror_local_alarms hash net found rg =
     fold (\<lambda>(n, own_key, due) rg. case key_parse own_key of
         None \<Rightarrow> rg
       | Some k \<Rightarrow> (case net n of None \<Rightarrow> registry_set_alarm (object_id hash k) own_key due rg | Some _ \<Rightarrow> rg))
       (zip [0..<length found] found) rg"

section \<open>The sweep\<close>

definition SWEEP_BATCH :: "32 word" where
  "SWEEP_BATCH = 256"

definition wake :: "('u, 'v) fleet_config \<Rightarrow> int \<Rightarrow> string \<Rightarrow> 'u node \<Rightarrow> 'u shared \<Rightarrow> (resolve_error + unit) \<times> 'u node \<times> 'u shared" where
  "wake fc now own_key nd sh =
     (case key_parse own_key of
        None \<Rightarrow> (Inl (Other (quoted own_key @ '' is not an object key'')), nd, sh)
      | Some k \<Rightarrow>
          (case owner_prepared fc now k sh nd of
             (Inl e, nd1) \<Rightarrow> (Inl (Other e), nd1, sh)
           | (Inr _, nd1) \<Rightarrow>
               (case resolve_handle fc now k nd1 sh of
                  (Inl e, nd2, sh2) \<Rightarrow> (Inl e, nd2, sh2)
                | (Inr _, nd2, sh2) \<Rightarrow> (Inr (), nd2, sh2))))"

text \<open>What became of a due row.\<close>

datatype swept = Resident | Woken | HomedElsewhere string | Unwakeable string

definition sweep_row :: "('u, 'v) fleet_config \<Rightarrow> int \<Rightarrow> string \<Rightarrow> 'u node \<Rightarrow> 'u shared \<Rightarrow> swept \<times> 'u node \<times> 'u shared" where
  "sweep_row fc now own_key nd sh =
     (if is_resident own_key (nd_host nd) then (Resident, nd, sh)
      else case wake fc now own_key nd sh of
        (Inr _, nd1, sh1) \<Rightarrow> (Woken, nd1, sh1)
      | (Inl (Elsewhere holder), nd1, sh1) \<Rightarrow> (HomedElsewhere holder, nd1, sh1)
      | (Inl (Other e), nd1, sh1) \<Rightarrow> (Unwakeable e, nd1, sh1))"

fun sweep_rows :: "('u, 'v) fleet_config \<Rightarrow> int \<Rightarrow> string list \<Rightarrow> 'u node \<Rightarrow> 'u shared \<Rightarrow> swept list \<times> 'u node \<times> 'u shared" where
  "sweep_rows fc now [] nd sh = ([], nd, sh)"
| "sweep_rows fc now (key # keys) nd sh =
     (case sweep_row fc now key nd sh of
        (r, nd1, sh1) \<Rightarrow> (case sweep_rows fc now keys nd1 sh1 of (rs, x) \<Rightarrow> (r # rs, x)))"

definition sweep_batch :: "int \<Rightarrow> 'u shared \<Rightarrow> string list" where
  "sweep_batch now sh = map am_own_key (due_alarms now SWEEP_BATCH (sh_registry sh))"

definition sweep_round :: "('u, 'v) fleet_config \<Rightarrow> int \<Rightarrow> 'u node \<Rightarrow> 'u shared \<Rightarrow> swept list \<times> 'u node \<times> 'u shared" where
  "sweep_round fc now nd sh = sweep_rows fc now (sweep_batch now sh) nd sh"

section \<open>Membership\<close>

text \<open>The loop of \<open>register_and_heartbeat\<close>: registering until it lands, then beating; an unknown node
  registers again. A network error changes nothing.\<close>

datatype membership = Registering | Beating string

definition join_step :: "int \<Rightarrow> string \<Rightarrow> string \<Rightarrow> string option \<Rightarrow> 'u node \<Rightarrow> registry \<Rightarrow> membership \<times> 'u node \<times> registry" where
  "join_step now fresh_id addr net nd rg =
     (case net of
        Some _ \<Rightarrow> (Registering, nd, rg)
      | None \<Rightarrow> (case register fresh_id now addr [''http''] rg of
          (i, rg') \<Rightarrow> (Beating i, nd\<lparr>nd_identity := Some i\<rparr>, rg')))"

definition beat_step :: "(string \<Rightarrow> string option) \<Rightarrow> 32 word \<Rightarrow> int \<Rightarrow> string \<Rightarrow> 32 word \<Rightarrow> string option \<Rightarrow> registry \<Rightarrow> membership \<times> registry" where
  "beat_step parse ttl now i load net rg =
     (case net of
        Some _ \<Rightarrow> (Beating i, rg)
      | None \<Rightarrow> (case heartbeat parse ttl now i load rg of
          (Inr _, rg') \<Rightarrow> (Beating i, rg')
        | (Inl e, rg') \<Rightarrow> ((case status_of e of NotFound _ \<Rightarrow> Registering | _ \<Rightarrow> Beating i), rg')))"

section \<open>Woken objects stay awake\<close>

lemma get_or_spawn_keeps:
  "get_or_spawn key m None hs = (x, hs') \<Longrightarrow> is_resident key' hs \<Longrightarrow> is_resident key' hs'"
  by (auto simp: get_or_spawn_def is_resident_def split: option.splits if_splits prod.splits)

lemma resolve_local_keeps:
  assumes "resolve_local fc now k owner nd sh = (x, nd', sh')" "is_resident key (nd_host nd)"
  shows "is_resident key (nd_host nd')"
proof (cases "case tasks (nd_host nd) (key_display k) of Some (held, handle) \<Rightarrow> held = pp_revision owner \<and> \<not> closed (nd_host nd) handle | None \<Rightarrow> False")
  case True
  with assms show ?thesis by (simp add: resolve_local_def Let_def)
next
  case False
  obtain r nd1 sh1 where s: "spawn fc now k owner nd sh = (r, nd1, sh1)" by (metis prod_cases3)
  have "nd_host nd1 = nd_host nd" using spawn_leaves [OF s] by blast
  with False s assms show ?thesis
    by (auto simp: resolve_local_def Let_def dest: get_or_spawn_keeps split: sum.splits prod.splits)
qed

lemma resolve_handle_keeps:
  assumes "resolve_handle fc now k nd sh = (x, nd', sh')" "is_resident key (nd_host nd)"
  shows "is_resident key (nd_host nd')"
  using assms(1)
proof (cases rule: resolve_handle_cases)
  case (no_owner e)
  with assms(2) owner_prepared_leaves [OF no_owner(1)] show ?thesis by simp
next
  case (not_ours owner y)
  with assms(2) owner_prepared_leaves [OF not_ours(1)] show ?thesis by simp
next
  case (ours owner nd1 sh1 y)
  from owner_prepared_leaves [OF ours(1)] assms(2) have "is_resident key (nd_host nd1)" by simp
  from resolve_local_keeps [OF ours(3) this] show ?thesis .
qed

lemma wake_keeps:
  assumes "wake fc now key nd sh = (x, nd', sh')"
  shows "is_resident key' (nd_host nd) \<Longrightarrow> is_resident key' (nd_host nd')"
    and "x = Inr u \<Longrightarrow> is_resident key (nd_host nd')"
proof -
  have o: "owner_prepared fc now k sh nd = (y, nd1) \<Longrightarrow> nd_host nd1 = nd_host nd" for k y nd1
    using owner_prepared_leaves by blast
  show "is_resident key' (nd_host nd')" if r: "is_resident key' (nd_host nd)"
  proof (cases "key_parse key")
    case None
    with assms r show ?thesis by (auto simp: wake_def)
  next
    case (Some k)
    obtain y nd1 where y: "owner_prepared fc now k sh nd = (y, nd1)" by fastforce
    with r o have "is_resident key' (nd_host nd1)" by fastforce
    with assms Some y show ?thesis by (auto simp: wake_def intro: resolve_handle_keeps split: sum.splits prod.splits)
  qed
  show "is_resident key (nd_host nd')" if "x = Inr u"
  proof -
    from assms that obtain k nd1 h where "key_parse key = Some k" "resolve_handle fc now k nd1 sh = (Inr h, nd', sh')"
      by (auto simp: wake_def split: option.splits sum.splits prod.splits)
    with resolve_handle_live show ?thesis by (fastforce simp: is_resident_def key_parse_Some_iff)
  qed
qed

lemma sweep_row_keeps:
  assumes "sweep_row fc now key nd sh = (r, nd', sh')"
  shows "is_resident key' (nd_host nd) \<Longrightarrow> is_resident key' (nd_host nd')"
    and "r \<in> {Resident, Woken} \<Longrightarrow> is_resident key (nd_host nd')"
  using assms wake_keeps(1) wake_keeps(2) [OF _ refl] by (auto simp: sweep_row_def split: if_splits sum.splits resolve_error.splits prod.splits)

lemma sweep_rows_keep: "sweep_rows fc now keys nd sh = (rs, nd', sh') \<Longrightarrow> is_resident key (nd_host nd) \<Longrightarrow> is_resident key (nd_host nd')"
proof (induction keys arbitrary: nd sh rs)
  case (Cons k keys)
  obtain r nd1 sh1 where r: "sweep_row fc now k nd sh = (r, nd1, sh1)" by (metis prod_cases3)
  with Cons.prems obtain rs' where "sweep_rows fc now keys nd1 sh1 = (rs', nd', sh')" by (auto split: prod.splits)
  from Cons.IH [OF this] sweep_row_keeps(1) [OF r Cons.prems(2)] show ?case by simp
qed simp

lemma sweep_rows_resident:
  "sweep_rows fc now keys nd sh = (rs, nd', sh') \<Longrightarrow> length rs = length keys \<and>
     (\<forall>i < length keys. rs ! i \<in> {Resident, Woken} \<longrightarrow> is_resident (keys ! i) (nd_host nd'))"
proof (induction keys arbitrary: nd sh rs)
  case (Cons k keys)
  obtain r nd1 sh1 where r: "sweep_row fc now k nd sh = (r, nd1, sh1)" by (metis prod_cases3)
  with Cons.prems obtain rs' where rs: "rs = r # rs'" "sweep_rows fc now keys nd1 sh1 = (rs', nd', sh')" by (auto split: prod.splits)
  have "r \<in> {Resident, Woken} \<Longrightarrow> is_resident k (nd_host nd')"
    using sweep_row_keeps(2) [OF r] sweep_rows_keep [OF rs(2)] by blast
  with Cons.IH [OF rs(2)] rs(1) show ?case by (auto simp: nth_Cons split: nat.splits)
qed simp

section \<open>An orphaned alarm\<close>

text \<open>The spawn of an object that this node may claim goes through.\<close>

definition spawns :: "('u, 'v) fleet_config \<Rightarrow> object_key \<Rightarrow> prepared \<Rightarrow> 'u node \<Rightarrow> 'u shared \<Rightarrow> bool" where
  "spawns fc k owner nd sh \<longleftrightarrow> (\<forall>l sh1. ls_acquired l \<longrightarrow> sh_bucket sh1 = sh_bucket sh \<longrightarrow> sh_scripts sh1 = sh_scripts sh \<longrightarrow>
     (\<exists>d pp ch d'. spawn_file l (object_id (fc_hash fc) k) (nd_disk nd (object_id (fc_hash fc) k)) (fc_net fc) (sh_bucket sh1) = Inr d
        \<and> code_for fc k owner d sh1 (nd_caches nd) = (Inr pp, ch) \<and> pre_open k (fc_new fc) d = (Inr (), d') \<and> boot_error fc pp = None))"

lemma free_claim:
  assumes "nd_identity nd = Some i" "sv_parse (fc_service fc) i = Some i" "alive (fc_node_ttl fc) now (sh_registry sh) i"
    and "rg_leases (reap (fc_node_ttl fc) now (sh_registry sh)) (object_id (fc_hash fc) k) \<in> {None, Some i}"
    and "claim_identity (sv_parse (fc_service fc)) \<lparr>cq_object = object_id (fc_hash fc) k, cq_node = i, cq_scope = k_scope k, cq_class = k_class k,
           cq_name = k_name k, cq_script = owner\<rparr> = Inr ident"
  shows "\<exists>l sh'. claim_lease fc now k owner nd sh = (Inr l, sh') \<and> ls_acquired l
    \<and> rg_leases (sh_registry sh') (object_id (fc_hash fc) k) = Some i"
proof -
  let ?q = "\<lparr>cq_object = object_id (fc_hash fc) k, cq_node = i, cq_scope = k_scope k, cq_class = k_class k, cq_name = k_name k, cq_script = owner\<rparr>"
  let ?ttl = "fc_node_ttl fc" and ?r = "sh_registry sh"
  have plain: "plain_request (sv_parse (fc_service fc)) ?q i" using assms(2,5) by (simp add: plain_request_def)
  obtain a r' where c: "claim (sv_parse (fc_service fc)) ?ttl now ?q ?r = (a, r')" by fastforce
  with claim_result [OF plain, of ?ttl now ?r] have ans: "map_sum id (\<lambda>l. (ls_acquired l, ls_node l, ls_epoch l)) a
      = claim_answer (object_id (fc_hash fc) k) i (reap ?ttl now ?r)"
    "\<forall>l. a = Inr l \<longrightarrow> rg_leases r' (object_id (fc_hash fc) k) = Some (ls_node l) \<and> (ls_acquired l \<longrightarrow> ls_node l = i)" by auto
  have "i \<in> node_ids (reap ?ttl now ?r)" using reap_keeps_alive(1) [OF assms(3)] by (auto simp: alive_def node_ids_def)
  with assms(4) obtain e where "claim_answer (object_id (fc_hash fc) k) i (reap ?ttl now ?r) = Inr (True, i, e)"
    by (auto simp: claim_answer_def Let_def)
  with ans obtain l where l: "a = Inr l" "ls_acquired l" by (cases a) auto
  with c assms(1) ans(2) show ?thesis by (auto simp: claim_lease_def)
qed

lemma get_or_spawn_some: "\<exists>h hs'. get_or_spawn key m None hs = (Inr h, hs')"
  by (auto simp: get_or_spawn_def split: option.split prod.split)

lemma spawn_succeeds:
  assumes "claim_lease fc now k (pp_script owner) nd sh = (Inr l, sh1)" "ls_acquired l" "spawns fc k owner nd sh"
  shows "\<exists>nd'. spawn fc now k owner nd sh = (Inr (ls_epoch l), nd', sh1)"
proof -
  have "sh_bucket sh1 = sh_bucket sh" "sh_scripts sh1 = sh_scripts sh" using claim_lease_leaves(1) [OF assms(1)] by (simp_all add: reg_frame_def)
  with assms(2,3) obtain d pp ch d' where "spawn_file l (object_id (fc_hash fc) k) (nd_disk nd (object_id (fc_hash fc) k)) (fc_net fc) (sh_bucket sh1) = Inr d"
    "code_for fc k owner d sh1 (nd_caches nd) = (Inr pp, ch)" "pre_open k (fc_new fc) d = (Inr (), d')" "boot_error fc pp = None"
    unfolding spawns_def by blast
  with assms(1) show ?thesis by (simp add: spawn_def Let_def)
qed


section \<open>A full batch of hopeless rows\<close>

text \<open>A row whose object has no task here and whose wake fails before anything changes, now and later.\<close>

definition hopeless :: "('u, 'v) fleet_config \<Rightarrow> int \<Rightarrow> string \<Rightarrow> 'u node \<Rightarrow> 'u shared \<Rightarrow> bool" where
  "hopeless fc now key nd sh \<longleftrightarrow> \<not> is_resident key (nd_host nd)
     \<and> (\<forall>t \<ge> now. \<exists>e. wake fc t key nd sh = (Inl (Other e), nd, sh))"

lemma hopeless_rows:
  "\<forall>key \<in> set keys. hopeless fc now key nd sh \<Longrightarrow> t \<ge> now \<Longrightarrow> snd (sweep_rows fc t keys nd sh) = (nd, sh)"
proof (induction keys)
  case (Cons key keys)
  then obtain e where "wake fc t key nd sh = (Inl (Other e), nd, sh)" "\<not> is_resident key (nd_host nd)" by (auto simp: hopeless_def)
  then have "sweep_row fc t key nd sh = (Unwakeable e, nd, sh)" by (simp add: sweep_row_def)
  with Cons show ?case by (auto split: prod.split)
qed simp

lemma sorted_filter_prefix:
  "sorted (map f xs) \<Longrightarrow> filter (\<lambda>x. f x \<le> b) xs = takeWhile (\<lambda>x. f x \<le> b) xs" for f :: "'a \<Rightarrow> int"
proof (induction xs)
  case (Cons x xs)
  then have "\<forall>y \<in> set xs. f x \<le> f y" by simp
  then have "\<not> f x \<le> b \<Longrightarrow> filter (\<lambda>x. f x \<le> b) xs = []" by (auto simp: filter_empty_conv)
  with Cons show ?case by auto
qed simp

text \<open>Once a batch is full, time does not change it.\<close>

lemma full_batch_stays:
  fixes f :: "'a \<Rightarrow> int"
  assumes "n \<le> length (filter (\<lambda>x. f x \<le> now) xs)" "now \<le> t"
  shows "take n (sort_key f (filter (\<lambda>x. f x \<le> t) xs)) = take n (sort_key f (filter (\<lambda>x. f x \<le> now) xs))"
proof -
  let ?s = "sort_key f (filter (\<lambda>x. f x \<le> t) xs)"
  have e: "filter (\<lambda>x. f x \<le> now) ?s = sort_key f (filter (\<lambda>x. f x \<le> now) xs)"
    using assms(2) by (simp add: filter_sort filter_filter) (metis (mono_tags, lifting) order.trans)
  have "filter (\<lambda>x. f x \<le> now) ?s = takeWhile (\<lambda>x. f x \<le> now) ?s" by (rule sorted_filter_prefix) simp
  then obtain m where m: "sort_key f (filter (\<lambda>x. f x \<le> now) xs) = take m ?s" unfolding e by (metis takeWhile_eq_take)
  have "length (sort_key f (filter (\<lambda>x. f x \<le> now) xs)) = length (filter (\<lambda>x. f x \<le> now) xs)" by simp
  with m assms(1) have "n \<le> length (take m ?s)" by simp
  then have "n \<le> m \<or> n \<le> length ?s \<and> length ?s \<le> m" by auto
  with m show ?thesis by (auto simp: min_def)
qed

text \<open>Rows that can never be woken starve the rest: with 256 due rows whose owner is gone, every round from
  then on sweeps exactly those rows, changes nothing, and a row due after them is never reached.\<close>

theorem hopeless_rows_starve_the_rest:
  assumes "256 \<le> length (filter (\<lambda>x. am_due_ms x \<le> now) (rg_alarms (sh_registry sh)))"
    and "\<forall>key \<in> set (sweep_batch now sh). hopeless fc now key nd sh" "\<forall>t \<in> set moments. now \<le> t"
  shows "fold (\<lambda>t (nd, sh). snd (sweep_round fc t nd sh)) moments (nd, sh) = (nd, sh)
    \<and> (\<forall>t \<in> set moments. sweep_batch t sh = sweep_batch now sh)"
proof -
  have b: "unat (max 1 (min SWEEP_BATCH 1024)) = 256" by (simp add: SWEEP_BATCH_def)
  have same: "sweep_batch t sh = sweep_batch now sh" if "now \<le> t" for t
    using full_batch_stays [OF assms(1) that] by (simp add: sweep_batch_def due_alarms_def b)
  have "snd (sweep_round fc t nd sh) = (nd, sh)" if "now \<le> t" for t
    unfolding sweep_round_def same [OF that] by (rule hopeless_rows [OF assms(2) that])
  with assms(3) have "fold (\<lambda>t (nd, sh). snd (sweep_round fc t nd sh)) moments (nd, sh) = (nd, sh)"
    by (induction moments) auto
  with same assms(3) show ?thesis by blast
qed

section \<open>Joining again\<close>

text \<open>A node whose beat found it unknown registers under a new id and keeps its tasks, none of whose
  leases is in that name.\<close>

lemma rejoined_homes_unleased:
  assumes "beat_step parse ttl now i load None rg = (Registering, rg1)" "leases_held rg1" "j \<notin> node_ids rg1"
    and "join_step now' j addr None nd rg1 = (m, nd', rg')" "is_resident key (nd_host nd)"
  shows "m = Beating j \<and> nd_identity nd' = Some j \<and> is_resident key (nd_host nd') \<and> rg_leases rg' obj \<noteq> Some j"
proof -
  have "nd' = nd\<lparr>nd_identity := Some j\<rparr>" "m = Beating j" "rg_leases rg' = rg_leases rg1" using assms(4) by (auto simp: join_step_def register_def)
  moreover have "rg_leases rg1 obj \<noteq> Some j" using assms(2,3) by (auto simp: leases_held_def)
  ultimately show ?thesis using assms(5) by simp
qed

section \<open>The mirror tells the file\<close>

lemma mirror_write_row:
  "find (\<lambda>x. am_object x = oid) (rg_alarms (mirror_write oid key due rg))
     = map_option (\<lambda>d. \<lparr>am_object = oid, am_own_key = key, am_due_ms = d\<rparr>) due"
proof (cases due)
  case None
  have "find (\<lambda>x. am_object x = oid) (filter (\<lambda>a. am_object a \<noteq> oid) xs) = None" for xs :: "alarm_mirror_row list"
    by (simp add: find_None_iff)
  with None show ?thesis by (simp add: mirror_write_def registry_clear_alarm_def)
next
  case (Some d)
  let ?row = "\<lparr>am_object = oid, am_own_key = key, am_due_ms = d\<rparr>"
  have "find (\<lambda>x. am_object x = oid) (map (\<lambda>a. if am_object a = oid then ?row else a) xs) = (if oid \<in> am_object ` set xs then Some ?row else None)"
      "oid \<notin> am_object ` set xs \<Longrightarrow> find (\<lambda>x. am_object x = oid) (xs @ [?row]) = Some ?row" for xs
    by (induction xs) auto
  with Some show ?thesis by (simp add: mirror_write_def registry_set_alarm_def Let_def)
qed

text \<open>The mirror follows the alarm unless all three attempts fail: after arming, the store answers the
  armed due time for the object, after clearing, none.\<close>

lemma alarm_mirror_follows:
  "(case map net [0, 1, 2] of
      [Some _, Some _, Some _] \<Rightarrow> alarm_mirror net oid key due rg = rg
    | _ \<Rightarrow> find (\<lambda>x. am_object x = oid) (rg_alarms (alarm_mirror net oid key due rg))
             = map_option (\<lambda>d. \<lparr>am_object = oid, am_own_key = key, am_due_ms = d\<rparr>) due)"
  by (simp add: alarm_mirror_def MIRROR_ATTEMPTS_def eval_nat_numeral mirror_write_row split: option.split)

section \<open>Both on the fleet of two\<close>

definition orphaned :: "unit shared" where
  "orphaned = (ft_shared fleet_of_two)\<lparr>sh_registry := two_node_registry\<lparr>rg_leases := [''p/Room/x'' \<mapsto> ''nx'']\<rparr>\<rparr>"

lemma room_spawns: "spawns fleet_of_two_config room_key first_prepared (a_node i hs) sh"
proof -
  have d: "spawn_file l ''p/Room/x'' (nd_disk (a_node i hs) ''p/Room/x'') net b = Inr (Some (fresh_db ()))" if "ls_acquired l" for l net b
    using that by (simp add: spawn_file_def a_node_def)
  have c: "code_for fleet_of_two_config room_key first_prepared (Some (fresh_db ())) sh1 ch = (Inr first_prepared, ch)" for sh1 :: "unit shared" and ch
    by (simp add: code_for_def pinned_revision_def fresh_db_def)
  have o: "pre_open room_key () (Some (fresh_db ())) = (Inr (), Some (fresh_db ()))" by (simp add: pre_open_def room_key_def WORKFLOW_CLASS_def)
  have b: "boot_error fleet_of_two_config first_prepared = None"
    by (simp add: boot_error_def fleet_of_two_config_def demo_service_def worker_top_level_def first_prepared_def prepare_def served_file_def
        entry_module_def find_file_def small_lua_def class_prog_def module_by_path_def)
  have "object_id (fc_hash fleet_of_two_config) room_key = ''p/Room/x''" "fc_new fleet_of_two_config = ()"
    by (simp_all add: object_id_def room_key_facts fleet_of_two_config_def)
  with d c o b show ?thesis unfolding spawns_def by auto
qed


definition lost_row :: "nat \<Rightarrow> alarm_mirror_row" where
  "lost_row i = \<lparr>am_object = show_nat i, am_own_key = ''q/Room/x'', am_due_ms = 0\<rparr>"

definition crowded :: "unit shared" where
  "crowded = (ft_shared fleet_of_two)\<lparr>sh_registry := two_node_registry\<lparr>rg_alarms :=
     map lost_row [0..<256] @ [\<lparr>am_object = ''p/Room/x'', am_own_key = ''p/Room/x'', am_due_ms = 1\<rparr>]\<rparr>\<rparr>"

lemma crowded_batch: "sweep_batch 1 crowded = replicate 256 ''q/Room/x''"
proof -
  have s: "sort_key am_due_ms (rg_alarms (sh_registry crowded)) = rg_alarms (sh_registry crowded)"
    by (rule sort_key_id_if_sorted) (auto simp: crowded_def lost_row_def sorted_append comp_def map_replicate_const)
  have f: "filter (\<lambda>a. am_due_ms a \<le> 1) (rg_alarms (sh_registry crowded)) = rg_alarms (sh_registry crowded)"
    by (auto simp: crowded_def lost_row_def intro!: filter_True)
  have "unat (max 1 (min SWEEP_BATCH 1024)) = 256" by (simp add: SWEEP_BATCH_def)
  then have "due_alarms 1 SWEEP_BATCH (sh_registry crowded) = map lost_row [0..<256]"
    by (simp add: due_alarms_def f s) (simp add: crowded_def)
  then have "sweep_batch 1 crowded = map (\<lambda>_. ''q/Room/x'') [0..<256]" by (simp add: sweep_batch_def lost_row_def comp_def)
  then show ?thesis by (simp add: map_replicate_const)
qed

lemma lost_hopeless: "hopeless fleet_of_two_config now ''q/Room/x'' (a_node i idle_host) crowded"
proof -
  let ?k = "\<lparr>k_scope = ''q'', k_class = ''Room'', k_name = ''x''\<rparr>"
  have k: "key_parse ''q/Room/x'' = Some ?k" by (simp add: key_parse_Some_iff key_display_def)
  have d: "key_display ?k = ''q/Room/x''" by (simp add: key_display_def)
  have "owner_script fleet_of_two_config ?k crowded = Inl ''No script in the project owns this object.''"
    by (simp add: owner_script_def is_cron_def CRON_CLASS_def fleet_of_two_config_def demo_service_def resolve_class_owner_def for_class_def
        QUEUE_CLASS_def DATABASE_CLASS_def WORKFLOW_CLASS_def contract_owner_def least_id_def crowded_def fleet_of_two_def two_served_def
        demo_script_def two_node_registry_def)
  moreover have "nd_owners (a_node i idle_host) ''q/Room/x'' = None" by (simp add: a_node_def)
  ultimately have "owner_prepared fleet_of_two_config t ?k crowded (a_node i idle_host) = (Inl ''No script in the project owns this object.'', a_node i idle_host)" for t
    by (simp add: owner_prepared_def d fresh_entry_def)
  with k show ?thesis by (simp add: hopeless_def wake_def a_node_def idle_host_def is_resident_def)
qed

theorem hopeless_rows_starve_the_rest_witness:
  "fold (\<lambda>t (nd, sh). snd (sweep_round fleet_of_two_config t nd sh)) [5, 9] (a_node (Some ''na'') idle_host, crowded) = (a_node (Some ''na'') idle_host, crowded)
   \<and> ''p/Room/x'' \<notin> set (sweep_batch 5 crowded)"
proof -
  have "256 \<le> length (filter (\<lambda>x. am_due_ms x \<le> 1) (rg_alarms (sh_registry crowded)))"
    by (simp add: crowded_def lost_row_def filter_map comp_def)
  moreover have "\<forall>key \<in> set (sweep_batch 1 crowded). hopeless fleet_of_two_config 1 key (a_node (Some ''na'') idle_host) crowded"
    by (simp add: crowded_batch lost_hopeless)
  ultimately show ?thesis
    using hopeless_rows_starve_the_rest [of 1 crowded fleet_of_two_config "a_node (Some ''na'') idle_host" "[5, 9]"] by (simp add: crowded_batch)
qed

end
