(* ===== verification/Egress.thy ===== *)
theory Egress
  imports Prelude
begin

text \<open>
  The outbound policy of \<open>actias-worker-core/src/egress.rs\<close>: which hosts and addresses a script's
  request may reach, the resolver that applies it to every lookup and the redirect rule. Addresses
  have their wire widths; the tests on them are those of \<open>std::net\<close>. The last section compares the
  tests with the table of address blocks they stand for.
\<close>

section \<open>Addresses\<close>

datatype ipv4 = Ipv4 "8 word" "8 word" "8 word" "8 word"

datatype ipv6 = Ipv6 "16 word" "16 word" "16 word" "16 word" "16 word" "16 word" "16 word" "16 word"

datatype ip_addr = V4 ipv4 | V6 ipv6

unbundle bit_operations_syntax

text \<open>\<open>is_loopback\<close>, \<open>is_private\<close>, \<open>is_link_local\<close>, \<open>is_unspecified\<close>, \<open>is_broadcast\<close>, \<open>is_multicast\<close> and
  \<open>is_documentation\<close> of \<open>Ipv4Addr\<close>, then carrier-grade nat.\<close>

fun v4_is_local :: "ipv4 \<Rightarrow> bool" where
  "v4_is_local (Ipv4 a b c d) \<longleftrightarrow>
       a = 127
     \<or> (a = 10 \<or> a = 172 \<and> 16 \<le> b \<and> b \<le> 31 \<or> a = 192 \<and> b = 168)
     \<or> (a = 169 \<and> b = 254)
     \<or> (a = 0 \<and> b = 0 \<and> c = 0 \<and> d = 0)
     \<or> (a = 255 \<and> b = 255 \<and> c = 255 \<and> d = 255)
     \<or> (224 \<le> a \<and> a \<le> 239)
     \<or> (a = 192 \<and> b = 0 \<and> c = 2 \<or> a = 198 \<and> b = 51 \<and> c = 100 \<or> a = 203 \<and> b = 0 \<and> c = 113)
     \<or> (a = 100 \<and> 64 \<le> b \<and> b \<le> 127)"

text \<open>\<open>to_ipv4_mapped\<close>: the last two groups are the four bytes.\<close>

fun to_ipv4_mapped :: "ipv6 \<Rightarrow> ipv4 option" where
  "to_ipv4_mapped (Ipv6 a b c d e f g h) =
     (if a = 0 \<and> b = 0 \<and> c = 0 \<and> d = 0 \<and> e = 0 \<and> f = 0xFFFF
      then Some (Ipv4 (ucast (drop_bit 8 g)) (ucast g) (ucast (drop_bit 8 h)) (ucast h)) else None)"

fun v6_is_local :: "ipv6 \<Rightarrow> bool" where
  "v6_is_local (Ipv6 a b c d e f g h) \<longleftrightarrow>
       (a = 0 \<and> b = 0 \<and> c = 0 \<and> d = 0 \<and> e = 0 \<and> f = 0 \<and> g = 0 \<and> h = 1)
     \<or> (a = 0 \<and> b = 0 \<and> c = 0 \<and> d = 0 \<and> e = 0 \<and> f = 0 \<and> g = 0 \<and> h = 0)
     \<or> a AND 0xFF00 = 0xFF00
     \<or> a AND 0xFE00 = 0xFC00
     \<or> a AND 0xFFC0 = 0xFE80"

fun ip_is_local :: "ip_addr \<Rightarrow> bool" where
  "ip_is_local (V4 v4) = v4_is_local v4"
| "ip_is_local (V6 v6) = (case to_ipv4_mapped v6 of Some mapped \<Rightarrow> v4_is_local mapped | None \<Rightarrow> v6_is_local v6)"

section \<open>The policy\<close>

text \<open>A denial names the rejected destination and nothing else.\<close>

datatype egress_denied = NoHost | HostDenied string | AddrDenied ip_addr | TooManyRedirects

record egress_policy =
  denied_hosts :: "string set"
  allow_private :: bool

definition ascii_lower :: "char \<Rightarrow> char" where
  "ascii_lower c = (if 65 \<le> (of_char c :: nat) \<and> (of_char c :: nat) \<le> 90 then char_of (of_char c + 32 :: nat) else c)"

definition to_ascii_lowercase :: "string \<Rightarrow> string" where
  "to_ascii_lowercase s = map ascii_lower s"

definition policy_new :: "string list \<Rightarrow> bool \<Rightarrow> egress_policy" where
  "policy_new hosts private = \<lparr>denied_hosts = set (map to_ascii_lowercase hosts), allow_private = private\<rparr>"

definition check_host :: "egress_policy \<Rightarrow> string \<Rightarrow> egress_denied + unit" where
  "check_host p host = (if to_ascii_lowercase host \<in> denied_hosts p then Inl (HostDenied host) else Inr ())"

definition check_ip :: "egress_policy \<Rightarrow> ip_addr \<Rightarrow> egress_denied + unit" where
  "check_ip p ip = (if \<not> allow_private p \<and> ip_is_local ip then Inl (AddrDenied ip) else Inr ())"

text \<open>A parsed url as the policy sees it: its host, and the text of the rest.\<close>

datatype url_host = Domain string | HostV4 ipv4 | HostV6 ipv6

record url =
  ur_host :: "url_host option"
  ur_rest :: string

definition check_url :: "egress_policy \<Rightarrow> url \<Rightarrow> egress_denied + unit" where
  "check_url p u =
     (case ur_host u of
        Some (Domain host) \<Rightarrow> check_host p host
      | Some (HostV4 ip) \<Rightarrow> check_ip p (V4 ip)
      | Some (HostV6 ip) \<Rightarrow> check_ip p (V6 ip)
      | None \<Rightarrow> Inl NoHost)"

section \<open>The guarded client\<close>

text \<open>The system's lookup is a parameter; it answers an error text or the addresses of a name.\<close>

datatype lookup_error = LookupDenied egress_denied | LookupFailed string

fun check_each :: "egress_policy \<Rightarrow> ip_addr list \<Rightarrow> egress_denied + unit" where
  "check_each p [] = Inr ()"
| "check_each p (ip # ips) = (case check_ip p ip of Inl d \<Rightarrow> Inl d | Inr _ \<Rightarrow> check_each p ips)"

definition resolve :: "egress_policy \<Rightarrow> (string \<Rightarrow> string + ip_addr list) \<Rightarrow> string \<Rightarrow> lookup_error + ip_addr list" where
  "resolve p lookup name =
     (case check_host p name of
        Inl d \<Rightarrow> Inl (LookupDenied d)
      | Inr _ \<Rightarrow> (case lookup name of
          Inl e \<Rightarrow> Inl (LookupFailed e)
        | Inr addrs \<Rightarrow> (case check_each p addrs of
            Inl d \<Rightarrow> Inl (LookupDenied d)
          | Inr _ \<Rightarrow> Inr addrs)))"

text \<open>The redirect rule: the urls already requested in this chain, and the next one. \<open>None\<close> follows it.\<close>

definition redirect_rule :: "egress_policy \<Rightarrow> url list \<Rightarrow> url \<Rightarrow> egress_denied option" where
  "redirect_rule p previous next_url =
     (if length previous > 5 then Some TooManyRedirects
      else case check_url p next_url of Inr _ \<Rightarrow> None | Inl d \<Rightarrow> Some d)"

text \<open>What \<open>EgressClient::new\<close> hands the http client, and the policy that rides along.\<close>

record egress_client =
  ec_resolver :: "string \<Rightarrow> lookup_error + ip_addr list"
  ec_redirects :: "url list \<Rightarrow> url \<Rightarrow> egress_denied option"
  ec_policy :: egress_policy

definition egress_client_new :: "egress_policy \<Rightarrow> (string \<Rightarrow> string + ip_addr list) \<Rightarrow> egress_client" where
  "egress_client_new p lookup = \<lparr>ec_resolver = resolve p lookup, ec_redirects = redirect_rule p, ec_policy = p\<rparr>"

section \<open>What the guards let through\<close>

text \<open>A hop of a request: the url and the address the client connected to. The http client promises to
  connect to a literal host itself, to take the address of a name from the resolver it was given,
  and to ask the redirect rule about every url after the first.\<close>

type_synonym hop = "url \<times> ip_addr"

definition connects :: "egress_client \<Rightarrow> hop \<Rightarrow> bool" where
  "connects ec h =
     (case ur_host (fst h) of
        Some (Domain name) \<Rightarrow> (case ec_resolver ec name of Inr addrs \<Rightarrow> snd h \<in> set addrs | Inl _ \<Rightarrow> False)
      | Some (HostV4 ip) \<Rightarrow> snd h = V4 ip
      | Some (HostV6 ip) \<Rightarrow> snd h = V6 ip
      | None \<Rightarrow> False)"

definition follows :: "egress_client \<Rightarrow> hop list \<Rightarrow> bool" where
  "follows ec hs \<longleftrightarrow> (\<forall>i. 0 < i \<and> i < length hs \<longrightarrow> ec_redirects ec (map fst (take i hs)) (fst (hs ! i)) = None)"

lemma check_each_Inr: "check_each p ips = Inr u \<longleftrightarrow> (\<forall>ip \<in> set ips. check_ip p ip = Inr ())"
  by (induction ips) (auto split: sum.splits)

lemma check_ip_Inr: "check_ip p ip = Inr u \<longleftrightarrow> allow_private p \<or> \<not> ip_is_local ip"
  by (simp add: check_ip_def)

lemma check_host_Inr: "check_host p host = Inr u \<longleftrightarrow> to_ascii_lowercase host \<notin> denied_hosts p"
  by (simp add: check_host_def)

lemma resolved: "resolve p lookup name = Inr addrs \<Longrightarrow>
    to_ascii_lowercase name \<notin> denied_hosts p \<and> lookup name = Inr addrs \<and> (\<forall>ip \<in> set addrs. allow_private p \<or> \<not> ip_is_local ip)"
  by (auto simp: resolve_def check_host_Inr check_each_Inr check_ip_Inr split: sum.splits)

text \<open>A checked url that is connected to by the rules lands on an address the policy allows.\<close>

lemma connected_address:
  assumes "connects (egress_client_new p lookup) (u, a)" "check_url p u = Inr ()"
  shows "allow_private p \<or> \<not> ip_is_local a"
  using assms by (auto simp: connects_def egress_client_new_def check_url_def check_ip_Inr dest!: resolved split: option.splits url_host.splits sum.splits)

lemma connected_host:
  assumes "connects (egress_client_new p lookup) (u, a)" "ur_host u = Some (Domain name)"
  shows "to_ascii_lowercase name \<notin> denied_hosts p"
  using assms by (auto simp: connects_def egress_client_new_def dest: resolved split: sum.splits)

lemma followed: "redirect_rule p prev u = None \<longleftrightarrow> length prev \<le> 5 \<and> check_url p u = Inr ()"
  by (auto simp: redirect_rule_def split: sum.splits)

lemma follows_short: "follows (egress_client_new p lookup) hs \<Longrightarrow> length hs \<le> 6"
proof (rule ccontr)
  assume f: "follows (egress_client_new p lookup) hs" and "\<not> length hs \<le> 6"
  then have "redirect_rule p (map fst (take 6 hs)) (fst (hs ! 6)) = None"
    unfolding follows_def egress_client_new_def by (auto dest: spec [of _ 6])
  with \<open>\<not> length hs \<le> 6\<close> show False by (simp add: followed)
qed

lemma follows_checked:
  assumes "follows (egress_client_new p lookup) hs" "check_url p (fst (hd hs)) = Inr ()" "h \<in> set hs"
  shows "check_url p (fst h) = Inr ()"
proof -
  from assms(3) obtain i where i: "i < length hs" "h = hs ! i" by (auto simp: in_set_conv_nth)
  show ?thesis
  proof (cases "i = 0")
    case True
    with i assms(2) show ?thesis by (simp add: hd_conv_nth)
  next
    case False
    with assms(1) i show ?thesis by (simp add: follows_def egress_client_new_def followed)
  qed
qed

section \<open>The blocks behind the tests\<close>

text \<open>An address as a number, and the blocks the policy keeps scripts out of: loopback, private use,
  link local, unspecified, broadcast, multicast, documentation, shared space; the same blocks in their
  v4-mapped spelling, and for v6 loopback, unspecified, multicast, unique local and link local.\<close>

fun v4_number :: "ipv4 \<Rightarrow> nat" where
  "v4_number (Ipv4 a b c d) = ((unat a * 256 + unat b) * 256 + unat c) * 256 + unat d"

fun v6_number :: "ipv6 \<Rightarrow> nat" where
  "v6_number (Ipv6 a b c d e f g h) =
     ((((((unat a * 65536 + unat b) * 65536 + unat c) * 65536 + unat d) * 65536 + unat e) * 65536 + unat f) * 65536 + unat g) * 65536 + unat h"

definition dotted :: "nat \<Rightarrow> nat \<Rightarrow> nat \<Rightarrow> nat \<Rightarrow> nat" where
  "dotted a b c d = ((a * 256 + b) * 256 + c) * 256 + d"

definition in_block :: "nat \<Rightarrow> nat \<Rightarrow> nat \<times> nat \<Rightarrow> bool" where
  "in_block width n blk \<longleftrightarrow> n div 2 ^ (width - snd blk) = fst blk div 2 ^ (width - snd blk)"

definition v4_blocks :: "(nat \<times> nat) list" where
  "v4_blocks =
     [(dotted 127 0 0 0, 8), (dotted 10 0 0 0, 8), (dotted 172 16 0 0, 12), (dotted 192 168 0 0, 16),
      (dotted 169 254 0 0, 16), (dotted 0 0 0 0, 32), (dotted 255 255 255 255, 32), (dotted 224 0 0 0, 4),
      (dotted 192 0 2 0, 24), (dotted 198 51 100 0, 24), (dotted 203 0 113 0, 24), (dotted 100 64 0 0, 10)]"

definition v6_blocks :: "(nat \<times> nat) list" where
  "v6_blocks =
     [(1, 128), (0, 128), (0xFF00 * 2 ^ 112, 8), (0xFC00 * 2 ^ 112, 7), (0xFE80 * 2 ^ 112, 10)]
     @ map (\<lambda>(net, len). (0xFFFF * 2 ^ 32 + net, 96 + len)) v4_blocks"

fun in_local_block :: "ip_addr \<Rightarrow> bool" where
  "in_local_block (V4 v4) = list_ex (in_block 32 (v4_number v4)) v4_blocks"
| "in_local_block (V6 v6) = list_ex (in_block 128 (v6_number v6)) v6_blocks"

lemma v4_prefixes:
  fixes a b c d :: nat
  assumes "b < 256" "c < 256" "d < 256"
  defines "n \<equiv> ((a * 256 + b) * 256 + c) * 256 + d"
  shows "n div 268435456 = a div 16" "n div 16777216 = a" "n div 4194304 = a * 4 + b div 64" "n div 1048576 = a * 16 + b div 16"
    "n div 65536 = a * 256 + b" "n div 256 = (a * 256 + b) * 256 + c"
proof -
  show c: "n div 256 = (a * 256 + b) * 256 + c" unfolding n_def using assms(3) by simp
  have b: "n div 65536 = n div 256 div 256" by (simp add: div_mult2_eq [symmetric])
  show b: "n div 65536 = a * 256 + b" unfolding b c using assms(2) by simp
  have "n div 1048576 = n div 65536 div 16" "n div 4194304 = n div 65536 div 64" "n div 16777216 = n div 65536 div 256"
    "n div 268435456 = n div 65536 div 256 div 16" by (simp_all add: div_mult2_eq [symmetric])
  moreover have "(a * 256 + b) div 16 = a * 16 + b div 16" "(a * 256 + b) div 64 = a * 4 + b div 64"
    using div_mult_self3 [of 16 "a * 16" b] div_mult_self3 [of 64 "a * 4" b] by (simp_all add: ac_simps)
  ultimately show "n div 268435456 = a div 16" "n div 16777216 = a" "n div 4194304 = a * 4 + b div 64" "n div 1048576 = a * 16 + b div 16"
    unfolding b using assms(1) by simp_all
qed

lemma digits: "b < m \<Longrightarrow> y < m \<Longrightarrow> a * m + b = x * m + y \<longleftrightarrow> a = x \<and> b = y" for a b x y m :: nat
  by (metis add.commute add_left_cancel div_mult_self3 div_less mod_less mod_mult_self3 not_less0 add.right_neutral)

lemma div_range: "0 < m \<Longrightarrow> n div m = q \<longleftrightarrow> m * q \<le> n \<and> n < m * Suc q" for n m q :: nat
  by (metis div_nat_eqI dividend_less_times_div mult.commute times_div_less_eq_dividend mult_Suc_right add.commute)

lemma v4_blocks_exact: "v4_is_local ip \<longleftrightarrow> list_ex (in_block 32 (v4_number ip)) v4_blocks"
proof (cases ip)
  case (Ipv4 a b c d)
  have small: "unat b < 256" "unat c < 256" "unat d < 256" using unsigned_less [where 'a = nat and w = b] unsigned_less [where 'a = nat and w = c] unsigned_less [where 'a = nat and w = d] by simp_all
  define n where "n = v4_number ip"
  note p = v4_prefixes [OF small, of "unat a", folded v4_number.simps Ipv4 n_def]
  have range: "n div 16 = 1 \<longleftrightarrow> 16 \<le> n \<and> n \<le> 31" "n div 64 = 1 \<longleftrightarrow> 64 \<le> n \<and> n \<le> 127" "n div 16 = 14 \<longleftrightarrow> 224 \<le> n \<and> n \<le> 239" for n :: nat
    using div_range [of 16 n 1] div_range [of 64 n 1] div_range [of 16 n 14] by auto
  have "unat a * 16 + unat b div 16 = 2753 \<longleftrightarrow> unat a = 172 \<and> unat b div 16 = 1" using digits [of "unat b div 16" 16 1 "unat a" 172] small(1) by simp
  moreover have "unat a * 4 + unat b div 64 = 401 \<longleftrightarrow> unat a = 100 \<and> unat b div 64 = 1" using digits [of "unat b div 64" 4 1 "unat a" 100] small(1) by simp
  moreover have "unat a * 256 + unat b = 49320 \<longleftrightarrow> unat a = 192 \<and> unat b = 168" "unat a * 256 + unat b = 43518 \<longleftrightarrow> unat a = 169 \<and> unat b = 254"
    using digits [OF small(1), of 168 "unat a" 192] digits [OF small(1), of 254 "unat a" 169] by simp_all
  ultimately have split: "unat a * 16 + unat b div 16 = 2753 \<longleftrightarrow> unat a = 172 \<and> 16 \<le> unat b \<and> unat b \<le> 31"
    "unat a * 4 + unat b div 64 = 401 \<longleftrightarrow> unat a = 100 \<and> 64 \<le> unat b \<and> unat b \<le> 127"
    "unat a * 256 + unat b = 49320 \<longleftrightarrow> unat a = 192 \<and> unat b = 168" "unat a * 256 + unat b = 43518 \<longleftrightarrow> unat a = 169 \<and> unat b = 254"
    "unat a div 16 = 14 \<longleftrightarrow> 224 \<le> unat a \<and> unat a \<le> 239"
    by (simp_all add: range [unfolded One_nat_def])
  have three: "n div 256 = (x * 256 + y) * 256 + z \<longleftrightarrow> unat a = x \<and> unat b = y \<and> unat c = z" if "y < 256" "z < 256" for x y z
    unfolding p digits [OF small(2) that(2)] digits [OF small(1) that(1)] by simp
  have four: "n = ((x * 256 + y) * 256 + z) * 256 + w \<longleftrightarrow> unat a = x \<and> unat b = y \<and> unat c = z \<and> unat d = w"
    if "y < 256" "z < 256" "w < 256" for x y z w
    unfolding n_def Ipv4 v4_number.simps digits [OF small(3) that(3)] digits [OF small(2) that(2)] digits [OF small(1) that(1)] by simp
  have named: "n div 256 = 12582914 \<longleftrightarrow> unat a = 192 \<and> unat b = 0 \<and> unat c = 2" "n div 256 = 12989284 \<longleftrightarrow> unat a = 198 \<and> unat b = 51 \<and> unat c = 100"
    "n div 256 = 13303921 \<longleftrightarrow> unat a = 203 \<and> unat b = 0 \<and> unat c = 113" "n = 0 \<longleftrightarrow> unat a = 0 \<and> unat b = 0 \<and> unat c = 0 \<and> unat d = 0"
    "n = 4294967295 \<longleftrightarrow> unat a = 255 \<and> unat b = 255 \<and> unat c = 255 \<and> unat d = 255"
    using three [of 0 2 192] three [of 51 100 198] three [of 0 113 203] four [of 0 0 0 0] four [of 255 255 255 255] by simp_all
  show ?thesis
    unfolding n_def [symmetric] unfolding Ipv4 v4_is_local.simps word_unat_eq_iff word_le_nat_alt
    by (simp add: v4_blocks_def in_block_def dotted_def named p(1-5) split)
qed

lemma upper_bits: "a AND NOT (mask k) = c \<longleftrightarrow> unat a div 2 ^ k * 2 ^ k = unat c" for a c :: "16 word"
proof -
  have "a AND NOT (mask k) = push_bit k (drop_bit k a)"
    by (rule bit_word_eqI) (auto simp: bit_simps)
  moreover have "unat (push_bit k (drop_bit k a)) = unat a div 2 ^ k * 2 ^ k"
  proof -
    have "unat a div 2 ^ k * 2 ^ k \<le> unat a" by (simp add: div_times_less_eq_dividend)
    also have "\<dots> < 2 ^ 16" using unsigned_less [where 'a = nat and w = a] by simp
    finally show ?thesis unfolding unsigned_push_bit_eq unat_drop_bit_eq by (simp add: push_bit_eq_mult drop_bit_eq_div take_bit_eq_mod)
  qed
  ultimately show ?thesis by (simp add: word_unat_eq_iff)
qed

lemma v6_masks:
  fixes a :: "16 word"
  shows "a AND 0xFF00 = 0xFF00 \<longleftrightarrow> unat a div 256 = 255" "a AND 0xFE00 = 0xFC00 \<longleftrightarrow> unat a div 512 = 126" "a AND 0xFFC0 = 0xFE80 \<longleftrightarrow> unat a div 64 = 1018"
proof -
  have "(0xFF00 :: 16 word) = NOT (mask 8)" "(0xFE00 :: 16 word) = NOT (mask 9)" "(0xFFC0 :: 16 word) = NOT (mask 6)"
    by (simp_all add: mask_eq_exp_minus_1)
  then show "a AND 0xFF00 = 0xFF00 \<longleftrightarrow> unat a div 256 = 255" "a AND 0xFE00 = 0xFC00 \<longleftrightarrow> unat a div 512 = 126" "a AND 0xFFC0 = 0xFE80 \<longleftrightarrow> unat a div 64 = 1018"
    using upper_bits [of a 8 "0xFF00"] upper_bits [of a 9 "0xFC00"] upper_bits [of a 6 "0xFE80"] by simp_all
qed

lemma v6_prefixes:
  assumes "n = v6_number (Ipv6 a b c d e f g h)"
  shows "n div 2 ^ 112 = unat a" "n div 2 ^ 32 = v6_number (Ipv6 0 0 a b c d e f)" "n mod 2 ^ 32 = unat g * 65536 + unat h"
proof -
  have small: "unat w < 65536" for w :: "16 word" using unsigned_less [where 'a = nat and w = w] by simp
  have step: "(x * 65536 + unat w) div 65536 = x" for x and w :: "16 word" using small [of w] by simp
  have n: "n div 2 ^ 112 = n div 65536 div 65536 div 65536 div 65536 div 65536 div 65536 div 65536" "n div 2 ^ 32 = n div 65536 div 65536"
    by (simp_all add: div_mult2_eq [symmetric])
  show "n div 2 ^ 112 = unat a" "n div 2 ^ 32 = v6_number (Ipv6 0 0 a b c d e f)"
    unfolding n unfolding assms v6_number.simps step by simp_all
  have "n = n div 2 ^ 32 * 2 ^ 32 + (unat g * 65536 + unat h)"
    unfolding n unfolding assms v6_number.simps step by (simp add: algebra_simps)
  moreover have "unat g * 65536 + unat h < 2 ^ 32" using small [of g] small [of h] by simp
  ultimately show "n mod 2 ^ 32 = unat g * 65536 + unat h" by (metis mod_less mod_mult_self3)
qed

lemma v6_number_0: "v6_number (Ipv6 a b c d e f g h) = unat w \<longleftrightarrow> a = 0 \<and> b = 0 \<and> c = 0 \<and> d = 0 \<and> e = 0 \<and> f = 0 \<and> g = 0 \<and> h = w"
proof -
  have small: "unat w < 65536" for w :: "16 word" using unsigned_less [where 'a = nat and w = w] by simp
  have step: "x * 65536 + unat u = unat w \<longleftrightarrow> x = 0 \<and> u = w" for x and u w :: "16 word"
    using digits [OF small [of u] small [of w], of x 0] by (simp add: word_unat_eq_iff)
  have zero: "x * 65536 + unat u = 0 \<longleftrightarrow> x = 0 \<and> u = 0" for x and u :: "16 word" by (simp add: unat_eq_0)
  show ?thesis unfolding v6_number.simps step zero by (auto simp: unat_eq_0)
qed

lemma mapped_bytes:
  "v4_number (Ipv4 (ucast (drop_bit 8 g)) (ucast g) (ucast (drop_bit 8 h)) (ucast h)) = unat g * 65536 + unat h" for g h :: "16 word"
proof -
  have small: "unat w div 256 < 256" for w :: "16 word" using unsigned_less [where 'a = nat and w = w] by simp
  have "unat (ucast (drop_bit 8 w) :: 8 word) = unat w div 256" "unat (ucast w :: 8 word) = unat w mod 256" for w :: "16 word"
    using small [of w] unfolding unsigned_ucast_eq unat_drop_bit_eq by (simp_all add: take_bit_eq_mod drop_bit_eq_div)
  moreover have "(((x div 256) * 256 + x mod 256) * 256 + y div 256) * 256 + y mod 256 = x * 65536 + y" for x y :: nat
    by (simp add: algebra_simps)
  ultimately show ?thesis by simp
qed

text \<open>A block below the mapped prefix: the prefix is right and the rest is in the v4 block.\<close>

lemma mapped_block:
  assumes "len \<le> 32" "net < 2 ^ 32"
  shows "in_block 128 n (0xFFFF * 2 ^ 32 + net, 96 + len) \<longleftrightarrow> n div 2 ^ 32 = 0xFFFF \<and> in_block 32 (n mod 2 ^ 32) (net, len)"
proof -
  define k where "k = 32 - len"
  have k: "(2 :: nat) ^ 32 = 2 ^ len * 2 ^ k" using assms(1) by (simp add: k_def power_add [symmetric])
  have cut: "(q * 2 ^ 32 + r) div 2 ^ k = q * 2 ^ len + r div 2 ^ k" for q r :: nat
    unfolding k by (metis add.commute div_mult_self3 mult.assoc power_not_zero zero_neq_numeral)
  have less: "r div 2 ^ k < 2 ^ len" if "r < 2 ^ 32" for r :: nat
    using that unfolding k by (simp add: less_mult_imp_div_less)
  have "n div 2 ^ k = n div 2 ^ 32 * 2 ^ len + n mod 2 ^ 32 div 2 ^ k"
    using cut [of "n div 2 ^ 32" "n mod 2 ^ 32"] by simp
  moreover have "128 - (96 + len) = k" by (simp add: k_def)
  moreover have "n mod 2 ^ 32 < 2 ^ 32" by simp
  ultimately show ?thesis
    using digits [OF less [of "n mod 2 ^ 32"] less [OF assms(2)], of "n div 2 ^ 32" "0xFFFF"] cut [of "0xFFFF" net] by (simp add: in_block_def k_def)
qed

lemma v4_blocks_fit: "(net, len) \<in> set v4_blocks \<Longrightarrow> len \<le> 32 \<and> net < 2 ^ 32"
  by (auto simp: v4_blocks_def dotted_def)

lemma mapped_blocks:
  "list_ex (in_block 128 n) (map (\<lambda>(net, len). (0xFFFF * 2 ^ 32 + net, 96 + len)) v4_blocks)
   \<longleftrightarrow> n div 2 ^ 32 = 0xFFFF \<and> list_ex (in_block 32 (n mod 2 ^ 32)) v4_blocks"
proof -
  have "in_block 128 n (case blk of (net, len) \<Rightarrow> (0xFFFF * 2 ^ 32 + net, 96 + len)) \<longleftrightarrow> n div 2 ^ 32 = 0xFFFF \<and> in_block 32 (n mod 2 ^ 32) blk"
    if "blk \<in> set v4_blocks" for blk
    using that v4_blocks_fit [of "fst blk" "snd blk"] mapped_block [of "snd blk" "fst blk" n] by (simp add: case_prod_beta)
  then show ?thesis unfolding list_ex_iff set_map by blast
qed

lemma v6_own_blocks:
  assumes "n = v6_number (Ipv6 a b c d e f g h)"
  shows "list_ex (in_block 128 n) [(1, 128), (0, 128), (0xFF00 * 2 ^ 112, 8), (0xFC00 * 2 ^ 112, 7), (0xFE80 * 2 ^ 112, 10)]
    \<longleftrightarrow> v6_is_local (Ipv6 a b c d e f g h)"
proof -
  have down: "n div 2 ^ (112 + k) = unat a div 2 ^ k" for k
    using v6_prefixes(1) [OF assms] by (simp add: power_add div_mult2_eq)
  have "n = 1 \<longleftrightarrow> v6_number (Ipv6 a b c d e f g h) = unat (1 :: 16 word)" "n = 0 \<longleftrightarrow> v6_number (Ipv6 a b c d e f g h) = unat (0 :: 16 word)"
    unfolding assms by simp_all
  then have own: "n = 1 \<longleftrightarrow> a = 0 \<and> b = 0 \<and> c = 0 \<and> d = 0 \<and> e = 0 \<and> f = 0 \<and> g = 0 \<and> h = 1"
    "n = 0 \<longleftrightarrow> a = 0 \<and> b = 0 \<and> c = 0 \<and> d = 0 \<and> e = 0 \<and> f = 0 \<and> g = 0 \<and> h = 0"
    unfolding v6_number_0 by blast+
  have "in_block 128 n (0xFF00 * 2 ^ 112, 8) \<longleftrightarrow> unat a div 256 = 255" "in_block 128 n (0xFC00 * 2 ^ 112, 7) \<longleftrightarrow> unat a div 512 = 126"
    "in_block 128 n (0xFE80 * 2 ^ 112, 10) \<longleftrightarrow> unat a div 64 = 1018"
    using down [of 8] down [of 9] down [of 6] by (simp_all add: in_block_def)
  moreover have "in_block 128 n (1, 128) \<longleftrightarrow> n = 1" "in_block 128 n (0, 128) \<longleftrightarrow> n = 0" by (simp_all add: in_block_def)
  ultimately show ?thesis unfolding v6_is_local.simps v6_masks list_ex_iff list.set own by blast
qed

lemma mapped_prefix:
  assumes "n = v6_number (Ipv6 a b c d e f g h)"
  shows "n div 2 ^ 32 = 0xFFFF \<longleftrightarrow> a = 0 \<and> b = 0 \<and> c = 0 \<and> d = 0 \<and> e = 0 \<and> f = 0xFFFF"
  using v6_number_0 [of 0 0 a b c d e f "0xFFFF"] unfolding v6_prefixes(2) [OF assms] by simp

text \<open>C35. The tests the policy makes on an address decide exactly the table of local blocks: an address is
  refused when, and only when, it lies in a loopback, private, link local, unspecified, broadcast,
  multicast, documentation or shared block of v4, in the v4-mapped spelling of one, or in a loopback,
  unspecified, multicast, unique local or link local block of v6.\<close>

theorem local_addresses_exact: "ip_is_local ip \<longleftrightarrow> in_local_block ip"
proof (cases ip)
  case (V4 v4)
  then show ?thesis by (simp add: v4_blocks_exact)
next
  case (V6 v6)
  obtain a b c d e f g h where v6: "v6 = Ipv6 a b c d e f g h" by (cases v6)
  define n where "n = v6_number v6"
  note n = n_def [unfolded v6]
  have mapped: "v4_is_local (Ipv4 (ucast (drop_bit 8 g)) (ucast g) (ucast (drop_bit 8 h)) (ucast h)) \<longleftrightarrow> list_ex (in_block 32 (n mod 2 ^ 32)) v4_blocks"
    unfolding v4_blocks_exact mapped_bytes v6_prefixes(3) [OF n] by simp
  have own: "\<not> v6_is_local v6" if "to_ipv4_mapped v6 \<noteq> None"
    using that by (auto simp: v6 split: if_splits)
  have prefix: "n div 2 ^ 32 = 0xFFFF \<longleftrightarrow> to_ipv4_mapped v6 \<noteq> None"
    unfolding mapped_prefix [OF n] by (simp add: v6)
  have blocks: "in_local_block ip \<longleftrightarrow> v6_is_local v6 \<or> to_ipv4_mapped v6 \<noteq> None \<and> list_ex (in_block 32 (n mod 2 ^ 32)) v4_blocks"
    unfolding V6 in_local_block.simps v6_blocks_def list_ex_append mapped_blocks n_def [symmetric] v6_own_blocks [OF n] prefix unfolding v6 ..
  show ?thesis
  proof (cases "to_ipv4_mapped v6")
    case None
    then show ?thesis unfolding blocks by (simp add: V6)
  next
    case (Some m)
    then have "m = Ipv4 (ucast (drop_bit 8 g)) (ucast g) (ucast (drop_bit 8 h)) (ucast h)" by (simp add: v6 split: if_splits)
    with Some mapped own show ?thesis unfolding blocks by (simp add: V6)
  qed
qed

end
