(* ===== verification/Outbound.thy ===== *)
theory Outbound
  imports Egress Bundles "HOL-Library.AList"
begin

text \<open>
  The http surface of a script (\<open>actias-worker-core/src/extensions/http.rs\<close>): requests and responses as a
  script sees them, the conversion of uris, and \<open>make_request\<close> through the guarded client. Parsing and
  building uris, urls and methods and the client itself belong to libraries: they are the fields of
  \<open>http_lib\<close>, a run of the client is the hops it made and its result.
\<close>

section \<open>Requests, responses and uris\<close>

text \<open>A header map of a request is the list of its entries in some order.

  \<open>http::Uri\<close> as its accessors give it, and the table form a script sees.\<close>

record http_uri =
  hu_scheme :: "string option"
  hu_authority :: "string option"
  hu_path :: string
  hu_query :: "string option"

record authority =
  au_host :: string
  au_port :: "16 word option"

record uri =
  uri_scheme :: "string option"
  uri_authority :: "authority option"
  uri_path :: string
  uri_query :: "string option"

datatype uri_type = UriTable uri | UriString string

datatype body_type = Binary string | Text string

record lua_request =
  lr_uri :: uri_type
  lr_context_uri :: "uri_type option"
  lr_method :: "string option"
  lr_headers :: "(string \<times> string) list"
  lr_version :: "string option"
  lr_body :: "body_type option"

record lua_response =
  ls_status :: "16 word option"
  ls_headers :: "(string \<times> string) list option"
  ls_body :: "body_type option"

datatype http_version = HTTP_09 | HTTP_10 | HTTP_11 | HTTP_2 | HTTP_3

text \<open>\<open>collect\<close> into a header map: an unreadable value is empty, a repeated name keeps its last value.\<close>

definition header_table :: "(string \<times> string option) list \<Rightarrow> (string \<times> string) list" where
  "header_table hs = foldl (\<lambda>m (k, v). AList.update k (case v of Some t \<Rightarrow> t | None \<Rightarrow> '''') m) [] hs"

section \<open>Bodies\<close>

definition body_from_bytes :: "string \<Rightarrow> body_type" where
  "body_from_bytes bytes = (case from_utf8 bytes of Some text \<Rightarrow> Text text | None \<Rightarrow> Binary bytes)"

fun body_bytes :: "body_type \<Rightarrow> string" where
  "body_bytes (Binary v) = v"
| "body_bytes (Text v) = v"

definition request_from_parts :: "string \<Rightarrow> string \<Rightarrow> string option \<Rightarrow> (string \<times> string) list \<Rightarrow> string \<Rightarrow> string \<Rightarrow> lua_request" where
  "request_from_parts meth u context_uri headers version body =
     \<lparr>lr_uri = UriString u,
      lr_context_uri = Some (UriString (case context_uri of Some c \<Rightarrow> c | None \<Rightarrow> u)),
      lr_method = Some meth, lr_headers = headers, lr_version = Some version,
      lr_body = Some (body_from_bytes body)\<rparr>"

definition string_to_version :: "string \<Rightarrow> string + http_version" where
  "string_to_version s =
     (if s = ''HTTP/0.9'' then Inr HTTP_09
      else if s = ''HTTP/1.0'' then Inr HTTP_10
      else if s = ''HTTP/1.1'' then Inr HTTP_11
      else if s = ''HTTP/2.0'' then Inr HTTP_2
      else if s = ''HTTP/3.0'' then Inr HTTP_3
      else Inl (quoted s @ '' was not a valid HTTP version.''))"

section \<open>The libraries\<close>

text \<open>A request as the client gets it, and what comes back: the body is read after the head and may fail.\<close>

record wire_request =
  wr_method :: string
  wr_url :: url
  wr_headers :: "(string \<times> string) list"
  wr_version :: "http_version option"
  wr_body :: "string option"

record wire_response =
  ws_status :: "16 word"
  ws_headers :: "(string \<times> string option) list"
  ws_body :: "string + string"

record http_lib =
  hl_parse :: "string \<Rightarrow> string + http_uri"
  hl_build :: "string option \<Rightarrow> string option \<Rightarrow> string \<Rightarrow> string + http_uri"
  hl_text :: "http_uri \<Rightarrow> string"
  hl_host :: "string \<Rightarrow> string"
  hl_port :: "string \<Rightarrow> 16 word option"
  hl_url :: "string \<Rightarrow> string + url"
  hl_method :: "string \<Rightarrow> string + string"
  hl_header_ok :: "string \<Rightarrow> string \<Rightarrow> bool"
  hl_builder_error :: string
  hl_run :: "egress_client \<Rightarrow> wire_request \<Rightarrow> hop list \<times> (string + wire_response)"

section \<open>Uri conversion\<close>

definition uri_of_http :: "http_lib \<Rightarrow> http_uri \<Rightarrow> uri" where
  "uri_of_http lib u =
     \<lparr>uri_scheme = hu_scheme u, uri_authority = map_option (\<lambda>a. \<lparr>au_host = hl_host lib a, au_port = hl_port lib a\<rparr>) (hu_authority u),
      uri_path = hu_path u, uri_query = hu_query u\<rparr>"

definition authority_text :: "authority \<Rightarrow> string" where
  "authority_text a = au_host a @ (case au_port a of Some v \<Rightarrow> '':'' @ show_nat (unat v) | None \<Rightarrow> '''')"

definition http_of_uri :: "http_lib \<Rightarrow> uri \<Rightarrow> string + http_uri" where
  "http_of_uri lib u =
     hl_build lib (uri_scheme u) (map_option authority_text (uri_authority u))
       (uri_path u @ (case uri_query u of Some v \<Rightarrow> v | None \<Rightarrow> ''''))"

definition to_uri :: "http_lib \<Rightarrow> uri_type \<Rightarrow> string + uri" where
  "to_uri lib ut =
     (case ut of
        UriTable u \<Rightarrow> Inr u
      | UriString v \<Rightarrow> (case hl_parse lib v of Inl e \<Rightarrow> Inl e | Inr u \<Rightarrow> Inr (uri_of_http lib u)))"

definition uri_tostring :: "http_lib \<Rightarrow> uri \<Rightarrow> string + string" where
  "uri_tostring lib u = (case http_of_uri lib u of Inl e \<Rightarrow> Inl e | Inr h \<Rightarrow> Inr (hl_text lib h))"

definition uri_parse :: "http_lib \<Rightarrow> string \<Rightarrow> string + uri" where
  "uri_parse lib s = (case hl_parse lib s of Inl e \<Rightarrow> Inl e | Inr u \<Rightarrow> Inr (uri_of_http lib u))"

section \<open>Sending\<close>

datatype send_error = Failed string | Denied egress_denied

definition response_new :: "wire_response \<Rightarrow> string + lua_response" where
  "response_new r =
     (case ws_body r of
        Inl e \<Rightarrow> Inl e
      | Inr bytes \<Rightarrow> Inr
          \<lparr>ls_status = Some (ws_status r),
           ls_headers = Some (header_table (ws_headers r)),
           ls_body = Some (body_from_bytes bytes)\<rparr>)"

text \<open>An ill-formed header is kept in the builder and reported when the request is built.\<close>

definition builder_send :: "http_lib \<Rightarrow> egress_client \<Rightarrow> wire_request \<Rightarrow> hop list \<times> (string + wire_response)" where
  "builder_send lib ec rq =
     (if list_all (\<lambda>(k, v). hl_header_ok lib k v) (wr_headers rq) then hl_run lib ec rq
      else ([], Inl (hl_builder_error lib)))"

definition send :: "http_lib \<Rightarrow> egress_client \<Rightarrow> lua_request \<Rightarrow> hop list \<times> (send_error + lua_response)" where
  "send lib ec rq =
     (case to_uri lib (lr_uri rq) of Inl e \<Rightarrow> ([], Inl (Failed e)) | Inr table \<Rightarrow>
      case uri_tostring lib table of Inl e \<Rightarrow> ([], Inl (Failed e)) | Inr text \<Rightarrow>
      case hl_url lib text of Inl e \<Rightarrow> ([], Inl (Failed e)) | Inr u \<Rightarrow>
      case check_url (ec_policy ec) u of Inl d \<Rightarrow> ([], Inl (Denied d)) | Inr _ \<Rightarrow>
      case hl_method lib (case lr_method rq of Some m \<Rightarrow> m | None \<Rightarrow> ''GET'') of Inl e \<Rightarrow> ([], Inl (Failed e)) | Inr m \<Rightarrow>
      case (case lr_version rq of None \<Rightarrow> Inr None | Some v \<Rightarrow> map_sum id Some (string_to_version v)) of Inl e \<Rightarrow> ([], Inl (Failed e)) | Inr version \<Rightarrow>
      case builder_send lib ec \<lparr>wr_method = m, wr_url = u, wr_headers = lr_headers rq, wr_version = version,
          wr_body = map_option body_bytes (lr_body rq)\<rparr> of
        (hops, answer) \<Rightarrow> (hops, case answer of Inl e \<Rightarrow> Inl (Failed e) | Inr r \<Rightarrow> map_sum Failed id (response_new r)))"

section \<open>What a request can reach\<close>

text \<open>The client's side of the bargain, for any guards: the first hop is the url it was given, every
  connection and every later hop goes by the guards.\<close>

definition honours :: "http_lib \<Rightarrow> bool" where
  "honours lib \<longleftrightarrow> (\<forall>ec rq. let hs = fst (hl_run lib ec rq) in
     (hs \<noteq> [] \<longrightarrow> fst (hd hs) = wr_url rq) \<and> list_all (connects ec) hs \<and> follows ec hs)"

text \<open>The hops of a request that was built are those of the client on a checked url.\<close>

lemma send_hops:
  assumes "fst (send lib ec rq) \<noteq> []"
  obtains wire where "fst (send lib ec rq) = fst (hl_run lib ec wire)" "check_url (ec_policy ec) (wr_url wire) = Inr ()"
  using assms by (auto simp: send_def builder_send_def case_prod_beta split: sum.splits if_splits)

text \<open>C36. Whatever request a script makes, through any chain of redirects and whatever names resolve to,
  every address the client connects to lies outside the local blocks (unless the deployment allows
  private addresses) and no denied host is contacted, in any spelling of its letters. A request makes
  at most six hops.\<close>

theorem egress_stays_public:
  assumes "honours lib"
  shows "let hops = fst (send lib (egress_client_new (policy_new hosts private) lookup) rq) in
     length hops \<le> 6 \<and>
     (\<forall>(u, a) \<in> set hops. (private \<or> \<not> in_local_block a) \<and>
        (\<forall>name. ur_host u = Some (Domain name) \<longrightarrow> to_ascii_lowercase name \<notin> to_ascii_lowercase ` set hosts))"
proof -
  define ec where "ec = egress_client_new (policy_new hosts private) lookup"
  define hops where "hops = fst (send lib ec rq)"
  show ?thesis
  proof (cases "hops = []")
    case True
    then show ?thesis by (simp add: hops_def ec_def)
  next
    case False
    then obtain wire where run: "hops = fst (hl_run lib ec wire)" and checked: "check_url (ec_policy ec) (wr_url wire) = Inr ()"
      unfolding hops_def by (rule send_hops)
    from assms False run have h: "fst (hd hops) = wr_url wire" "list_all (connects ec) hops" "follows ec hops"
      by (auto simp: honours_def Let_def)
    have start: "check_url (policy_new hosts private) (fst (hd hops)) = Inr ()" using checked h(1) by (simp add: ec_def egress_client_new_def)
    have "(private \<or> \<not> in_local_block a) \<and> (\<forall>name. ur_host u = Some (Domain name) \<longrightarrow> to_ascii_lowercase name \<notin> to_ascii_lowercase ` set hosts)"
      if "(u, a) \<in> set hops" for u a
    proof -
      have c: "connects ec (u, a)" using h(2) that by (auto simp: list_all_iff)
      have "check_url (policy_new hosts private) u = Inr ()" using follows_checked [OF h(3) [unfolded ec_def] start that] by simp
      with c connected_address [of "policy_new hosts private" lookup u a] connected_host [of "policy_new hosts private" lookup u a]
      show ?thesis by (auto simp: ec_def policy_new_def local_addresses_exact)
    qed
    with follows_short [OF h(3) [unfolded ec_def]] show ?thesis unfolding hops_def ec_def by (auto simp: Let_def)
  qed
qed

section \<open>Queries of outbound uris\<close>

text \<open>The builder's documented reading of a path and query: it splits at the first question mark.\<close>

definition splits_query :: "http_lib \<Rightarrow> bool" where
  "splits_query lib \<longleftrightarrow> (\<forall>scheme auth pq u. hl_build lib scheme auth pq = Inr u \<longrightarrow> starts_with pq ''/'' \<longrightarrow> CHR ''#'' \<notin> set pq \<longrightarrow>
     (hu_path u, hu_query u) = (case split_once CHR ''?'' pq of None \<Rightarrow> (pq, None) | Some (p, q) \<Rightarrow> (p, Some q)))"

text \<open>The conversion back writes path and query without the question mark between them: the query of a
  parsed uri becomes part of the path that is requested.\<close>

theorem query_joins_path:
  assumes "splits_query lib" "http_of_uri lib (uri_of_http lib u) = Inr built" "starts_with (hu_path u) ''/''" "hu_query u = Some q"
    and "set (hu_path u @ q) \<inter> {CHR ''?'', CHR ''#''} = {}"
  shows "hu_path built = hu_path u @ q \<and> hu_query built = None"
proof -
  have "split_once CHR ''?'' (hu_path u @ q) = None" using assms(5) by (auto simp: split_once_None_iff)
  moreover have "starts_with (hu_path u @ q) ''/''" using assms(3) by (cases "hu_path u") auto
  moreover have "CHR ''#'' \<notin> set (hu_path u @ q)" using assms(5) by auto
  ultimately have "(hu_path built, hu_query built) = (hu_path u @ q, None)"
    using assms(1,2,4) unfolding splits_query_def http_of_uri_def uri_of_http_def by fastforce
  then show ?thesis by simp
qed

section \<open>A client on a small web\<close>

text \<open>A client that follows one redirect, on a web where a public host answers with a redirect to the
  metadata address of a cloud.\<close>

definition dial :: "egress_client \<Rightarrow> url \<Rightarrow> ip_addr option" where
  "dial ec u =
     (case ur_host u of
        Some (Domain name) \<Rightarrow> (case ec_resolver ec name of Inr (a # _) \<Rightarrow> Some a | _ \<Rightarrow> None)
      | Some (HostV4 ip) \<Rightarrow> Some (V4 ip)
      | Some (HostV6 ip) \<Rightarrow> Some (V6 ip)
      | None \<Rightarrow> None)"

definition one_redirect :: "(url \<Rightarrow> url option) \<Rightarrow> egress_client \<Rightarrow> wire_request \<Rightarrow> hop list \<times> (string + wire_response)" where
  "one_redirect moved ec rq =
     (let u = wr_url rq; ok = Inr \<lparr>ws_status = 200, ws_headers = [], ws_body = Inr ''ok''\<rparr> in
      case dial ec u of
        None \<Rightarrow> ([], Inl ''connect'')
      | Some a \<Rightarrow> (case moved u of
          None \<Rightarrow> ([(u, a)], ok)
        | Some v \<Rightarrow> (case ec_redirects ec [u] v of
            Some _ \<Rightarrow> ([(u, a)], Inl ''redirect'')
          | None \<Rightarrow> (case dial ec v of
              None \<Rightarrow> ([(u, a)], Inl ''connect'')
            | Some b \<Rightarrow> ([(u, a), (v, b)], ok)))))"

definition site :: "url_host \<Rightarrow> url" where
  "site h = \<lparr>ur_host = Some h, ur_rest = ''/''\<rparr>"

definition metadata :: ipv4 where
  "metadata = Ipv4 169 254 169 254"

definition small_web :: http_lib where
  "small_web =
     \<lparr>hl_parse = (\<lambda>s. Inr \<lparr>hu_scheme = Some ''http'', hu_authority = Some s, hu_path = ''/'', hu_query = None\<rparr>),
      hl_build = (\<lambda>scheme auth pq. Inr \<lparr>hu_scheme = scheme, hu_authority = auth,
        hu_path = (case split_once CHR ''?'' pq of None \<Rightarrow> pq | Some (p, q) \<Rightarrow> p), hu_query = map_option snd (split_once CHR ''?'' pq)\<rparr>),
      hl_text = (\<lambda>u. case hu_authority u of Some a \<Rightarrow> a | None \<Rightarrow> ''''),
      hl_host = (\<lambda>a. a), hl_port = (\<lambda>_. None), hl_url = (\<lambda>s. Inr (site (Domain s))), hl_method = Inr, hl_header_ok = (\<lambda>_ _. True), hl_builder_error = '''',
      hl_run = one_redirect (\<lambda>u. if u = site (Domain ''example.com'') then Some (site (HostV4 metadata)) else None)\<rparr>"

definition example_request :: lua_request where
  "example_request = \<lparr>lr_uri = UriString ''example.com'', lr_context_uri = None, lr_method = None, lr_headers = [], lr_version = None, lr_body = None\<rparr>"

definition public_dns :: "string \<Rightarrow> string + ip_addr list" where
  "public_dns name = Inr [V4 (Ipv4 93 184 216 34)]"

lemma dial_connects: "dial ec u = Some a \<Longrightarrow> connects ec (u, a)"
  by (auto simp: dial_def connects_def split: option.splits url_host.splits sum.splits list.splits)

lemma one_redirect_honours: "fst (one_redirect moved ec rq) = hs \<Longrightarrow>
    (hs \<noteq> [] \<longrightarrow> fst (hd hs) = wr_url rq) \<and> list_all (connects ec) hs \<and> follows ec hs"
  by (auto simp: one_redirect_def Let_def follows_def less_Suc_eq dest: dial_connects split: option.splits)

theorem egress_stays_public_witness:
  "(let hops = fst (send small_web (egress_client_new (policy_new [''script_service''] False) public_dns) example_request) in
     hops = [(site (Domain ''example.com''), V4 (Ipv4 93 184 216 34))] \<and> length hops \<le> 6 \<and>
     (\<forall>(u, a) \<in> set hops. (False \<or> \<not> in_local_block a) \<and>
        (\<forall>name. ur_host u = Some (Domain name) \<longrightarrow> to_ascii_lowercase name \<notin> to_ascii_lowercase ` set [''script_service''])))"
proof -
  have honest: "honours small_web" unfolding honours_def Let_def using one_redirect_honours [OF refl] by (simp add: small_web_def)
  have "fst (send small_web (egress_client_new (policy_new [''script_service''] False) public_dns) example_request)
      = [(site (Domain ''example.com''), V4 (Ipv4 93 184 216 34))]"
    by (simp add: send_def to_uri_def example_request_def uri_tostring_def http_of_uri_def uri_of_http_def authority_text_def small_web_def
        check_url_def site_def check_host_def policy_new_def egress_client_new_def to_ascii_lowercase_def ascii_lower_def builder_send_def
        one_redirect_def dial_def resolve_def public_dns_def check_ip_def metadata_def redirect_rule_def)
  with egress_stays_public [OF honest, of "[''script_service'']" False public_dns example_request] show ?thesis by (simp add: Let_def)
qed

theorem query_joins_path_witness:
  "\<exists>built. http_of_uri small_web (uri_of_http small_web \<lparr>hu_scheme = None, hu_authority = None, hu_path = ''/a'', hu_query = Some ''b=1''\<rparr>) = Inr built
     \<and> hu_path built = ''/ab=1'' \<and> hu_query built = None"
proof -
  have s: "splits_query small_web" by (auto simp: splits_query_def small_web_def split: option.splits)
  let ?u = "\<lparr>hu_scheme = None, hu_authority = None, hu_path = ''/a'', hu_query = Some ''b=1''\<rparr> :: http_uri"
  obtain built where built: "http_of_uri small_web (uri_of_http small_web ?u) = Inr built" by (simp add: http_of_uri_def small_web_def)
  from query_joins_path [OF s built, of "''b=1''"] built show ?thesis by simp
qed

end
