(* ===== verification/Handling.thy ===== *)
theory Handling
  imports Routing_Spec Outbound
begin

text \<open>
  The last stretch of a request (\<open>handle\<close> and the end of \<open>run_script\<close> in \<open>actias-worker/src/server.rs\<close>, log
  channels of \<open>actias-common/src/logging.rs\<close>, counters of \<open>metrics.rs\<close>): the request table the script's
  listener gets, the wire form of what it returns, what a failure tells the visitor and the developer, and
  the arming of a revision's cron events on first touch. The vm is a parameter.
\<close>

section \<open>Requests on the wire\<close>

text \<open>A header value that is no visible text reads as \<open>None\<close>; a body over the cap as well.\<close>

record http_request =
  hq_method :: string
  hq_uri :: http_uri
  hq_headers :: "(string \<times> string option) list"
  hq_version :: http_version
  hq_body :: "string option"

definition header_text :: "string \<Rightarrow> http_request \<Rightarrow> string option" where
  "header_text name rq = Option.bind (map_of (hq_headers rq) name) id"

definition request_face :: "http_request \<Rightarrow> request" where
  "request_face rq = \<lparr>rq_host = header_text ''host'' rq, rq_path = hu_path (hq_uri rq), rq_method = hq_method rq,
     rq_body_ok = (hq_body rq \<noteq> None), rq_if_none_match = header_text ''if-none-match'' rq\<rparr>"

text \<open>The \<open>Debug\<close> form of a version.\<close>

fun version_text :: "http_version \<Rightarrow> string" where
  "version_text HTTP_09 = ''HTTP/0.9''"
| "version_text HTTP_10 = ''HTTP/1.0''"
| "version_text HTTP_11 = ''HTTP/1.1''"
| "version_text HTTP_2 = ''HTTP/2.0''"
| "version_text HTTP_3 = ''HTTP/3.0''"

definition context_uri :: "http_lib \<Rightarrow> http_uri \<Rightarrow> string \<Rightarrow> string + http_uri" where
  "context_uri lib u relative =
     hl_build lib (hu_scheme u) (hu_authority u)
       (''/'' @ relative @ (case hu_query u of Some v \<Rightarrow> ''?'' @ v | None \<Rightarrow> ''''))"

definition listener_request :: "http_lib \<Rightarrow> http_request \<Rightarrow> string \<Rightarrow> string \<Rightarrow> string + lua_request" where
  "listener_request lib rq body relative =
     (case context_uri lib (hq_uri rq) relative of
        Inl e \<Rightarrow> Inl e
      | Inr cu \<Rightarrow> Inr (request_from_parts (hq_method rq) (hl_text lib (hq_uri rq)) (Some (hl_text lib cu))
          (header_table (hq_headers rq)) (version_text (hq_version rq)) body))"

section \<open>Responses\<close>

text \<open>\<open>StatusCode::from_u16\<close> takes 100 to 999. \<open>name\<close> reads a header name into its canonical form.\<close>

fun insert_headers :: "(string \<Rightarrow> string option) \<Rightarrow> (string \<times> string) list \<Rightarrow> (string \<times> string) list \<Rightarrow> string + (string \<times> string) list" where
  "insert_headers hname [] hs = Inr hs"
| "insert_headers hname ((k, v) # rest) hs =
     (case hname k of
        None \<Rightarrow> Inl ''invalid HTTP header name''
      | Some n \<Rightarrow> if header_value v then insert_headers hname rest (AList.update n v hs) else Inl ''failed to parse header value'')"

definition lua_response_into_response :: "(string \<Rightarrow> string option) \<Rightarrow> lua_response \<Rightarrow> string + response" where
  "lua_response_into_response hname res =
     (let code = (case ls_status res of Some c \<Rightarrow> unat c | None \<Rightarrow> 200);
          body = (case ls_body res of Some b \<Rightarrow> body_bytes b | None \<Rightarrow> '''') in
      if code < 100 \<or> 1000 \<le> code then Inl ''invalid status code''
      else case (case ls_headers res of Some hs \<Rightarrow> insert_headers hname hs [] | None \<Rightarrow> Inr []) of
        Inl e \<Rightarrow> Inl e
      | Inr hs \<Rightarrow> Inr \<lparr>rs_status = code, rs_body = body, rs_headers = hs\<rparr>)"

text \<open>The whole of \<open>run_script\<close>: \<open>vm\<close> boots the revision and calls its fetch listener.\<close>

definition respond :: "'v service \<Rightarrow> (string \<Rightarrow> string \<Rightarrow> status + script_bundle) \<Rightarrow> int \<Rightarrow> int \<Rightarrow> string option \<Rightarrow> (load_error \<Rightarrow> string)
    \<Rightarrow> http_lib \<Rightarrow> (string \<Rightarrow> string option) \<Rightarrow> (prepared \<Rightarrow> lua_request \<Rightarrow> string + lua_response)
    \<Rightarrow> http_request \<Rightarrow> script_store \<Rightarrow> caches \<Rightarrow> (string + response) \<times> caches" where
  "respond sv session ttl now base_domain shown lib hname vm rq s ch =
     (case run_script sv session ttl now base_domain (request_face rq) s ch of
        (Answer r, ch1) \<Rightarrow> (Inr r, ch1)
      | (Broken e, ch1) \<Rightarrow> (Inl (shown e), ch1)
      | (Listener pp relative, ch1) \<Rightarrow>
          (case listener_request lib rq (case hq_body rq of Some b \<Rightarrow> b | None \<Rightarrow> '''') relative of
             Inl e \<Rightarrow> Inl e
           | Inr lr \<Rightarrow> (case vm pp lr of Inl e \<Rightarrow> Inl e | Inr out \<Rightarrow> lua_response_into_response hname out), ch1))"

section \<open>Handling\<close>

definition live_log_channel :: "string \<Rightarrow> string" where
  "live_log_channel session_id = ''livelog:'' @ session_id"

definition script_log_channel :: "string \<Rightarrow> string" where
  "script_log_channel script_id = ''scriptlog:'' @ script_id"

text \<open>The channel the lines of a run go to.\<close>

definition log_channel :: "addressed \<Rightarrow> script_row \<Rightarrow> string" where
  "log_channel a row = (case a of Live _ session \<Rightarrow> live_log_channel session | _ \<Rightarrow> script_log_channel (sc_id row))"

definition metrics_label :: "string option \<Rightarrow> request \<Rightarrow> string" where
  "metrics_label base_domain rq = (case address base_domain rq of Some (a, _) \<Rightarrow> identifier_of a | None \<Rightarrow> ''(none)'')"

definition live_session_of :: "string option \<Rightarrow> request \<Rightarrow> string option" where
  "live_session_of base_domain rq = (case address base_domain rq of Some (Live _ session, _) \<Rightarrow> Some session | _ \<Rightarrow> None)"

definition internal_error_response :: "string \<Rightarrow> response" where
  "internal_error_response correlation_id =
     \<lparr>rs_status = 500, rs_body = ''Internal error. Correlation ID: '' @ correlation_id, rs_headers = []\<rparr>"

text \<open>\<open>None\<close>: the deadline passed. The lines are channel, level and text.\<close>

definition handle :: "string option \<Rightarrow> bool \<Rightarrow> string \<Rightarrow> request \<Rightarrow> (string + response) option \<Rightarrow> response \<times> (string \<times> string \<times> string) list" where
  "handle base_domain redis correlation_id rq result =
     (let session_error = (\<lambda>text. case live_session_of base_domain rq of
            Some session \<Rightarrow> if redis then [(live_log_channel session, ''error'', text)] else []
          | None \<Rightarrow> []) in
      case result of
        Some (Inr response) \<Rightarrow> (response, [])
      | Some (Inl error) \<Rightarrow> (internal_error_response correlation_id, session_error error)
      | None \<Rightarrow> (text_response 504 ''Script did not respond in time.'', session_error ''Script did not respond in time.''))"

record script_stats =
  st_requests :: nat
  st_errors :: nat
  st_duration_ms :: nat

definition metrics_record :: "string \<Rightarrow> nat \<Rightarrow> bool \<Rightarrow> (string \<rightharpoonup> script_stats) \<Rightarrow> (string \<rightharpoonup> script_stats)" where
  "metrics_record script elapsed ok m =
     (let st = (case m script of Some st \<Rightarrow> st | None \<Rightarrow> \<lparr>st_requests = 0, st_errors = 0, st_duration_ms = 0\<rparr>) in
      m(script \<mapsto> \<lparr>st_requests = st_requests st + 1, st_errors = st_errors st + (if ok then 0 else 1),
        st_duration_ms = st_duration_ms st + elapsed\<rparr>))"

section \<open>Arming cron events\<close>

definition arm_payload :: "object_key \<Rightarrow> string \<Rightarrow> json" where
  "arm_payload k event = JObj [(''args'', JArr [JStr event]), (''chain'', JArr [JStr (key_display k)]),
     (''class'', JStr CRON_CLASS), (''method'', JStr ''ensure''), (''name'', JStr event)]"

definition cron_key :: "prepared \<Rightarrow> string \<Rightarrow> object_key" where
  "cron_key pp event = key_scoped (pp_project pp) (pp_script pp) CRON_CLASS event"

text \<open>\<open>answer\<close>: what the task behind a handle answers to a payload.\<close>

definition arm_event :: "('u, 'v) fleet_config \<Rightarrow> int \<Rightarrow> (nat \<Rightarrow> json \<Rightarrow> string + json) \<Rightarrow> prepared \<Rightarrow> string \<Rightarrow> 'u node \<times> 'u shared
    \<Rightarrow> (string + unit) \<times> 'u node \<times> 'u shared" where
  "arm_event fc now answer pp event x =
     (case resolve_handle fc now (cron_key pp event) (fst x) (snd x) of
        (Inl (Elsewhere holder), y) \<Rightarrow> (Inl (''homed on '' @ holder @ ''; its node arms it''), y)
      | (Inl (Other e), y) \<Rightarrow> (Inl e, y)
      | (Inr h, y) \<Rightarrow> (map_sum id (\<lambda>_. ()) (answer h (arm_payload (cron_key pp event) event)), y))"

fun arm_each :: "('u, 'v) fleet_config \<Rightarrow> int \<Rightarrow> (nat \<Rightarrow> json \<Rightarrow> string + json) \<Rightarrow> prepared \<Rightarrow> string list \<Rightarrow> 'u node \<times> 'u shared
    \<Rightarrow> bool \<times> 'u node \<times> 'u shared" where
  "arm_each fc now answer pp [] x = (True, x)"
| "arm_each fc now answer pp (event # events) x =
     (case arm_event fc now answer pp event x of
        (r, y) \<Rightarrow> (case arm_each fc now answer pp events y of (all_armed, z) \<Rightarrow> (\<not> isl r \<and> all_armed, z)))"

text \<open>The memory of the process: the revisions marked as armed, and the tasks still arming.\<close>

record arming =
  am_armed :: "string list"
  am_tasks :: "prepared list"

definition first_touch :: "prepared \<Rightarrow> arming \<Rightarrow> arming" where
  "first_touch pp m =
     (if cron_events pp \<noteq> [] \<and> pp_revision pp \<noteq> '''' \<and> pp_revision pp \<notin> set (am_armed m)
      then m\<lparr>am_armed := pp_revision pp # am_armed m, am_tasks := am_tasks m @ [pp]\<rparr> else m)"

definition task_ends :: "prepared \<Rightarrow> bool \<Rightarrow> arming \<Rightarrow> arming" where
  "task_ends pp all_armed m =
     m\<lparr>am_armed := (if all_armed then am_armed m else filter (\<lambda>r. r \<noteq> pp_revision pp) (am_armed m)),
       am_tasks := filter (\<lambda>q. pp_revision q \<noteq> pp_revision pp) (am_tasks m)\<rparr>"

section \<open>What a listener sees\<close>

lemma split_char_append: "d \<notin> set x \<Longrightarrow> split_char d (x @ d # s) = x # split_char d s"
  by (induction x) auto

lemma split_char_plain: "d \<notin> set x \<Longrightarrow> split_char d x = [x]"
  by (induction x) auto

lemma segments_join:
  assumes "\<forall>x \<in> set xs. x \<noteq> '''' \<and> CHR ''/'' \<notin> set x" "t = '''' \<or> t = ''/''"
  shows "segments (join ''/'' xs @ t) = xs"
  using assms
proof (induction "''/''" xs rule: join.induct)
  case (3 x y ys)
  then show ?case by (simp add: segments_def split_char_append)
qed (auto simp: segments_def split_char_append split_char_plain)

lemma segment_clean: "x \<in> set (segments path) \<Longrightarrow> x \<noteq> '''' \<and> CHR ''/'' \<notin> set x"
  using split_char_no_sep by (fastforce simp: segments_def)

lemma segment_chars: "x \<in> set (segments path) \<Longrightarrow> set x \<subseteq> set path"
proof -
  have "y \<in> set (split_char d path) \<Longrightarrow> set y \<subseteq> set path" for y d
    by (induction path arbitrary: y) (fastforce split: list.splits if_splits)+
  then show "x \<in> set (segments path) \<Longrightarrow> set x \<subseteq> set path" by (auto simp: segments_def)
qed

lemma join_chars: "c \<in> set (join ''/'' xs) \<Longrightarrow> c = CHR ''/'' \<or> (\<exists>x \<in> set xs. c \<in> set x)"
  by (induction "''/''" xs rule: join.induct) auto

lemma relative_segments: "segments (''/'' @ script_relative_path path n) = drop n (segments path)"
proof -
  have slash: "segments (CHR ''/'' # s) = segments s" for s by (simp add: segments_def)
  have c: "\<forall>x \<in> set (drop n (segments path)). x \<noteq> '''' \<and> CHR ''/'' \<notin> set x"
    using segment_clean set_drop_subset by fast
  show ?thesis
    using segments_join [OF c, of "''''"] segments_join [OF c, of "''/''"] by (simp add: script_relative_path_def Let_def slash)
qed

lemma relative_chars: "c \<in> set (script_relative_path path n) \<Longrightarrow> c = CHR ''/'' \<or> c \<in> set path"
proof -
  have "c = CHR ''/'' \<or> c \<in> set path" if "c \<in> set (join ''/'' (drop n (segments path)))"
    using join_chars [OF that] segment_chars set_drop_subset by fast
  then show "c \<in> set (script_relative_path path n) \<Longrightarrow> c = CHR ''/'' \<or> c \<in> set path"
    by (auto simp: script_relative_path_def Let_def split: if_splits)
qed

lemma context_parts:
  assumes "splits_query lib" "context_uri lib u (script_relative_path (hu_path u) n) = Inr cu"
    and "set (hu_path u) \<inter> {CHR ''?'', CHR ''#''} = {}" "\<forall>q. hu_query u = Some q \<longrightarrow> CHR ''#'' \<notin> set q"
  shows "hu_path cu = ''/'' @ script_relative_path (hu_path u) n \<and> hu_query cu = hu_query u"
proof -
  let ?r = "script_relative_path (hu_path u) n"
  have r: "CHR ''?'' \<notin> set (''/'' @ ?r)" "CHR ''#'' \<notin> set (''/'' @ ?r)"
    using relative_chars [of _ "hu_path u" n] assms(3) by auto
  have "split_once CHR ''?'' (''/'' @ ?r @ (case hu_query u of Some v \<Rightarrow> ''?'' @ v | None \<Rightarrow> ''''))
      = (case hu_query u of Some v \<Rightarrow> Some (''/'' @ ?r, v) | None \<Rightarrow> None)"
    using r(1) split_once_Some_iff [of "CHR ''?''" "''/'' @ ?r @ ''?'' @ the (hu_query u)" "''/'' @ ?r" "the (hu_query u)"]
      split_once_None_iff [of "CHR ''?''" "''/'' @ ?r"] by (cases "hu_query u") auto
  moreover have "CHR ''#'' \<notin> set (''/'' @ ?r @ (case hu_query u of Some v \<Rightarrow> ''?'' @ v | None \<Rightarrow> ''''))"
    using r(2) assms(4) by (auto split: option.splits)
  ultimately have "(hu_path cu, hu_query cu) = (case (case hu_query u of Some v \<Rightarrow> Some (''/'' @ ?r, v) | None \<Rightarrow> None) of
      None \<Rightarrow> (''/'' @ ?r @ (case hu_query u of Some v \<Rightarrow> ''?'' @ v | None \<Rightarrow> ''''), None) | Some (p, q) \<Rightarrow> (p, Some q))"
    using assms(1,2) unfolding splits_query_def context_uri_def by fastforce
  then show ?thesis by (auto split: option.splits)
qed

lemma run_script_listens:
  assumes "run_script sv session ttl now base rq s ch = (Listener pp relative, ch1)"
  obtains a n where "address base rq = Some (a, n)" "relative = script_relative_path (rq_path rq) n" "rq_body_ok rq"
  using assms that by (auto simp: run_script_def target_revision_def Let_def split: option.splits sum.splits prod.splits if_splits addressed.splits status.splits)

text \<open>C37. When a request reaches a script, the script's listener gets it unchanged but for the routing
  segments: the method, the full uri, every body byte, the version, and a context uri whose path has
  exactly the segments after the ones that addressed the script and whose query is the request's. What
  the listener answers becomes the response.\<close>

theorem listener_gets_the_request:
  assumes "splits_query lib" "run_script sv session ttl now base (request_face rq) s ch = (Listener pp relative, ch1)"
    and "context_uri lib (hq_uri rq) relative = Inr cu"
    and "set (hu_path (hq_uri rq)) \<inter> {CHR ''?'', CHR ''#''} = {}" "\<forall>q. hu_query (hq_uri rq) = Some q \<longrightarrow> CHR ''#'' \<notin> set q"
  shows "\<exists>a n lr. address base (request_face rq) = Some (a, n)
    \<and> respond sv session ttl now base shown lib hname vm rq s ch =
        (case vm pp lr of Inl e \<Rightarrow> Inl e | Inr out \<Rightarrow> lua_response_into_response hname out, ch1)
    \<and> lr_method lr = Some (hq_method rq) \<and> lr_uri lr = UriString (hl_text lib (hq_uri rq))
    \<and> map_option body_bytes (lr_body lr) = hq_body rq
    \<and> map_option string_to_version (lr_version lr) = Some (Inr (hq_version rq))
    \<and> lr_context_uri lr = Some (UriString (hl_text lib cu))
    \<and> segments (hu_path cu) = drop n (segments (hu_path (hq_uri rq))) \<and> hu_query cu = hu_query (hq_uri rq)"
proof -
  from run_script_listens [OF assms(2)] obtain a n where an: "address base (request_face rq) = Some (a, n)"
    "relative = script_relative_path (hu_path (hq_uri rq)) n" "hq_body rq \<noteq> None" by (auto simp: request_face_def)
  then obtain body where body: "hq_body rq = Some body" by blast
  from context_parts [OF assms(1) assms(3) [unfolded an(2)] assms(4,5)] relative_segments [of "hu_path (hq_uri rq)" n]
  have cu: "segments (hu_path cu) = drop n (segments (hu_path (hq_uri rq)))" "hu_query cu = hu_query (hq_uri rq)" by simp_all
  have v: "string_to_version (version_text (hq_version rq)) = Inr (hq_version rq)"
    by (cases "hq_version rq") (simp_all add: string_to_version_def)
  obtain lr where lr: "listener_request lib rq body relative = Inr lr" using assms(3) by (simp add: listener_request_def)
  then have "lr_method lr = Some (hq_method rq)" "lr_uri lr = UriString (hl_text lib (hq_uri rq))" "map_option body_bytes (lr_body lr) = hq_body rq"
    "lr_version lr = Some (version_text (hq_version rq))" "lr_context_uri lr = Some (UriString (hl_text lib cu))"
    using assms(3) body by (auto simp: listener_request_def request_from_parts_def body_from_bytes_def from_utf8_def)
  moreover have "respond sv session ttl now base shown lib hname vm rq s ch =
        (case vm pp lr of Inl e \<Rightarrow> Inl e | Inr out \<Rightarrow> lua_response_into_response hname out, ch1)"
    using assms(2) lr body by (simp add: respond_def)
  ultimately show ?thesis using an(1) v cu by fastforce
qed

section \<open>Arming\<close>

text \<open>What a process does to its memory of armed revisions: requests touch revisions, tasks end with every
  event armed or not. \<open>ensured\<close> collects the revisions whose last task armed every event.\<close>

inductive arm_reach :: "arming \<Rightarrow> string set \<Rightarrow> bool" where
  arm_boot: "arm_reach \<lparr>am_armed = [], am_tasks = []\<rparr> {}"
| arm_touch: "arm_reach m ensured \<Longrightarrow> arm_reach (first_touch pp m) ensured"
| arm_end: "arm_reach m ensured \<Longrightarrow> pp \<in> set (am_tasks m) \<Longrightarrow>
    arm_reach (task_ends pp all_armed m) (if all_armed then insert (pp_revision pp) ensured else ensured - {pp_revision pp})"

text \<open>A revision this process takes for armed has a task that is still arming it or was armed in every
  event, however requests and tasks interleave; no revision is ever being armed by two tasks. So a
  failed arming is retried by the next request.\<close>

theorem armed_means_ensured:
  assumes "arm_reach m ensured"
  shows "distinct (map pp_revision (am_tasks m)) \<and> pp_revision ` set (am_tasks m) \<subseteq> set (am_armed m)
    \<and> set (am_armed m) \<subseteq> pp_revision ` set (am_tasks m) \<union> ensured"
  using assms
proof induction
  case (arm_touch m ensured pp)
  then show ?case by (auto simp: first_touch_def)
next
  case (arm_end m ensured pp all_armed)
  then show ?case by (auto simp: task_ends_def distinct_map_filter)
qed simp

text \<open>Where the objects of a revision's events turn out to live, as the arming task finds them.\<close>

fun placements :: "('u, 'v) fleet_config \<Rightarrow> int \<Rightarrow> prepared \<Rightarrow> string list \<Rightarrow> 'u node \<times> 'u shared \<Rightarrow> (resolve_error + nat) list" where
  "placements fc now pp [] x = []"
| "placements fc now pp (event # events) x =
     (case resolve_handle fc now (cron_key pp event) (fst x) (snd x) of (r, y) \<Rightarrow> r # placements fc now pp events y)"

lemma decode_arm: "decode_call why (arm_payload k event) =
    Inr \<lparr>c_class = CRON_CLASS, c_method = ''ensure'', c_name = event, c_args = [JStr event], c_chain = [key_display k], c_caller = None\<rparr>"
  by (simp add: decode_call_def arm_payload_def has_key_def Let_def)

lemma ensure_schedules:
  assumes "recurs (pl_cron pl) event" "quiescent h" "has_storage h"
  shows "\<exists>h' d due. guarded_dispatch gate (object_dispatch pl ''__dispatch'' (arm_payload k event)) h = (Inr JNull, h')
     \<and> alarm h' = Some \<lparr>pa_due_ms = due, pa_class = CRON_CLASS, pa_name = event, pa_own_key = key_display k\<rparr>
     \<and> home_committed h' = Some d \<and> alarm_of d = alarm h'"
proof -
  let ?c = "\<lparr>c_class = CRON_CLASS, c_method = ''ensure'', c_name = event, c_args = [JStr event], c_chain = [key_display k], c_caller = None\<rparr>"
  have b: "object_dispatch pl ''__dispatch'' (arm_payload k event) = as_body (cron_dispatch (pl_cron pl) (pl_runtime pl) (call_context ?c) ?c)"
    using dispatch_platform [OF decode_arm] by (simp add: class_dispatch_def CRON_CLASS_def QUEUE_CLASS_def)
  have cx: "call_context ?c = \<lparr>cx_name = event, cx_own_key = key_display k\<rparr>" by (simp add: call_context_def last_or_empty_def)
  from cron_guarded [OF assms(2,3), of "pl_cron pl" "call_context ?c" ?c gate "pl_runtime pl"] assms(1) obtain h' where
    g: "guarded_dispatch gate (object_dispatch pl ''__dispatch'' (arm_payload k event)) h = (Inr JNull, h')"
      "quiescent h'" "has_storage h'" "scheduled (call_context ?c) (alarm h')" unfolding b by (auto simp: cx)
  then obtain d where d: "home_committed h' = Some d" by (auto simp: has_storage_def home_committed_def)
  from quiescent_alarm [OF g(2) d] g(1,4) d show ?thesis unfolding cx scheduled_def by auto
qed


section \<open>Concrete requests\<close>

definition posted :: http_request where
  "posted = \<lparr>hq_method = ''GET'', hq_uri = \<lparr>hu_scheme = None, hu_authority = None, hu_path = ''/second'', hu_query = Some ''a=1''\<rparr>,
     hq_headers = [], hq_version = HTTP_11, hq_body = Some ''hi''\<rparr>"

definition posted_context :: http_uri where
  "posted_context = \<lparr>hu_scheme = None, hu_authority = None, hu_path = ''/'', hu_query = Some ''a=1''\<rparr>"

theorem listener_gets_the_request_witness:
  "\<exists>n (lr :: lua_request) ch1. respond demo_service no_session 60 0 None (\<lambda>_. '''') small_web Some
        (\<lambda>pp lr. Inr \<lparr>ls_status = None, ls_headers = None, ls_body = lr_body lr\<rparr>) posted two_served no_caches
      = (lua_response_into_response Some \<lparr>ls_status = None, ls_headers = None, ls_body = lr_body lr\<rparr>, ch1)
    \<and> lr_method lr = Some ''GET'' \<and> map_option body_bytes (lr_body lr) = Some ''hi''
    \<and> segments (hu_path posted_context) = drop n (segments ''/second'')"
proof -
  have face: "request_face posted = get_path ''/second''" by (simp add: request_face_def posted_def get_path_def header_text_def)
  have split: "splits_query small_web" by (auto simp: splits_query_def small_web_def split: option.splits)
  have cu: "context_uri small_web (hq_uri posted) '''' = Inr posted_context" by (simp add: context_uri_def small_web_def posted_def posted_context_def)
  have f: "hq_method posted = ''GET''" "hu_path (hq_uri posted) = ''/second''" "hu_query (hq_uri posted) = Some ''a=1''" "hq_body posted = Some ''hi''"
    by (simp_all add: posted_def)
  have "set (hu_path (hq_uri posted)) \<inter> {CHR ''?'', CHR ''#''} = {}" "\<forall>q. hu_query (hq_uri posted) = Some q \<longrightarrow> CHR ''#'' \<notin> set q" by (simp_all add: f)
  from listener_gets_the_request [OF split warm_request [folded face] cu this,
      of "\<lambda>_. ''''" Some "\<lambda>pp lr. Inr \<lparr>ls_status = None, ls_headers = None, ls_body = lr_body lr\<rparr>"]
  show ?thesis unfolding f sum.case by blast
qed

definition ticking :: prepared where
  "ticking = first_prepared\<lparr>pp_contract := Some (no_capabilities\<lparr>cp_events := [''fetch'', ''cron:* * * * *'']\<rparr>)\<rparr>"

theorem armed_means_ensured_witness:
  "distinct (map pp_revision (am_tasks (first_touch ticking \<lparr>am_armed = [], am_tasks = []\<rparr>)))
   \<and> pp_revision ` set (am_tasks (first_touch ticking \<lparr>am_armed = [], am_tasks = []\<rparr>)) \<subseteq> {''r1''}
   \<and> set (am_armed (first_touch ticking \<lparr>am_armed = [], am_tasks = []\<rparr>)) \<subseteq> {''r1''}"
  using armed_means_ensured [OF arm_touch [OF arm_boot, of ticking]]
  by (auto simp: first_touch_def ticking_def first_prepared_def prepare_def cron_events_def split: if_splits)

definition ticking_node :: "unit node" where
  "ticking_node = (a_node (Some ''na'') idle_host)\<lparr>
     nd_host := \<lparr>tasks = [key_display (cron_key ticking ''cron:* * * * *'') \<mapsto> (''r1'', 0)], closed = (\<lambda>_. False), next_handle = 1\<rparr>,
     nd_owners := [key_display (cron_key ticking ''cron:* * * * *'') \<mapsto> (ticking, 100)]\<rparr>"

lemma ticking_events: "cron_events ticking = [''cron:* * * * *'']"
  by (simp add: cron_events_def ticking_def)

lemma ticking_resolves: "resolve_handle fleet_of_two_config 5 (cron_key ticking ''cron:* * * * *'') ticking_node sh = (Inr 0, ticking_node, sh)"
  by (simp add: resolve_handle_def owner_prepared_def ticking_node_def fresh_entry_def is_resident_def resolve_local_def get_or_spawn_def Let_def)
    (simp add: ticking_def first_prepared_def prepare_def)


end
