(* ===== verification/Kv.thy ===== *)
theory Kv
  imports Bundles Registry
begin

text \<open>
  The key value service (\<open>actias-kv/src/database.rs\<close>, \<open>kv_service.rs\<close>) and the handle a script holds on
  one namespace (\<open>actias-worker-core/src/extensions/kv.rs\<close>). The tables are those of
  \<open>migrations/0001-create-tables.cql\<close>: a partition per project and namespace in key order, and a
  registry of namespaces per project. Every statement may be refused or may be carried out with
  the answer lost, as \<open>ke_net\<close> says; the uuid parser, base64 and the server's paging state are
  parameters.
\<close>

section \<open>Values and pairs\<close>

datatype value_type = StringType | NumberType | IntegerType | BooleanType | JsonType

fun value_type_text :: "value_type \<Rightarrow> string" where
  "value_type_text StringType = ''string''"
| "value_type_text JsonType = ''json''"
| "value_type_text IntegerType = ''integer''"
| "value_type_text NumberType = ''number''"
| "value_type_text BooleanType = ''boolean''"

definition value_type_parse :: "string \<Rightarrow> string + value_type" where
  "value_type_parse s =
     (if s = ''string'' then Inr StringType
      else if s = ''json'' then Inr JsonType
      else if s = ''number'' then Inr NumberType
      else if s = ''integer'' then Inr IntegerType
      else if s = ''boolean'' then Inr BooleanType
      else Inl (quoted s @ '' is not a stored value type''))"

text \<open>The enum on the wire; prost reads an unknown code as the first variant.\<close>

fun value_type_code :: "value_type \<Rightarrow> int" where
  "value_type_code StringType = 0"
| "value_type_code NumberType = 1"
| "value_type_code IntegerType = 2"
| "value_type_code BooleanType = 3"
| "value_type_code JsonType = 4"

definition value_type_of_code :: "int \<Rightarrow> value_type" where
  "value_type_of_code i =
     (if i = 1 then NumberType else if i = 2 then IntegerType else if i = 3 then BooleanType
      else if i = 4 then JsonType else StringType)"

record pair =
  pr_project :: string
  pr_namespace :: string
  pr_type :: int
  pr_ttl :: "int option"
  pr_key :: string
  pr_value :: string

record pair_request =
  pq_project :: string
  pq_namespace :: string
  pq_key :: string

datatype kv_error = DbQuery string | DbRows string | DbInvalid string

section \<open>Tables and statements\<close>

record kv_cell =
  c_value :: string
  c_type :: string
  c_expires :: "int option"

record kv_store =
  kv_pairs :: "string \<times> string \<Rightarrow> (string \<times> kv_cell) list"
  kv_names :: "string \<Rightarrow> string list"
  kv_sent :: nat

record kv_env =
  ke_uuid :: "string \<Rightarrow> string option"
  ke_uuid_why :: "string \<Rightarrow> string"
  ke_net :: "nat \<Rightarrow> string sent"
  ke_wire :: "nat \<Rightarrow> status sent"
  ke_ttl_why :: "int \<Rightarrow> string"
  ke_b64 :: "string \<Rightarrow> string"
  ke_unb64 :: "string \<Rightarrow> string option"
  ke_state :: "string \<Rightarrow> string"
  ke_position :: "string \<Rightarrow> string option"
  ke_state_why :: "string \<Rightarrow> string"
  ke_cut :: "nat \<Rightarrow> nat"
  ke_hint :: "nat \<Rightarrow> bool"

fun put_row :: "string \<Rightarrow> kv_cell \<Rightarrow> (string \<times> kv_cell) list \<Rightarrow> (string \<times> kv_cell) list" where
  "put_row k c [] = [(k, c)]"
| "put_row k c ((k', c') # r) =
     (if k < k' then (k, c) # (k', c') # r else if k = k' then (k, c) # r else (k', c') # put_row k c r)"

datatype kv_stmt =
    WritePair string string string string string int
  | DeletePair string string string
  | RegisterName string string
  | DropPairs string string
  | UnregisterName string string
  | UnregisterAll string

fun apply_stmt :: "int \<Rightarrow> kv_stmt \<Rightarrow> kv_store \<Rightarrow> kv_store" where
  "apply_stmt now (WritePair u ns k v t ttl) s =
     s\<lparr>kv_pairs := (kv_pairs s)((u, ns) := put_row k
        \<lparr>c_value = v, c_type = t, c_expires = (if ttl = 0 then None else Some (now + ttl))\<rparr> (kv_pairs s (u, ns)))\<rparr>"
| "apply_stmt now (DeletePair u ns k) s =
     s\<lparr>kv_pairs := (kv_pairs s)((u, ns) := filter (\<lambda>r. fst r \<noteq> k) (kv_pairs s (u, ns)))\<rparr>"
| "apply_stmt now (RegisterName u ns) s = s\<lparr>kv_names := (kv_names s)(u := insort_insert ns (kv_names s u))\<rparr>"
| "apply_stmt now (DropPairs u ns) s = s\<lparr>kv_pairs := (kv_pairs s)((u, ns) := [])\<rparr>"
| "apply_stmt now (UnregisterName u ns) s = s\<lparr>kv_names := (kv_names s)(u := filter (\<lambda>n. n \<noteq> ns) (kv_names s u))\<rparr>"
| "apply_stmt now (UnregisterAll u) s = s\<lparr>kv_names := (kv_names s)(u := [])\<rparr>"

text \<open>CQL takes a time to live between zero (none) and twenty years, in seconds.\<close>

fun stmt_refused :: "kv_stmt \<Rightarrow> int option" where
  "stmt_refused (WritePair u ns k v t ttl) = (if ttl < 0 \<or> 630720000 < ttl then Some ttl else None)"
| "stmt_refused st = None"

definition sending :: "kv_store \<Rightarrow> kv_store" where
  "sending s = s\<lparr>kv_sent := Suc (kv_sent s)\<rparr>"

definition net_error :: "string sent \<Rightarrow> kv_error sent" where
  "net_error w = (case w of Applied \<Rightarrow> Applied | Refused e \<Rightarrow> Refused (DbQuery e) | Lost e \<Rightarrow> Lost (DbQuery e))"

definition execute :: "kv_env \<Rightarrow> int \<Rightarrow> kv_stmt \<Rightarrow> (kv_store, kv_error, unit) fallible" where
  "execute ke now st s =
     (case stmt_refused st of
        Some ttl \<Rightarrow> (Inl (DbQuery (ke_ttl_why ke ttl)), sending s)
      | None \<Rightarrow> through (net_error (ke_net ke (kv_sent s))) (writeE (apply_stmt now st)) (sending s))"

definition fetch :: "kv_env \<Rightarrow> (kv_store \<Rightarrow> 'a) \<Rightarrow> (kv_store, kv_error, 'a) fallible" where
  "fetch ke g s = through (net_error (ke_net ke (kv_sent s))) (readE (\<lambda>_. g s)) (sending s)"

section \<open>The database\<close>

definition project_uuid :: "kv_env \<Rightarrow> string \<Rightarrow> (kv_store, kv_error, string) fallible" where
  "project_uuid ke p = (case ke_uuid ke p of Some u \<Rightarrow> okE u | None \<Rightarrow> failE (DbInvalid (ke_uuid_why ke p)))"

definition cell_alive :: "int \<Rightarrow> kv_cell \<Rightarrow> bool" where
  "cell_alive now c = (case c_expires c of None \<Rightarrow> True | Some e \<Rightarrow> now < e)"

type_synonym pair_row = "int option \<times> string \<times> string \<times> string \<times> string \<times> string"

definition select_row :: "int \<Rightarrow> string \<Rightarrow> string \<Rightarrow> string \<times> kv_cell \<Rightarrow> pair_row" where
  "select_row now u ns r = (map_option (\<lambda>e. e - now) (c_expires (snd r)), u, ns, fst r, c_value (snd r), c_type (snd r))"

definition live_rows :: "int \<Rightarrow> string \<Rightarrow> string \<Rightarrow> kv_store \<Rightarrow> (string \<times> kv_cell) list" where
  "live_rows now u ns s = filter (\<lambda>r. cell_alive now (snd r)) (kv_pairs s (u, ns))"

fun row_into_pair :: "pair_row \<Rightarrow> kv_error + pair" where
  "row_into_pair (ttl, u, ns, k, v, t) =
     (case value_type_parse t of
        Inl e \<Rightarrow> Inl (DbInvalid e)
      | Inr vt \<Rightarrow> Inr \<lparr>pr_project = u, pr_namespace = ns, pr_type = value_type_code vt, pr_ttl = ttl, pr_key = k, pr_value = v\<rparr>)"

definition kv_get :: "kv_env \<Rightarrow> int \<Rightarrow> string \<Rightarrow> string \<Rightarrow> string \<Rightarrow> (kv_store, kv_error, pair option) fallible" where
  "kv_get ke now p ns k =
     bindE (project_uuid ke p) (\<lambda>u.
     bindE (fetch ke (\<lambda>s. map_option (select_row now u ns) (find (\<lambda>r. fst r = k) (live_rows now u ns s)))) (\<lambda>row.
       case row of
         None \<Rightarrow> okE None
       | Some r \<Rightarrow> (case row_into_pair r of Inl e \<Rightarrow> failE e | Inr x \<Rightarrow> okE (Some x))))"

fun kv_set :: "kv_env \<Rightarrow> int \<Rightarrow> pair list \<Rightarrow> (kv_store, kv_error, unit) fallible" where
  "kv_set ke now [] = okE ()"
| "kv_set ke now (p # ps) =
     bindE (project_uuid ke (pr_project p)) (\<lambda>u.
     thenE (execute ke now (WritePair u (pr_namespace p) (pr_key p) (pr_value p)
              (value_type_text (value_type_of_code (pr_type p))) (case pr_ttl p of None \<Rightarrow> 0 | Some t \<Rightarrow> t)))
     (thenE (execute ke now (RegisterName u (pr_namespace p)))
     (kv_set ke now ps)))"

fun kv_delete :: "kv_env \<Rightarrow> int \<Rightarrow> pair_request list \<Rightarrow> (kv_store, kv_error, unit) fallible" where
  "kv_delete ke now [] = okE ()"
| "kv_delete ke now (q # qs) =
     bindE (project_uuid ke (pq_project q)) (\<lambda>u.
     thenE (execute ke now (DeletePair u (pq_namespace q) (pq_key q)))
     (kv_delete ke now qs))"

definition kv_create_namespace :: "kv_env \<Rightarrow> int \<Rightarrow> string \<Rightarrow> string \<Rightarrow> (kv_store, kv_error, unit) fallible" where
  "kv_create_namespace ke now p ns = bindE (project_uuid ke p) (\<lambda>u. execute ke now (RegisterName u ns))"

definition kv_delete_namespace :: "kv_env \<Rightarrow> int \<Rightarrow> string \<Rightarrow> string \<Rightarrow> (kv_store, kv_error, unit) fallible" where
  "kv_delete_namespace ke now p ns =
     bindE (project_uuid ke p) (\<lambda>u.
     thenE (execute ke now (DropPairs u ns)) (execute ke now (UnregisterName u ns)))"

definition namespace_names :: "kv_env \<Rightarrow> string \<Rightarrow> (kv_store, kv_error, string list) fallible" where
  "namespace_names ke u = fetch ke (\<lambda>s. kv_names s u)"

fun drop_each :: "kv_env \<Rightarrow> int \<Rightarrow> string \<Rightarrow> string list \<Rightarrow> (kv_store, kv_error, unit) fallible" where
  "drop_each ke now u [] = okE ()"
| "drop_each ke now u (n # ns) = thenE (execute ke now (DropPairs u n)) (drop_each ke now u ns)"

definition kv_delete_project :: "kv_env \<Rightarrow> int \<Rightarrow> string \<Rightarrow> (kv_store, kv_error, unit) fallible" where
  "kv_delete_project ke now p =
     bindE (project_uuid ke p) (\<lambda>u.
     bindE (namespace_names ke u) (\<lambda>names.
     thenE (drop_each ke now u names) (execute ke now (UnregisterAll u))))"

record kv_namespace =
  kn_project :: string
  kn_name :: string
  kn_count :: int

text \<open>\<open>count as i32\<close> keeps the low 32 bits.\<close>

definition as_i32 :: "int \<Rightarrow> int" where
  "as_i32 n = sint (word_of_int n :: 32 word)"

fun count_each :: "kv_env \<Rightarrow> int \<Rightarrow> string \<Rightarrow> string \<Rightarrow> string list \<Rightarrow> (kv_store, kv_error, kv_namespace list) fallible" where
  "count_each ke now p u [] = okE []"
| "count_each ke now p u (n # ns) =
     bindE (fetch ke (\<lambda>s. int (length (live_rows now u n s)))) (\<lambda>c.
     bindE (count_each ke now p u ns) (\<lambda>rest.
     okE (\<lparr>kn_project = p, kn_name = n, kn_count = as_i32 c\<rparr> # rest)))"

definition kv_get_namespaces :: "kv_env \<Rightarrow> int \<Rightarrow> string \<Rightarrow> (kv_store, kv_error, kv_namespace list) fallible" where
  "kv_get_namespaces ke now p =
     bindE (project_uuid ke p) (\<lambda>u. bindE (namespace_names ke u) (count_each ke now p u))"

section \<open>Listing one page\<close>

text \<open>A paging state is the key the page ended on, in the server's own bytes. The server fills a page
  up to the size asked for or less, with at least one row while rows are left, and may hand back a
  state when none is.\<close>

definition rows_after :: "string option \<Rightarrow> (string \<times> kv_cell) list \<Rightarrow> (string \<times> kv_cell) list" where
  "rows_after pos rows = (case pos of None \<Rightarrow> rows | Some k \<Rightarrow> filter (\<lambda>r. k < fst r) rows)"

definition resume_at :: "kv_env \<Rightarrow> string option \<Rightarrow> (kv_store, kv_error, string option) fallible" where
  "resume_at ke state =
     (case state of
        None \<Rightarrow> okE None
      | Some b \<Rightarrow> (case ke_position ke b of Some k \<Rightarrow> okE (Some k) | None \<Rightarrow> failE (DbQuery (ke_state_why ke b))))"

definition cut_page :: "kv_env \<Rightarrow> int \<Rightarrow> nat \<Rightarrow> (string \<times> kv_cell) list \<Rightarrow> (string \<times> kv_cell) list \<times> string option" where
  "cut_page ke n i rest =
     (let page = take (max 1 (min (nat n) (ke_cut ke i))) rest in
      (page,
       if length page < length rest \<or> page \<noteq> [] \<and> ke_hint ke i then Some (ke_state ke (fst (last page))) else None))"

definition single_page :: "kv_env \<Rightarrow> int \<Rightarrow> string \<Rightarrow> string \<Rightarrow> int \<Rightarrow> string option
    \<Rightarrow> (kv_store, kv_error, (string \<times> kv_cell) list \<times> string option) fallible" where
  "single_page ke now u ns n state =
     bindE (resume_at ke state) (\<lambda>pos.
     fetch ke (\<lambda>s. cut_page ke n (kv_sent s) (rows_after pos (live_rows now u ns s))))"

definition count_from :: "kv_env \<Rightarrow> int \<Rightarrow> string \<Rightarrow> string \<Rightarrow> string \<Rightarrow> (kv_store, kv_error, nat) fallible" where
  "count_from ke now u ns state =
     bindE (resume_at ke (Some state)) (\<lambda>pos. fetch ke (\<lambda>s. length (rows_after pos (live_rows now u ns s))))"

definition next_token :: "kv_env \<Rightarrow> int \<Rightarrow> string \<Rightarrow> string \<Rightarrow> string option \<Rightarrow> (kv_store, kv_error, string option) fallible" where
  "next_token ke now u ns cont =
     (case cont of
        None \<Rightarrow> okE None
      | Some st \<Rightarrow>
          bindE (count_from ke now u ns st) (\<lambda>remaining. okE (if 0 < remaining then Some (ke_b64 ke st) else None)))"

fun rows_into_pairs :: "pair_row list \<Rightarrow> kv_error + pair list" where
  "rows_into_pairs [] = Inr []"
| "rows_into_pairs (r # rs) =
     (case row_into_pair r of
        Inl e \<Rightarrow> Inl e
      | Inr x \<Rightarrow> (case rows_into_pairs rs of Inl e \<Rightarrow> Inl e | Inr xs \<Rightarrow> Inr (x # xs)))"

record list_response =
  lr_page_size :: int
  lr_token :: "string option"
  lr_pairs :: "pair list"

definition decode_token :: "kv_env \<Rightarrow> string option \<Rightarrow> (kv_store, kv_error, string option) fallible" where
  "decode_token ke token =
     (case token of
        None \<Rightarrow> okE None
      | Some v \<Rightarrow> (case ke_unb64 ke v of None \<Rightarrow> failE (DbInvalid ''Invalid token provided'') | Some b \<Rightarrow> okE (Some b)))"

definition kv_list :: "kv_env \<Rightarrow> int \<Rightarrow> string \<Rightarrow> string \<Rightarrow> int \<Rightarrow> string option \<Rightarrow> (kv_store, kv_error, list_response) fallible" where
  "kv_list ke now p ns n token =
     bindE (project_uuid ke p) (\<lambda>u.
     if n \<le> 0 then failE (DbInvalid ''Page size must be positive'')
     else
       bindE (decode_token ke token) (\<lambda>state.
       bindE (single_page ke now u ns n state) (\<lambda>(page, cont).
       bindE (next_token ke now u ns cont) (\<lambda>token'.
         case rows_into_pairs (map (select_row now u ns) page) of
           Inl e \<Rightarrow> failE e
         | Inr pairs \<Rightarrow> okE \<lparr>lr_page_size = n, lr_token = token', lr_pairs = pairs\<rparr>))))"

section \<open>The service\<close>

fun kv_status :: "kv_error \<Rightarrow> status" where
  "kv_status (DbInvalid e) = InvalidArgument e"
| "kv_status (DbQuery e) = Internal ''Storage error.''"
| "kv_status (DbRows e) = Internal ''Storage error.''"

definition rpc_list_namespaces :: "kv_env \<Rightarrow> int \<Rightarrow> string \<Rightarrow> (kv_store, status, kv_namespace list) fallible" where
  "rpc_list_namespaces ke now p = map_errE kv_status (kv_get_namespaces ke now p)"

definition rpc_create_namespace :: "kv_env \<Rightarrow> int \<Rightarrow> string \<Rightarrow> string \<Rightarrow> (kv_store, status, kv_namespace) fallible" where
  "rpc_create_namespace ke now p ns =
     thenE (map_errE kv_status (kv_create_namespace ke now p ns)) (okE \<lparr>kn_project = p, kn_name = ns, kn_count = 0\<rparr>)"

definition rpc_list_pairs :: "kv_env \<Rightarrow> int \<Rightarrow> string \<Rightarrow> string \<Rightarrow> int \<Rightarrow> string option \<Rightarrow> (kv_store, status, list_response) fallible" where
  "rpc_list_pairs ke now p ns n token = map_errE kv_status (kv_list ke now p ns n token)"

definition rpc_set_pairs :: "kv_env \<Rightarrow> int \<Rightarrow> pair list \<Rightarrow> (kv_store, status, unit) fallible" where
  "rpc_set_pairs ke now ps = map_errE kv_status (kv_set ke now ps)"

definition rpc_get_pair :: "kv_env \<Rightarrow> int \<Rightarrow> pair_request \<Rightarrow> (kv_store, status, pair) fallible" where
  "rpc_get_pair ke now q =
     bindE (map_errE kv_status (kv_get ke now (pq_project q) (pq_namespace q) (pq_key q))) (\<lambda>r.
       case r of
         Some v \<Rightarrow> okE v
       | None \<Rightarrow> failE (NotFound (quoted (pq_key q) @ '' was not found in '' @ quoted (pq_namespace q) @ '' namespace.'')))"

definition rpc_delete_project :: "kv_env \<Rightarrow> int \<Rightarrow> string \<Rightarrow> (kv_store, status, unit) fallible" where
  "rpc_delete_project ke now p = map_errE kv_status (kv_delete_project ke now p)"

definition rpc_delete_namespace :: "kv_env \<Rightarrow> int \<Rightarrow> string \<Rightarrow> string \<Rightarrow> (kv_store, status, unit) fallible" where
  "rpc_delete_namespace ke now p ns = map_errE kv_status (kv_delete_namespace ke now p ns)"

definition rpc_delete_pairs :: "kv_env \<Rightarrow> int \<Rightarrow> pair_request list \<Rightarrow> (kv_store, status, unit) fallible" where
  "rpc_delete_pairs ke now qs = map_errE kv_status (kv_delete ke now qs)"

section \<open>What a script holds\<close>

text \<open>Lua values as the handle tells them apart; a table is what serde makes of it, or why it cannot.\<close>

datatype lua_value =
    LNil
  | LBool bool
  | LInt int
  | LNum "64 word"
  | LStr string
  | LTable "string + json"
  | LVector "string + json"
  | LOther

text \<open>The text of a float and its parser are Rust's; a panic ends the task that runs the vm.\<close>

record float_text =
  ft_show :: "64 word \<Rightarrow> string"
  ft_parse :: "string \<Rightarrow> 64 word option"
  ft_of_int :: "int \<Rightarrow> 64 word"

datatype lua_error = RuntimeError string | SerializeError string | Panicked

definition all_digits :: "string \<Rightarrow> bool" where
  "all_digits s = (s \<noteq> [] \<and> list_all (\<lambda>c. 48 \<le> (of_char c :: nat) \<and> (of_char c :: nat) \<le> 57) s)"

definition digits_value :: "string \<Rightarrow> int" where
  "digits_value s = foldl (\<lambda>n c. 10 * n + (int (of_char c) - 48)) 0 s"

text \<open>\<open>i64::from_str\<close>: one optional sign, digits, in range.\<close>

definition parse_i64 :: "string \<Rightarrow> int option" where
  "parse_i64 s =
     (let neg = starts_with s ''-'';
          digits = (if neg \<or> starts_with s ''+'' then tl s else s);
          n = (if neg then - digits_value digits else digits_value digits)
      in if all_digits digits \<and> - (2 ^ 63) \<le> n \<and> n < 2 ^ 63 then Some n else None)"

definition parse_bool :: "string \<Rightarrow> bool option" where
  "parse_bool s = (if s = ''true'' then Some True else if s = ''false'' then Some False else None)"

text \<open>\<open>lua.to_value\<close>: null is a light userdata, numbers beyond \<open>i64\<close> become floats.\<close>

fun json_into_lua :: "float_text \<Rightarrow> json \<Rightarrow> lua_value" where
  "json_into_lua F JNull = LOther"
| "json_into_lua F (JBool b) = LBool b"
| "json_into_lua F (JInt i) = (if - (2 ^ 63) \<le> i \<and> i < 2 ^ 63 then LInt i else LNum (ft_of_int F i))"
| "json_into_lua F (JFloat w) = LNum w"
| "json_into_lua F (JStr s) = LStr s"
| "json_into_lua F (JArr xs) = LTable (Inr (JArr xs))"
| "json_into_lua F (JObj kvs) = LTable (Inr (JObj kvs))"

definition mismatch :: "string \<Rightarrow> lua_error" where
  "mismatch expected = RuntimeError (''Stored value is not a valid '' @ expected @ ''.'')"

definition pair_into_lua :: "codec \<Rightarrow> float_text \<Rightarrow> value_type \<Rightarrow> string \<Rightarrow> lua_error + lua_value" where
  "pair_into_lua J F t v =
     (case t of
        StringType \<Rightarrow> Inr (LStr v)
      | NumberType \<Rightarrow> (case ft_parse F v of None \<Rightarrow> Inl (mismatch ''number'') | Some w \<Rightarrow> Inr (LNum w))
      | IntegerType \<Rightarrow> (case parse_i64 v of None \<Rightarrow> Inl (mismatch ''integer'') | Some i \<Rightarrow> Inr (LInt i))
      | BooleanType \<Rightarrow> (case parse_bool v of None \<Rightarrow> Inl (mismatch ''boolean'') | Some b \<Rightarrow> Inr (LBool b))
      | JsonType \<Rightarrow> (case from_text J v of None \<Rightarrow> Inl (mismatch ''json'') | Some j \<Rightarrow> Inr (json_into_lua F j)))"

definition into_service_value :: "codec \<Rightarrow> float_text \<Rightarrow> lua_value \<Rightarrow> lua_error + (value_type \<times> string) option" where
  "into_service_value J F v =
     (case v of
        LNil \<Rightarrow> Inr None
      | LBool b \<Rightarrow> Inr (Some (BooleanType, if b then ''true'' else ''false''))
      | LInt i \<Rightarrow> Inr (Some (IntegerType, show_int i))
      | LNum w \<Rightarrow> Inr (Some (NumberType, ft_show F w))
      | LStr s \<Rightarrow> (case from_utf8 s of None \<Rightarrow> Inl Panicked | Some t \<Rightarrow> Inr (Some (StringType, t)))
      | LTable t \<Rightarrow> (case t of Inl e \<Rightarrow> Inl (SerializeError e) | Inr j \<Rightarrow> Inr (Some (JsonType, to_text J j)))
      | LVector t \<Rightarrow> (case t of Inl e \<Rightarrow> Inl (SerializeError e) | Inr j \<Rightarrow> Inr (Some (JsonType, to_text J j)))
      | LOther \<Rightarrow> Inl (SerializeError ''Invalid datatype provided''))"

record kv_handle =
  kh_project :: string
  kh_namespace :: string

fun status_message :: "status \<Rightarrow> string" where
  "status_message (Internal m) = m"
| "status_message (InvalidArgument m) = m"
| "status_message (NotFound m) = m"
| "status_message (Aborted m) = m"
| "status_message (FailedPrecondition m) = m"
| "status_message (AlreadyExists m) = m"
| "status_message (Unauthenticated m) = m"

definition FORBIDDEN :: string where
  "FORBIDDEN = ''not available in workflow code, perform effects inside wf:step''"

text \<open>\<open>effects\<close> is false in a workflow vm outside a step body.\<close>

definition assert_effects_allowed :: "bool \<Rightarrow> (kv_store, lua_error, unit) fallible" where
  "assert_effects_allowed effects = (if effects then okE () else failE (RuntimeError FORBIDDEN))"

definition remote :: "kv_env \<Rightarrow> (kv_store, status, 'a) fallible \<Rightarrow> (kv_store, status, 'a) fallible" where
  "remote ke m s = through (ke_wire ke (kv_sent s)) m s"

definition as_lua :: "(kv_store, status, 'a) fallible \<Rightarrow> (kv_store, lua_error, 'a) fallible" where
  "as_lua m = map_errE (\<lambda>st. RuntimeError (status_message st)) m"

definition handle_request :: "kv_handle \<Rightarrow> string \<Rightarrow> pair_request" where
  "handle_request h k = \<lparr>pq_project = kh_project h, pq_namespace = kh_namespace h, pq_key = k\<rparr>"

definition handle_pair :: "kv_handle \<Rightarrow> string \<Rightarrow> value_type \<times> string \<Rightarrow> pair" where
  "handle_pair h k tv = \<lparr>pr_project = kh_project h, pr_namespace = kh_namespace h, pr_type = value_type_code (fst tv),
     pr_ttl = None, pr_key = k, pr_value = snd tv\<rparr>"

definition handle_get :: "kv_env \<Rightarrow> codec \<Rightarrow> float_text \<Rightarrow> int \<Rightarrow> bool \<Rightarrow> kv_handle \<Rightarrow> string \<Rightarrow> (kv_store, lua_error, lua_value) fallible" where
  "handle_get ke J F now effects h k =
     thenE (assert_effects_allowed effects) (\<lambda>s.
       case remote ke (rpc_get_pair ke now (handle_request h k)) s of
         (Inr p, s') \<Rightarrow> (pair_into_lua J F (value_type_of_code (pr_type p)) (pr_value p), s')
       | (Inl (NotFound m), s') \<Rightarrow> (Inr LNil, s')
       | (Inl st, s') \<Rightarrow> (Inl (RuntimeError (status_message st)), s'))"

definition handle_set :: "kv_env \<Rightarrow> codec \<Rightarrow> float_text \<Rightarrow> int \<Rightarrow> bool \<Rightarrow> kv_handle \<Rightarrow> string \<Rightarrow> lua_value \<Rightarrow> (kv_store, lua_error, unit) fallible" where
  "handle_set ke J F now effects h k v =
     thenE (assert_effects_allowed effects)
       (case into_service_value J F v of
          Inl e \<Rightarrow> failE e
        | Inr (Some tv) \<Rightarrow> as_lua (remote ke (rpc_set_pairs ke now [handle_pair h k tv]))
        | Inr None \<Rightarrow> as_lua (remote ke (rpc_delete_pairs ke now [handle_request h k])))"

text \<open>The entries of the table in iteration order, a key that is no string as the error it gives.\<close>

fun batch_split :: "codec \<Rightarrow> float_text \<Rightarrow> kv_handle \<Rightarrow> (string + string \<times> lua_value) list
    \<Rightarrow> lua_error + pair list \<times> pair_request list" where
  "batch_split J F h [] = Inr ([], [])"
| "batch_split J F h (Inl e # es) = Inl (RuntimeError e)"
| "batch_split J F h (Inr (k, v) # es) =
     (case into_service_value J F v of
        Inl e \<Rightarrow> Inl e
      | Inr sv \<Rightarrow>
          (case batch_split J F h es of
             Inl e \<Rightarrow> Inl e
           | Inr (ps, qs) \<Rightarrow>
               (case sv of
                  Some tv \<Rightarrow> Inr (handle_pair h k tv # ps, qs)
                | None \<Rightarrow> Inr (ps, handle_request h k # qs))))"

definition handle_set_batch :: "kv_env \<Rightarrow> codec \<Rightarrow> float_text \<Rightarrow> int \<Rightarrow> bool \<Rightarrow> kv_handle \<Rightarrow> (string + string \<times> lua_value) list
    \<Rightarrow> (kv_store, lua_error, unit) fallible" where
  "handle_set_batch ke J F now effects h es =
     thenE (assert_effects_allowed effects)
       (case batch_split J F h es of
          Inl e \<Rightarrow> failE e
        | Inr (ps, qs) \<Rightarrow>
            thenE (if ps \<noteq> [] then as_lua (remote ke (rpc_set_pairs ke now ps)) else okE ())
              (if qs \<noteq> [] then as_lua (remote ke (rpc_delete_pairs ke now qs)) else okE ()))"

fun collect_keys :: "kv_handle \<Rightarrow> (string + string) list \<Rightarrow> lua_error + pair_request list" where
  "collect_keys h [] = Inr []"
| "collect_keys h (Inl e # ks) = Inl (RuntimeError e)"
| "collect_keys h (Inr k # ks) = (case collect_keys h ks of Inl e \<Rightarrow> Inl e | Inr qs \<Rightarrow> Inr (handle_request h k # qs))"

definition handle_delete :: "kv_env \<Rightarrow> int \<Rightarrow> bool \<Rightarrow> kv_handle \<Rightarrow> (string + string) list \<Rightarrow> (kv_store, lua_error, unit) fallible" where
  "handle_delete ke now effects h ks =
     thenE (assert_effects_allowed effects)
       (case collect_keys h ks of
          Inl e \<Rightarrow> failE e
        | Inr qs \<Rightarrow> as_lua (remote ke (rpc_delete_pairs ke now qs)))"

end
