(* ===== verification/Handles.thy ===== *)
theory Handles
  imports Routing_Spec Kv
begin

text \<open>
  What a script holds of other objects and of its own (\<open>actias-worker-core/src/extensions/objects.rs\<close>): class,
  instance and workflow handles, whose method calls leave the vm through the router, and the surface of
  an object's state, \<open>state.sql\<close>, \<open>state.now\<close> and \<open>state:set_alarm\<close>. A class method is a tree over this
  surface. Every such method stays inside its call, so the guard's promise holds for it without further
  assumption on the script.
\<close>

section \<open>Durations\<close>

text \<open>Arithmetic of \<open>f64\<close> is a parameter; the cast to \<open>i64\<close> saturates, the sums of \<open>i64\<close> wrap.\<close>

record 'f f64 =
  fl_parse :: "string \<Rightarrow> 'f option"
  fl_times :: "'f \<Rightarrow> nat \<Rightarrow> 'f"
  fl_to_i64 :: "'f \<Rightarrow> int"

definition wrap_i64 :: "int \<Rightarrow> int" where
  "wrap_i64 n = sint (word_of_int n :: 64 word)"

definition not_a_duration :: "string \<Rightarrow> string" where
  "not_a_duration raw = quoted raw @ '' is not a duration.''"

definition duration_unit :: "string \<Rightarrow> string + nat" where
  "duration_unit u =
     (if u = ''ms'' then Inr 1 else if u = ''s'' then Inr 1000 else if u = ''m'' then Inr (60 * 1000)
      else if u = ''h'' then Inr (3600 * 1000) else if u = ''d'' then Inr (86400 * 1000)
      else Inl (''Unknown duration unit '' @ quoted u @ ''.''))"

definition number_char :: "char \<Rightarrow> bool" where
  "number_char c \<longleftrightarrow> c = CHR ''.'' \<or> CHR ''0'' \<le> c \<and> c \<le> CHR ''9''"

definition parse_duration_ms :: "'f f64 \<Rightarrow> string \<Rightarrow> string + int" where
  "parse_duration_ms fl text =
     (let raw = trim text in
      case fl_parse fl raw of
        Some seconds \<Rightarrow> Inr (fl_to_i64 fl (fl_times fl seconds 1000))
      | None \<Rightarrow>
          (let number = takeWhile number_char raw; u = dropWhile number_char raw in
           if u = '''' then Inl (not_a_duration raw)
           else case fl_parse fl number of
             None \<Rightarrow> Inl (not_a_duration raw)
           | Some n \<Rightarrow>
               (case duration_unit (trim u) of
                  Inl e \<Rightarrow> Inl e
                | Inr factor \<Rightarrow> Inr (fl_to_i64 fl (fl_times fl n factor)))))"

section \<open>Handles\<close>

text \<open>What a vm knows besides its globals: the call it runs (only in pinned vms), the chain that call
  arrived on, whether a router is installed, and whether effects are allowed (always, outside workflow
  code).\<close>

record vm_context =
  vc_current :: "(string \<times> string) option"
  vc_chain :: "string list option"
  vc_router :: bool
  vc_effects :: bool

text \<open>A Lua argument is its serialized value or the error of serializing it.\<close>

type_synonym lua_arg = "string + json"

fun plain_values :: "lua_arg list \<Rightarrow> string + json list" where
  "plain_values [] = Inr []"
| "plain_values (a # as) =
     (case a of Inl e \<Rightarrow> Inl e | Inr v \<Rightarrow> (case plain_values as of Inl e \<Rightarrow> Inl e | Inr vs \<Rightarrow> Inr (v # vs)))"

record instance_handle =
  ih_class :: string
  ih_name :: string

definition class_get :: "string \<Rightarrow> string \<Rightarrow> instance_handle" where
  "class_get cls name = \<lparr>ih_class = cls, ih_name = name\<rparr>"

text \<open>Indexing an instance handle gives the call of that method: what it hands to the router.\<close>

definition instance_call :: "vm_context \<Rightarrow> instance_handle \<Rightarrow> string \<Rightarrow> lua_arg list \<Rightarrow> string + object_target" where
  "instance_call cx ih method args =
     (if \<not> vc_effects cx then Inl FORBIDDEN
      else case plain_values args of
        Inl e \<Rightarrow> Inl e
      | Inr vs \<Rightarrow>
          if \<not> vc_router cx then Inl ''Objects are not available in this runtime.''
          else Inr \<lparr>ot_class = ih_class ih, ot_name = ih_name ih, ot_method = method, ot_args = vs,
            ot_chain = (case vc_chain cx of Some ch \<Rightarrow> ch | None \<Rightarrow> []), ot_caller = None\<rparr>)"

definition run_handle :: "string \<Rightarrow> string \<Rightarrow> instance_handle" where
  "run_handle definition run = \<lparr>ih_class = WORKFLOW_CLASS, ih_name = definition @ ''/'' @ run\<rparr>"

text \<open>\<open>start\<close> of a workflow definition: the input, absent or serialized, and the \<open>id\<close> of the options.\<close>

definition start_call :: "vm_context \<Rightarrow> string \<Rightarrow> lua_arg option \<Rightarrow> string option \<Rightarrow> string + instance_handle \<times> object_target" where
  "start_call cx definition input run =
     (case (case input of None \<Rightarrow> Inr JNull | Some a \<Rightarrow> a) of
        Inl e \<Rightarrow> Inl e
      | Inr v \<Rightarrow>
     (case run of
        None \<Rightarrow> Inl ''start takes the input and { id = \"...\" }; the id is the run's identity, so a retried start joins it.''
      | Some i \<Rightarrow>
          if trim i = '''' \<or> CHR ''/'' \<in> set i then Inl ''A run id is a non-empty string without '/'.''
          else case instance_call cx (run_handle definition i) ''start'' [Inr v] of
            Inl e \<Rightarrow> Inl e | Inr t \<Rightarrow> Inr (run_handle definition i, t)))"

section \<open>The state of an object\<close>

datatype 'f duration = DStr string | DInt int | DNum 'f | DOther

definition delay_ms :: "'f f64 \<Rightarrow> 'f duration \<Rightarrow> string + int" where
  "delay_ms fl d =
     (case d of
        DStr raw \<Rightarrow> parse_duration_ms fl raw
      | DInt seconds \<Rightarrow> Inr (wrap_i64 (seconds * 1000))
      | DNum seconds \<Rightarrow> Inr (fl_to_i64 fl (fl_times fl seconds 1000))
      | DOther \<Rightarrow> Inl ''set_alarm takes a duration: \"30s\", \"24h\" or seconds.'')"

definition state_set_alarm :: "'f f64 \<Rightarrow> vm_context \<Rightarrow> 'f duration \<Rightarrow> ('u home, unit) cmd" where
  "state_set_alarm fl cx d =
     (case delay_ms fl d of
        Inl e \<Rightarrow> failE e
      | Inr delay \<Rightarrow>
          (case vc_current cx of
             None \<Rightarrow> failE ''set_alarm only works inside an object method.''
           | Some (cls, name) \<Rightarrow>
               bindE unix_now_ms (\<lambda>now.
                 set_alarm \<lparr>pa_due_ms = wrap_i64 (now + delay), pa_class = cls, pa_name = name,
                   pa_own_key = (case vc_chain cx of Some ch \<Rightarrow> if ch = [] then '''' else last ch | None \<Rightarrow> '''')\<rparr>)))"

definition sql_exec :: "'u sql_engine \<Rightarrow> string \<Rightarrow> lua_arg list \<Rightarrow> ('u home, json) cmd" where
  "sql_exec eng text ps =
     (case plain_values ps of
        Inl e \<Rightarrow> failE e
      | Inr vs \<Rightarrow> bindE (with_storage (exec eng text vs)) (\<lambda>n. okE (JInt n)))"

definition sql_query :: "'u sql_engine \<Rightarrow> string \<Rightarrow> lua_arg list \<Rightarrow> ('u home, json list) cmd" where
  "sql_query eng text ps =
     (case plain_values ps of Inl e \<Rightarrow> failE e | Inr vs \<Rightarrow> with_storage (query eng text vs))"

definition sql_query_one :: "'u sql_engine \<Rightarrow> string \<Rightarrow> lua_arg list \<Rightarrow> ('u home, json) cmd" where
  "sql_query_one eng text ps =
     bindE (sql_query eng text ps) (\<lambda>rows. okE (case rows of r # _ \<Rightarrow> r | [] \<Rightarrow> JNull))"

section \<open>Methods\<close>

text \<open>A method as the tree of what it does through the surface; an error may be caught, so every continuation
  gets the error or the answer. What the vm remembers in plain keys of the state table is the script's
  own and may be any function of what it has seen.\<close>

datatype 'f method_tree =
    Answer json
  | Throw string
  | Sql_Exec string "lua_arg list" "string + json \<Rightarrow> 'f method_tree"
  | Sql_Query string "lua_arg list" "string + json list \<Rightarrow> 'f method_tree"
  | Sql_Query_One string "lua_arg list" "string + json \<Rightarrow> 'f method_tree"
  | Now "int \<Rightarrow> 'f method_tree"
  | Set_Alarm "'f duration" "string + unit \<Rightarrow> 'f method_tree"
  | Call_Method instance_handle string "lua_arg list" "string + json \<Rightarrow> 'f method_tree"
  | Start_Run string "lua_arg option" "string option" "string + instance_handle \<times> json \<Rightarrow> 'f method_tree"

text \<open>The world around a vm: floats, SQL engine, and the router, whose answer may depend on everything sent
  before.\<close>

record ('f, 'u) guest_env =
  ge_f64 :: "'f f64"
  ge_engine :: "'u sql_engine"
  ge_answer :: "object_target list \<Rightarrow> object_target \<Rightarrow> string + json"

type_synonym ('u, 'a) talk = "object_target list \<Rightarrow> 'u home \<Rightarrow> (string + 'a) \<times> object_target list \<times> 'u home"

definition here :: "('u home, 'a) cmd \<Rightarrow> (string + 'a \<Rightarrow> ('u, 'b) talk) \<Rightarrow> ('u, 'b) talk" where
  "here m k ts h = (case m h of (r, h1) \<Rightarrow> k r ts h1)"

definition send_target :: "('f, 'u) guest_env \<Rightarrow> string + object_target \<Rightarrow> (string + json \<Rightarrow> ('u, 'b) talk) \<Rightarrow> ('u, 'b) talk" where
  "send_target env t k ts h =
     (case t of Inl e \<Rightarrow> k (Inl e) ts h | Inr t \<Rightarrow> k (ge_answer env ts t) (ts @ [t]) h)"

primrec run_method :: "('f, 'u) guest_env \<Rightarrow> vm_context \<Rightarrow> 'f method_tree \<Rightarrow> ('u, json) talk" where
  "run_method env cx (Answer v) = (\<lambda>ts h. (Inr v, ts, h))"
| "run_method env cx (Throw e) = (\<lambda>ts h. (Inl e, ts, h))"
| "run_method env cx (Sql_Exec text ps k) = here (sql_exec (ge_engine env) text ps) (\<lambda>r. run_method env cx (k r))"
| "run_method env cx (Sql_Query text ps k) = here (sql_query (ge_engine env) text ps) (\<lambda>r. run_method env cx (k r))"
| "run_method env cx (Sql_Query_One text ps k) = here (sql_query_one (ge_engine env) text ps) (\<lambda>r. run_method env cx (k r))"
| "run_method env cx (Now k) = here unix_now_ms (\<lambda>r. run_method env cx (k (case r of Inr n \<Rightarrow> n | Inl _ \<Rightarrow> 0)))"
| "run_method env cx (Set_Alarm d k) = here (state_set_alarm (ge_f64 env) cx d) (\<lambda>r. run_method env cx (k r))"
| "run_method env cx (Call_Method ih m args k) = send_target env (instance_call cx ih m args) (\<lambda>r. run_method env cx (k r))"
| "run_method env cx (Start_Run d i run k) =
     send_target env (map_sum id snd (start_call cx d i run))
       (\<lambda>r. run_method env cx (k (case r of Inl e \<Rightarrow> Inl e | Inr v \<Rightarrow> (case start_call cx d i run of Inl e \<Rightarrow> Inl e | Inr (ih, _) \<Rightarrow> Inr (ih, v)))))"

text \<open>The classes a vm registered, dispatched for one call: the chain and the instance the dispatch installs.\<close>

type_synonym 'f method_table = "string \<Rightarrow> (string \<Rightarrow> (string \<Rightarrow> json list \<Rightarrow> 'f method_tree) option) option"

definition dispatch_context :: "dispatch_call \<Rightarrow> vm_context" where
  "dispatch_context c = \<lparr>vc_current = Some (dc_class c, dc_name c), vc_chain = Some (dc_chain c), vc_router = True, vc_effects = True\<rparr>"

definition surface_guest :: "('f, 'u) guest_env \<Rightarrow> 'f method_table \<Rightarrow> dispatch_call \<Rightarrow> 'u guest" where
  "surface_guest env tbl c cls =
     map_option (\<lambda>methods m. map_option (\<lambda>f name args h.
       case run_method env (dispatch_context c) (f name args) [] h of (r, ts, h') \<Rightarrow> (r, h')) (methods m)) (tbl cls)"

section \<open>Methods stay inside their call\<close>

lemma keeps_here:
  assumes "keeps P m" "\<And>r ts h. P h \<Longrightarrow> P (snd (snd (k r ts h)))" "P h"
  shows "P (snd (snd (here m k ts h)))"
  using assms by (auto simp: here_def split: prod.splits dest: keepsD)

lemma run_method_keeps:
  assumes sql: "\<And>text ps. keeps P (sql_exec (ge_engine env) text ps)" "\<And>text ps. keeps P (sql_query (ge_engine env) text ps)"
      "\<And>text ps. keeps P (sql_query_one (ge_engine env) text ps)"
    and now: "keeps P unix_now_ms" and arm: "\<And>d. keeps P (state_set_alarm (ge_f64 env) cx d)"
    and "P h"
  shows "P (snd (snd (run_method env cx t ts h)))"
  using \<open>P h\<close>
proof (induction t arbitrary: ts h)
  case (Sql_Exec q ps k)
  show ?case unfolding run_method.simps by (rule keeps_here [where P = P, OF sql(1) _ Sql_Exec.prems]) (rule Sql_Exec.IH [OF rangeI])
next
  case (Sql_Query q ps k)
  show ?case unfolding run_method.simps by (rule keeps_here [where P = P, OF sql(2) _ Sql_Query.prems]) (rule Sql_Query.IH [OF rangeI])
next
  case (Sql_Query_One q ps k)
  show ?case unfolding run_method.simps by (rule keeps_here [where P = P, OF sql(3) _ Sql_Query_One.prems]) (rule Sql_Query_One.IH [OF rangeI])
next
  case (Now k)
  show ?case unfolding run_method.simps by (rule keeps_here [where P = P, OF now _ Now.prems]) (rule Now.IH [OF rangeI])
next
  case (Set_Alarm d k)
  show ?case unfolding run_method.simps by (rule keeps_here [where P = P, OF arm _ Set_Alarm.prems]) (rule Set_Alarm.IH [OF rangeI])
next
  case (Call_Method ih m args k)
  then show ?case by (auto simp: send_target_def split: sum.splits)
next
  case (Start_Run d i run k)
  then show ?case by (auto simp: send_target_def split: sum.splits)
qed simp_all

lemma keeps_sql:
  assumes "engine_contained eng"
  shows "keeps (inside c) (sql_exec eng text ps)" "keeps bare (sql_exec eng text ps)"
    "keeps (inside c) (sql_query eng text ps)" "keeps bare (sql_query eng text ps)"
  unfolding sql_exec_def sql_query_def
  by (intro keeps_case_sum keeps_failE keeps_bindE keeps_okE keeps_intros keeps_with_storage_inside confined_txn_safe
      confined_script_sql [OF assms])+

lemma keeps_state_set_alarm: "keeps (inside c) (state_set_alarm fl cx d)" "keeps bare (state_set_alarm fl cx d)"
  unfolding state_set_alarm_def
  by (auto split: sum.split option.split intro!: keeps_failE keeps_bindE keeps_intros)

text \<open>No operation of the surface touches the marker of the vm's state table.\<close>

lemma marker_storage: "keeps state_made (with_storage m)"
  by (auto simp: keeps_def with_storage_def split: option.splits prod.splits)

lemma keeps_marker:
  "keeps state_made unix_now_ms" "keeps state_made (state_set_alarm fl cx d)"
  "keeps state_made (sql_exec eng q ps)" "keeps state_made (sql_query eng q ps)"
proof -
  show u: "keeps state_made unix_now_ms" by (simp add: keeps_def unix_now_ms_def)
  have "keeps state_made (set_alarm a)" for a
    unfolding set_alarm_def [abs_def] by (auto simp: keeps_def bindE_def writeE_def okE_def mirror_alarm_def with_storage_def
      split: option.splits prod.splits sum.splits)
  with u show "keeps state_made (state_set_alarm fl cx d)"
    unfolding state_set_alarm_def by (auto split: sum.split option.split intro!: keeps_failE keeps_bindE)
  show "keeps state_made (sql_exec eng q ps)" "keeps state_made (sql_query eng q ps)"
    unfolding sql_exec_def sql_query_def by (auto split: sum.split intro!: keeps_failE keeps_bindE keeps_okE marker_storage)
qed

lemma surface_method:
  assumes "surface_guest env tbl c cls = Some ms" "ms m = Some f"
  shows "\<exists>t. \<forall>h. f name args h = (case run_method env (dispatch_context c) t [] h of (r, ts, h') \<Rightarrow> (r, h'))"
  using assms by (auto simp: surface_guest_def)

lemma keeps_surface:
  assumes "surface_guest env tbl c cls = Some ms" "ms m = Some f"
    and "\<And>q ps. keeps P (sql_exec (ge_engine env) q ps)" "\<And>q ps. keeps P (sql_query (ge_engine env) q ps)"
    and "keeps P unix_now_ms" "\<And>d. keeps P (state_set_alarm (ge_f64 env) (dispatch_context c) d)"
  shows "keeps P (f name args)"
proof
  fix h assume h: "P h"
  obtain t where f: "\<forall>h. f name args h = (case run_method env (dispatch_context c) t [] h of (r, ts, h') \<Rightarrow> (r, h'))"
    using surface_method [OF assms(1,2)] by blast
  have one: "keeps P (sql_query_one (ge_engine env) q ps)" for q ps
    unfolding sql_query_one_def by (intro keeps_bindE assms(4) keeps_okE)
  show "P (snd (f name args h))"
    using run_method_keeps [where P = P, OF assms(3,4) one assms(5,6) h, of t "[]"] f by (cases "run_method env (dispatch_context c) t [] h") auto
qed

lemma surface_contained: "engine_contained (ge_engine env) \<Longrightarrow> guest_contained (surface_guest env tbl c)"
  unfolding guest_contained_def
  by (auto intro!: keeps_surface keeps_sql keeps_state_set_alarm keeps_intros)

lemma surface_marker: "marker_kept (surface_guest env tbl c)"
  unfolding marker_kept_def by (auto intro!: keeps_surface keeps_marker)

section \<open>What leaves a vm\<close>

text \<open>Every call a method makes carries the chain its own dispatch arrived on, and no caller: the router
  fills that in.\<close>

definition rides_on :: "vm_context \<Rightarrow> object_target \<Rightarrow> bool" where
  "rides_on cx t \<longleftrightarrow> ot_chain t = (case vc_chain cx of Some ch \<Rightarrow> ch | None \<Rightarrow> []) \<and> ot_caller t = None"

lemma instance_call_rides: "instance_call cx ih m args = Inr t \<Longrightarrow> rides_on cx t"
  by (auto simp: instance_call_def rides_on_def split: if_splits sum.splits)

lemma start_call_rides: "map_sum id snd (start_call cx d i run) = Inr t \<Longrightarrow> rides_on cx t"
  by (auto simp: start_call_def dest!: instance_call_rides split: if_splits sum.splits option.splits)

lemma send_rides:
  assumes "list_all (rides_on cx) ts" "\<And>t. x = Inr t \<Longrightarrow> rides_on cx t"
    and "\<And>r ts h. list_all (rides_on cx) ts \<Longrightarrow> list_all (rides_on cx) (fst (snd (k r ts h)))"
  shows "list_all (rides_on cx) (fst (snd (send_target env x k ts h)))"
  using assms by (cases x) (simp_all add: send_target_def)

lemma here_rides:
  assumes "list_all (rides_on cx) ts" "\<And>r ts h. list_all (rides_on cx) ts \<Longrightarrow> list_all (rides_on cx) (fst (snd (k r ts h)))"
  shows "list_all (rides_on cx) (fst (snd (here m k ts h)))"
  using assms by (simp add: here_def split: prod.split)

lemma run_method_rides: "list_all (rides_on cx) ts \<Longrightarrow> list_all (rides_on cx) (fst (snd (run_method env cx mt ts h)))"
proof (induction mt arbitrary: ts h)
  case (Call_Method ih m args k)
  show ?case unfolding run_method.simps by (rule send_rides [OF Call_Method.prems instance_call_rides Call_Method.IH [OF rangeI]])
next
  case (Start_Run d i run k)
  show ?case unfolding run_method.simps by (rule send_rides [OF Start_Run.prems start_call_rides Start_Run.IH [OF rangeI]])
qed (simp_all add: here_rides)

text \<open>What the router puts into a mailbox is what the vm's own dispatch decodes.\<close>

lemma decode_payload:
  "decode_dispatch why (dispatch_payload t chain)
     = Inr \<lparr>dc_class = ot_class t, dc_method = ot_method t, dc_name = ot_name t, dc_args = ot_args t, dc_chain = chain\<rparr>"
  by (simp add: decode_dispatch_def dispatch_payload_def has_key_def Let_def)

text \<open>C27. Calls between objects cannot wait for each other in a ring: when a method of a running call calls
  another object, on its own or by starting a run, and the router puts that call into a mailbox or sends
  it to another node, then the object was not on the chain of the running call, and the new call's
  chain is that chain with the object added. This holds whatever the script does, for every call but
  one to the running object itself.\<close>

theorem nested_calls_never_revisit:
  assumes "distinct (dc_chain c)" "run_method env (dispatch_context c) mt [] h = (r, ts, h')" "t \<in> set ts"
    and "k = key_display (key_scoped (pp_project pp) (pp_script pp) (ot_class t) (ot_name t))" "dc_chain c = [] \<or> k \<noteq> last (dc_chain c)"
  shows "case fst (route_call fc now pp t nd sh) of
      Deliver i q \<Rightarrow> (\<exists>c'. decode_dispatch why q = Inr c' \<and> dc_class c' = ot_class t \<and> dc_name c' = ot_name t
        \<and> dc_chain c' = dc_chain c @ [k] \<and> distinct (dc_chain c'))
    | Hop node oc \<Rightarrow> oc_chain oc = dc_chain c @ [k] \<and> distinct (oc_chain oc)
    | _ \<Rightarrow> True"
proof -
  let ?key = "key_scoped (pp_project pp) (pp_script pp) (ot_class t) (ot_name t)"
  have "rides_on (dispatch_context c) t"
    using run_method_rides [of "dispatch_context c" "[]" env mt h] assms(2,3) by (simp add: list_all_iff)
  then have "ot_chain t = dc_chain c" by (simp add: rides_on_def dispatch_context_def)
  then have chain: "call_chain ?key t = Inr ch \<Longrightarrow> ch = dc_chain c @ [k] \<and> distinct ch" for ch
    using assms(1,4,5) by (auto simp: call_chain_def extend_call_chain_def split: if_splits)
  show ?thesis
  proof (cases "fst (route_call fc now pp t nd sh)")
    case (Deliver i q)
    then obtain ch where "call_chain ?key t = Inr ch" "q = dispatch_payload (spoken_by pp t) ch"
      by (auto simp: route_call_def spoken_by_def route_inner_def Let_def call_chain_def
          split: sum.splits option.splits prod.splits resolve_error.splits if_splits)
    with Deliver chain [of ch] show ?thesis by (auto simp: decode_payload spoken_by_def)
  next
    case (Hop node oc)
    then obtain ch where "call_chain ?key t = Inr ch" "oc_chain oc = ch"
      by (auto simp: route_call_def route_inner_def Let_def call_chain_def wire_call_def
          split: sum.splits option.splits prod.splits resolve_error.splits if_splits)
    with Hop chain [of ch] show ?thesis by auto
  qed simp_all
qed


section \<open>A method to try it on\<close>

text \<open>It writes, arms an alarm, calls a room and then fails.\<close>

definition no_floats :: "unit f64" where
  "no_floats = \<lparr>fl_parse = (\<lambda>s. None), fl_times = (\<lambda>x n. x), fl_to_i64 = (\<lambda>x. 0)\<rparr>"

definition hall_env :: "(unit, string list) guest_env" where
  "hall_env = \<lparr>ge_f64 = no_floats, ge_engine = log_engine, ge_answer = (\<lambda>ts t. Inr JNull)\<rparr>"

definition hall_method :: "unit method_tree" where
  "hall_method = Sql_Exec ''INSERT'' [] (\<lambda>_. Set_Alarm (DInt 30) (\<lambda>_. Call_Method (class_get ''Room'' ''x'') ''hello'' [Inr (JInt 7)] (\<lambda>_. Throw ''boom'')))"

definition hall_table :: "unit method_table" where
  "hall_table cls = (if cls = ''Hall'' then Some (\<lambda>m. if m = ''open'' then Some (\<lambda>name args. hall_method) else None) else None)"

definition hall_call :: dispatch_call where
  "hall_call = \<lparr>dc_class = ''Hall'', dc_method = ''open'', dc_name = ''y'', dc_args = [], dc_chain = [''p/Hall/y'']\<rparr>"

lemma hall_fails: "fst (guest_dispatch (surface_guest hall_env hall_table hall_call) hall_call (begun log_home)) = Inl ''boom''"
  by code_simp


lemma hall_calls: "fst (snd (run_method hall_env (dispatch_context hall_call) hall_method [] (begun log_home))) = [say_hello [''p/Hall/y'']]"
  by (simp add: hall_method_def hall_env_def here_def send_target_def instance_call_def dispatch_context_def hall_call_def class_get_def say_hello_def
      split: prod.split)

theorem nested_calls_never_revisit_witness:
  "\<exists>c'. decode_dispatch (\<lambda>_. '''') (dispatch_payload (spoken_by first_prepared (say_hello [''p/Hall/y''])) [''p/Hall/y'', ''p/Room/x'']) = Inr c'
     \<and> dc_chain c' = [''p/Hall/y'', ''p/Room/x''] \<and> distinct (dc_chain c')"
proof -
  let ?t = "say_hello [''p/Hall/y'']"
  obtain r ts h' where run: "run_method hall_env (dispatch_context hall_call) hall_method [] (begun log_home) = (r, ts, h')" by (metis prod.exhaust)
  then have t: "?t \<in> set ts" using hall_calls by simp
  have k: "''p/Room/x'' = key_display (key_scoped (pp_project first_prepared) (pp_script first_prepared) (ot_class ?t) (ot_name ?t))"
    by (simp add: hello_plain room_key_facts)
  have d: "distinct (dc_chain hall_call)" "dc_chain hall_call = [] \<or> ''p/Room/x'' \<noteq> last (dc_chain hall_call)" by (simp_all add: hall_call_def)
  have "resolve_handle fleet_of_two_config 1 room_key (a_node (Some ''nb'') room_host) told = (Inr 0, a_node (Some ''nb'') room_host, told)"
    by (rule resident_resolves) (simp add: room_resident)
  then have "fst (route_call fleet_of_two_config 1 first_prepared ?t (a_node (Some ''nb'') room_host) told)
      = Deliver 0 (dispatch_payload (spoken_by first_prepared ?t) [''p/Hall/y'', ''p/Room/x''])"
    by (simp add: route_call_spoken route_inner_def Let_def hello_plain room_key_facts plain_not_bypassed call_chain_def extend_call_chain_def)
  with nested_calls_never_revisit [OF d(1) run t k d(2), where fc = fleet_of_two_config and now = 1 and nd = "a_node (Some ''nb'') room_host" and sh = told and why = "\<lambda>_. ''''"]
  show ?thesis by (auto simp: hall_call_def)
qed

section \<open>Alarms and runs\<close>

text \<open>An alarm a method sets is the object's own: it names the class and the instance of the running call and
  its key, and replaces the one before.\<close>

lemma alarm_is_own:
  assumes "state_set_alarm fl (dispatch_context c) d h = (Inr u, h')" "dc_chain c \<noteq> []"
  shows "\<exists>delay. delay_ms fl d = Inr delay \<and> alarm h' = Some \<lparr>pa_due_ms = wrap_i64 (reading h (ticks h) + delay), pa_class = dc_class c,
     pa_name = dc_name c, pa_own_key = last (dc_chain c)\<rparr>"
  using assms by (auto simp: state_set_alarm_def dispatch_context_def bindE_def unix_now_ms_def failE_def split: sum.splits dest!: arg_cong [where f = snd])

text \<open>A run that \<open>start\<close> accepts is named by its definition and its id: the name tells both.\<close>

lemma last_slash: "CHR ''/'' \<notin> set r \<Longrightarrow> CHR ''/'' \<notin> set r' \<Longrightarrow> d @ CHR ''/'' # r = d' @ CHR ''/'' # r' \<Longrightarrow> d = d' \<and> r = r'"
  by (auto simp: append_eq_append_conv2 Cons_eq_append_conv append_eq_Cons_conv)

lemma run_name_inj:
  assumes "start_call cx d i (Some r) = Inr (ih, t)" "start_call cx' d' i' (Some r') = Inr (ih, t')"
  shows "d = d' \<and> r = r'"
proof -
  from assms have "ih = run_handle d r" "ih = run_handle d' r'" "CHR ''/'' \<notin> set r" "CHR ''/'' \<notin> set r'"
    by (auto simp: start_call_def split: if_splits sum.splits)
  then show ?thesis using last_slash [of r r' d d'] by (simp add: run_handle_def)
qed

text \<open>A child run is named after its own definition, its parent's id and the number of the spawn, but not
  after the definition of its parent: two parents of different definitions that share an id spawn the
  same child, and so does a caller who starts a run under that id.\<close>

lemma run_id_of_handle: "CHR ''/'' \<notin> set d \<Longrightarrow> CHR ''/'' \<notin> set r \<Longrightarrow> run_id_of (ih_name (run_handle d r)) = r"
proof -
  have one: "CHR ''/'' \<notin> set x \<Longrightarrow> split_char CHR ''/'' x = [x]" for x by (induction x) auto
  have "CHR ''/'' \<notin> set d \<Longrightarrow> split_char CHR ''/'' (d @ CHR ''/'' # y) = d # split_char CHR ''/'' y" for y by (induction d) auto
  then show "CHR ''/'' \<notin> set d \<Longrightarrow> CHR ''/'' \<notin> set r \<Longrightarrow> run_id_of (ih_name (run_handle d r)) = r"
    by (simp add: run_id_of_def run_handle_def one)
qed

lemma children_collide:
  assumes "CHR ''/'' \<notin> set p" "CHR ''/'' \<notin> set q" "CHR ''/'' \<notin> set r"
  shows "child_name d (run_id_of (ih_name (run_handle p r))) n = child_name d (run_id_of (ih_name (run_handle q r))) n"
    and "child_name d (run_id_of (ih_name (run_handle p r))) n = ih_name (run_handle d (r @ ''.'' @ show_nat n))"
  using assms by (simp_all add: run_id_of_handle child_name_def) (simp add: run_handle_def)

end
