(* ===== verification/Kv_Migrate.thy ===== *)
theory Kv_Migrate
  imports Prelude "HOL-Library.List_Lexorder" "HOL-Library.Char_ord"
begin

text \<open>
  The migrator of the key value store (\<open>actias-kv/src/migrate.rs\<close>): CQL files split into statements and
  applied in path order, each recorded after it ran. Executing a statement is the database's and a
  parameter; so is what the embedded directory holds.
\<close>

section \<open>Statements\<close>

text \<open>\<open>str::lines\<close>: pieces between line feeds without a trailing carriage return, no empty last line.\<close>

definition lines_of :: "string \<Rightarrow> string list" where
  "lines_of s =
     (let pieces = split_char CHR 0x0A s;
          whole = (if last pieces = [] then butlast pieces else pieces)
      in map (\<lambda>l. case strip_suffix l [CHR 0x0D] of Some r \<Rightarrow> r | None \<Rightarrow> l) whole)"

definition split_statements :: "string \<Rightarrow> string list" where
  "split_statements source =
     filter (\<lambda>s. s \<noteq> []) (map trim (split_char CHR '';''
       (join [CHR 0x0A] (filter (\<lambda>l. \<not> starts_with (trim_start l) ''--'') (lines_of source)))))"

section \<open>Applying\<close>

text \<open>The keyspace as the statements see it, and the ledger table once it exists.\<close>

record 'd keyspace =
  ks_data :: 'd
  ks_ledger :: "string list option"

record embedded =
  em_path :: string
  em_text :: "string option"

text \<open>The database: a statement's effect or its error, and the outcome of the ledger's own queries.\<close>

record 'd cql =
  cq_run :: "string \<Rightarrow> 'd \<Rightarrow> (string + unit) \<times> 'd"
  cq_ledger :: "string \<Rightarrow> string option"

fun run_file :: "'d cql \<Rightarrow> string \<Rightarrow> string list \<Rightarrow> ('d keyspace, unit) cmd" where
  "run_file q name [] = okE ()"
| "run_file q name (st # sts) = (\<lambda>k.
     case cq_run q st (ks_data k) of
       (Inl e, d) \<Rightarrow> (Inl (name @ '': '' @ e), k\<lparr>ks_data := d\<rparr>)
     | (Inr _, d) \<Rightarrow> run_file q name sts (k\<lparr>ks_data := d\<rparr>))"

definition ledger_query :: "'d cql \<Rightarrow> string \<Rightarrow> ('d keyspace \<Rightarrow> 'd keyspace) \<Rightarrow> ('d keyspace, unit) cmd" where
  "ledger_query q name f = (case cq_ledger q name of Some e \<Rightarrow> failE (name @ '': '' @ e) | None \<Rightarrow> writeE f)"

definition in_ledger :: "string \<Rightarrow> 'd keyspace \<Rightarrow> bool" where
  "in_ledger name k \<longleftrightarrow> (case ks_ledger k of None \<Rightarrow> False | Some ns \<Rightarrow> name \<in> set ns)"

definition record_name :: "string \<Rightarrow> 'd keyspace \<Rightarrow> 'd keyspace" where
  "record_name name k = k\<lparr>ks_ledger := map_option (\<lambda>ns. if name \<in> set ns then ns else ns @ [name]) (ks_ledger k)\<rparr>"

definition apply_file :: "'d cql \<Rightarrow> embedded \<Rightarrow> ('d keyspace, unit) cmd" where
  "apply_file q f =
     thenE (ledger_query q (em_path f) (\<lambda>k. k))
     (bindE (readE (in_ledger (em_path f))) (\<lambda>done.
        if done then okE ()
        else (case em_text f of
                None \<Rightarrow> failE (em_path f @ '' is not utf-8'')
              | Some source \<Rightarrow>
                  thenE (run_file q (em_path f) (split_statements source))
                    (ledger_query q (em_path f) (record_name (em_path f))))))"

fun apply_files :: "'d cql \<Rightarrow> embedded list \<Rightarrow> ('d keyspace, unit) cmd" where
  "apply_files q [] = okE ()"
| "apply_files q (f # fs) = thenE (apply_file q f) (apply_files q fs)"

definition pending_files :: "embedded list \<Rightarrow> embedded list" where
  "pending_files fs = sort_key em_path (filter (\<lambda>f. ends_with (em_path f) ''.cql'' \<and> em_path f \<noteq> ''bootstrap.cql'') fs)"

definition apply_migrations :: "'d cql \<Rightarrow> embedded list \<Rightarrow> ('d keyspace, unit) cmd" where
  "apply_migrations q fs =
     (case Option.bind (find (\<lambda>f. em_path f = ''bootstrap.cql'') fs) em_text of
        None \<Rightarrow> failE ''bootstrap.cql is missing from the embedded migrations''
      | Some bootstrap \<Rightarrow>
          thenE (run_file q ''bootstrap.cql'' (split_statements bootstrap))
          (thenE (ledger_query q ''schema_migrations'' (\<lambda>k. k\<lparr>ks_ledger := Some (case ks_ledger k of None \<Rightarrow> [] | Some ns \<Rightarrow> ns)\<rparr>))
          (apply_files q (pending_files fs))))"

section \<open>What it does\<close>

lemma split_statements_pieces: "st \<in> set (split_statements s) \<Longrightarrow> st \<noteq> [] \<and> CHR '';'' \<notin> set st"
proof -
  assume "st \<in> set (split_statements s)"
  then obtain p where "p \<in> set (split_char CHR '';'' (join [CHR 0x0A] (filter (\<lambda>l. \<not> starts_with (trim_start l) ''--'') (lines_of s))))"
      "st = trim p" "st \<noteq> []" by (auto simp: split_statements_def)
  moreover have "set (trim p) \<subseteq> set p" by (auto simp: trim_def dest!: set_dropWhileD)
  ultimately show ?thesis using split_char_no_sep by blast
qed

lemma run_file_ledger: "ks_ledger (snd (run_file q name sts k)) = ks_ledger k"
  by (induction sts arbitrary: k) (auto simp: okE_def split: prod.split sum.split)

lemma apply_file_records:
  assumes "apply_file q f k = (Inr (), k')" "ks_ledger k = Some ns"
  shows "ks_ledger k' = Some (if em_path f \<in> set ns then ns else ns @ [em_path f])"
  using assms run_file_ledger [of q "em_path f" "split_statements (the (em_text f))" k]
  by (auto simp: apply_file_def thenE_def ledger_query_def in_ledger_def record_name_def bindE_def writeE_def readE_def okE_def failE_def
      split: option.splits if_splits prod.splits sum.splits)

lemma apply_file_answers: "apply_file q f k = (Inr (), k') \<Longrightarrow> cq_ledger q (em_path f) = None"
  by (auto simp: apply_file_def thenE_def ledger_query_def bindE_def failE_def split: option.splits)

lemma apply_files_records:
  "apply_files q fs k = (Inr (), k') \<Longrightarrow> ks_ledger k = Some ns
     \<Longrightarrow> \<exists>ns'. ks_ledger k' = Some ns' \<and> set ns' = set ns \<union> em_path ` set fs \<and> (\<forall>f \<in> set fs. cq_ledger q (em_path f) = None)"
proof (induction fs arbitrary: k ns)
  case (Cons f fs)
  from Cons.prems(1) obtain k1 where k1: "apply_file q f k = (Inr (), k1)" "apply_files q fs k1 = (Inr (), k')"
    by (auto simp: thenE_def bindE_def split: prod.splits sum.splits)
  from Cons.IH [OF k1(2) apply_file_records [OF k1(1) Cons.prems(2)]] apply_file_answers [OF k1(1)] show ?case by (auto split: if_splits)
qed (simp add: okE_def)

lemma apply_files_done:
  "(\<And>f. f \<in> set fs \<Longrightarrow> cq_ledger q (em_path f) = None \<and> in_ledger (em_path f) k) \<Longrightarrow> apply_files q fs k = (Inr (), k)"
  by (induction fs) (auto simp: apply_file_def thenE_def ledger_query_def bindE_def writeE_def readE_def okE_def)

lemma in_ledger_data [simp]: "in_ledger n (k\<lparr>ks_data := d\<rparr>) = in_ledger n k"
  by (simp add: in_ledger_def)

text \<open>A successful run records every file, and running again applies the bootstrap statements and
  nothing else.\<close>

theorem migrations_rerunnable:
  assumes "apply_migrations q fs k = (Inr (), k')" "find (\<lambda>f. em_path f = ''bootstrap.cql'') fs = Some f" "em_text f = Some source"
    and "run_file q ''bootstrap.cql'' (split_statements source) k' = (Inr (), k2)"
  shows "(\<forall>g \<in> set (pending_files fs). in_ledger (em_path g) k') \<and> apply_migrations q fs k' = (Inr (), k2) \<and> ks_ledger k2 = ks_ledger k'"
proof -
  from assms(1-3) obtain k1 ns where q: "cq_ledger q ''schema_migrations'' = None"
    and files: "apply_files q (pending_files fs) (k1\<lparr>ks_ledger := Some ns\<rparr>) = (Inr (), k')"
    by (auto simp: apply_migrations_def thenE_def ledger_query_def bindE_def writeE_def failE_def split: prod.splits sum.splits option.splits)
  from apply_files_records [OF files] obtain ns' where ns': "ks_ledger k' = Some ns'" "em_path ` set (pending_files fs) \<subseteq> set ns'"
      "\<forall>g \<in> set (pending_files fs). cq_ledger q (em_path g) = None" by auto
  have l: "ks_ledger k2 = ks_ledger k'" using run_file_ledger [of q "''bootstrap.cql''" "split_statements source" k'] assms(4) by simp
  have self: "k2\<lparr>ks_ledger := Some ns'\<rparr> = k2" using l ns'(1) by (cases k2) simp
  have again: "apply_files q (pending_files fs) k2 = (Inr (), k2)"
    using l ns' by (intro apply_files_done) (auto simp: in_ledger_def)
  have "apply_files q (pending_files fs) (k2\<lparr>ks_ledger := Some ns'\<rparr>) = (Inr (), k2)" unfolding self by (rule again)
  then have "apply_migrations q fs k' = (Inr (), k2)"
    using assms(2-4) q l ns'(1) by (simp add: apply_migrations_def thenE_def ledger_query_def writeE_def)
  with ns' l show ?thesis by (auto simp: in_ledger_def)
qed

end
