(* ===== verification/Secrets.thy ===== *)
theory Secrets
  imports Bundles Journal Registry
begin

text \<open>
  Project secrets: envelope encryption (\<open>actias-secret-service/src/envelope.rs\<close>), the service over its
  version table (\<open>secret_service.rs\<close>, \<open>entity.rs\<close>) and the \<open>secret\<close> declaration of a vm with a run's
  pins (\<open>actias-worker-core/src/extensions/secrets.rs\<close>). AES-GCM is a parameter and entropy is what
  the operating system hands out. A rotation reads the head and inserts in separate statements, so
  it is a machine whose steps other requests may come between.
\<close>

section \<open>The envelope\<close>

definition KEY_LEN :: nat where
  "KEY_LEN = 32"

definition NONCE_LEN :: nat where
  "NONCE_LEN = 12"

datatype crypto_error = UnknownKek string | Corrupt

text \<open>Key, nonce and text to cipher text, and back.\<close>

record aead =
  ae_encrypt :: "string \<Rightarrow> string \<Rightarrow> string \<Rightarrow> string option"
  ae_decrypt :: "string \<Rightarrow> string \<Rightarrow> string \<Rightarrow> string option"

record sealed =
  sd_kek :: string
  sd_dek :: string
  sd_nonce :: string
  sd_cipher :: string

record master_keys =
  mk_active :: string
  mk_keks :: "string \<rightharpoonup> string"

text \<open>What one seal draws from the entropy source, or that a draw failed.\<close>

record entropy =
  rn_dek :: "string option"
  rn_nonce :: "string option"
  rn_wrap :: "string option"

definition envelope_new :: "string \<Rightarrow> string \<Rightarrow> (string \<times> string) option \<Rightarrow> master_keys" where
  "envelope_new active key previous = \<lparr>mk_active = active,
     mk_keks = (case previous of None \<Rightarrow> [active \<mapsto> key] | Some (i, k) \<Rightarrow> [active \<mapsto> key, i \<mapsto> k])\<rparr>"

definition kek :: "master_keys \<Rightarrow> string \<Rightarrow> crypto_error + string" where
  "kek mk i = (case mk_keks mk i of Some k \<Rightarrow> Inr k | None \<Rightarrow> Inl (UnknownKek i))"

definition wrap :: "aead \<Rightarrow> master_keys \<Rightarrow> string option \<Rightarrow> string \<Rightarrow> crypto_error + string" where
  "wrap A mk draw dek =
     (case draw of
        None \<Rightarrow> Inl Corrupt
      | Some n \<Rightarrow>
          (case kek mk (mk_active mk) of
             Inl e \<Rightarrow> Inl e
           | Inr k \<Rightarrow> (case ae_encrypt A k n dek of None \<Rightarrow> Inl Corrupt | Some c \<Rightarrow> Inr (n @ c))))"

definition unwrap :: "aead \<Rightarrow> master_keys \<Rightarrow> string \<Rightarrow> string \<Rightarrow> crypto_error + string" where
  "unwrap A mk i w =
     (if length w \<le> NONCE_LEN then Inl Corrupt
      else
        (case kek mk i of
           Inl e \<Rightarrow> Inl e
         | Inr k \<Rightarrow>
             (case ae_decrypt A k (take NONCE_LEN w) (drop NONCE_LEN w) of
                None \<Rightarrow> Inl Corrupt
              | Some dek \<Rightarrow> if length dek = KEY_LEN then Inr dek else Inl Corrupt)))"

definition seal :: "aead \<Rightarrow> master_keys \<Rightarrow> entropy \<Rightarrow> string \<Rightarrow> crypto_error + sealed" where
  "seal A mk rn plaintext =
     (case (rn_dek rn, rn_nonce rn) of
        (Some dek, Some nonce) \<Rightarrow>
          (case ae_encrypt A dek nonce plaintext of
             None \<Rightarrow> Inl Corrupt
           | Some c \<Rightarrow>
               (case wrap A mk (rn_wrap rn) dek of
                  Inl e \<Rightarrow> Inl e
                | Inr w \<Rightarrow> Inr \<lparr>sd_kek = mk_active mk, sd_dek = w, sd_nonce = nonce, sd_cipher = c\<rparr>))
      | _ \<Rightarrow> Inl Corrupt)"

definition open_sealed :: "aead \<Rightarrow> master_keys \<Rightarrow> sealed \<Rightarrow> crypto_error + string" where
  "open_sealed A mk sd =
     (case unwrap A mk (sd_kek sd) (sd_dek sd) of
        Inl e \<Rightarrow> Inl e
      | Inr dek \<Rightarrow>
          (if length (sd_nonce sd) \<noteq> NONCE_LEN then Inl Corrupt
           else case ae_decrypt A dek (sd_nonce sd) (sd_cipher sd) of None \<Rightarrow> Inl Corrupt | Some p \<Rightarrow> Inr p))"

definition rewrap :: "aead \<Rightarrow> master_keys \<Rightarrow> string option \<Rightarrow> string \<Rightarrow> string \<Rightarrow> crypto_error + string \<times> string" where
  "rewrap A mk draw i w =
     (case unwrap A mk i w of
        Inl e \<Rightarrow> Inl e
      | Inr dek \<Rightarrow> (case wrap A mk draw dek of Inl e \<Rightarrow> Inl e | Inr w' \<Rightarrow> Inr (mk_active mk, w')))"

section \<open>The version table\<close>

record secret_row =
  sr_project :: string
  sr_name :: string
  sr_version :: int
  sr_sealed :: sealed
  sr_created :: int
  sr_created_by :: "string option"
  sr_deleted :: "int option"

text \<open>Control characters in UTF-8: the single byte ones and U+0080 to U+009F.\<close>

fun has_control :: "string \<Rightarrow> bool" where
  "has_control [] = False"
| "has_control (c # cs) =
     ((of_char c :: nat) < 32 \<or> (of_char c :: nat) = 127
      \<or> (of_char c :: nat) = 194 \<and> cs \<noteq> [] \<and> 128 \<le> (of_char (hd cs) :: nat) \<and> (of_char (hd cs) :: nat) < 160
      \<or> has_control cs)"

definition require_field :: "string \<Rightarrow> string \<Rightarrow> status option" where
  "require_field field v =
     (if v = '''' then Some (InvalidArgument (field @ '' is required''))
      else if length v > 256 \<or> has_control v then Some (InvalidArgument (field @ '' is not a valid name''))
      else None)"

definition require_name :: "string \<Rightarrow> string \<Rightarrow> status option" where
  "require_name p n = (case require_field ''project_id'' p of Some e \<Rightarrow> Some e | None \<Rightarrow> require_field ''name'' n)"

definition by_name :: "string \<Rightarrow> string \<Rightarrow> secret_row list \<Rightarrow> secret_row list" where
  "by_name p n rows = filter (\<lambda>r. sr_project r = p \<and> sr_name r = n) rows"

definition newest_first :: "secret_row list \<Rightarrow> secret_row list" where
  "newest_first rows = sort_key (\<lambda>r. - sr_version r) rows"

definition head_row :: "string \<Rightarrow> string \<Rightarrow> secret_row list \<Rightarrow> secret_row option" where
  "head_row p n rows = (case newest_first (by_name p n rows) of [] \<Rightarrow> None | r # _ \<Rightarrow> Some r)"

definition find_version :: "string \<Rightarrow> string \<Rightarrow> int \<Rightarrow> secret_row list \<Rightarrow> secret_row option" where
  "find_version p n v rows = find (\<lambda>r. sr_project r = p \<and> sr_name r = n \<and> sr_version r = v) rows"

definition storage_failed :: status where
  "storage_failed = Internal ''storage failed''"

section \<open>Setting a secret\<close>

record set_request =
  sq_project :: string
  sq_name :: string
  sq_value :: string
  sq_created_by :: string

record secret_meta =
  sm_name :: string
  sm_version :: "64 word"
  sm_created :: int
  sm_created_by :: string

datatype set_pc = ReadHead nat | Inserting nat int sealed | SetDone "status + secret_meta"

definition set_start :: "set_request \<Rightarrow> set_pc" where
  "set_start q = (case require_name (sq_project q) (sq_name q) of Some e \<Rightarrow> SetDone (Inl e) | None \<Rightarrow> ReadHead 3)"

definition new_row :: "set_request \<Rightarrow> int \<Rightarrow> int \<Rightarrow> sealed \<Rightarrow> secret_row" where
  "new_row q at v sd = \<lparr>sr_project = sq_project q, sr_name = sq_name q, sr_version = v, sr_sealed = sd, sr_created = at,
     sr_created_by = (if sq_created_by q = '''' then None else Some (sq_created_by q)), sr_deleted = None\<rparr>"

text \<open>One statement of the loop; \<open>net\<close> is what became of it, and the primary key refuses a version that
  another rotation took.\<close>

fun set_step :: "aead \<Rightarrow> master_keys \<Rightarrow> set_request \<Rightarrow> int \<Rightarrow> entropy \<Rightarrow> unit sent \<Rightarrow> set_pc \<Rightarrow> secret_row list \<Rightarrow> set_pc \<times> secret_row list" where
  "set_step A mk q at rn net (ReadHead 0) rows = (SetDone (Inl (Aborted ''concurrent rotation, retry'')), rows)"
| "set_step A mk q at rn net (ReadHead (Suc tries)) rows =
     (if net \<noteq> Applied then (SetDone (Inl storage_failed), rows)
      else
        (case seal A mk rn (sq_value q) of
           Inl e \<Rightarrow> (SetDone (Inl (Internal ''encryption failed'')), rows)
         | Inr sd \<Rightarrow>
             (Inserting tries ((case head_row (sq_project q) (sq_name q) rows of None \<Rightarrow> 0 | Some r \<Rightarrow> sr_version r) + 1) sd, rows)))"
| "set_step A mk q at rn net (Inserting tries v sd) rows =
     (if \<exists>u. net = Refused u then (SetDone (Inl storage_failed), rows)
      else if find_version (sq_project q) (sq_name q) v rows \<noteq> None
      then (if net = Applied then ReadHead tries else SetDone (Inl storage_failed), rows)
      else
        (if net = Applied
         then SetDone (Inr \<lparr>sm_name = sq_name q, sm_version = word_of_int v, sm_created = at, sm_created_by = sq_created_by q\<rparr>)
         else SetDone (Inl storage_failed),
         rows @ [new_row q at v sd]))"
| "set_step A mk q at rn net (SetDone a) rows = (SetDone a, rows)"

text \<open>A rotation nobody comes between, on a store that answers.\<close>

fun set_run :: "nat \<Rightarrow> aead \<Rightarrow> master_keys \<Rightarrow> set_request \<Rightarrow> int \<Rightarrow> (nat \<Rightarrow> entropy) \<Rightarrow> set_pc \<Rightarrow> secret_row list
    \<Rightarrow> (status + secret_meta) option \<times> secret_row list" where
  "set_run fuel A mk q at rn (SetDone a) rows = (Some a, rows)"
| "set_run 0 A mk q at rn pc rows = (None, rows)"
| "set_run (Suc fuel) A mk q at rn pc rows =
     (case set_step A mk q at (rn fuel) Applied pc rows of (pc', rows') \<Rightarrow> set_run fuel A mk q at rn pc' rows')"

text \<open>Two statements per attempt and one step to give up: seven are enough.\<close>

definition set_secret :: "aead \<Rightarrow> master_keys \<Rightarrow> set_request \<Rightarrow> int \<Rightarrow> (nat \<Rightarrow> entropy) \<Rightarrow> secret_row list
    \<Rightarrow> (status + secret_meta) option \<times> secret_row list" where
  "set_secret A mk q at rn rows = set_run 7 A mk q at rn (set_start q) rows"

section \<open>Deleting, listing\<close>

datatype del_pc = FindHead | Tombstone int | DelDone "status + unit"

definition no_secret :: status where
  "no_secret = NotFound ''no secret by that name''"

definition del_start :: "string \<Rightarrow> string \<Rightarrow> del_pc" where
  "del_start p n = (case require_name p n of Some e \<Rightarrow> DelDone (Inl e) | None \<Rightarrow> FindHead)"

definition bury_version :: "string \<Rightarrow> string \<Rightarrow> int \<Rightarrow> int \<Rightarrow> secret_row list \<Rightarrow> secret_row list" where
  "bury_version p n v now rows =
     map (\<lambda>r. if sr_project r = p \<and> sr_name r = n \<and> sr_version r = v \<and> sr_deleted r = None then r\<lparr>sr_deleted := Some now\<rparr> else r) rows"

fun del_step :: "string \<Rightarrow> string \<Rightarrow> int \<Rightarrow> unit sent \<Rightarrow> del_pc \<Rightarrow> secret_row list \<Rightarrow> del_pc \<times> secret_row list" where
  "del_step p n now net FindHead rows =
     (if net \<noteq> Applied then (DelDone (Inl storage_failed), rows)
      else
        (case head_row p n rows of
           Some r \<Rightarrow> (if sr_deleted r = None then Tombstone (sr_version r) else DelDone (Inl no_secret), rows)
         | None \<Rightarrow> (DelDone (Inl no_secret), rows)))"
| "del_step p n now net (Tombstone v) rows =
     (case net of
        Refused u \<Rightarrow> (DelDone (Inl storage_failed), rows)
      | Lost u \<Rightarrow> (DelDone (Inl storage_failed), bury_version p n v now rows)
      | Applied \<Rightarrow>
          (if \<exists>r \<in> set rows. sr_project r = p \<and> sr_name r = n \<and> sr_version r = v \<and> sr_deleted r = None
           then (DelDone (Inr ()), bury_version p n v now rows)
           else (DelDone (Inl no_secret), rows)))"
| "del_step p n now net (DelDone a) rows = (DelDone a, rows)"

definition delete_secret :: "string \<Rightarrow> string \<Rightarrow> int \<Rightarrow> secret_row list \<Rightarrow> (status + unit) \<times> secret_row list" where
  "delete_secret p n now rows =
     (case del_start p n of
        DelDone a \<Rightarrow> (a, rows)
      | pc \<Rightarrow>
          (case del_step p n now Applied pc rows of
             (pc1, rows1) \<Rightarrow>
               (case del_step p n now Applied pc1 rows1 of
                  (DelDone a, rows2) \<Rightarrow> (a, rows2)
                | (_, rows2) \<Rightarrow> (Inl storage_failed, rows2))))"

definition meta_of :: "secret_row \<Rightarrow> secret_meta" where
  "meta_of r = \<lparr>sm_name = sr_name r, sm_version = word_of_int (sr_version r), sm_created = sr_created r,
     sm_created_by = (case sr_created_by r of None \<Rightarrow> '''' | Some u \<Rightarrow> u)\<rparr>"

text \<open>\<open>DISTINCT ON (name) ... ORDER BY name, version DESC\<close>, names in the order of the store's collation.\<close>

definition list_secrets :: "(string \<Rightarrow> string) \<Rightarrow> string \<Rightarrow> secret_row list \<Rightarrow> status + secret_meta list" where
  "list_secrets collate p rows =
     (case require_field ''project_id'' p of
        Some e \<Rightarrow> Inl e
      | None \<Rightarrow>
          (let names = sort_key collate (remdups (map sr_name (filter (\<lambda>r. sr_project r = p) rows)));
               heads = List.map_filter (\<lambda>n. head_row p n rows) names
           in Inr (map meta_of (filter (\<lambda>r. sr_deleted r = None) heads))))"

record secret_version =
  sv_version :: "64 word"
  sv_created :: int
  sv_created_by :: string
  sv_deleted :: int

definition list_secret_versions :: "string \<Rightarrow> string \<Rightarrow> secret_row list \<Rightarrow> status + secret_version list" where
  "list_secret_versions p n rows =
     (case require_name p n of
        Some e \<Rightarrow> Inl e
      | None \<Rightarrow> Inr (map (\<lambda>r. \<lparr>sv_version = word_of_int (sr_version r), sv_created = sr_created r,
          sv_created_by = (case sr_created_by r of None \<Rightarrow> '''' | Some u \<Rightarrow> u),
          sv_deleted = (case sr_deleted r of None \<Rightarrow> 0 | Some d \<Rightarrow> d)\<rparr>) (newest_first (by_name p n rows))))"

section \<open>Resolving\<close>

record resolved =
  rv_value :: string
  rv_version :: "64 word"

definition resolve_secret :: "aead \<Rightarrow> master_keys \<Rightarrow> string \<Rightarrow> string \<Rightarrow> 64 word \<Rightarrow> secret_row list \<Rightarrow> status + resolved" where
  "resolve_secret A mk p n v rows =
     (case require_name p n of
        Some e \<Rightarrow> Inl e
      | None \<Rightarrow>
          (case (if v = 0
                 then (case head_row p n rows of Some r \<Rightarrow> if sr_deleted r = None then Some r else None | None \<Rightarrow> None)
                 else find_version p n (sint v) rows) of
             None \<Rightarrow> Inl no_secret
           | Some r \<Rightarrow>
               (case open_sealed A mk (sr_sealed r) of
                  Inl e \<Rightarrow> Inl (Internal ''decryption failed'')
                | Inr plaintext \<Rightarrow>
                    (case from_utf8 plaintext of
                       None \<Rightarrow> Inl (Internal ''decryption failed'')
                     | Some value \<Rightarrow> Inr \<lparr>rv_value = value, rv_version = word_of_int (sr_version r)\<rparr>))))"

section \<open>The declaration\<close>

text \<open>What a vm declares: the head, or in a workflow run the version the run pinned, recorded on first
  resolution and before the value is used. The checks against the contract are those of every
  declaration. \<open>disk\<close> is what recording failed with.\<close>

definition declare_secret :: "(status \<Rightarrow> string) \<Rightarrow> string option \<Rightarrow> string \<Rightarrow> (string \<Rightarrow> 64 word \<Rightarrow> status + resolved) option \<Rightarrow> pins option
    \<Rightarrow> (string + string) \<times> pins option" where
  "declare_secret show_status disk n client pins =
     (case client of
        None \<Rightarrow> (Inl ''Secrets are not configured on this worker.'', pins)
      | Some resolve \<Rightarrow>
          (let pinned = Option.bind pins (version_for n)
           in case resolve n (case pinned of None \<Rightarrow> 0 | Some v \<Rightarrow> v) of
                Inr r \<Rightarrow>
                  (case (pins, pinned) of
                     (Some ps, None) \<Rightarrow>
                       (case disk of
                          Some m \<Rightarrow> (Inl m, pins)
                        | None \<Rightarrow> (Inr (rv_value r), Some (record_pin n (rv_version r) ps)))
                   | _ \<Rightarrow> (Inr (rv_value r), pins))
              | Inl (NotFound m) \<Rightarrow> (Inl (''Secret '' @ quoted n @ '' is not set for this project.''), pins)
              | Inl st \<Rightarrow> (Inl (show_status st), pins)))"

end
