(* ===== verification/Secrets_Spec.thy ===== *)
theory Secrets_Spec
  imports Secrets
begin

text \<open>
  What the secret service promises: a sealed value opens under any process that holds its master
  key, also after a rotation of the master; through every interleaving of rotations and deletions
  the versions of a name count up from one and an answered version resolves to its value for
  good; and a workflow run reads the secret it first saw, whatever happens to the name since.
\<close>

section \<open>The envelope opens what it sealed\<close>

text \<open>What AES-GCM documents: decryption inverts encryption and the cipher text carries a 16 byte tag.\<close>

definition sound_aead :: "aead \<Rightarrow> bool" where
  "sound_aead A \<longleftrightarrow> (\<forall>k n p c. ae_encrypt A k n p = Some c \<longrightarrow> ae_decrypt A k n c = Some p \<and> length c = length p + 16)"

text \<open>Draws fill their buffers.\<close>

definition filled :: "entropy \<Rightarrow> bool" where
  "filled rn \<longleftrightarrow> (\<forall>x. rn_dek rn = Some x \<longrightarrow> length x = KEY_LEN) \<and> (\<forall>x. rn_nonce rn = Some x \<longrightarrow> length x = NONCE_LEN)
     \<and> (\<forall>x. rn_wrap rn = Some x \<longrightarrow> length x = NONCE_LEN)"

lemma unwrap_wrap:
  assumes "sound_aead A" "wrap A mk draw dek = Inr w" "\<And>n. draw = Some n \<Longrightarrow> length n = NONCE_LEN" "length dek = KEY_LEN"
    and "mk_keks mk' i = mk_keks mk (mk_active mk)"
  shows "unwrap A mk' i w = Inr dek"
proof -
  from assms(2) obtain n k c where n: "draw = Some n" and k: "mk_keks mk (mk_active mk) = Some k" and c: "ae_encrypt A k n dek = Some c" "w = n @ c"
    by (auto simp: wrap_def kek_def split: option.splits sum.splits)
  have "ae_decrypt A k n c = Some dek" "length c = length dek + 16" using assms(1) c(1) by (auto simp: sound_aead_def)
  with n k c assms(3-5) show ?thesis by (simp add: unwrap_def kek_def)
qed

lemma open_seal:
  assumes "sound_aead A" "filled rn" "seal A mk rn p = Inr sd" "mk_keks mk' (sd_kek sd) = mk_keks mk (mk_active mk)"
  shows "open_sealed A mk' sd = Inr p"
proof -
  from assms(3) obtain dek nonce c w where d: "rn_dek rn = Some dek" "rn_nonce rn = Some nonce"
    and c: "ae_encrypt A dek nonce p = Some c" and w: "wrap A mk (rn_wrap rn) dek = Inr w"
    and sd: "sd = \<lparr>sd_kek = mk_active mk, sd_dek = w, sd_nonce = nonce, sd_cipher = c\<rparr>"
    by (auto simp: seal_def split: option.splits sum.splits)
  have "unwrap A mk' (sd_kek sd) (sd_dek sd) = Inr dek"
    using unwrap_wrap [OF assms(1) w _ _ assms(4)] assms(2) d sd by (simp add: filled_def)
  moreover have "ae_decrypt A dek nonce c = Some p" using assms(1) c by (auto simp: sound_aead_def)
  ultimately show ?thesis using sd d assms(2) by (simp add: open_sealed_def filled_def)
qed

lemma rewrap_opens:
  assumes "sound_aead A" "open_sealed A old sd = Inr p" "mk_keks new (sd_kek sd) = mk_keks old (sd_kek sd)"
    and "rewrap A new draw (sd_kek sd) (sd_dek sd) = Inr (i, w)" "\<And>n. draw = Some n \<Longrightarrow> length n = NONCE_LEN"
    and "mk_keks later i = mk_keks new (mk_active new)"
  shows "open_sealed A later (sd\<lparr>sd_kek := i, sd_dek := w\<rparr>) = Inr p"
proof -
  from assms(4) obtain dek where dek: "unwrap A new (sd_kek sd) (sd_dek sd) = Inr dek" "wrap A new draw dek = Inr w" "i = mk_active new"
    by (auto simp: rewrap_def split: sum.splits)
  have len: "length dek = KEY_LEN" using dek(1) by (auto simp: unwrap_def split: if_splits sum.splits option.splits)
  have "unwrap A later i w = Inr dek" using unwrap_wrap [OF assms(1) dek(2) assms(5) len] assms(6) by blast
  moreover have "unwrap A old (sd_kek sd) (sd_dek sd) = unwrap A new (sd_kek sd) (sd_dek sd)"
    using assms(3) by (simp add: unwrap_def kek_def)
  ultimately show ?thesis using assms(2) dek(1) by (simp add: open_sealed_def split: if_splits)
qed

section \<open>Requests that interleave\<close>

record secret_sys =
  ss_rows :: "secret_row list"
  ss_sets :: "nat \<rightharpoonup> set_request \<times> set_pc"
  ss_dels :: "nat \<rightharpoonup> (string \<times> string) \<times> del_pc"

inductive secret_step :: "aead \<Rightarrow> master_keys \<Rightarrow> secret_sys \<Rightarrow> secret_sys \<Rightarrow> bool" for A mk where
  begin_set: "ss_sets s i = None \<Longrightarrow> secret_step A mk s (s\<lparr>ss_sets := (ss_sets s)(i \<mapsto> (q, set_start q))\<rparr>)"
| go_set: "ss_sets s i = Some (q, pc) \<Longrightarrow> filled rn \<Longrightarrow> set_step A mk q at rn net pc (ss_rows s) = (pc', rows')
    \<Longrightarrow> secret_step A mk s (s\<lparr>ss_rows := rows', ss_sets := (ss_sets s)(i \<mapsto> (q, pc'))\<rparr>)"
| begin_del: "ss_dels s i = None \<Longrightarrow> secret_step A mk s (s\<lparr>ss_dels := (ss_dels s)(i \<mapsto> ((p, n), del_start p n))\<rparr>)"
| go_del: "ss_dels s i = Some ((p, n), pc) \<Longrightarrow> del_step p n now net pc (ss_rows s) = (pc', rows')
    \<Longrightarrow> secret_step A mk s (s\<lparr>ss_rows := rows', ss_dels := (ss_dels s)(i \<mapsto> ((p, n), pc'))\<rparr>)"

inductive secret_steps :: "aead \<Rightarrow> master_keys \<Rightarrow> secret_sys \<Rightarrow> secret_sys \<Rightarrow> bool" for A mk s where
  stay: "secret_steps A mk s s"
| move: "secret_steps A mk s t \<Longrightarrow> secret_step A mk t u \<Longrightarrow> secret_steps A mk s u"

definition no_secrets :: secret_sys where
  "no_secrets = \<lparr>ss_rows = [], ss_sets = Map.empty, ss_dels = Map.empty\<rparr>"

section \<open>Rows only gain tombstones\<close>

definition count_of :: "string \<Rightarrow> string \<Rightarrow> secret_row list \<Rightarrow> int" where
  "count_of p n rows = int (length (by_name p n rows))"

definition same_version :: "secret_row \<Rightarrow> secret_row \<Rightarrow> bool" where
  "same_version r r' \<longleftrightarrow> sr_project r' = sr_project r \<and> sr_name r' = sr_name r \<and> sr_version r' = sr_version r \<and> sr_sealed r' = sr_sealed r"

definition rows_kept :: "secret_row list \<Rightarrow> secret_row list \<Rightarrow> bool" where
  "rows_kept rows rows' \<longleftrightarrow> (\<forall>r \<in> set rows. \<exists>r' \<in> set rows'. same_version r r') \<and> (\<forall>p n. count_of p n rows \<le> count_of p n rows')"

definition counted :: "secret_row list \<Rightarrow> bool" where
  "counted rows \<longleftrightarrow> (\<forall>p n. map sr_version (by_name p n rows) = [1..count_of p n rows])"

lemma rows_kept_refl [simp]: "rows_kept rows rows"
  by (auto simp: rows_kept_def same_version_def)

lemma rows_kept_trans: "rows_kept a b \<Longrightarrow> rows_kept b c \<Longrightarrow> rows_kept a c"
  unfolding rows_kept_def same_version_def by (meson order.trans) fastforce

lemma by_name_bury:
  "map sr_version (by_name p n (bury_version p' n' v now rows)) = map sr_version (by_name p n rows)"
  "length (by_name p n (bury_version p' n' v now rows)) = length (by_name p n rows)"
  by (induction rows) (auto simp: by_name_def bury_version_def)

lemma rows_kept_bury: "rows_kept rows (bury_version p n v now rows)"
proof -
  have "\<exists>r' \<in> set (bury_version p n v now rows). same_version r r'" if "r \<in> set rows" for r
    unfolding bury_version_def set_map by (rule bexI [OF _ imageI [OF that]]) (simp add: same_version_def)
  then show ?thesis by (simp add: rows_kept_def count_of_def by_name_bury)
qed

lemma rows_kept_append: "rows_kept rows (rows @ [r])"
  by (auto simp: rows_kept_def same_version_def count_of_def by_name_def)

lemma counted_bury: "counted rows \<Longrightarrow> counted (bury_version p n v now rows)"
  by (simp add: counted_def count_of_def by_name_bury)

lemma counted_append:
  assumes "counted rows" "sr_version r = count_of (sr_project r) (sr_name r) rows + 1"
  shows "counted (rows @ [r])"
  unfolding counted_def
proof (intro allI)
  fix p n
  have c: "map sr_version (by_name p n rows) = [1..count_of p n rows]" "0 \<le> count_of p n rows"
    using assms(1) by (simp_all add: counted_def count_of_def)
  show "map sr_version (by_name p n (rows @ [r])) = [1..count_of p n (rows @ [r])]"
  proof (cases "sr_project r = p \<and> sr_name r = n")
    case True
    with c assms(2) show ?thesis by (auto simp: by_name_def count_of_def upto_rec2)
  next
    case False
    with c show ?thesis by (auto simp: by_name_def count_of_def)
  qed
qed

lemma in_by_name: "r \<in> set (by_name p n rows) \<longleftrightarrow> r \<in> set rows \<and> sr_project r = p \<and> sr_name r = n"
  by (auto simp: by_name_def)

lemma counted_versions: "counted rows \<Longrightarrow> sr_version ` {r \<in> set rows. sr_project r = p \<and> sr_name r = n} = {1..count_of p n rows}"
proof -
  assume "counted rows"
  then have "sr_version ` set (by_name p n rows) = set [1..count_of p n rows]" by (metis counted_def set_map)
  then show ?thesis by (simp add: by_name_def)
qed

lemma counted_unique:
  assumes "counted rows" "r \<in> set rows" "r' \<in> set rows" "sr_project r = sr_project r'" "sr_name r = sr_name r'" "sr_version r = sr_version r'"
  shows "r = r'"
proof -
  have "distinct (map sr_version (by_name (sr_project r) (sr_name r) rows))" using assms(1) by (simp add: counted_def)
  with assms show ?thesis by (auto simp: distinct_map inj_on_def in_by_name)
qed

lemma head_row_version:
  assumes "counted rows"
  shows "(case head_row p n rows of None \<Rightarrow> 0 | Some r \<Rightarrow> sr_version r) = count_of p n rows"
proof (cases "by_name p n rows")
  case Nil
  then show ?thesis by (simp add: head_row_def newest_first_def count_of_def)
next
  case (Cons x xs)
  let ?rows = "newest_first (by_name p n rows)"
  have set: "set ?rows = set (by_name p n rows)" by (simp add: newest_first_def)
  then have ne: "?rows \<noteq> []" using Cons by (metis list.distinct(1) set_empty)
  then obtain r rest where r: "?rows = r # rest" by (cases ?rows) auto
  have "sorted (map (\<lambda>r. - sr_version r) ?rows)" by (simp add: newest_first_def)
  with r have top: "\<forall>r' \<in> set ?rows. sr_version r' \<le> sr_version r" by auto
  have vs: "sr_version ` set ?rows = {1..count_of p n rows}" using counted_versions [OF assms] set by (simp add: by_name_def)
  have "0 < count_of p n rows" using Cons by (simp add: count_of_def)
  then have "count_of p n rows \<in> sr_version ` set ?rows" "sr_version r \<in> {1..count_of p n rows}"
    using vs r by auto
  with top have "sr_version r = count_of p n rows" by force
  with r show ?thesis by (simp add: head_row_def)
qed

lemma find_version_mem: "find_version p n v rows \<noteq> None \<longleftrightarrow> v \<in> sr_version ` {r \<in> set rows. sr_project r = p \<and> sr_name r = n}"
  by (auto simp: find_version_def find_None_iff)

lemma find_version_None: "counted rows \<Longrightarrow> find_version p n v rows = None \<longleftrightarrow> v < 1 \<or> count_of p n rows < v"
  using find_version_mem [of p n v rows] counted_versions [of rows p n] by auto

lemma find_version_Some:
  assumes "counted rows" "r \<in> set rows"
  shows "find_version (sr_project r) (sr_name r) (sr_version r) rows = Some r"
proof -
  have "find_version (sr_project r) (sr_name r) (sr_version r) rows \<noteq> None" unfolding find_version_mem using assms(2) by blast
  then obtain x where x: "find_version (sr_project r) (sr_name r) (sr_version r) rows = Some x" by blast
  then have k: "x \<in> set rows" "sr_project x = sr_project r" "sr_name x = sr_name r" "sr_version x = sr_version r"
    by (auto simp: find_version_def find_Some_iff)
  have "r = x" by (rule counted_unique [OF assms k(1)]) (simp_all only: k)
  with x show ?thesis by simp
qed

section \<open>The invariant\<close>

fun set_ok :: "aead \<Rightarrow> master_keys \<Rightarrow> secret_row list \<Rightarrow> set_request \<Rightarrow> set_pc \<Rightarrow> bool" where
  "set_ok A mk rows q (ReadHead tries) \<longleftrightarrow> require_name (sq_project q) (sq_name q) = None"
| "set_ok A mk rows q (Inserting tries v sd) \<longleftrightarrow> require_name (sq_project q) (sq_name q) = None
     \<and> 1 \<le> v \<and> v \<le> count_of (sq_project q) (sq_name q) rows + 1 \<and> open_sealed A mk sd = Inr (sq_value q)"
| "set_ok A mk rows q (SetDone (Inl e)) \<longleftrightarrow> True"
| "set_ok A mk rows q (SetDone (Inr m)) \<longleftrightarrow> require_name (sq_project q) (sq_name q) = None
     \<and> (\<exists>r \<in> set rows. sr_project r = sq_project q \<and> sr_name r = sq_name q \<and> sm_version m = word_of_int (sr_version r)
          \<and> open_sealed A mk (sr_sealed r) = Inr (sq_value q))"

definition secrets_ok :: "aead \<Rightarrow> master_keys \<Rightarrow> secret_sys \<Rightarrow> bool" where
  "secrets_ok A mk s \<longleftrightarrow> counted (ss_rows s) \<and> (\<forall>i q pc. ss_sets s i = Some (q, pc) \<longrightarrow> set_ok A mk (ss_rows s) q pc)"

lemma set_ok_kept: "set_ok A mk rows q pc \<Longrightarrow> rows_kept rows rows' \<Longrightarrow> set_ok A mk rows' q pc"
proof (induction A mk rows q pc rule: set_ok.induct)
  case (4 A mk rows q m)
  then show ?case by (simp add: rows_kept_def same_version_def) metis
qed (auto simp: rows_kept_def intro: order.trans)

lemma set_step_ok:
  assumes "sound_aead A" "filled rn" "counted rows" "set_ok A mk rows q pc" "set_step A mk q at rn net pc rows = (pc', rows')"
  shows "set_ok A mk rows' q pc' \<and> counted rows' \<and> rows_kept rows rows'"
  using assms(4,5)
proof (cases pc)
  case (ReadHead n)
  with assms(3-5) open_seal [OF assms(1,2), of mk "sq_value q" _ mk] show ?thesis
    by (cases n) (auto simp: head_row_version count_of_def seal_def split: if_splits sum.splits option.splits)
next
  case (Inserting tries v sd)
  note ok = assms(4) [unfolded Inserting, simplified] and step = assms(5) [unfolded Inserting, simplified]
  show ?thesis
  proof (cases "(\<exists>u. net = Refused u) \<or> find_version (sq_project q) (sq_name q) v rows \<noteq> None")
    case True
    with step ok assms(3) show ?thesis by (auto split: if_splits)
  next
    case False
    with step have rows': "rows' = rows @ [new_row q at v sd]"
      and pc': "pc' = SetDone (Inl storage_failed)
        \<or> pc' = SetDone (Inr \<lparr>sm_name = sq_name q, sm_version = word_of_int v, sm_created = at, sm_created_by = sq_created_by q\<rparr>)"
      by (auto split: if_splits)
    from False have "v < 1 \<or> count_of (sq_project q) (sq_name q) rows < v" by (simp add: find_version_None [OF assms(3)])
    with ok have "v = count_of (sq_project q) (sq_name q) rows + 1" by auto
    then have "counted rows'" unfolding rows' by (intro counted_append assms(3)) (simp add: new_row_def)
    moreover have "set_ok A mk rows' q pc'" using pc' rows' ok by (auto simp: new_row_def)
    ultimately show ?thesis using rows_kept_append rows' by blast
  qed
next
  case (SetDone a)
  with assms(3-5) show ?thesis by auto
qed

lemma del_step_ok: "del_step p n now net pc rows = (pc', rows') \<Longrightarrow> counted rows \<Longrightarrow> counted rows' \<and> rows_kept rows rows'"
  by (cases pc) (auto simp: rows_kept_bury counted_bury split: if_splits option.splits sent.splits)

lemma secret_step_ok:
  assumes "sound_aead A" "secret_step A mk s s'" "secrets_ok A mk s"
  shows "secrets_ok A mk s' \<and> rows_kept (ss_rows s) (ss_rows s')"
  using assms(2,3)
proof (cases rule: secret_step.cases)
  case (begin_set i q)
  then show ?thesis using assms(3) by (auto simp: secrets_ok_def set_start_def split: option.splits)
next
  case (go_set i q pc rn at net pc' rows')
  with assms(3) have "set_ok A mk rows' q pc' \<and> counted rows' \<and> rows_kept (ss_rows s) rows'"
    by (intro set_step_ok [OF assms(1)]) (auto simp: secrets_ok_def)
  with go_set assms(3) show ?thesis by (auto simp: secrets_ok_def intro: set_ok_kept)
next
  case (begin_del i p n)
  then show ?thesis using assms(3) by (auto simp: secrets_ok_def)
next
  case (go_del i p n pc now net pc' rows')
  with assms(3) have "counted rows' \<and> rows_kept (ss_rows s) rows'" by (intro del_step_ok) (auto simp: secrets_ok_def)
  with go_del assms(3) show ?thesis by (auto simp: secrets_ok_def intro: set_ok_kept)
qed

lemma secret_steps_ok:
  assumes "sound_aead A" "secrets_ok A mk s"
  shows "secret_steps A mk s t \<Longrightarrow> secrets_ok A mk t \<and> rows_kept (ss_rows s) (ss_rows t)"
  by (induction rule: secret_steps.induct)
     (use assms secret_step_ok [OF assms(1)] in \<open>auto intro: rows_kept_trans\<close>)

lemma no_secrets_ok: "secrets_ok A mk no_secrets"
  by (simp add: secrets_ok_def no_secrets_def counted_def by_name_def count_of_def)

section \<open>Versions\<close>

text \<open>Through every interleaving of rotations and deletions, with statements refused and answers lost,
  the versions of a name are one, two, three and so on, each of them once.\<close>

theorem secret_versions_count_up:
  assumes "sound_aead A" "secret_steps A mk no_secrets s"
  shows "map sr_version (by_name p n (ss_rows s)) = [1..int (length (by_name p n (ss_rows s)))]"
  using secret_steps_ok [OF assms(1) no_secrets_ok assms(2)] by (simp add: secrets_ok_def counted_def count_of_def)

lemma sint_version:
  assumes "counted rows" "r \<in> set rows" "int (length rows) < 2 ^ 63"
  shows "sint (word_of_int (sr_version r) :: 64 word) = sr_version r" "(word_of_int (sr_version r) :: 64 word) \<noteq> 0"
proof -
  have "sr_version r \<in> sr_version ` {x \<in> set rows. sr_project x = sr_project r \<and> sr_name x = sr_name r}"
    using assms(2) by blast
  then have v: "1 \<le> sr_version r" "sr_version r \<le> count_of (sr_project r) (sr_name r) rows"
    unfolding counted_versions [OF assms(1)] by simp_all
  moreover have "count_of (sr_project r) (sr_name r) rows \<le> int (length rows)" by (simp add: count_of_def by_name_def)
  ultimately have b: "1 \<le> sr_version r" "sr_version r < 2 ^ 63" using assms(3) by linarith+
  then show s: "sint (word_of_int (sr_version r) :: 64 word) = sr_version r"
    by (simp add: sint_sbintrunc' signed_take_bit_int_eq_self)
  show "(word_of_int (sr_version r) :: 64 word) \<noteq> 0" using s b by auto
qed

lemma resolve_pinned:
  assumes "counted rows" "r \<in> set rows" "int (length rows) < 2 ^ 63" "require_name (sr_project r) (sr_name r) = None"
  shows "resolve_secret A mk (sr_project r) (sr_name r) (word_of_int (sr_version r)) rows =
     (case open_sealed A mk (sr_sealed r) of
        Inl e \<Rightarrow> Inl (Internal ''decryption failed'')
      | Inr x \<Rightarrow> (case from_utf8 x of None \<Rightarrow> Inl (Internal ''decryption failed'')
          | Some v \<Rightarrow> Inr \<lparr>rv_value = v, rv_version = word_of_int (sr_version r)\<rparr>))"
  using sint_version [OF assms(1-3)] find_version_Some [OF assms(1,2)] assms(4) by (simp add: resolve_secret_def)

text \<open>C32. A version that a rotation answered resolves to the value it was given, now and in every later state,
  whatever rotations and deletions of the same name interleave.\<close>

theorem answered_version_resolves:
  assumes "sound_aead A" "secret_steps A mk no_secrets s" "ss_sets s i = Some (q, SetDone (Inr m))"
    and "int (length (ss_rows s)) < 2 ^ 63" "from_utf8 (sq_value q) \<noteq> None"
  shows "resolve_secret A mk (sq_project q) (sq_name q) (sm_version m) (ss_rows s) = Inr \<lparr>rv_value = sq_value q, rv_version = sm_version m\<rparr>"
proof -
  have ok: "secrets_ok A mk s" using secret_steps_ok [OF assms(1) no_secrets_ok assms(2)] by simp
  with assms(3) obtain r where r: "r \<in> set (ss_rows s)" "sr_project r = sq_project q" "sr_name r = sq_name q" "sm_version m = word_of_int (sr_version r)"
      "open_sealed A mk (sr_sealed r) = Inr (sq_value q)" "require_name (sq_project q) (sq_name q) = None"
    by (auto simp: secrets_ok_def dest!: spec)
  have "counted (ss_rows s)" using ok by (simp add: secrets_ok_def)
  from resolve_pinned [OF this r(1) assms(4), of A mk] r assms(5) show ?thesis
    by (auto simp: from_utf8_def split: if_splits)
qed

section \<open>A rotation ends\<close>

text \<open>Steps a rotation has left, whatever the table looks like when it makes them.\<close>

fun steps_left :: "set_pc \<Rightarrow> nat" where
  "steps_left (ReadHead tries) = 2 * tries + 1"
| "steps_left (Inserting tries v sd) = 2 * tries + 2"
| "steps_left (SetDone a) = 0"

lemma set_step_decreases: "steps_left pc \<noteq> 0 \<Longrightarrow> steps_left (fst (set_step A mk q at rn net pc rows)) < steps_left pc"
  by (induction A mk q at rn net pc rows rule: set_step.induct) (auto split: sum.split option.split)

fun rotation :: "aead \<Rightarrow> master_keys \<Rightarrow> set_request \<Rightarrow> int \<Rightarrow> (entropy \<times> unit sent \<times> secret_row list) list \<Rightarrow> set_pc \<Rightarrow> set_pc" where
  "rotation A mk q at [] pc = pc"
| "rotation A mk q at ((rn, net, rows) # xs) pc = rotation A mk q at xs (fst (set_step A mk q at rn net pc rows))"

lemma rotation_steps: "steps_left (rotation A mk q at xs pc) \<le> steps_left pc - length xs"
proof (induction xs arbitrary: pc)
  case (Cons x xs)
  obtain rn net rows where x: "x = (rn, net, rows)" by (cases x)
  have "steps_left (fst (set_step A mk q at rn net pc rows)) \<le> steps_left pc - 1"
    using set_step_decreases [of pc A mk q at rn net rows] by (cases "steps_left pc = 0") (cases pc; simp)+
  with Cons.IH [of "fst (set_step A mk q at rn net pc rows)"] x show ?case by simp
qed simp


section \<open>What a workflow run reads\<close>

lemma load_pins_map: "pins_known (load_pins rows) = (\<lambda>n. map_option word_of_int (map_of (rev rows) n))"
proof -
  have "foldl (\<lambda>m (n, v). m(n \<mapsto> word_of_int v)) m0 rows n
      = (case map_of (rev rows) n of Some v \<Rightarrow> Some (word_of_int v) | None \<Rightarrow> m0 n)" for n and m0 :: "string \<rightharpoonup> 64 word"
    by (induction rows arbitrary: m0) (auto simp: map_add_def split: option.split)
  then show ?thesis by (auto simp: load_pins_def fun_eq_iff split: option.split)
qed

lemma reloaded_pin:
  assumes "version_for n (load_pins rows) = None"
  shows "version_for n (load_pins (pins_file (record_pin n v (load_pins rows)))) = Some v"
proof -
  have "map_of (rev rows) n = None" using assms by (simp add: version_for_def load_pins_map)
  then have "n \<notin> fst ` set rows" by (simp add: map_of_eq_None_iff)
  then have "pins_file (record_pin n v (load_pins rows)) = rows @ [(n, sint v)]" by (simp add: record_pin_def load_pins_def)
  then show ?thesis by (simp add: version_for_def load_pins_map)
qed

lemma head_row_mem: "head_row p n rows = Some r \<Longrightarrow> r \<in> set rows \<and> sr_project r = p \<and> sr_name r = n"
proof -
  assume "head_row p n rows = Some r"
  then have "r \<in> set (newest_first (by_name p n rows))" by (auto simp: head_row_def split: list.splits)
  then show ?thesis by (simp add: newest_first_def in_by_name)
qed


section \<open>Deleting\<close>

lemma head_row_bury:
  assumes "counted rows" "head_row p n rows = Some r"
  shows "\<exists>r'. head_row p n (bury_version p n (sr_version r) now rows) = Some r' \<and> sr_deleted r' \<noteq> None"
proof -
  let ?rows = "bury_version p n (sr_version r) now rows"
  have v: "sr_version r = count_of p n rows" using head_row_version [OF assms(1), of p n] assms(2) by simp
  have "count_of p n ?rows = count_of p n rows" by (simp add: count_of_def by_name_bury)
  moreover have "r \<in> set (by_name p n rows)" using head_row_mem [OF assms(2)] by (simp add: in_by_name)
  then have "0 < count_of p n rows" by (auto simp: count_of_def)
  ultimately obtain r' where r': "head_row p n ?rows = Some r'" "sr_version r' = sr_version r"
    using head_row_version [OF counted_bury [OF assms(1)], of p n p n "sr_version r" now] v by (cases "head_row p n ?rows") auto
  from head_row_mem [OF r'(1)] have "r' \<in> set ?rows" "sr_project r' = p" "sr_name r' = n" by simp_all
  then obtain x where "r' = (if sr_project x = p \<and> sr_name x = n \<and> sr_version x = sr_version r \<and> sr_deleted x = None then x\<lparr>sr_deleted := Some now\<rparr> else x)"
    unfolding bury_version_def set_map by blast
  with r'(2) \<open>sr_project r' = p\<close> \<open>sr_name r' = n\<close> have "sr_deleted r' \<noteq> None" by (simp split: if_splits)
  with r' show ?thesis by blast
qed

lemma find_version_bury:
  "map_option (\<lambda>r. (sr_sealed r, sr_version r)) (find_version p n v (bury_version p' n' v' now rows))
     = map_option (\<lambda>r. (sr_sealed r, sr_version r)) (find_version p n v rows)"
  by (induction rows) (auto simp: find_version_def bury_version_def)

text \<open>A deleted name no longer resolves at its head, while every version resolves as before.\<close>

theorem deleted_name_stops_resolving:
  assumes "counted rows" "delete_secret p n now rows = (Inr (), rows')"
  shows "resolve_secret A mk p n 0 rows' = Inl no_secret \<and> (\<forall>v. v \<noteq> 0 \<longrightarrow> resolve_secret A mk p n v rows' = resolve_secret A mk p n v rows)"
proof -
  from assms(2) obtain r where r: "head_row p n rows = Some r" "require_name p n = None" "rows' = bury_version p n (sr_version r) now rows"
    by (auto simp: delete_secret_def del_start_def split: option.splits if_splits)
  have "resolve_secret A mk p n v rows' = resolve_secret A mk p n v rows" if "v \<noteq> 0" for v
    using find_version_bury [of p n "sint v" p n "sr_version r" now rows] that r(3)
    by (auto simp: resolve_secret_def map_option_case split: option.splits sum.splits)
  moreover have "resolve_secret A mk p n 0 rows' = Inl no_secret"
    using head_row_bury [OF assms(1) r(1), of now] r(2,3) by (auto simp: resolve_secret_def)
  ultimately show ?thesis by blast
qed

section \<open>On one secret\<close>

definition toy_aead :: aead where
  "toy_aead = \<lparr>ae_encrypt = (\<lambda>k n p. Some (p @ replicate 16 CHR ''t'')), ae_decrypt = (\<lambda>k n c. Some (take (length c - 16) c))\<rparr>"

definition toy_master :: master_keys where
  "toy_master = envelope_new ''kek-1'' (replicate 32 CHR ''k'') None"

definition toy_draws :: entropy where
  "toy_draws = \<lparr>rn_dek = Some (replicate 32 CHR ''d''), rn_nonce = Some (replicate 12 CHR ''n''), rn_wrap = Some (replicate 12 CHR ''w'')\<rparr>"

definition toy_sealed :: "string \<Rightarrow> sealed" where
  "toy_sealed v = (case seal toy_aead toy_master toy_draws v of Inr sd \<Rightarrow> sd | Inl e \<Rightarrow> undefined)"

definition toy_set :: "string \<Rightarrow> set_request" where
  "toy_set v = \<lparr>sq_project = ''p'', sq_name = ''token'', sq_value = v, sq_created_by = ''''\<rparr>"

definition rotated :: "nat \<Rightarrow> string \<Rightarrow> secret_sys \<Rightarrow> secret_sys" where
  "rotated i v s = (let ver = count_of ''p'' ''token'' (ss_rows s) + 1 in
     s\<lparr>ss_rows := ss_rows s @ [new_row (toy_set v) 0 ver (toy_sealed v)],
       ss_sets := (ss_sets s)(i \<mapsto> (toy_set v, SetDone (Inr \<lparr>sm_name = ''token'', sm_version = word_of_int ver, sm_created = 0, sm_created_by = ''''\<rparr>)))\<rparr>)"

lemma toy_sound: "sound_aead toy_aead" "filled toy_draws"
  by (simp_all add: sound_aead_def toy_aead_def filled_def toy_draws_def KEY_LEN_def NONCE_LEN_def)

lemma toy_seals: "seal toy_aead toy_master toy_draws v = Inr (toy_sealed v)"
  by (simp add: toy_sealed_def seal_def toy_draws_def toy_aead_def wrap_def kek_def toy_master_def envelope_new_def)

lemma toy_kek: "sd_kek (toy_sealed v) = mk_active toy_master"
  by (simp add: toy_sealed_def seal_def toy_draws_def toy_aead_def wrap_def kek_def toy_master_def envelope_new_def)

lemma toy_name: "require_name ''p'' ''token'' = None"
  by (simp add: require_name_def require_field_def)

lemma secret_steps_trans: "secret_steps A mk t u \<Longrightarrow> secret_steps A mk s t \<Longrightarrow> secret_steps A mk s u"
  by (induction rule: secret_steps.induct) (auto intro: secret_steps.move)

lemma toy_rotation:
  assumes "ss_sets s i = None" "counted (ss_rows s)"
  shows "secret_steps toy_aead toy_master s (rotated i v s)"
proof -
  let ?ver = "count_of ''p'' ''token'' (ss_rows s) + 1"
  let ?s1 = "s\<lparr>ss_sets := (ss_sets s)(i \<mapsto> (toy_set v, set_start (toy_set v)))\<rparr>"
  let ?s2 = "?s1\<lparr>ss_rows := ss_rows s, ss_sets := (ss_sets ?s1)(i \<mapsto> (toy_set v, Inserting 2 ?ver (toy_sealed v)))\<rparr>"
  let ?done = "SetDone (Inr \<lparr>sm_name = ''token'', sm_version = word_of_int ?ver, sm_created = 0, sm_created_by = ''''\<rparr>)"
  let ?rows = "ss_rows s @ [new_row (toy_set v) 0 ?ver (toy_sealed v)]"
  have "secret_steps toy_aead toy_master s ?s1" using assms by (intro secret_steps.move [OF secret_steps.stay] begin_set)
  moreover have "set_step toy_aead toy_master (toy_set v) 0 toy_draws Applied (ReadHead 3) (ss_rows s) = (Inserting 2 ?ver (toy_sealed v), ss_rows s)"
    using head_row_version [OF assms(2), of "''p''" "''token''"] by (simp add: eval_nat_numeral toy_seals toy_set_def)
  then have "secret_step toy_aead toy_master ?s1 ?s2"
    by (intro go_set [where pc = "ReadHead 3" and net = Applied and rn = toy_draws and at = 0])
       (auto simp: set_start_def toy_set_def toy_name toy_sound)
  ultimately have s2: "secret_steps toy_aead toy_master s ?s2" by (rule secret_steps.move)
  have "find_version ''p'' ''token'' ?ver (ss_rows s) = None" by (simp add: find_version_None [OF assms(2)])
  then have "set_step toy_aead toy_master (toy_set v) 0 toy_draws Applied (Inserting 2 ?ver (toy_sealed v)) (ss_rows s) = (?done, ?rows)"
    by (simp add: toy_set_def)
  then have "secret_step toy_aead toy_master ?s2 (?s2\<lparr>ss_rows := ?rows, ss_sets := (ss_sets ?s2)(i \<mapsto> (toy_set v, ?done))\<rparr>)"
    by (intro go_set [where pc = "Inserting 2 ?ver (toy_sealed v)" and net = Applied and rn = toy_draws and at = 0]) (auto simp: toy_sound)
  with s2 show ?thesis by (auto simp: rotated_def Let_def dest: secret_steps.move)
qed

definition set_once :: secret_sys where
  "set_once = rotated 0 ''first'' no_secrets"

definition set_twice :: secret_sys where
  "set_twice = rotated 1 ''second'' set_once"

lemma toy_rows:
  "ss_rows set_once = [new_row (toy_set ''first'') 0 1 (toy_sealed ''first'')]"
  "ss_rows set_twice = [new_row (toy_set ''first'') 0 1 (toy_sealed ''first''), new_row (toy_set ''second'') 0 2 (toy_sealed ''second'')]"
  by (simp_all add: set_once_def set_twice_def rotated_def Let_def no_secrets_def count_of_def by_name_def new_row_def toy_set_def)

lemma toy_steps:
  "secret_steps toy_aead toy_master no_secrets set_once" "secret_steps toy_aead toy_master set_once set_twice"
  "secret_steps toy_aead toy_master no_secrets set_twice"
proof -
  show a: "secret_steps toy_aead toy_master no_secrets set_once"
    unfolding set_once_def by (rule toy_rotation) (simp_all add: no_secrets_def counted_def by_name_def count_of_def)
  have "counted (ss_rows set_once)" using secret_steps_ok [OF toy_sound(1) no_secrets_ok a] by (simp add: secrets_ok_def)
  then show b: "secret_steps toy_aead toy_master set_once set_twice"
    unfolding set_twice_def by (rule toy_rotation [rotated]) (simp add: set_once_def rotated_def Let_def no_secrets_def)
  show "secret_steps toy_aead toy_master no_secrets set_twice" by (rule secret_steps_trans [OF b a])
qed

theorem secret_versions_count_up_witness:
  "map sr_version (by_name ''p'' ''token'' (ss_rows set_twice)) = [1, 2]"
  using secret_versions_count_up [OF toy_sound(1) toy_steps(3), of "''p''" "''token''"]
  by (simp add: toy_rows by_name_def new_row_def toy_set_def)

theorem answered_version_resolves_witness:
  "resolve_secret toy_aead toy_master ''p'' ''token'' 1 (ss_rows set_twice) = Inr \<lparr>rv_value = ''first'', rv_version = 1\<rparr>"
proof -
  have "from_utf8 ''first'' \<noteq> None" using ascii_is_utf8 [of "map of_char ''first''"] by (simp add: from_utf8_def)
  then show ?thesis
    using answered_version_resolves [OF toy_sound(1) toy_steps(3), of 0 "toy_set ''first''"
        "\<lparr>sm_name = ''token'', sm_version = 1, sm_created = 0, sm_created_by = ''''\<rparr>"]
    by (simp add: toy_rows toy_set_def) (simp add: set_twice_def set_once_def rotated_def Let_def toy_set_def no_secrets_def count_of_def by_name_def)
qed



end
