(* ===== verification/Live.thy ===== *)
theory Live
  imports Http_Serving
begin

text \<open>
  Live development sessions (\<open>actias-script-service/src/live_script.rs\<close> and the session rpcs of
  \<open>script_service.rs\<close>): a working tree kept in Redis for two minutes after its last write, beside a
  set that names the sessions of a script. Redis is its keyspace, with the commands the source
  uses; every command may be refused or carried out with the answer lost. At the end, how a
  session is served by the worker.
\<close>

section \<open>The keyspace\<close>

datatype redis_value = RString string | RSet "string list"

record live_store =
  lv_keys :: "string \<rightharpoonup> redis_value \<times> int option"
  lv_sent :: nat

datatype live_error = LiveInvalid string | LiveRedis string | LivePool string | LiveCorrupt string

record live_script =
  lq_session :: "string option"
  lq_script :: string
  lq_config :: "script_config option"
  lq_bundle :: "script_bundle option"

text \<open>The serde form of a session, the uuid parser with the canonical text of what it read, and what
  becomes of the commands.\<close>

record live_env =
  le_write :: "script_config \<times> script_bundle \<Rightarrow> string"
  le_read :: "string \<Rightarrow> (script_config \<times> script_bundle) option"
  le_read_why :: "string \<Rightarrow> string"
  le_uuid :: "string \<Rightarrow> string option"
  le_net :: "nat \<Rightarrow> live_error sent"
  le_wrong_type :: string

definition SESSION_TTL :: int where
  "SESSION_TTL = 120"

definition visible :: "int \<Rightarrow> live_store \<Rightarrow> string \<Rightarrow> redis_value option" where
  "visible now s k =
     (case lv_keys s k of
        None \<Rightarrow> None
      | Some (v, e) \<Rightarrow> (case e of None \<Rightarrow> Some v | Some t \<Rightarrow> if now < t then Some v else None))"

definition put_key :: "string \<Rightarrow> redis_value \<times> int option \<Rightarrow> live_store \<Rightarrow> live_store" where
  "put_key k x s = s\<lparr>lv_keys := (lv_keys s)(k \<mapsto> x)\<rparr>"

definition drop_key :: "string \<Rightarrow> live_store \<Rightarrow> live_store" where
  "drop_key k s = s\<lparr>lv_keys := (lv_keys s)(k := None)\<rparr>"

definition command :: "live_env \<Rightarrow> (live_store, live_error, 'a) fallible \<Rightarrow> (live_store, live_error, 'a) fallible" where
  "command le m s = through (le_net le (lv_sent s)) m (s\<lparr>lv_sent := Suc (lv_sent s)\<rparr>)"

definition wrong_type :: "live_env \<Rightarrow> (live_store, live_error, 'a) fallible" where
  "wrong_type le = failE (LiveRedis (le_wrong_type le))"

definition set_ex :: "live_env \<Rightarrow> int \<Rightarrow> string \<Rightarrow> string \<Rightarrow> int \<Rightarrow> (live_store, live_error, unit) fallible" where
  "set_ex le now k v ttl = command le (writeE (put_key k (RString v, Some (now + ttl))))"

definition sadd :: "live_env \<Rightarrow> int \<Rightarrow> string \<Rightarrow> string \<Rightarrow> (live_store, live_error, unit) fallible" where
  "sadd le now k m = command le (\<lambda>s.
     case visible now s k of
       None \<Rightarrow> writeE (put_key k (RSet [m], None)) s
     | Some (RSet ms) \<Rightarrow> writeE (put_key k (RSet (if m \<in> set ms then ms else ms @ [m]), snd (the (lv_keys s k)))) s
     | Some (RString _) \<Rightarrow> wrong_type le s)"

definition expire :: "live_env \<Rightarrow> int \<Rightarrow> string \<Rightarrow> int \<Rightarrow> (live_store, live_error, unit) fallible" where
  "expire le now k ttl = command le (\<lambda>s.
     case visible now s k of None \<Rightarrow> okE () s | Some v \<Rightarrow> writeE (put_key k (v, Some (now + ttl))) s)"

definition del :: "live_env \<Rightarrow> string \<Rightarrow> (live_store, live_error, unit) fallible" where
  "del le k = command le (writeE (drop_key k))"

definition srem :: "live_env \<Rightarrow> int \<Rightarrow> string \<Rightarrow> string \<Rightarrow> (live_store, live_error, unit) fallible" where
  "srem le now k m = command le (\<lambda>s.
     case visible now s k of
       None \<Rightarrow> okE () s
     | Some (RSet ms) \<Rightarrow>
         writeE (if removeAll m ms = [] then drop_key k else put_key k (RSet (removeAll m ms), snd (the (lv_keys s k)))) s
     | Some (RString _) \<Rightarrow> wrong_type le s)"

definition smembers :: "live_env \<Rightarrow> int \<Rightarrow> string \<Rightarrow> (live_store, live_error, string list) fallible" where
  "smembers le now k = command le (\<lambda>s.
     case visible now s k of None \<Rightarrow> okE [] s | Some (RSet ms) \<Rightarrow> okE ms s | Some (RString _) \<Rightarrow> wrong_type le s)"

definition redis_get :: "live_env \<Rightarrow> int \<Rightarrow> string \<Rightarrow> (live_store, live_error, string option) fallible" where
  "redis_get le now k = command le (\<lambda>s.
     case visible now s k of None \<Rightarrow> okE None s | Some (RString v) \<Rightarrow> okE (Some v) s | Some (RSet _) \<Rightarrow> wrong_type le s)"

section \<open>Sessions\<close>

definition session_key :: "string \<Rightarrow> string \<Rightarrow> string" where
  "session_key script sid = ''live:'' @ script @ '':'' @ sid"

definition sessions_key :: "string \<Rightarrow> string" where
  "sessions_key script = ''live:'' @ script @ '':sessions''"

text \<open>\<open>fresh\<close> is the draw of \<open>Uuid::new_v4\<close>.\<close>

definition put_session :: "live_env \<Rightarrow> int \<Rightarrow> string \<Rightarrow> live_script \<Rightarrow> (live_store, live_error, string) fallible" where
  "put_session le now fresh q =
     (case lq_config q of
        None \<Rightarrow> failE (LiveInvalid ''Live script has no config'')
      | Some config \<Rightarrow>
     (case lq_bundle q of
        None \<Rightarrow> failE (LiveInvalid ''Live script has no bundle'')
      | Some b \<Rightarrow>
          if lq_script q \<noteq> cf_id config then failE (LiveInvalid ''Script ID does not match script config'')
          else
            (case (case lq_session q of
                     Some i \<Rightarrow> (case le_uuid le i of Some u \<Rightarrow> Inr u | None \<Rightarrow> Inl (quoted i @ '' is not a session id''))
                   | None \<Rightarrow> Inr fresh) of
               Inl e \<Rightarrow> failE (LiveInvalid e)
             | Inr sid \<Rightarrow>
                 thenE (set_ex le now (session_key (lq_script q) sid) (le_write le (config, b)) SESSION_TTL)
                 (thenE (sadd le now (sessions_key (lq_script q)) sid)
                 (thenE (expire le now (sessions_key (lq_script q)) SESSION_TTL)
                 (okE sid))))))"

definition delete_session :: "live_env \<Rightarrow> int \<Rightarrow> string \<Rightarrow> string \<Rightarrow> (live_store, live_error, unit) fallible" where
  "delete_session le now script sid =
     thenE (del le (session_key script sid)) (srem le now (sessions_key script) sid)"

fun del_each :: "live_env \<Rightarrow> string \<Rightarrow> string list \<Rightarrow> (live_store, live_error, unit) fallible" where
  "del_each le script [] = okE ()"
| "del_each le script (i # is) = thenE (del le (session_key script i)) (del_each le script is)"

definition delete_script_sessions :: "live_env \<Rightarrow> int \<Rightarrow> string \<Rightarrow> (live_store, live_error, unit) fallible" where
  "delete_script_sessions le now script =
     bindE (smembers le now (sessions_key script)) (\<lambda>ids.
     thenE (del_each le script ids) (del le (sessions_key script)))"

definition get_session :: "live_env \<Rightarrow> int \<Rightarrow> string \<Rightarrow> string \<Rightarrow> (live_store, live_error, (script_config \<times> script_bundle) option) fallible" where
  "get_session le now script sid =
     bindE (redis_get le now (session_key script sid)) (\<lambda>v.
       case v of
         None \<Rightarrow> okE None
       | Some x \<Rightarrow> (case le_read le x of Some i \<Rightarrow> okE (Some i) | None \<Rightarrow> failE (LiveCorrupt (le_read_why le x))))"

section \<open>The rpcs\<close>

fun live_status :: "live_error \<Rightarrow> status" where
  "live_status (LiveInvalid e) = InvalidArgument e"
| "live_status (LiveRedis e) = Internal e"
| "live_status (LivePool e) = Internal e"
| "live_status (LiveCorrupt e) = Internal e"

definition put_live_session :: "live_env \<Rightarrow> int \<Rightarrow> string \<Rightarrow> live_script \<Rightarrow> (live_store, status, string \<times> string) fallible" where
  "put_live_session le now fresh q = bindE (map_errE live_status (put_session le now fresh q)) (\<lambda>sid. okE (lq_script q, sid))"

definition get_live_session :: "live_env \<Rightarrow> int \<Rightarrow> string \<Rightarrow> string \<Rightarrow> (live_store, status, live_script) fallible" where
  "get_live_session le now script sid =
     bindE (map_errE live_status (get_session le now script sid)) (\<lambda>v.
       case v of
         Some (config, b) \<Rightarrow> okE \<lparr>lq_session = Some sid, lq_script = script, lq_config = Some config, lq_bundle = Some b\<rparr>
       | None \<Rightarrow> failE (NotFound ''Live script session not found.''))"

definition delete_live_session :: "live_env \<Rightarrow> int \<Rightarrow> string \<Rightarrow> string \<Rightarrow> (live_store, status, unit) fallible" where
  "delete_live_session le now script sid = map_errE live_status (delete_session le now script sid)"

text \<open>Deleting a script or a project ends its sessions as well as it can; failures there are ignored.\<close>

definition delete_script_and_sessions :: "'v service \<Rightarrow> live_env \<Rightarrow> int \<Rightarrow> string \<Rightarrow> script_store \<times> live_store
    \<Rightarrow> (status + unit) \<times> script_store \<times> live_store" where
  "delete_script_and_sessions sv le now v x =
     (if sv_parse sv v = None then (fst (delete_script sv v (fst x)), x)
      else case delete_script sv v (fst x) of (a, s) \<Rightarrow> (a, s, snd (delete_script_sessions le now v (snd x))))"

definition delete_project_and_sessions :: "'v service \<Rightarrow> live_env \<Rightarrow> int \<Rightarrow> string \<Rightarrow> script_store \<times> live_store
    \<Rightarrow> (status + unit) \<times> script_store \<times> live_store" where
  "delete_project_and_sessions sv le now v x =
     (case delete_project sv v (fst x) of
        (Inl e, s) \<Rightarrow> (Inl e, s, snd x)
      | (Inr ids, s) \<Rightarrow> (Inr (), s, fold (\<lambda>i l. snd (delete_script_sessions le now i l)) ids (snd x)))"

section \<open>Serving a session\<close>

text \<open>What the worker asks for: the bundle of the session, empty when the answer carries none.\<close>

definition live_bundle :: "live_env \<Rightarrow> int \<Rightarrow> live_store \<Rightarrow> string \<Rightarrow> string \<Rightarrow> status + script_bundle" where
  "live_bundle le now s script sid =
     (case fst (get_live_session le now script sid s) of
        Inl e \<Rightarrow> Inl e
      | Inr q \<Rightarrow> Inr (case lq_bundle q of Some b \<Rightarrow> b | None \<Rightarrow> \<lparr>b_entry_point = '''', b_files = []\<rparr>))"

end
