(* ===== verification/Live_Spec.thy ===== *)
theory Live_Spec
  imports Live
begin

text \<open>
  What live sessions promise while Redis answers: every session that has not expired is named in
  its script's set, so deleting a script ends all of them; and a saved working tree is what the
  worker serves for the session, until two minutes after the last save.
\<close>

section \<open>Keys\<close>

definition clean :: "string \<Rightarrow> bool" where
  "clean sid \<longleftrightarrow> CHR '':'' \<notin> set sid \<and> sid \<noteq> ''sessions''"

lemma last_colon: "a @ CHR '':'' # x = b @ CHR '':'' # y \<Longrightarrow> CHR '':'' \<notin> set x \<Longrightarrow> CHR '':'' \<notin> set y \<Longrightarrow> a = b \<and> x = y"
proof -
  assume e: "a @ CHR '':'' # x = b @ CHR '':'' # y" and n: "CHR '':'' \<notin> set x" "CHR '':'' \<notin> set y"
  have "split_once CHR '':'' (rev (a @ CHR '':'' # x)) = Some (rev x, rev a)" "split_once CHR '':'' (rev (b @ CHR '':'' # y)) = Some (rev y, rev b)"
    using n by (simp_all add: split_once_Some_iff)
  with e show ?thesis by simp
qed

lemma session_key_inj: "CHR '':'' \<notin> set x \<Longrightarrow> CHR '':'' \<notin> set y \<Longrightarrow> session_key a x = session_key b y \<longleftrightarrow> a = b \<and> x = y"
  using last_colon [of a x b y] by (auto simp: session_key_def)

lemma sessions_key_session: "sessions_key a = session_key a ''sessions''"
  by (simp add: sessions_key_def session_key_def)

lemma keys_apart:
  "clean x \<Longrightarrow> session_key a x \<noteq> sessions_key b" "clean x \<Longrightarrow> sessions_key b \<noteq> session_key a x"
  "sessions_key a = sessions_key b \<longleftrightarrow> a = b" "clean x \<Longrightarrow> clean y \<Longrightarrow> session_key a x = session_key b y \<longleftrightarrow> a = b \<and> x = y"
  unfolding sessions_key_session by (auto simp: session_key_inj clean_def)

section \<open>Commands that answer\<close>

definition answering :: "live_env \<Rightarrow> bool" where
  "answering le \<longleftrightarrow> (\<forall>i. le_net le i = Applied)"

definition uuid_texts :: "live_env \<Rightarrow> bool" where
  "uuid_texts le \<longleftrightarrow> (\<forall>i u. le_uuid le i = Some u \<longrightarrow> clean u)"

definition ticked :: "live_store \<Rightarrow> live_store" where
  "ticked s = s\<lparr>lv_sent := Suc (lv_sent s)\<rparr>"

lemma command_answers: "answering le \<Longrightarrow> command le m s = m (ticked s)"
  by (simp add: command_def answering_def through_def ticked_def)

lemma key_simps [simp]:
  "lv_keys (ticked s) = lv_keys s" "lv_keys (put_key k x s) = (lv_keys s)(k \<mapsto> x)" "lv_keys (drop_key k s) = (lv_keys s)(k := None)"
  "visible now (ticked s) = visible now s"
  by (simp_all add: ticked_def put_key_def drop_key_def visible_def fun_eq_iff)

section \<open>The set names every live session\<close>

definition live_ok :: "int \<Rightarrow> live_store \<Rightarrow> bool" where
  "live_ok now s \<longleftrightarrow>
     (\<forall>script sid v e. clean sid \<longrightarrow> lv_keys s (session_key script sid) = Some (v, e) \<longrightarrow>
        (\<exists>x t. v = RString x \<and> e = Some t \<and> t \<le> now + SESSION_TTL
           \<and> (now < t \<longrightarrow> (\<exists>ms e'. lv_keys s (sessions_key script) = Some (RSet ms, Some e') \<and> sid \<in> set ms \<and> t \<le> e'))))
   \<and> (\<forall>script v e. lv_keys s (sessions_key script) = Some (v, e) \<longrightarrow> (\<exists>ms t. v = RSet ms \<and> e = Some t \<and> (\<forall>m \<in> set ms. clean m)))"

lemma live_ok_session:
  assumes "live_ok now s" "clean sid" "lv_keys s (session_key script sid) = Some (v, e)"
  obtains x t where "v = RString x" "e = Some t" "t \<le> now + SESSION_TTL"
    "now < t \<Longrightarrow> \<exists>ms e'. lv_keys s (sessions_key script) = Some (RSet ms, Some e') \<and> sid \<in> set ms \<and> t \<le> e'"
  using assms unfolding live_ok_def by metis

lemma live_ok_index:
  assumes "live_ok now s" "lv_keys s (sessions_key script) = Some (v, e)"
  obtains ms t where "v = RSet ms" "e = Some t" "\<forall>m \<in> set ms. clean m"
  using assms unfolding live_ok_def by metis

lemma live_ok_later:
  assumes "live_ok now s" "now \<le> later"
  shows "live_ok later s"
  unfolding live_ok_def
proof (intro conjI allI impI)
  fix script sid v e
  assume "clean sid" "lv_keys s (session_key script sid) = Some (v, e)"
  then obtain x t where "v = RString x" "e = Some t" "t \<le> now + SESSION_TTL"
    "now < t \<longrightarrow> (\<exists>ms e'. lv_keys s (sessions_key script) = Some (RSet ms, Some e') \<and> sid \<in> set ms \<and> t \<le> e')"
    by (rule live_ok_session [OF assms(1)]) blast
  with assms(2) show "\<exists>x t. v = RString x \<and> e = Some t \<and> t \<le> later + SESSION_TTL
     \<and> (later < t \<longrightarrow> (\<exists>ms e'. lv_keys s (sessions_key script) = Some (RSet ms, Some e') \<and> sid \<in> set ms \<and> t \<le> e'))"
    by (intro exI [of _ x] exI [of _ t]) auto
next
  fix script v e
  assume "lv_keys s (sessions_key script) = Some (v, e)"
  then show "\<exists>ms t. v = RSet ms \<and> e = Some t \<and> (\<forall>m \<in> set ms. clean m)" by (rule live_ok_index [OF assms(1)]) blast
qed

text \<open>The members of a script's set as a command sees them.\<close>

definition members :: "int \<Rightarrow> live_store \<Rightarrow> string \<Rightarrow> string list" where
  "members now s script = (case visible now s (sessions_key script) of Some (RSet ms) \<Rightarrow> ms | _ \<Rightarrow> [])"

lemma live_ok_members:
  assumes "live_ok now s" "clean sid" "lv_keys s (session_key script sid) = Some (v, Some t)" "now < t"
  shows "sid \<in> set (members now s script)"
  using live_ok_session [OF assms(1-3)] assms(4) by (fastforce simp: members_def visible_def)

lemma members_clean: "live_ok now s \<Longrightarrow> m \<in> set (members now s script) \<Longrightarrow> clean m"
  unfolding members_def visible_def
  by (auto split: option.splits redis_value.splits if_splits elim: live_ok_index)

lemma visible_index:
  assumes "live_ok now s"
  obtains (absent) "visible now s (sessions_key script) = None" "members now s script = []"
  | (present) ms t where "lv_keys s (sessions_key script) = Some (RSet ms, Some t)" "now < t"
      "visible now s (sessions_key script) = Some (RSet ms)" "members now s script = ms"
proof (cases "lv_keys s (sessions_key script)")
  case None
  then show thesis by (intro absent) (simp_all add: visible_def members_def)
next
  case (Some x)
  obtain v e where x: "x = (v, e)" by (cases x)
  obtain ms t where "v = RSet ms" "e = Some t" by (rule live_ok_index [OF assms Some [unfolded x]])
  with Some x absent present [of ms t] show thesis by (cases "now < t") (simp_all add: members_def visible_def)
qed

section \<open>What the operations leave\<close>

definition saved :: "int \<Rightarrow> string \<Rightarrow> string \<Rightarrow> string \<Rightarrow> live_store \<Rightarrow> string \<rightharpoonup> redis_value \<times> int option" where
  "saved now script sid x s = (let ms = members now s script in
     (lv_keys s)(session_key script sid \<mapsto> (RString x, Some (now + SESSION_TTL)),
       sessions_key script \<mapsto> (RSet (if sid \<in> set ms then ms else ms @ [sid]), Some (now + SESSION_TTL))))"

lemma put_saves:
  assumes "answering le" "live_ok now s" "clean sid"
  shows "\<exists>s'. thenE (set_ex le now (session_key script sid) x SESSION_TTL)
      (thenE (sadd le now (sessions_key script) sid) (thenE (expire le now (sessions_key script) SESSION_TTL) (okE sid))) s
      = (Inr sid, s') \<and> lv_keys s' = saved now script sid x s"
proof -
  let ?s1 = "put_key (session_key script sid) (RString x, Some (now + SESSION_TTL)) (ticked s)"
  have 1: "set_ex le now (session_key script sid) x SESSION_TTL s = (Inr (), ?s1)"
    using assms(1) by (simp add: set_ex_def command_answers writeE_def)
  have same: "visible now ?s1 (sessions_key script) = visible now s (sessions_key script)"
    using keys_apart(2) [OF assms(3)] by (simp add: visible_def)
  let ?ms = "members now s script"
  let ?new = "RSet (if sid \<in> set ?ms then ?ms else ?ms @ [sid])"
  obtain s2 e where 2: "sadd le now (sessions_key script) sid ?s1 = (Inr (), s2)"
      "lv_keys s2 = (lv_keys ?s1)(sessions_key script \<mapsto> (?new, e))" "visible now s2 (sessions_key script) = Some ?new"
  proof (cases rule: visible_index [OF assms(2), of script, case_names absent present])
    case absent
    with same assms(1) show thesis
      by (intro that [of "put_key (sessions_key script) (?new, None) (ticked ?s1)" None])
         (simp_all add: sadd_def command_answers writeE_def, simp add: visible_def)
  next
    case (present ms t)
    with same assms(1) keys_apart(2) [OF assms(3)] show thesis
      by (intro that [of "put_key (sessions_key script) (?new, Some t) (ticked ?s1)" "Some t"])
         (simp_all add: sadd_def command_answers writeE_def, simp_all add: visible_def)
  qed
  have 3: "expire le now (sessions_key script) SESSION_TTL s2 = (Inr (), put_key (sessions_key script) (?new, Some (now + SESSION_TTL)) (ticked s2))"
    using assms(1) 2(3) by (simp add: expire_def command_answers writeE_def)
  show ?thesis
    by (simp add: thenE_def 1 2(1) 3 okE_def saved_def Let_def 2(2))
qed

lemma live_ok_saved:
  assumes "live_ok now s" "clean sid" "lv_keys s' = saved now script sid x s"
  shows "live_ok now s'"
proof -
  let ?ms = "members now s script"
  have keys: "lv_keys s' (sessions_key script) = Some (RSet (if sid \<in> set ?ms then ?ms else ?ms @ [sid]), Some (now + SESSION_TTL))"
      "lv_keys s' (session_key script sid) = Some (RString x, Some (now + SESSION_TTL))"
      "\<And>sc i. clean i \<Longrightarrow> (sc, i) \<noteq> (script, sid) \<Longrightarrow> lv_keys s' (session_key sc i) = lv_keys s (session_key sc i)"
      "\<And>sc. sc \<noteq> script \<Longrightarrow> lv_keys s' (sessions_key sc) = lv_keys s (sessions_key sc)"
    using keys_apart assms(2,3) by (auto simp: saved_def Let_def)
  show ?thesis
    unfolding live_ok_def
  proof (intro conjI allI impI)
    fix sc i v e
    assume i: "clean i" "lv_keys s' (session_key sc i) = Some (v, e)"
    show "\<exists>x t. v = RString x \<and> e = Some t \<and> t \<le> now + SESSION_TTL
       \<and> (now < t \<longrightarrow> (\<exists>ms e'. lv_keys s' (sessions_key sc) = Some (RSet ms, Some e') \<and> i \<in> set ms \<and> t \<le> e'))"
    proof (cases "(sc, i) = (script, sid)")
      case True
      then show ?thesis using i keys(1,2) by auto
    next
      case False
      then have k: "lv_keys s (session_key sc i) = Some (v, e)" using keys(3) i by simp
      then obtain y t where y: "v = RString y" "e = Some t" "t \<le> now + SESSION_TTL"
        "now < t \<longrightarrow> (\<exists>ms e'. lv_keys s (sessions_key sc) = Some (RSet ms, Some e') \<and> i \<in> set ms \<and> t \<le> e')"
        by (rule live_ok_session [OF assms(1) i(1)]) blast
      show ?thesis
      proof (cases "sc = script")
        case True
        have "now < t \<Longrightarrow> i \<in> set ?ms" using live_ok_members [OF assms(1) i(1), of sc v t] k y(2) True by simp
        with y True keys(1) show ?thesis by auto
      next
        case False
        with y keys(4) [OF False] show ?thesis by auto
      qed
    qed
  next
    fix sc v e
    assume "lv_keys s' (sessions_key sc) = Some (v, e)"
    then show "\<exists>ms t. v = RSet ms \<and> e = Some t \<and> (\<forall>m \<in> set ms. clean m)"
      using keys(1) keys(4) [of sc] members_clean [OF assms(1)] assms(2) live_ok_index [OF assms(1), of sc v e]
      by (cases "sc = script") (auto, metis)
  qed
qed

definition gone :: "int \<Rightarrow> string \<Rightarrow> live_store \<Rightarrow> string \<rightharpoonup> redis_value \<times> int option" where
  "gone now script s = (\<lambda>k. if k = sessions_key script \<or> k \<in> session_key script ` set (members now s script) then None else lv_keys s k)"

lemma del_each_answers:
  "answering le \<Longrightarrow> \<exists>s'. del_each le script ids s = (Inr (), s')
     \<and> lv_keys s' = (\<lambda>k. if k \<in> session_key script ` set ids then None else lv_keys s k)"
proof (induction ids arbitrary: s)
  case (Cons i ids)
  let ?s = "drop_key (session_key script i) (ticked s)"
  have "del le (session_key script i) s = (Inr (), ?s)" using Cons.prems by (simp add: del_def command_answers writeE_def)
  moreover from Cons obtain s' where "del_each le script ids ?s = (Inr (), s')"
      "lv_keys s' = (\<lambda>k. if k \<in> session_key script ` set ids then None else lv_keys ?s k)" by blast
  ultimately show ?case by (auto simp: thenE_def fun_eq_iff)
qed (simp add: okE_def)

lemma delete_script_leaves:
  assumes "answering le" "live_ok now s"
  shows "\<exists>s'. delete_script_sessions le now script s = (Inr (), s') \<and> lv_keys s' = gone now script s"
proof -
  have "smembers le now (sessions_key script) s = (Inr (members now s script), ticked s)"
    using assms(1) by (cases rule: visible_index [OF assms(2), of script]) (simp_all add: smembers_def command_answers okE_def)
  moreover obtain s1 where "del_each le script (members now s script) (ticked s) = (Inr (), s1)"
      "lv_keys s1 = (\<lambda>k. if k \<in> session_key script ` set (members now s script) then None else lv_keys s k)"
    using del_each_answers [OF assms(1), of script "members now s script" "ticked s"] by (auto cong: if_cong)
  moreover have "del le (sessions_key script) s1 = (Inr (), drop_key (sessions_key script) (ticked s1))"
    using assms(1) by (simp add: del_def command_answers writeE_def)
  ultimately show ?thesis by (auto simp: delete_script_sessions_def thenE_def gone_def fun_eq_iff)
qed

lemma gone_key:
  assumes "live_ok now s" "clean i"
  shows "gone now script s (session_key sc i) = (if sc = script \<and> i \<in> set (members now s script) then None else lv_keys s (session_key sc i))"
  using keys_apart(1) [OF assms(2)] keys_apart(4) [OF assms(2) members_clean [OF assms(1)]] by (auto simp: gone_def)

lemma gone_index:
  assumes "live_ok now s"
  shows "gone now script s (sessions_key sc) = (if sc = script then None else lv_keys s (sessions_key sc))"
  using keys_apart(2) [OF members_clean [OF assms]] keys_apart(3) by (auto simp: gone_def)

lemma live_ok_gone:
  assumes "live_ok now s" "lv_keys s' = gone now script s"
  shows "live_ok now s'"
  unfolding live_ok_def assms(2)
proof (intro conjI allI impI)
  fix sc i v e
  assume i: "clean i" "gone now script s (session_key sc i) = Some (v, e)"
  then have k: "lv_keys s (session_key sc i) = Some (v, e)" and out: "\<not> (sc = script \<and> i \<in> set (members now s script))"
    by (auto simp: gone_key [OF assms(1) i(1)] split: if_splits)
  from k obtain y t where y: "v = RString y" "e = Some t" "t \<le> now + SESSION_TTL"
    "now < t \<longrightarrow> (\<exists>ms e'. lv_keys s (sessions_key sc) = Some (RSet ms, Some e') \<and> i \<in> set ms \<and> t \<le> e')"
    by (rule live_ok_session [OF assms(1) i(1)]) blast
  moreover have "sc \<noteq> script" if "now < t" using out live_ok_members [OF assms(1) i(1), of sc v t] k y(2) that by auto
  ultimately show "\<exists>x t. v = RString x \<and> e = Some t \<and> t \<le> now + SESSION_TTL
     \<and> (now < t \<longrightarrow> (\<exists>ms e'. gone now script s (sessions_key sc) = Some (RSet ms, Some e') \<and> i \<in> set ms \<and> t \<le> e'))"
    by (simp add: gone_index [OF assms(1)])
next
  fix sc v e
  assume "gone now script s (sessions_key sc) = Some (v, e)"
  then have "lv_keys s (sessions_key sc) = Some (v, e)" by (simp add: gone_index [OF assms(1)] split: if_splits)
  then show "\<exists>ms t. v = RSet ms \<and> e = Some t \<and> (\<forall>m \<in> set ms. clean m)" by (rule live_ok_index [OF assms(1)]) blast
qed

definition unsaved :: "int \<Rightarrow> string \<Rightarrow> string \<Rightarrow> live_store \<Rightarrow> string \<rightharpoonup> redis_value \<times> int option" where
  "unsaved now script sid s = (lv_keys s)(session_key script sid := None, sessions_key script :=
     (if visible now s (sessions_key script) = None then lv_keys s (sessions_key script)
      else if removeAll sid (members now s script) = [] then None
      else Some (RSet (removeAll sid (members now s script)), snd (the (lv_keys s (sessions_key script))))))"

lemma delete_session_leaves:
  assumes "answering le" "live_ok now s" "clean sid"
  shows "\<exists>s'. delete_session le now script sid s = (Inr (), s') \<and> lv_keys s' = unsaved now script sid s"
proof -
  let ?s1 = "drop_key (session_key script sid) (ticked s)"
  have 1: "del le (session_key script sid) s = (Inr (), ?s1)" using assms(1) by (simp add: del_def command_answers writeE_def)
  have same: "visible now ?s1 (sessions_key script) = visible now s (sessions_key script)" "lv_keys ?s1 (sessions_key script) = lv_keys s (sessions_key script)"
    using keys_apart(2) [OF assms(3)] by (simp_all add: visible_def)
  show ?thesis
  proof (cases rule: visible_index [OF assms(2), of script, case_names absent present])
    case absent
    with same assms(1) keys_apart(2) [OF assms(3)] show ?thesis
      by (auto simp: delete_session_def thenE_def 1 srem_def command_answers okE_def unsaved_def fun_eq_iff)
  next
    case (present ms t)
    with same assms(1) keys_apart(2) [OF assms(3)] show ?thesis
      by (auto simp: delete_session_def thenE_def 1 srem_def command_answers writeE_def unsaved_def fun_eq_iff simp del: removeAll.simps)
  qed
qed

lemma live_ok_unsaved:
  assumes "live_ok now s" "clean sid" "lv_keys s' = unsaved now script sid s"
  shows "live_ok now s'"
proof -
  have other: "lv_keys s' (session_key sc i) = lv_keys s (session_key sc i)" if "clean i" "(sc, i) \<noteq> (script, sid)" for sc i
    using that keys_apart assms(2,3) by (auto simp: unsaved_def)
  have this_one: "lv_keys s' (session_key script sid) = None" using keys_apart(1) [OF assms(2)] assms(3) by (simp add: unsaved_def)
  have index: "lv_keys s' (sessions_key sc) = lv_keys s (sessions_key sc)" if "sc \<noteq> script" for sc
    using that keys_apart(2) [OF assms(2)] keys_apart(3) assms(3) by (simp add: unsaved_def)
  show ?thesis
    unfolding live_ok_def
  proof (intro conjI allI impI)
    fix sc i v e
    assume i: "clean i" "lv_keys s' (session_key sc i) = Some (v, e)"
    then have ne: "(sc, i) \<noteq> (script, sid)" using this_one by auto
    with i other have k: "lv_keys s (session_key sc i) = Some (v, e)" by simp
    then obtain y t where y: "v = RString y" "e = Some t" "t \<le> now + SESSION_TTL"
      "now < t \<longrightarrow> (\<exists>ms e'. lv_keys s (sessions_key sc) = Some (RSet ms, Some e') \<and> i \<in> set ms \<and> t \<le> e')"
      by (rule live_ok_session [OF assms(1) i(1)]) blast
    have "\<exists>ms e'. lv_keys s' (sessions_key sc) = Some (RSet ms, Some e') \<and> i \<in> set ms \<and> t \<le> e'" if "now < t"
    proof (cases "sc = script")
      case True
      from y(4) that True obtain ms e' where ms: "lv_keys s (sessions_key script) = Some (RSet ms, Some e')" "i \<in> set ms" "t \<le> e'" by blast
      with that have "visible now s (sessions_key script) = Some (RSet ms)" "members now s script = ms" by (auto simp: visible_def members_def)
      moreover from ms(2) ne True have "i \<in> set (removeAll sid ms)" by auto
      moreover from this have "removeAll sid ms \<noteq> []" by (metis empty_iff list.set(1))
      ultimately have "lv_keys s' (sessions_key script) = Some (RSet (removeAll sid ms), Some e')"
        using ms(1) by (auto simp: assms(3) unsaved_def)
      with ms \<open>i \<in> set (removeAll sid ms)\<close> True show ?thesis by blast
    next
      case False
      with y(4) that index [OF False] show ?thesis by simp
    qed
    with y show "\<exists>x t. v = RString x \<and> e = Some t \<and> t \<le> now + SESSION_TTL
       \<and> (now < t \<longrightarrow> (\<exists>ms e'. lv_keys s' (sessions_key sc) = Some (RSet ms, Some e') \<and> i \<in> set ms \<and> t \<le> e'))" by blast
  next
    fix sc v e
    assume k: "lv_keys s' (sessions_key sc) = Some (v, e)"
    show "\<exists>ms t. v = RSet ms \<and> e = Some t \<and> (\<forall>m \<in> set ms. clean m)"
    proof (cases "sc = script \<and> visible now s (sessions_key script) \<noteq> None")
      case True
      then show ?thesis using k members_clean [OF assms(1), of _ script]
        by (cases rule: visible_index [OF assms(1), of script]) (auto simp: assms(3) unsaved_def split: if_splits)
    next
      case False
      then have "lv_keys s (sessions_key sc) = Some (v, e)" using k index [of sc] by (cases "sc = script") (auto simp: assms(3) unsaved_def)
      then show ?thesis by (rule live_ok_index [OF assms(1)]) blast
    qed
  qed
qed

section \<open>Requests over time\<close>

datatype live_request = PutLive string live_script | DeleteLive string string | EndScript string

fun live_serve :: "live_env \<Rightarrow> int \<Rightarrow> live_request \<Rightarrow> live_store \<Rightarrow> live_store" where
  "live_serve le now (PutLive fresh q) s = snd (put_live_session le now fresh q s)"
| "live_serve le now (DeleteLive script sid) s = snd (delete_live_session le now script sid s)"
| "live_serve le now (EndScript script) s = snd (delete_script_sessions le now script s)"

text \<open>Session ids as the service hands them out.\<close>

fun clean_request :: "live_request \<Rightarrow> bool" where
  "clean_request (PutLive fresh q) = clean fresh"
| "clean_request (DeleteLive script sid) = clean sid"
| "clean_request (EndScript script) = True"

fun touches :: "live_env \<Rightarrow> string \<Rightarrow> string \<Rightarrow> live_request \<Rightarrow> bool" where
  "touches le script sid (PutLive fresh q) \<longleftrightarrow> lq_script q = script \<and> (case lq_session q of None \<Rightarrow> fresh = sid | Some i \<Rightarrow> le_uuid le i = Some sid)"
| "touches le script sid (DeleteLive sc i) \<longleftrightarrow> sc = script \<and> i = sid"
| "touches le script sid (EndScript sc) \<longleftrightarrow> sc = script"

lemma put_session_cases:
  obtains (refused) e where "put_session le now fresh q = failE e"
  | (writes) config b sid where "lq_config q = Some config" "lq_bundle q = Some b" "lq_script q = cf_id config"
      "(case lq_session q of None \<Rightarrow> sid = fresh | Some i \<Rightarrow> le_uuid le i = Some sid)"
      "put_session le now fresh q = thenE (set_ex le now (session_key (lq_script q) sid) (le_write le (config, b)) SESSION_TTL)
         (thenE (sadd le now (sessions_key (lq_script q)) sid) (thenE (expire le now (sessions_key (lq_script q)) SESSION_TTL) (okE sid)))"
proof (cases "lq_config q")
  case None
  then show thesis by (intro refused) (simp add: put_session_def)
next
  case config: (Some config)
  show thesis
  proof (cases "lq_bundle q")
    case None
    then show thesis by (intro refused) (simp add: put_session_def config)
  next
    case b: (Some b)
    show thesis
    proof (cases "lq_script q = cf_id config")
      case False
      then show thesis by (intro refused) (simp add: put_session_def config b)
    next
      case script: True
      show thesis
      proof (cases "lq_session q")
        case None
        then show thesis by (intro writes [OF config b script, of fresh]) (simp_all add: put_session_def config b script)
      next
        case session: (Some i)
        show thesis
        proof (cases "le_uuid le i")
          case None
          then show thesis by (intro refused) (simp add: put_session_def config b script session)
        next
          case (Some sid)
          then show thesis using session by (intro writes [OF config b script, of sid]) (simp_all add: put_session_def config b script)
        qed
      qed
    qed
  qed
qed

lemma put_session_clean:
  assumes "uuid_texts le" "clean fresh" "(case lq_session q of None \<Rightarrow> sid = fresh | Some i \<Rightarrow> le_uuid le i = Some sid)"
  shows "clean sid"
  using assms by (auto simp: uuid_texts_def split: option.splits)

lemma live_serve_ok:
  assumes "answering le" "uuid_texts le" "live_ok now s" "clean_request r"
  shows "live_ok now (live_serve le now r s)
    \<and> (\<forall>script sid. clean sid \<longrightarrow> \<not> touches le script sid r \<longrightarrow> lv_keys (live_serve le now r s) (session_key script sid) = lv_keys s (session_key script sid))"
proof (cases r)
  case (PutLive fresh q)
  show ?thesis
  proof (cases rule: put_session_cases [of le now fresh q, case_names refused writes])
    case (refused e)
    with PutLive assms(3) show ?thesis by (simp add: put_live_session_def map_errE_def failE_def bindE_def)
  next
    case (writes config b sid)
    have c: "clean sid" using put_session_clean [OF assms(2) _ writes(4)] assms(4) PutLive by simp
    from put_saves [OF assms(1,3) c, of "lq_script q" "le_write le (config, b)"] obtain s'
      where s': "put_session le now fresh q s = (Inr sid, s')" "lv_keys s' = saved now (lq_script q) sid (le_write le (config, b)) s"
      unfolding writes(5) by blast
    have e: "live_serve le now r s = s'" using PutLive s'(1) by (simp add: put_live_session_def map_errE_def bindE_def okE_def)
    have "lv_keys s' (session_key script i) = lv_keys s (session_key script i)" if "clean i" "\<not> touches le script i r" for script i
      using that s'(2) keys_apart c writes(4) PutLive by (auto simp: saved_def Let_def split: option.splits)
    with live_ok_saved [OF assms(3) c s'(2)] e show ?thesis by simp
  qed
next
  case (DeleteLive script sid)
  then have c: "clean sid" using assms(4) by simp
  from delete_session_leaves [OF assms(1,3) c, of script] obtain s'
    where s': "delete_session le now script sid s = (Inr (), s')" "lv_keys s' = unsaved now script sid s" by blast
  have e: "live_serve le now r s = s'" using DeleteLive s'(1) by (simp add: delete_live_session_def map_errE_def)
  have "lv_keys s' (session_key sc i) = lv_keys s (session_key sc i)" if "clean i" "\<not> touches le sc i r" for sc i
    using that s'(2) keys_apart c DeleteLive by (auto simp: unsaved_def)
  with live_ok_unsaved [OF assms(3) c s'(2)] e show ?thesis by simp
next
  case (EndScript script)
  from delete_script_leaves [OF assms(1,3), of script] obtain s'
    where s': "delete_script_sessions le now script s = (Inr (), s')" "lv_keys s' = gone now script s" by blast
  have e: "live_serve le now r s = s'" using EndScript s'(1) by simp
  have "lv_keys s' (session_key sc i) = lv_keys s (session_key sc i)" if "clean i" "\<not> touches le sc i r" for sc i
    using that s'(2) gone_key [OF assms(3) that(1)] EndScript by simp
  with live_ok_gone [OF assms(3) s'(2)] e show ?thesis by simp
qed

inductive live_reach :: "live_env \<Rightarrow> int \<Rightarrow> live_store \<Rightarrow> bool" for le where
  live_init: "live_reach le now \<lparr>lv_keys = Map.empty, lv_sent = n\<rparr>"
| live_next: "live_reach le now s \<Longrightarrow> now \<le> later \<Longrightarrow> clean_request r \<Longrightarrow> live_reach le later (live_serve le later r s)"

lemma live_reach_ok:
  assumes "answering le" "uuid_texts le"
  shows "live_reach le now s \<Longrightarrow> live_ok now s"
proof (induction rule: live_reach.induct)
  case (live_next now s later r)
  from live_serve_ok [OF assms live_ok_later [OF live_next.IH live_next.hyps(2)] live_next.hyps(3)] show ?case by blast
qed (simp add: live_ok_def)

lemma get_live_answers:
  assumes "answering le"
  shows "fst (get_live_session le now script sid s) =
     (case visible now s (session_key script sid) of
        None \<Rightarrow> Inl (NotFound ''Live script session not found.'')
      | Some (RSet ms) \<Rightarrow> Inl (Internal (le_wrong_type le))
      | Some (RString x) \<Rightarrow>
          (case le_read le x of
             Some (config, b) \<Rightarrow> Inr \<lparr>lq_session = Some sid, lq_script = script, lq_config = Some config, lq_bundle = Some b\<rparr>
           | None \<Rightarrow> Inl (Internal (le_read_why le x))))"
  using assms
  by (auto simp: get_live_session_def get_session_def redis_get_def command_answers wrong_type_def bindE_def map_errE_def okE_def failE_def
      split: option.split redis_value.split)

text \<open>Deleting a script ends its live sessions, all of them: none can be read from then on until it is
  saved again. Sessions of other scripts read as before.\<close>

theorem script_deletion_ends_sessions:
  assumes "answering le" "uuid_texts le" "live_reach le now s" "now \<le> later" "clean sid" "later \<le> after"
  shows "\<exists>s'. delete_script_sessions le later script s = (Inr (), s')
    \<and> fst (get_live_session le after script sid s') = Inl (NotFound ''Live script session not found.'')
    \<and> (\<forall>other. other \<noteq> script \<longrightarrow> fst (get_live_session le after other sid s') = fst (get_live_session le after other sid s))"
proof -
  have ok: "live_ok later s" using live_ok_later [OF live_reach_ok [OF assms(1-3)] assms(4)] .
  from delete_script_leaves [OF assms(1) this, of script] obtain s'
    where s': "delete_script_sessions le later script s = (Inr (), s')" "lv_keys s' = gone later script s" by blast
  have "visible after s' (session_key script sid) = None"
  proof (cases "sid \<in> set (members later s script)")
    case True
    then show ?thesis by (simp add: visible_def s'(2) gone_key [OF ok assms(5)])
  next
    case False
    show ?thesis
    proof (cases "lv_keys s (session_key script sid)")
      case (Some x)
      obtain v e where x: "x = (v, e)" by (cases x)
      obtain t where t: "e = Some t" by (rule live_ok_session [OF ok assms(5) Some [unfolded x]])
      with False live_ok_members [OF ok assms(5), of script v t] Some x have "\<not> later < t" by auto
      with assms(6) Some x t False show ?thesis by (simp add: visible_def s'(2) gone_key [OF ok assms(5)])
    qed (simp add: visible_def s'(2) gone_key [OF ok assms(5)])
  qed
  moreover have "visible after s' (session_key other sid) = visible after s (session_key other sid)" if "other \<noteq> script" for other
    using that by (simp add: visible_def s'(2) gone_key [OF ok assms(5)])
  ultimately show ?thesis using s'(1) by (simp add: get_live_answers [OF assms(1)])
qed

section \<open>A saved session is served\<close>

definition served_on :: "live_env \<Rightarrow> (int \<times> live_request) list \<Rightarrow> live_store \<Rightarrow> live_store" where
  "served_on le rs s = fold (\<lambda>(now, r) s. live_serve le now r s) rs s"

lemma untouched_key:
  assumes "answering le" "uuid_texts le" "clean sid"
  shows "live_ok now s \<Longrightarrow> sorted (now # map fst rs) \<Longrightarrow> \<forall>(t, r) \<in> set rs. clean_request r \<and> \<not> touches le script sid r
    \<Longrightarrow> lv_keys (served_on le rs s) (session_key script sid) = lv_keys s (session_key script sid)"
proof (induction rs arbitrary: now s)
  case (Cons x rs)
  obtain t r where x: "x = (t, r)" by (cases x)
  from Cons.prems x have "now \<le> t" "clean_request r" "\<not> touches le script sid r" by auto
  with live_serve_ok [OF assms(1,2) live_ok_later [OF Cons.prems(1)]]
  have "live_ok t (live_serve le t r s)" "lv_keys (live_serve le t r s) (session_key script sid) = lv_keys s (session_key script sid)"
    using assms(3) by auto
  with Cons.IH [of t "live_serve le t r s"] Cons.prems x show ?case by (simp add: served_on_def)
qed (simp add: served_on_def)

lemma put_session_saves:
  assumes "answering le" "uuid_texts le" "live_ok now s" "clean fresh" "put_live_session le now fresh q s = (Inr (script, sid), s1)"
  shows "\<exists>config b. lq_config q = Some config \<and> lq_bundle q = Some b \<and> clean sid \<and> live_ok now s1
    \<and> lv_keys s1 (session_key script sid) = Some (RString (le_write le (config, b)), Some (now + SESSION_TTL))"
proof (cases rule: put_session_cases [of le now fresh q, case_names refused writes])
  case (refused e)
  with assms(5) show ?thesis by (simp add: put_live_session_def map_errE_def failE_def bindE_def)
next
  case (writes config b i)
  have c: "clean i" using put_session_clean [OF assms(2,4) writes(4)] .
  from put_saves [OF assms(1,3) c, of "lq_script q" "le_write le (config, b)"] obtain s'
    where s': "put_session le now fresh q s = (Inr i, s')" "lv_keys s' = saved now (lq_script q) i (le_write le (config, b)) s"
    unfolding writes(5) by blast
  with assms(5) have "i = sid" "script = lq_script q" "s1 = s'" by (simp_all add: put_live_session_def map_errE_def bindE_def okE_def)
  moreover have "lv_keys s' (session_key (lq_script q) i) = Some (RString (le_write le (config, b)), Some (now + SESSION_TTL))"
    using s'(2) keys_apart(1) [OF c] by (simp add: saved_def Let_def)
  ultimately show ?thesis using c writes(1,2) live_ok_saved [OF assms(3) c s'(2)] by blast
qed

text \<open>A saved working tree is what the worker serves for its session: whatever other sessions and scripts
  are saved and deleted meanwhile, a request within two minutes of the save runs exactly the saved
  bundle under its script, and one after that finds no session.\<close>

theorem saved_session_is_served:
  assumes "answering le" "uuid_texts le" "le_read le (le_write le (config, b)) = Some (config, b)"
    and "live_reach le before s" "before \<le> now" "clean fresh" "put_live_session le now fresh q s = (Inr (script, sid), s1)" "lq_config q = Some config" "lq_bundle q = Some b"
    and "sorted (now # map fst rs)" "\<forall>(t, r) \<in> set rs. clean_request r \<and> \<not> touches le script sid r" "sc_id row = script"
  shows "target_revision sv (live_bundle le later (served_on le rs s1)) ttl clock (Live ident sid) row st ch =
     (if later < now + SESSION_TTL then Inr (prepare row '''' None b)
      else Inl (Answer (text_response 404 ''No live session with that id.'')), ch)"
proof -
  have "live_ok now s" by (rule live_ok_later [OF live_reach_ok [OF assms(1,2,4)] assms(5)])
  from put_session_saves [OF assms(1,2) this assms(6,7)] assms(8,9)
  have saved: "clean sid" "live_ok now s1" "lv_keys s1 (session_key script sid) = Some (RString (le_write le (config, b)), Some (now + SESSION_TTL))"
    by auto
  from untouched_key [OF assms(1,2) saved(1,2) assms(10,11)] saved(3)
  have "visible later (served_on le rs s1) (session_key script sid) = (if later < now + SESSION_TTL then Some (RString (le_write le (config, b))) else None)"
    by (simp add: visible_def)
  then have "live_bundle le later (served_on le rs s1) script sid
      = (if later < now + SESSION_TTL then Inr b else Inl (NotFound ''Live script session not found.''))"
    using assms(3) by (simp add: live_bundle_def get_live_answers [OF assms(1)])
  then show ?thesis using assms(12) by (simp add: target_revision_def)
qed

section \<open>On one session\<close>

definition session_config :: script_config where
  "session_config = \<lparr>cf_id = ''a'', cf_entry_point = ''main.lua'', cf_includes = [], cf_ignore = [], cf_capabilities = None\<rparr>"

definition demo_tree :: script_bundle where
  "demo_tree = \<lparr>b_entry_point = ''main.lua'', b_files = []\<rparr>"

definition demo_live :: live_env where
  "demo_live = \<lparr>le_write = (\<lambda>_. ''session''), le_read = (\<lambda>_. Some (session_config, demo_tree)), le_read_why = (\<lambda>_. ''''), le_uuid = (\<lambda>_. None),
     le_net = (\<lambda>_. Applied), le_wrong_type = ''''\<rparr>"

definition demo_save :: live_script where
  "demo_save = \<lparr>lq_session = None, lq_script = ''a'', lq_config = Some session_config, lq_bundle = Some demo_tree\<rparr>"

definition no_sessions :: live_store where
  "no_sessions = \<lparr>lv_keys = Map.empty, lv_sent = 0\<rparr>"

lemma demo_live_facts: "answering demo_live" "uuid_texts demo_live" "clean ''s1''" "clean ''s2''" "live_reach demo_live 0 no_sessions"
  by (simp_all add: answering_def uuid_texts_def demo_live_def clean_def no_sessions_def live_init)

theorem script_deletion_ends_sessions_witness:
  "fst (get_live_session demo_live 7 ''a'' ''s1''
     (snd (delete_script_sessions demo_live 5 ''a'' (live_serve demo_live 3 (PutLive ''s1'' demo_save) no_sessions))))
   = Inl (NotFound ''Live script session not found.'')"
proof -
  have "live_reach demo_live 3 (live_serve demo_live 3 (PutLive ''s1'' demo_save) no_sessions)"
    by (rule live_next [OF demo_live_facts(5)]) (simp_all add: demo_live_facts)
  from script_deletion_ends_sessions [OF demo_live_facts(1,2) this, of 5 "''s1''" 7 "''a''"] demo_live_facts(3)
  show ?thesis by (auto simp del: live_serve.simps)
qed

theorem saved_session_is_served_witness:
  "target_revision demo_service (live_bundle demo_live 100 (served_on demo_live [(10, PutLive ''s2'' demo_save)]
       (snd (put_live_session demo_live 3 ''s1'' demo_save no_sessions)))) 60 0 (Live ''first'' ''s1'') (demo_script ''a'' ''first'' 1 None) two_served no_caches
   = (Inr (prepare (demo_script ''a'' ''first'' 1 None) '''' None demo_tree), no_caches)"
proof -
  have run: "put_live_session demo_live 3 ''s1'' demo_save no_sessions = (Inr (''a'', ''s1''), snd (put_live_session demo_live 3 ''s1'' demo_save no_sessions))"
    using put_saves [OF demo_live_facts(1) live_reach_ok [OF demo_live_facts(1,2) live_init [of _ 3 0]] demo_live_facts(3), of "''a''" "''session''"]
    by (auto simp: put_live_session_def put_session_def demo_save_def session_config_def demo_live_def map_errE_def bindE_def okE_def no_sessions_def)
  have read: "le_read demo_live (le_write demo_live (session_config, demo_tree)) = Some (session_config, demo_tree)" by (simp add: demo_live_def)
  show ?thesis
    using saved_session_is_served [OF demo_live_facts(1,2) read demo_live_facts(5) _ demo_live_facts(3) run,
        of "[(10, PutLive ''s2'' demo_save)]" "demo_script ''a'' ''first'' 1 None" demo_service 100 60 0 "''first''" two_served no_caches]
    by (simp add: demo_save_def SESSION_TTL_def demo_live_facts demo_script_def)
qed

end
