(* ===== verification/Kv_Spec.thy ===== *)
theory Kv_Spec
  imports Kv Text_Codec
begin

text \<open>
  What the key value service promises: partitions stay in key order with types that read back, what
  a handle stores it reads back, a listing followed by its tokens ends and misses nothing that was
  there throughout, and deleting a project deletes its data. The last needs every registration to
  succeed; a pair whose registration failed survives.
\<close>

section \<open>Rows in key order\<close>

text \<open>A table by key: what an upsert and a removal do to lookups, and what follows for batches.\<close>

locale keyed_rows =
  fixes inv :: "'s \<Rightarrow> bool" and look :: "'s \<Rightarrow> 'k \<Rightarrow> 'v option" and upsert :: "'k \<Rightarrow> 'v \<Rightarrow> 's \<Rightarrow> 's" and remove :: "'k \<Rightarrow> 's \<Rightarrow> 's"
  assumes inv_upsert: "inv s \<Longrightarrow> inv (upsert k v s)"
    and inv_remove: "inv s \<Longrightarrow> inv (remove k s)"
    and look_upsert: "inv s \<Longrightarrow> look (upsert k v s) = (look s)(k \<mapsto> v)"
    and look_remove: "inv s \<Longrightarrow> look (remove k s) = (look s)(k := None)"
begin

definition upserts :: "('k \<times> 'v) list \<Rightarrow> 's \<Rightarrow> 's" where
  "upserts kvs = fold (\<lambda>(k, v). upsert k v) kvs"

definition removes :: "'k list \<Rightarrow> 's \<Rightarrow> 's" where
  "removes ks = fold remove ks"

lemma upserts_inv: "inv s \<Longrightarrow> inv (upserts kvs s)"
  unfolding upserts_def by (induction kvs arbitrary: s) (auto simp: inv_upsert)

lemma removes_inv: "inv s \<Longrightarrow> inv (removes ks s)"
  unfolding removes_def by (induction ks arbitrary: s) (auto simp: inv_remove)

text \<open>The last of several writes to a key is the one that is read.\<close>

lemma look_upserts: "inv s \<Longrightarrow> look (upserts kvs s) k = (case map_of (rev kvs) k of Some v \<Rightarrow> Some v | None \<Rightarrow> look s k)"
  unfolding upserts_def
  by (induction kvs arbitrary: s) (auto simp: look_upsert inv_upsert map_add_def split: option.splits)

lemma look_removes: "inv s \<Longrightarrow> look (removes ks s) k = (if k \<in> set ks then None else look s k)"
  unfolding removes_def by (induction ks arbitrary: s) (auto simp: look_remove inv_remove)

end

definition rows_sorted :: "(string \<times> kv_cell) list \<Rightarrow> bool" where
  "rows_sorted rows \<longleftrightarrow> sorted_wrt (<) (map fst rows)"

definition remove_row :: "string \<Rightarrow> (string \<times> kv_cell) list \<Rightarrow> (string \<times> kv_cell) list" where
  "remove_row k rows = filter (\<lambda>r. fst r \<noteq> k) rows"

lemma put_row_keys: "fst ` set (put_row k c rows) = insert k (fst ` set rows)"
  by (induction k c rows rule: put_row.induct) auto

lemma put_row_set: "r \<in> set (put_row k c rows) \<Longrightarrow> r = (k, c) \<or> r \<in> set rows"
  by (induction k c rows rule: put_row.induct) (auto split: if_splits)

lemma put_row_sorted: "rows_sorted rows \<Longrightarrow> rows_sorted (put_row k c rows)"
proof (induction k c rows rule: put_row.induct)
  case (2 k c k' c' r)
  then have "k' < fst x" if "x \<in> set r" for x using that by (auto simp: rows_sorted_def)
  moreover have "fst x = k \<or> fst x \<in> fst ` set r" if "x \<in> set (put_row k c r)" for x
    using put_row_set [OF that] by auto
  ultimately show ?case using 2 by (fastforce simp: rows_sorted_def)
qed (simp add: rows_sorted_def)

lemma map_of_put_row: "rows_sorted rows \<Longrightarrow> map_of (put_row k c rows) = (map_of rows)(k \<mapsto> c)"
proof (induction k c rows rule: put_row.induct)
  case (2 k c k' c' r)
  then have "\<not> k < k' \<Longrightarrow> k \<noteq> k' \<Longrightarrow> map_of (put_row k c r) = (map_of r)(k \<mapsto> c)"
    by (simp add: rows_sorted_def fun_upd_def)
  then show ?case by (auto simp: fun_eq_iff)
qed auto

lemma map_of_filter_keys: "map_of (filter (\<lambda>r. fst r \<noteq> k) rows) = (map_of rows)(k := None)"
  by (induction rows) (auto simp: fun_upd_twist)

lemma rows_sorted_filter: "rows_sorted rows \<Longrightarrow> rows_sorted (filter P rows)"
  by (simp add: rows_sorted_def sorted_wrt_map_filter)

interpretation partition: keyed_rows rows_sorted map_of put_row remove_row
  by unfold_locales (simp_all add: put_row_sorted map_of_put_row remove_row_def map_of_filter_keys rows_sorted_filter)

lemma rows_sorted_distinct: "rows_sorted rows \<Longrightarrow> distinct (map fst rows)"
  by (metis rows_sorted_def strict_sorted_iff)

lemma rows_sorted_find: "rows_sorted rows \<Longrightarrow> find (\<lambda>r. fst r = k) rows = map_option (Pair k) (map_of rows k)"
  by (induction rows) (auto simp: rows_sorted_def)

lemma map_of_filter_live: "rows_sorted rows \<Longrightarrow> map_of (filter (\<lambda>r. P (snd r)) rows) k
    = (case map_of rows k of Some c \<Rightarrow> if P c then Some c else None | None \<Rightarrow> None)"
proof (induction rows)
  case (Cons r rows)
  then have "k = fst r \<Longrightarrow> map_of rows k = None" "rows_sorted rows"
    by (auto simp: rows_sorted_def map_of_eq_None_iff)
  with Cons.IH show ?case by (auto split: option.split)
qed simp

section \<open>The tables\<close>

definition typed :: "kv_cell \<Rightarrow> bool" where
  "typed c \<longleftrightarrow> c_type c \<in> range value_type_text"

definition kv_wf :: "kv_store \<Rightarrow> bool" where
  "kv_wf s \<longleftrightarrow> (\<forall>u ns. rows_sorted (kv_pairs s (u, ns)) \<and> (\<forall>r \<in> set (kv_pairs s (u, ns)). typed (snd r)))"

lemma value_type_round_trip [simp]: "value_type_parse (value_type_text t) = Inr t"
  by (cases t) (simp_all add: value_type_parse_def)

lemma value_type_code_round_trip [simp]: "value_type_of_code (value_type_code t) = t"
  by (cases t) (simp_all add: value_type_of_code_def)

text \<open>A statement keeps whatever sending and its effect keep, refused and lost statements included.\<close>

lemma keeps_execute:
  assumes "\<And>s. P s \<Longrightarrow> P (sending s)" "\<And>s. P s \<Longrightarrow> P (apply_stmt now st s)"
  shows "keeps P (execute ke now st)"
  using assms by (auto simp: keeps_def execute_def through_def net_error_def writeE_def split: option.split sent.split)

lemma keeps_fetch: "(\<And>s. P s \<Longrightarrow> P (sending s)) \<Longrightarrow> keeps P (fetch ke g)"
  by (auto simp: keeps_def fetch_def through_def net_error_def readE_def split: sent.split)

lemma keeps_project_uuid [simp]: "keeps P (project_uuid ke p)"
  by (simp add: project_uuid_def split: option.split)

lemma keeps_remote: "keeps P m \<Longrightarrow> keeps P (remote ke m)"
  unfolding remote_def [abs_def] by (rule keepsI) (simp add: keepsD keeps_through)

lemma sending_tables [simp]: "kv_pairs (sending s) = kv_pairs s" "kv_names (sending s) = kv_names s"
  by (simp_all add: sending_def)

lemma kv_wf_sending [simp]: "kv_wf (sending s) = kv_wf s"
  by (simp add: kv_wf_def sending_def)

lemma kv_wf_write: "kv_wf s \<Longrightarrow> kv_wf (apply_stmt now (WritePair u ns k v (value_type_text t) ttl) s)"
  by (auto simp: kv_wf_def put_row_sorted typed_def dest!: put_row_set)

lemma rows_sorted_Nil [simp]: "rows_sorted []"
  by (simp add: rows_sorted_def)

lemma kv_wf_other: "kv_wf s \<Longrightarrow> (case st of WritePair u ns k v t ttl \<Rightarrow> False | _ \<Rightarrow> True) \<Longrightarrow> kv_wf (apply_stmt now st s)"
  unfolding kv_wf_def by (cases st) (fastforce intro: rows_sorted_filter split: if_splits)+

section \<open>Requests\<close>

datatype kv_request =
    SetPairs "pair list"
  | DeletePairs "pair_request list"
  | CreateNamespace string string
  | DeleteNamespace string string
  | DeleteProject string

fun kv_serve :: "kv_env \<Rightarrow> int \<Rightarrow> kv_request \<Rightarrow> (kv_store, status, unit) fallible" where
  "kv_serve ke now (SetPairs ps) = rpc_set_pairs ke now ps"
| "kv_serve ke now (DeletePairs qs) = rpc_delete_pairs ke now qs"
| "kv_serve ke now (CreateNamespace p ns) = thenE (rpc_create_namespace ke now p ns) (okE ())"
| "kv_serve ke now (DeleteNamespace p ns) = rpc_delete_namespace ke now p ns"
| "kv_serve ke now (DeleteProject p) = rpc_delete_project ke now p"

lemmas rpc_defs = rpc_set_pairs_def rpc_delete_pairs_def rpc_create_namespace_def rpc_delete_namespace_def rpc_delete_project_def

definition empty_kv :: kv_store where
  "empty_kv = \<lparr>kv_pairs = (\<lambda>_. []), kv_names = (\<lambda>_. []), kv_sent = 0\<rparr>"

inductive kv_reach :: "kv_env \<Rightarrow> kv_store \<Rightarrow> bool" for ke where
  kv_init: "kv_reach ke empty_kv"
| kv_request: "kv_reach ke s \<Longrightarrow> kv_reach ke (snd (kv_serve ke now q s))"

text \<open>An invariant of the requests is one of their statements.\<close>

lemma keeps_kv_set:
  assumes "\<And>s. P s \<Longrightarrow> P (sending s)" "\<And>u ns k v t ttl s. P s \<Longrightarrow> P (apply_stmt now (WritePair u ns k v (value_type_text t) ttl) s)"
    and "\<And>u ns s. P s \<Longrightarrow> P (apply_stmt now (RegisterName u ns) s)"
  shows "keeps P (kv_set ke now ps)"
  by (induction ps) (auto intro!: keeps_bindE keeps_thenE keeps_execute assms)

lemma keeps_kv_delete:
  assumes "\<And>s. P s \<Longrightarrow> P (sending s)" "\<And>u ns k s. P s \<Longrightarrow> P (apply_stmt now (DeletePair u ns k) s)"
  shows "keeps P (kv_delete ke now qs)"
  by (induction qs) (auto intro!: keeps_bindE keeps_thenE keeps_execute assms)

lemma keeps_drop_each:
  assumes "\<And>s. P s \<Longrightarrow> P (sending s)" "\<And>n s. P s \<Longrightarrow> P (apply_stmt now (DropPairs u n) s)"
  shows "keeps P (drop_each ke now u ns)"
  by (induction ns) (auto intro!: keeps_thenE keeps_execute assms)

lemma kv_wf_serve: "keeps kv_wf (kv_serve ke now q)"
proof (cases q)
  case (SetPairs ps)
  then show ?thesis by (auto simp: rpc_defs simp del: apply_stmt.simps intro!: keeps_map_errE keeps_kv_set kv_wf_write kv_wf_other)
next
  case (DeletePairs qs)
  then show ?thesis by (auto simp: rpc_defs simp del: apply_stmt.simps intro!: keeps_map_errE keeps_kv_delete kv_wf_other)
next
  case (CreateNamespace p ns)
  then show ?thesis
    by (auto simp: rpc_defs kv_create_namespace_def simp del: apply_stmt.simps
        intro!: keeps_thenE keeps_map_errE keeps_bindE keeps_execute kv_wf_other)
next
  case (DeleteNamespace p ns)
  then show ?thesis
    by (auto simp: rpc_defs kv_delete_namespace_def simp del: apply_stmt.simps
        intro!: keeps_thenE keeps_map_errE keeps_bindE keeps_execute kv_wf_other)
next
  case (DeleteProject p)
  then show ?thesis
    by (auto simp: rpc_defs kv_delete_project_def namespace_names_def simp del: apply_stmt.simps
        intro!: keeps_thenE keeps_map_errE keeps_bindE keeps_execute keeps_fetch keeps_drop_each kv_wf_other)
qed

lemma kv_reach_wf: "kv_reach ke s \<Longrightarrow> kv_wf s"
proof (induction rule: kv_reach.induct)
  case (kv_request s now q)
  from keepsD [OF kv_wf_serve kv_request.IH] show ?case .
qed (simp add: kv_wf_def empty_kv_def)

section \<open>Reading typed rows\<close>

definition pair_of :: "int \<Rightarrow> string \<Rightarrow> string \<Rightarrow> string \<times> kv_cell \<Rightarrow> pair" where
  "pair_of now u ns r = \<lparr>pr_project = u, pr_namespace = ns,
     pr_type = (case value_type_parse (c_type (snd r)) of Inr t \<Rightarrow> value_type_code t | Inl _ \<Rightarrow> 0),
     pr_ttl = map_option (\<lambda>e. e - now) (c_expires (snd r)), pr_key = fst r, pr_value = c_value (snd r)\<rparr>"

lemma row_into_pair_typed: "typed (snd r) \<Longrightarrow> row_into_pair (select_row now u ns r) = Inr (pair_of now u ns r)"
  by (auto simp: typed_def select_row_def pair_of_def)

lemma rows_into_pairs_typed:
  "\<forall>r \<in> set rs. typed (snd r) \<Longrightarrow> rows_into_pairs (map (select_row now u ns) rs) = Inr (map (pair_of now u ns) rs)"
  by (induction rs) (auto simp: row_into_pair_typed)

lemma live_rows_wf: "kv_wf s \<Longrightarrow> rows_sorted (live_rows now u ns s) \<and> (\<forall>r \<in> set (live_rows now u ns s). typed (snd r))"
  unfolding kv_wf_def live_rows_def by (simp add: rows_sorted_filter del: split_paired_All split_paired_Ball_Sigma) fast

lemma bindE_InlE:
  assumes "fst (bindE m f s) = Inl e"
  obtains "fst (m s) = Inl e" | x s' where "m s = (Inr x, s')" "fst (f x s') = Inl e"
  using assms by (auto simp: bindE_def split: prod.splits sum.splits)

lemma fetch_Inl: "fst (fetch ke g s) = Inl e \<Longrightarrow> \<exists>m. e = DbQuery m"
  by (auto simp: fetch_def through_def net_error_def readE_def split: sent.splits)

lemma fetch_Inr: "fetch ke g s = (Inr x, s') \<Longrightarrow> x = g s \<and> s' = sending s"
  by (auto simp: fetch_def through_def net_error_def readE_def split: sent.splits)

lemma project_uuid_Inr: "project_uuid ke p s = (Inr u, s') \<Longrightarrow> ke_uuid ke p = Some u \<and> s' = s"
  by (auto simp: project_uuid_def okE_def failE_def split: option.splits)

lemma kv_get_invalid:
  assumes "kv_wf s" "fst (kv_get ke now p ns k s) = Inl (DbInvalid e)"
  shows "ke_uuid ke p = None"
proof (rule ccontr)
  assume "ke_uuid ke p \<noteq> None"
  then obtain u where u: "ke_uuid ke p = Some u" by auto
  let ?g = "\<lambda>s. map_option (select_row now u ns) (find (\<lambda>r. fst r = k) (live_rows now u ns s))"
  from assms(2) u obtain row s' where row: "fetch ke ?g s = (Inr row, s')"
    and "fst ((case row of None \<Rightarrow> okE None | Some r \<Rightarrow> (case row_into_pair r of Inl e \<Rightarrow> failE e | Inr x \<Rightarrow> okE (Some x))) s') = Inl (DbInvalid e)"
    by (auto simp: kv_get_def project_uuid_def elim!: bindE_InlE dest: fetch_Inl)
  then obtain r where r: "find (\<lambda>r. fst r = k) (live_rows now u ns s) = Some r" and "row_into_pair (select_row now u ns r) = Inl (DbInvalid e)"
    using fetch_Inr [OF row] by (auto simp: okE_def failE_def split: option.splits sum.splits)
  moreover from r have "r \<in> set (live_rows now u ns s)" by (auto simp: find_Some_iff)
  ultimately show False using live_rows_wf [OF assms(1), of now u ns] by (simp add: row_into_pair_typed)
qed

lemma cut_page_set: "set (fst (cut_page ke n i rest)) \<subseteq> set rest"
  by (auto simp: cut_page_def Let_def dest: in_set_takeD)

lemma rows_after_set: "set (rows_after pos rows) \<subseteq> set rows"
  by (auto simp: rows_after_def split: option.split)

lemma resume_at_Inr: "resume_at ke state s = (Inr pos, s') \<Longrightarrow> s' = s"
  by (auto simp: resume_at_def okE_def failE_def split: option.splits)

lemma resume_at_Inl: "fst (resume_at ke state s) = Inl e \<Longrightarrow> \<exists>m. e = DbQuery m"
  by (auto simp: resume_at_def okE_def failE_def split: option.splits)

lemma single_page_Inl: "fst (single_page ke now u ns n state s) = Inl e \<Longrightarrow> \<exists>m. e = DbQuery m"
  unfolding single_page_def by (auto elim!: bindE_InlE dest: resume_at_Inl fetch_Inl)

lemma single_page_Inr:
  assumes "single_page ke now u ns n state s = (Inr (page, cont), s')"
  shows "set page \<subseteq> set (live_rows now u ns s)"
proof -
  from assms obtain pos where "fetch ke (\<lambda>s. cut_page ke n (kv_sent s) (rows_after pos (live_rows now u ns s))) s = (Inr (page, cont), s')"
    by (auto simp: single_page_def bindE_def split: prod.splits sum.splits dest!: resume_at_Inr)
  from fetch_Inr [OF this] have "page = fst (cut_page ke n (kv_sent s) (rows_after pos (live_rows now u ns s)))" by (metis fst_conv)
  then show ?thesis using cut_page_set rows_after_set by fast
qed

lemma next_token_Inl: "fst (next_token ke now u ns cont s) = Inl e \<Longrightarrow> \<exists>m. e = DbQuery m"
  by (auto simp: next_token_def count_from_def okE_def elim!: bindE_InlE dest: resume_at_Inl fetch_Inl split: option.splits)

lemma kv_list_invalid:
  assumes "kv_wf s" "fst (kv_list ke now p ns n token s) = Inl (DbInvalid e)"
  shows "ke_uuid ke p = None \<or> n \<le> 0 \<or> (\<exists>t. token = Some t \<and> ke_unb64 ke t = None)"
proof (rule ccontr)
  assume "\<not> ?thesis"
  then obtain u state where u: "ke_uuid ke p = Some u" "0 < n" "decode_token ke token = okE state"
    by (cases token) (auto simp: decode_token_def)
  with assms(2) obtain page cont s1 x where page: "single_page ke now u ns n state s = (Inr (page, cont), s1)"
    and "rows_into_pairs (map (select_row now u ns) page) = Inl x"
    by (auto simp: kv_list_def project_uuid_def okE_def elim!: bindE_InlE dest: single_page_Inl next_token_Inl split: sum.splits)
  moreover have "\<forall>r \<in> set page. typed (snd r)" using single_page_Inr [OF page] live_rows_wf [OF assms(1)] by blast
  ultimately show False by (simp add: rows_into_pairs_typed)
qed

text \<open>C29. Stored rows always carry a type that reads back: whatever requests were served, and however
  many of their statements failed or lost their answers, a read answers invalid only for a project
  that is no uuid, a page size that is not positive or a token that is not base64.\<close>

theorem kv_rows_typed:
  assumes "kv_reach ke s"
  shows "(fst (kv_get ke now p ns k s) = Inl (DbInvalid e) \<longrightarrow> ke_uuid ke p = None)
    \<and> (fst (kv_list ke now p ns n token s) = Inl (DbInvalid e)
        \<longrightarrow> ke_uuid ke p = None \<or> n \<le> 0 \<or> (\<exists>t. token = Some t \<and> ke_unb64 ke t = None))"
  using kv_get_invalid kv_list_invalid kv_reach_wf [OF assms] by blast

section \<open>Following the tokens\<close>

text \<open>The clients' loop: pages are asked for until one carries no token, each at its own moment and on
  the tables as they are then.\<close>

fun list_walk :: "kv_env \<Rightarrow> (nat \<Rightarrow> int \<times> kv_store) \<Rightarrow> string \<Rightarrow> string \<Rightarrow> int \<Rightarrow> nat \<Rightarrow> nat \<Rightarrow> string option \<Rightarrow> pair list option" where
  "list_walk ke w p ns n 0 i token = None"
| "list_walk ke w p ns n (Suc fuel) i token =
     (case fst (kv_list ke (fst (w i)) p ns n token (snd (w i))) of
        Inl e \<Rightarrow> None
      | Inr r \<Rightarrow>
          (case lr_token r of
             None \<Rightarrow> Some (lr_pairs r)
           | Some t \<Rightarrow> map_option (\<lambda>rest. lr_pairs r @ rest) (list_walk ke w p ns n fuel (Suc i) (Some t))))"

definition token_of :: "kv_env \<Rightarrow> string \<Rightarrow> string" where
  "token_of ke k = ke_b64 ke (ke_state ke k)"

text \<open>What the driver, the base64 crate and the server document: statements answer, a token decodes to
  the state it was made of, and the server reads its own states.\<close>

definition tokens_read :: "kv_env \<Rightarrow> bool" where
  "tokens_read ke \<longleftrightarrow> (\<forall>b. ke_unb64 ke (ke_b64 ke b) = Some b) \<and> (\<forall>k. ke_position ke (ke_state ke k) = Some k)"

definition reliable :: "kv_env \<Rightarrow> bool" where
  "reliable ke \<longleftrightarrow> (\<forall>i. ke_net ke i = Applied) \<and> (\<forall>i. ke_wire ke i = Applied)"

lemma fetch_reliable: "reliable ke \<Longrightarrow> fetch ke g s = (Inr (g s), sending s)"
  by (simp add: reliable_def fetch_def through_def net_error_def readE_def)

lemma execute_reliable: "reliable ke \<Longrightarrow> stmt_refused st = None \<Longrightarrow> execute ke now st s = (Inr (), apply_stmt now st (sending s))"
  by (simp add: reliable_def execute_def through_def net_error_def writeE_def)

lemma live_rows_sending [simp]: "live_rows now u ns (sending s) = live_rows now u ns s"
  by (simp add: live_rows_def sending_def)

text \<open>In key order, the rows after the last key of a page are the ones the page left out.\<close>

lemma sorted_after_prefix:
  assumes "rows_sorted (xs @ ys)" "xs \<noteq> []"
  shows "filter (\<lambda>r. fst (last xs) < fst r) (xs @ ys) = ys"
proof -
  have "fst (last xs) < fst r" if "r \<in> set ys" for r
    using assms that last_in_set [OF assms(2)] by (auto simp: rows_sorted_def sorted_wrt_append)
  moreover have "\<not> fst (last xs) < fst r" if "r \<in> set xs" for r
    using assms that by (cases xs rule: rev_cases) (auto simp: rows_sorted_def sorted_wrt_append less_le_not_le)
  ultimately show ?thesis by (simp add: filter_empty_conv filter_id_conv)
qed

lemma sorted_after_take:
  "rows_sorted rest \<Longrightarrow> 0 < m \<Longrightarrow> rest \<noteq> [] \<Longrightarrow> filter (\<lambda>r. fst (last (take m rest)) < fst r) rest = drop m rest"
  using sorted_after_prefix [of "take m rest" "drop m rest"] by simp

lemma rows_after_sorted: "rows_sorted rows \<Longrightarrow> rows_sorted (rows_after pos rows)"
  by (auto simp: rows_after_def rows_sorted_filter split: option.split)

lemma rows_after_last:
  assumes "rows_sorted rows" "0 < m" "rows_after pos rows \<noteq> []"
  shows "rows_after (Some (fst (last (take m (rows_after pos rows))))) rows = drop m (rows_after pos rows)"
proof -
  let ?k = "fst (last (take m (rows_after pos rows)))"
  have "last (take m (rows_after pos rows)) \<in> set (rows_after pos rows)"
    using assms(2,3) by (metis in_set_takeD last_in_set not_gr_zero take_eq_Nil)
  then have "pos = None \<or> the pos < ?k" by (auto simp: rows_after_def split: option.splits)
  then have "rows_after (Some ?k) rows = filter (\<lambda>r. ?k < fst r) (rows_after pos rows)"
    by (auto simp: rows_after_def intro!: filter_cong split: option.split)
  then show ?thesis using sorted_after_take [OF rows_after_sorted [OF assms(1)] assms(2,3)] by simp
qed

lemma kv_list_page:
  assumes "reliable ke" "tokens_read ke" "kv_wf s" "ke_uuid ke p = Some u" "0 < n"
    and "rest = rows_after pos (live_rows now u ns s)" "m = max 1 (min (nat n) (ke_cut ke (kv_sent s)))"
  shows "fst (kv_list ke now p ns n (map_option (token_of ke) pos) s) = Inr \<lparr>lr_page_size = n,
     lr_token = (if m < length rest then Some (token_of ke (fst (last (take m rest)))) else None),
     lr_pairs = map (pair_of now u ns) (take m rest)\<rparr>"
proof -
  have pos: "resume_at ke (map_option (ke_state ke) pos) s = (Inr pos, s)" "decode_token ke (map_option (token_of ke) pos) = okE (map_option (ke_state ke) pos)"
    using assms(2) by (auto simp: tokens_read_def resume_at_def decode_token_def token_of_def okE_def split: option.split)
  have page: "single_page ke now u ns n (map_option (ke_state ke) pos) s = (Inr (cut_page ke n (kv_sent s) rest), sending s)"
    using assms(1,6) pos by (simp add: single_page_def fetch_reliable)
  define cont where "cont = snd (cut_page ke n (kv_sent s) rest)"
  have typed: "\<forall>r \<in> set (take m rest). typed (snd r)"
    using live_rows_wf [OF assms(3)] rows_after_set assms(6) by (metis in_set_takeD subsetD)
  have left: "length (rows_after (Some (fst (last (take m rest)))) (live_rows now u ns s)) = length rest - m" if "rest \<noteq> []"
    using rows_after_last [of "live_rows now u ns s" m pos] that assms(6,7) live_rows_wf [OF assms(3)] by auto
  have st: "resume_at ke (Some (ke_state ke k)) s' = (Inr (Some k), s')" for k s'
    using assms(2) by (simp add: resume_at_def tokens_read_def okE_def)
  let ?token = "if m < length rest then Some (token_of ke (fst (last (take m rest)))) else None"
  have cut: "cut_page ke n (kv_sent s) rest = (take m rest, cont)" using assms(7) by (simp add: cont_def cut_page_def Let_def)
  have token: "fst (next_token ke now u ns cont (sending s)) = Inr ?token"
  proof (cases "rest = []")
    case False
    then have "fst (count_from ke now u ns (ke_state ke (fst (last (take m rest)))) (sending s)) = Inr (length rest - m)"
      using left assms(1) by (simp add: count_from_def st fetch_reliable)
    with assms(7) show ?thesis
      by (auto simp: cont_def cut_page_def Let_def next_token_def token_of_def okE_def bindE_def split: prod.split)
  qed (simp add: cont_def cut_page_def next_token_def okE_def)
  obtain s2 where "next_token ke now u ns cont (sending s) = (Inr ?token, s2)"
    using token by (metis prod.collapse)
  then have "bindE (next_token ke now u ns cont) (\<lambda>token'. case rows_into_pairs (map (select_row now u ns) (take m rest)) of
           Inl e \<Rightarrow> failE e
         | Inr pairs \<Rightarrow> okE \<lparr>lr_page_size = n, lr_token = token', lr_pairs = pairs\<rparr>) (sending s)
      = (Inr \<lparr>lr_page_size = n, lr_token = ?token, lr_pairs = map (pair_of now u ns) (take m rest)\<rparr>, s2)"
    unfolding rows_into_pairs_typed [OF typed] by (simp only: bindE_Inr sum.case okE_def)
  then show ?thesis
    using assms(4,5) page by (simp add: kv_list_def project_uuid_def pos cut del: map_map)
qed

definition past :: "string option \<Rightarrow> string \<Rightarrow> bool" where
  "past pos k = (case pos of None \<Rightarrow> True | Some a \<Rightarrow> a < k)"

lemma rows_after_past: "set (rows_after pos rows) = {r \<in> set rows. past pos (fst r)}"
  by (auto simp: rows_after_def past_def split: option.split)

lemma pr_key_pair_of [simp]: "pr_key (pair_of now u ns r) = fst r"
  by (simp add: pair_of_def)

lemma map_pr_key [simp]: "map pr_key (map (pair_of now u ns) rs) = map fst rs"
  by simp

text \<open>What the walk has collected from a position on, over the views from some moment on.\<close>

definition walked :: "(nat \<Rightarrow> int \<times> kv_store) \<Rightarrow> string \<Rightarrow> string \<Rightarrow> nat \<Rightarrow> nat \<Rightarrow> string option \<Rightarrow> pair list \<Rightarrow> bool" where
  "walked w u ns i fuel pos ps \<longleftrightarrow>
     sorted_wrt (<) (map pr_key ps) \<and> (\<forall>x \<in> set ps. past pos (pr_key x))
     \<and> (\<forall>x \<in> set ps. \<exists>j \<ge> i. \<exists>r \<in> set (live_rows (fst (w j)) u ns (snd (w j))). x = pair_of (fst (w j)) u ns r)
     \<and> (\<forall>k. past pos k \<longrightarrow> (\<forall>j. i \<le> j \<and> j < i + fuel \<longrightarrow> k \<in> fst ` set (live_rows (fst (w j)) u ns (snd (w j)))) \<longrightarrow> k \<in> pr_key ` set ps)"

lemma walked_end:
  assumes "rows_sorted (live_rows (fst (w i)) u ns (snd (w i)))"
  shows "walked w u ns i (Suc fuel) pos (map (pair_of (fst (w i)) u ns) (rows_after pos (live_rows (fst (w i)) u ns (snd (w i)))))"
  using rows_after_sorted [OF assms, of pos] unfolding walked_def map_pr_key
  by (auto simp: rows_sorted_def rows_after_past image_iff) force+

lemma walked_page:
  assumes "rows_sorted rest" "rest = rows_after pos (live_rows (fst (w i)) u ns (snd (w i)))" "xs \<noteq> []" "rest = xs @ ys"
    and ps: "walked w u ns (Suc i) fuel (Some (fst (last xs))) ps"
  shows "walked w u ns i (Suc fuel) pos (map (pair_of (fst (w i)) u ns) xs @ ps)"
proof -
  let ?k = "fst (last xs)" and ?live = "\<lambda>j. live_rows (fst (w j)) u ns (snd (w j))"
  have sorted: "sorted_wrt (<) (map fst (xs @ ys))" using assms(1,4) by (simp add: rows_sorted_def)
  then have upto: "fst r \<le> ?k" if "r \<in> set xs" for r
    using that assms(3) by (cases xs rule: rev_cases) (auto simp: sorted_wrt_append less_imp_le)
  have beyond: "?k < fst r" if "r \<in> set ys" for r
    using that sorted last_in_set [OF assms(3)] by (auto simp: sorted_wrt_append)
  have inrest: "set (xs @ ys) = {r \<in> set (?live i). past pos (fst r)}"
    unfolding assms(4) [symmetric] assms(2) by (rule rows_after_past)
  then have inpage: "set xs \<subseteq> {r \<in> set (?live i). past pos (fst r)}" unfolding set_append by blast
  have later: "\<forall>x \<in> set ps. ?k < pr_key x" using ps by (simp add: walked_def past_def)
  have "past pos ?k" using inpage last_in_set [OF assms(3)] by auto
  then have pastps: "\<forall>x \<in> set ps. past pos (pr_key x)"
    using later by (auto simp: past_def split: option.splits dest: less_trans)
  have complete: "k \<in> fst ` set xs \<union> pr_key ` set ps"
    if "past pos k" "\<forall>j. i \<le> j \<and> j < i + Suc fuel \<longrightarrow> k \<in> fst ` set (?live j)" for k
  proof (cases "?k < k")
    case True
    then show ?thesis using ps that(2) by (auto simp: walked_def past_def)
  next
    case False
    from that(2) have "k \<in> fst ` set (?live i)" by auto
    then obtain r where "r \<in> set (?live i)" "fst r = k" by blast
    with that(1) inrest have r: "r \<in> set (xs @ ys)" "fst r = k" by blast+
    then have "r \<in> set xs" using False beyond [of r] by auto
    with r show ?thesis by auto
  qed
  have mono: "sorted_wrt (<) (map pr_key (map (pair_of (fst (w i)) u ns) xs @ ps))"
    using sorted ps upto later unfolding map_append map_pr_key walked_def
    by (auto simp: sorted_wrt_append dest: order.strict_trans1)
  show ?thesis
    unfolding walked_def
  proof (intro conjI mono)
    show "\<forall>x \<in> set (map (pair_of (fst (w i)) u ns) xs @ ps). past pos (pr_key x)" using inpage pastps by auto
    have "\<exists>j \<ge> i. \<exists>r \<in> set (?live j). x = pair_of (fst (w j)) u ns r" if "x \<in> set ps" for x
      using ps that unfolding walked_def by (meson Suc_leD)
    then show "\<forall>x \<in> set (map (pair_of (fst (w i)) u ns) xs @ ps). \<exists>j \<ge> i. \<exists>r \<in> set (?live j). x = pair_of (fst (w j)) u ns r"
      using inpage by fastforce
    have "pr_key ` set (map (pair_of (fst (w i)) u ns) xs @ ps) = fst ` set xs \<union> pr_key ` set ps"
      by (simp add: image_Un image_image)
    then show "\<forall>k. past pos k \<longrightarrow> (\<forall>j. i \<le> j \<and> j < i + Suc fuel \<longrightarrow> k \<in> fst ` set (?live j))
        \<longrightarrow> k \<in> pr_key ` set (map (pair_of (fst (w i)) u ns) xs @ ps)"
      using complete by presburger
  qed
qed

lemma list_walk_complete:
  assumes "reliable ke" "tokens_read ke" "ke_uuid ke p = Some u" "0 < n" "\<And>j. kv_wf (snd (w j))"
    and "finite K" "\<And>j. fst ` set (kv_pairs (snd (w j)) (u, ns)) \<subseteq> K"
  shows "card {k \<in> K. past pos k} < fuel
    \<Longrightarrow> \<exists>ps. list_walk ke w p ns n fuel i (map_option (token_of ke) pos) = Some ps \<and> walked w u ns i fuel pos ps"
proof (induction fuel arbitrary: i pos)
  case (Suc fuel)
  let ?s = "snd (w i)" and ?now = "fst (w i)"
  define rest where "rest = rows_after pos (live_rows ?now u ns ?s)"
  define m where "m = max 1 (min (nat n) (ke_cut ke (kv_sent ?s)))"
  note page = kv_list_page [OF assms(1,2) assms(5) assms(3,4) rest_def m_def]
  have sorted: "rows_sorted (live_rows ?now u ns ?s)" using live_rows_wf [OF assms(5)] by blast
  show ?case
  proof (cases "m < length rest")
    case False
    then show ?thesis using page walked_end [of w i u ns fuel pos] sorted by (simp add: rest_def)
  next
    case True
    let ?k = "fst (last (take m rest))"
    have ne: "take m rest \<noteq> []" using True by (auto simp: m_def)
    then have "last (take m rest) \<in> set rest" by (metis in_set_takeD last_in_set)
    then have "?k \<in> K" "past pos ?k"
      using assms(7) [of i] by (auto simp: rest_def rows_after_past live_rows_def)
    then have "{k \<in> K. past (Some ?k) k} \<subset> {k \<in> K. past pos k}"
      by (auto simp: past_def psubset_eq split: option.splits dest: less_trans)
    moreover have "finite {k \<in> K. past pos k}" using assms(6) by simp
    ultimately have "card {k \<in> K. past (Some ?k) k} < card {k \<in> K. past pos k}" by (rule psubset_card_mono [rotated])
    with Suc.prems have "card {k \<in> K. past (Some ?k) k} < fuel" by linarith
    from Suc.IH [OF this, of "Suc i"] obtain ps
      where "list_walk ke w p ns n fuel (Suc i) (Some (token_of ke ?k)) = Some ps" "walked w u ns (Suc i) fuel (Some ?k) ps" by auto
    moreover have "rows_sorted rest" using rows_after_sorted [OF sorted] by (simp add: rest_def)
    ultimately show ?thesis using page True walked_page [of rest pos w i u ns "take m rest" "drop m rest" fuel ps] ne rest_def by simp
  qed
qed simp

text \<open>C30. Following the tokens of a listing ends after at most one page more than there are keys, also while
  the namespace changes between the pages and rows expire: the pages together are in strict key
  order, every pair was live when its page was read, and every key that was live at every page is
  among them.\<close>

theorem kv_listing_ends:
  assumes "reliable ke" "tokens_read ke" "ke_uuid ke p = Some u" "0 < n" "\<And>j. kv_reach ke' (snd (w j))"
    and "finite K" "\<And>j. fst ` set (kv_pairs (snd (w j)) (u, ns)) \<subseteq> K"
  shows "\<exists>ps. list_walk ke w p ns n (Suc (card K)) 0 None = Some ps \<and> sorted_wrt (<) (map pr_key ps)
    \<and> (\<forall>x \<in> set ps. \<exists>j. \<exists>r \<in> set (live_rows (fst (w j)) u ns (snd (w j))). x = pair_of (fst (w j)) u ns r)
    \<and> (\<forall>k. (\<forall>j \<le> card K. k \<in> fst ` set (live_rows (fst (w j)) u ns (snd (w j)))) \<longrightarrow> k \<in> pr_key ` set ps)"
proof -
  have "card {k \<in> K. past None k} < Suc (card K)" by (simp add: past_def)
  moreover have wf: "kv_wf (snd (w j))" for j by (rule kv_reach_wf [OF assms(5)])
  ultimately obtain ps where "list_walk ke w p ns n (Suc (card K)) 0 None = Some ps" "walked w u ns 0 (Suc (card K)) None ps"
    using list_walk_complete [where w = w and ns = ns and K = K and pos = None and i = 0, OF assms(1-4) wf assms(6,7)]
    by (auto simp del: list_walk.simps)
  then show ?thesis by (auto simp: walked_def past_def less_Suc_eq_le)
qed

section \<open>What a handle stores it reads back\<close>

lemma digits_value_snoc: "digits_value (s @ [c]) = 10 * digits_value s + (int (of_char c) - 48)"
  by (simp add: digits_value_def)

lemma digit_char_value: "d < 10 \<Longrightarrow> (of_char (digit_char d) :: nat) = 48 + d"
  by (simp add: digit_char_def)

lemma show_nat_digits: "all_digits (show_nat n) \<and> digits_value (show_nat n) = int n"
proof (induction n rule: show_nat.induct)
  case (1 n)
  show ?case
  proof (cases "n < 10")
    case True
    then show ?thesis by (simp add: show_nat.simps [of n] all_digits_def digits_value_def digit_char_value)
  next
    case False
    with 1 have "all_digits (show_nat (n div 10))" "digits_value (show_nat (n div 10)) = int (n div 10)" by blast+
    with False show ?thesis
      by (simp add: show_nat.simps [of n] digits_value_snoc digit_char_value all_digits_def zdiv_int zmod_int)
  qed
qed

lemma all_digits_unsigned: "all_digits s \<Longrightarrow> \<not> starts_with s ''-'' \<and> \<not> starts_with s ''+''"
  by (cases s) (auto simp: all_digits_def)

lemma parse_show_i64: "- (2 ^ 63) \<le> i \<Longrightarrow> i < 2 ^ 63 \<Longrightarrow> parse_i64 (show_int i) = Some i"
  using show_nat_digits [of "nat i"] show_nat_digits [of "nat (- i)"] all_digits_unsigned [of "show_nat (nat i)"]
  by (simp add: parse_i64_def show_int_def Let_def)

fun storable :: "float_text \<Rightarrow> lua_value \<Rightarrow> bool" where
  "storable F (LInt i) \<longleftrightarrow> - (2 ^ 63) \<le> i \<and> i < 2 ^ 63"
| "storable F (LNum w) \<longleftrightarrow> ft_parse F (ft_show F w) = Some w"
| "storable F (LStr s) \<longleftrightarrow> from_utf8 s \<noteq> None"
| "storable F (LTable (Inr (JArr xs))) \<longleftrightarrow> float_free (JArr xs)"
| "storable F (LTable (Inr (JObj kvs))) \<longleftrightarrow> float_free (JObj kvs)"
| "storable F (LBool b) \<longleftrightarrow> True"
| "storable F LNil \<longleftrightarrow> True"
| "storable F _ \<longleftrightarrow> False"

lemma service_value_round_trip:
  assumes "codec_round_trips J" "storable F v" "v \<noteq> LNil"
  shows "\<exists>tv. into_service_value J F v = Inr (Some tv) \<and> pair_into_lua J F (fst tv) (snd tv) = Inr v"
  using assms
  by (cases "(F, v)" rule: storable.cases)
     (auto simp: into_service_value_def pair_into_lua_def parse_show_i64 parse_bool_def codec_round_trips_def from_utf8_def simp del: float_free.simps split: if_splits)

lemma handle_get_reliable:
  assumes "reliable ke" "kv_wf s" "ke_uuid ke (kh_project h) = Some u"
  shows "fst (handle_get ke J F now True h k s) =
     (case map_of (kv_pairs s (u, kh_namespace h)) k of
        Some c \<Rightarrow> if cell_alive now c then pair_into_lua J F (value_type_of_code (pr_type (pair_of now u (kh_namespace h) (k, c)))) (c_value c) else Inr LNil
      | None \<Rightarrow> Inr LNil)"
proof -
  let ?ns = "kh_namespace h"
  let ?rows = "kv_pairs s (u, ?ns)"
  have sorted: "rows_sorted ?rows" using assms(2) by (simp add: kv_wf_def)
  then have find: "find (\<lambda>r. fst r = k) (live_rows now u ?ns s)
      = map_option (Pair k) (case map_of ?rows k of Some c \<Rightarrow> if cell_alive now c then Some c else None | None \<Rightarrow> None)"
    by (simp add: live_rows_def rows_sorted_find rows_sorted_filter map_of_filter_live)
  have typed: "typed c" if "map_of ?rows k = Some c" for c
    using map_of_SomeD [OF that] assms(2) by (fastforce simp: kv_wf_def)
  show ?thesis
    using assms(1,3) find
    by (auto simp: handle_get_def assert_effects_allowed_def thenE_def remote_def through_def reliable_def rpc_get_pair_def
        map_errE_def kv_get_def handle_request_def project_uuid_def fetch_reliable [unfolded reliable_def] row_into_pair_typed typed
        bindE_def okE_def failE_def pair_of_def split: option.split)
qed

lemma cell_alive_forever: "c_expires c = None \<Longrightarrow> cell_alive now c"
  by (simp add: cell_alive_def)

definition stored_in :: "kv_store \<Rightarrow> kv_store \<Rightarrow> string \<Rightarrow> string \<Rightarrow> string \<Rightarrow> kv_cell option \<Rightarrow> bool" where
  "stored_in s s' u ns k c \<longleftrightarrow> kv_wf s' \<and> map_of (kv_pairs s' (u, ns)) = (map_of (kv_pairs s (u, ns)))(k := c)
     \<and> (\<forall>x. x \<noteq> (u, ns) \<longrightarrow> kv_pairs s' x = kv_pairs s x)"

lemma handle_set_stores:
  assumes "reliable ke" "kv_wf s" "ke_uuid ke (kh_project h) = Some u" "into_service_value J F v = Inr sv"
  shows "\<exists>s'. handle_set ke J F now True h k v s = (Inr (), s') \<and> stored_in s s' u (kh_namespace h) k
      (map_option (\<lambda>tv. \<lparr>c_value = snd tv, c_type = value_type_text (fst tv), c_expires = None\<rparr>) sv)
    \<and> kv_names s' = (if sv = None then kv_names s else (kv_names s)(u := insort_insert (kh_namespace h) (kv_names s u)))"
proof (cases sv)
  case None
  let ?st = "DeletePair u (kh_namespace h) k"
  have "handle_set ke J F now True h k v s = (Inr (), apply_stmt now ?st (sending s))"
    using assms(1,3,4) None
    by (simp add: handle_set_def assert_effects_allowed_def thenE_def remote_def through_def as_lua_def rpc_delete_pairs_def
        map_errE_def project_uuid_def execute_reliable handle_request_def okE_def, simp add: reliable_def map_errE_def)
  moreover have "stored_in s (apply_stmt now ?st (sending s)) u (kh_namespace h) k None"
    using kv_wf_other [of "sending s" ?st now, simplified] assms(2) by (simp add: stored_in_def map_of_filter_keys)
  ultimately show ?thesis using None by (simp add: sending_def)
next
  case (Some tv)
  let ?w = "WritePair u (kh_namespace h) k (snd tv) (value_type_text (fst tv)) 0" and ?r = "RegisterName u (kh_namespace h)"
  let ?s' = "apply_stmt now ?r (sending (apply_stmt now ?w (sending s)))"
  have "handle_set ke J F now True h k v s = (Inr (), ?s')"
    using assms(1,3,4) Some
    by (simp add: handle_set_def assert_effects_allowed_def thenE_def remote_def through_def as_lua_def rpc_set_pairs_def
        map_errE_def project_uuid_def execute_reliable handle_pair_def okE_def del: apply_stmt.simps, simp add: reliable_def map_errE_def)
  moreover have "kv_wf ?s'"
    using assms(2) by (intro kv_wf_other) (simp_all add: kv_wf_write del: apply_stmt.simps)
  then have "stored_in s ?s' u (kh_namespace h) k (Some \<lparr>c_value = snd tv, c_type = value_type_text (fst tv), c_expires = None\<rparr>)"
    using assms(2) by (simp add: stored_in_def sending_def map_of_put_row kv_wf_def)
  ultimately show ?thesis using Some by (simp add: sending_def)
qed


section \<open>Deleting a project\<close>

text \<open>The registry covers the data: listing and deleting a project start from it.\<close>

definition covered :: "kv_store \<Rightarrow> bool" where
  "covered s \<longleftrightarrow> (\<forall>u ns. kv_pairs s (u, ns) \<noteq> [] \<longrightarrow> ns \<in> set (kv_names s u))"

lemma covered_sending [simp]: "covered (sending s) = covered s"
  by (simp add: covered_def sending_def)

lemma covered_delete: "covered s \<Longrightarrow> covered (apply_stmt now (DeletePair u ns k) s)"
  by (auto simp: covered_def) (metis filter.simps(1))

lemma covered_drop: "covered s \<Longrightarrow> covered (apply_stmt now (DropPairs u ns) s)"
  by (auto simp: covered_def)

lemma covered_register: "covered s \<Longrightarrow> covered (apply_stmt now (RegisterName u ns) s)"
  by (auto simp: covered_def set_insort_insert)

lemma covered_write_register:
  "covered s \<Longrightarrow> covered (apply_stmt now (RegisterName u ns) (sending (apply_stmt now (WritePair u ns k v t ttl) s)))"
  by (auto simp: covered_def sending_def set_insort_insert)

lemma covered_kv_set: "reliable ke \<Longrightarrow> keeps covered (kv_set ke now ps)"
proof (induction ps)
  case (Cons p ps)
  let ?w = "\<lambda>u. WritePair u (pr_namespace p) (pr_key p) (pr_value p)
      (value_type_text (value_type_of_code (pr_type p))) (case pr_ttl p of None \<Rightarrow> 0 | Some t \<Rightarrow> t)"
  have rest: "covered s \<Longrightarrow> covered (snd (kv_set ke now ps s))" for s using Cons by (auto simp: keeps_def)
  have "covered (snd (thenE (execute ke now (?w u)) (thenE (execute ke now (RegisterName u (pr_namespace p))) (kv_set ke now ps)) s))" if "covered s" for u s
  proof (cases "stmt_refused (?w u)")
    case None
    then have w: "execute ke now (?w u) s = (Inr (), apply_stmt now (?w u) (sending s))"
      and g: "execute ke now (RegisterName u (pr_namespace p)) s' = (Inr (), apply_stmt now (RegisterName u (pr_namespace p)) (sending s'))" for s'
      using Cons.prems by (simp_all add: execute_reliable del: apply_stmt.simps)
    show ?thesis unfolding thenE_def bindE_Inr [of "execute ke now (?w u)" s, OF w] bindE_Inr [OF g]
      by (rule rest, rule covered_write_register) (simp add: that)
  next
    case (Some e)
    then show ?thesis using that by (simp add: thenE_def bindE_def execute_def del: apply_stmt.simps)
  qed
  then have "keeps covered (thenE (execute ke now (?w u)) (thenE (execute ke now (RegisterName u (pr_namespace p))) (kv_set ke now ps)))" for u
    by (rule keepsI)
  then show ?case by (auto intro: keeps_bindE)
qed simp

lemma drop_each_reliable:
  "reliable ke \<Longrightarrow> \<exists>s'. drop_each ke now u ns s = (Inr (), s') \<and> kv_names s' = kv_names s
     \<and> kv_pairs s' = (\<lambda>x. if fst x = u \<and> snd x \<in> set ns then [] else kv_pairs s x)"
proof (induction ns arbitrary: s)
  case (Cons n ns)
  let ?s = "apply_stmt now (DropPairs u n) (sending s)"
  have "execute ke now (DropPairs u n) s = (Inr (), ?s)" using Cons.prems by (simp add: execute_reliable)
  moreover from Cons obtain s' where "drop_each ke now u ns ?s = (Inr (), s')" "kv_names s' = kv_names ?s"
      "kv_pairs s' = (\<lambda>x. if fst x = u \<and> snd x \<in> set ns then [] else kv_pairs ?s x)" by blast
  ultimately show ?case by (auto simp: thenE_def sending_def fun_eq_iff)
qed (simp add: okE_def)

lemma delete_project_reliable:
  assumes "reliable ke" "covered s" "ke_uuid ke p = Some u"
  shows "\<exists>s'. rpc_delete_project ke now p s = (Inr (), s')
    \<and> kv_pairs s' = (\<lambda>x. if fst x = u then [] else kv_pairs s x) \<and> kv_names s' = (kv_names s)(u := [])"
proof -
  obtain s1 where d: "drop_each ke now u (kv_names s u) (sending s) = (Inr (), s1)" "kv_names s1 = kv_names s"
      "kv_pairs s1 = (\<lambda>x. if fst x = u \<and> snd x \<in> set (kv_names s u) then [] else kv_pairs s x)"
    using drop_each_reliable [OF assms(1), of now u "kv_names s u" "sending s"] by (auto cong: if_cong)
  let ?s' = "apply_stmt now (UnregisterAll u) (sending s1)"
  have "execute ke now (UnregisterAll u) s1 = (Inr (), ?s')" using assms(1) by (simp add: execute_reliable)
  with d assms(1,3) have "rpc_delete_project ke now p s = (Inr (), ?s')"
    by (simp add: rpc_delete_project_def map_errE_def kv_delete_project_def project_uuid_def namespace_names_def fetch_reliable thenE_def)
  moreover have "kv_pairs ?s' = (\<lambda>x. if fst x = u then [] else kv_pairs s x)"
    using d(3) assms(2) by (auto simp: fun_eq_iff covered_def sending_def)
  ultimately show ?thesis using d(2) by (auto simp: sending_def)
qed

lemma covered_serve:
  assumes "reliable ke"
  shows "keeps covered (kv_serve ke now q)"
proof (cases q)
  case (SetPairs ps)
  then show ?thesis by (simp add: rpc_defs keeps_map_errE covered_kv_set [OF assms])
next
  case (DeletePairs qs)
  then show ?thesis
    by (auto simp: rpc_defs simp del: apply_stmt.simps intro!: keeps_map_errE keeps_kv_delete covered_delete)
next
  case (CreateNamespace p ns)
  then show ?thesis
    by (auto simp: rpc_defs kv_create_namespace_def simp del: apply_stmt.simps
        intro!: keeps_thenE keeps_map_errE keeps_bindE keeps_execute covered_register)
next
  case (DeleteNamespace p ns)
  have "covered (snd (kv_delete_namespace ke now p ns s))" if "covered s" for s
    using assms that
    by (auto simp: kv_delete_namespace_def project_uuid_def execute_reliable thenE_def covered_def sending_def failE_def split: option.split)
  then have "keeps covered (kv_delete_namespace ke now p ns)" by (rule keepsI)
  with DeleteNamespace show ?thesis by (auto simp: rpc_defs intro: keeps_map_errE)
next
  case (DeleteProject p)
  have "covered (snd (rpc_delete_project ke now p s))" if "covered s" for s
  proof (cases "ke_uuid ke p")
    case None
    then show ?thesis using that by (simp add: rpc_delete_project_def map_errE_def kv_delete_project_def project_uuid_def failE_def)
  next
    case (Some u)
    from delete_project_reliable [OF assms that Some, of now] obtain s' where "rpc_delete_project ke now p s = (Inr (), s')"
        "kv_pairs s' = (\<lambda>x. if fst x = u then [] else kv_pairs s x)" "kv_names s' = (kv_names s)(u := [])" by auto
    then show ?thesis using that by (auto simp: covered_def)
  qed
  with DeleteProject show ?thesis by (auto intro: keepsI)
qed

lemma kv_reach_covered:
  assumes "reliable ke"
  shows "kv_reach ke s \<Longrightarrow> covered s"
proof (induction rule: kv_reach.induct)
  case (kv_request s now q)
  from keepsD [OF covered_serve [OF assms] kv_request.IH] show ?case .
qed (simp add: covered_def empty_kv_def)

text \<open>While every statement is carried out, deleting a project leaves none of its pairs and no
  namespace, whatever was written before, and every other project as it was.\<close>

theorem project_deletion_complete:
  assumes "reliable ke" "kv_reach ke s" "ke_uuid ke p = Some u"
  shows "\<exists>s'. rpc_delete_project ke now p s = (Inr (), s') \<and> (\<forall>ns. kv_pairs s' (u, ns) = []) \<and> kv_names s' u = []
    \<and> (\<forall>v ns. v \<noteq> u \<longrightarrow> kv_pairs s' (v, ns) = kv_pairs s (v, ns) \<and> kv_names s' v = kv_names s v)"
  using delete_project_reliable [OF assms(1) kv_reach_covered [OF assms(1,2)] assms(3), of now] by auto

text \<open>A pair whose registration failed is not covered by the registry: the write reports an error, the
  pair stays readable, and deleting the project, though it succeeds, leaves it.\<close>

theorem unregistered_pair_survives:
  assumes "ke_net ke = (\<lambda>i. if i = Suc (kv_sent s) then Refused e else Applied)" "kv_wf s"
    and "ke_uuid ke (pr_project x) = Some u" "pr_ttl x = None" "kv_names s u = []"
  shows "\<exists>s1 s2. kv_set ke now [x] s = (Inl (DbQuery e), s1) \<and> rpc_delete_project ke now (pr_project x) s1 = (Inr (), s2)
    \<and> fst (kv_get ke now (pr_project x) (pr_namespace x) (pr_key x) s2)
      = Inr (Some \<lparr>pr_project = u, pr_namespace = pr_namespace x, pr_type = value_type_code (value_type_of_code (pr_type x)),
           pr_ttl = None, pr_key = pr_key x, pr_value = pr_value x\<rparr>)"
proof -
  let ?w = "WritePair u (pr_namespace x) (pr_key x) (pr_value x) (value_type_text (value_type_of_code (pr_type x))) 0"
  let ?s1 = "sending (apply_stmt now ?w (sending s))"
  let ?s2 = "apply_stmt now (UnregisterAll u) (sending (sending ?s1))"
  note run = execute_def fetch_def through_def net_error_def writeE_def readE_def thenE_def project_uuid_def assms
  have "kv_set ke now [x] s = (Inl (DbQuery e), ?s1)"
    by (simp add: run bindE_def okE_def) (simp add: sending_def)
  moreover have sent: "kv_sent ?s1 = Suc (Suc (kv_sent s))" by (simp add: sending_def)
  have "rpc_delete_project ke now (pr_project x) ?s1 = (Inr (), ?s2)"
    using sent by (simp add: rpc_delete_project_def map_errE_def kv_delete_project_def namespace_names_def run bindE_def okE_def)
      (simp add: sending_def assms)
  moreover have "map_of (kv_pairs ?s2 (u, pr_namespace x)) (pr_key x)
      = Some \<lparr>c_value = pr_value x, c_type = value_type_text (value_type_of_code (pr_type x)), c_expires = None\<rparr>"
    using assms(2) by (simp add: map_of_put_row kv_wf_def)
  moreover have "kv_wf ?s2" using assms(2) by (intro kv_wf_other) (simp_all add: kv_wf_write del: apply_stmt.simps)
  then have "rows_sorted (kv_pairs ?s2 (u, pr_namespace x))" by (simp add: kv_wf_def del: apply_stmt.simps)
  ultimately have "find (\<lambda>r. fst r = pr_key x) (live_rows now u (pr_namespace x) ?s2)
      = Some (pr_key x, \<lparr>c_value = pr_value x, c_type = value_type_text (value_type_of_code (pr_type x)), c_expires = None\<rparr>)"
    unfolding live_rows_def by (simp add: rows_sorted_find rows_sorted_filter map_of_filter_live cell_alive_forever del: apply_stmt.simps)
  moreover have "ke_net ke (kv_sent ?s2) = Applied" using sent assms(1) by (simp add: sending_def)
  ultimately have "fst (kv_get ke now (pr_project x) (pr_namespace x) (pr_key x) ?s2)
      = Inr (Some \<lparr>pr_project = u, pr_namespace = pr_namespace x, pr_type = value_type_code (value_type_of_code (pr_type x)),
           pr_ttl = None, pr_key = pr_key x, pr_value = pr_value x\<rparr>)"
    by (simp add: kv_get_def project_uuid_def assms(3) fetch_def through_def net_error_def readE_def select_row_def okE_def bindE_def
        del: apply_stmt.simps)
  with \<open>kv_set ke now [x] s = (Inl (DbQuery e), ?s1)\<close> \<open>rpc_delete_project ke now (pr_project x) ?s1 = (Inr (), ?s2)\<close>
  show ?thesis by blast
qed

section \<open>On a small store\<close>

definition calm :: kv_env where
  "calm = \<lparr>ke_uuid = Some, ke_uuid_why = (\<lambda>_. ''''), ke_net = (\<lambda>_. Applied), ke_wire = (\<lambda>_. Applied), ke_ttl_why = (\<lambda>_. ''''),
     ke_b64 = (\<lambda>b. b), ke_unb64 = Some, ke_state = (\<lambda>k. k), ke_position = Some, ke_state_why = (\<lambda>_. ''''),
     ke_cut = (\<lambda>_. 100), ke_hint = (\<lambda>_. True)\<rparr>"

definition three_pairs :: kv_store where
  "three_pairs = snd (kv_serve calm 0 (SetPairs (map (\<lambda>k. \<lparr>pr_project = ''p'', pr_namespace = ''n'', pr_type = 0, pr_ttl = None,
     pr_key = k, pr_value = k\<rparr>) [''b'', ''a'', ''c''])) empty_kv)"

definition plain_floats :: float_text where
  "plain_floats = \<lparr>ft_show = (\<lambda>w. show_nat (unat w)), ft_parse = (\<lambda>_. None), ft_of_int = word_of_int\<rparr>"

lemma calm_facts: "reliable calm" "tokens_read calm" "ke_uuid calm p = Some p"
  by (simp_all add: calm_def reliable_def tokens_read_def)

lemma three_pairs_reach: "kv_reach calm three_pairs"
  unfolding three_pairs_def by (intro kv_reach.intros)

lemma three_pairs_rows: "kv_pairs three_pairs (''p'', ''n'')
    = map (\<lambda>k. (k, \<lparr>c_value = k, c_type = ''string'', c_expires = None\<rparr>)) [''a'', ''b'', ''c'']"
  by (simp add: three_pairs_def rpc_set_pairs_def map_errE_def project_uuid_def calm_facts execute_reliable thenE_def empty_kv_def
      sending_def value_type_of_code_def okE_def)

theorem kv_rows_typed_witness:
  "fst (kv_get calm 5 ''p'' ''n'' ''a'' three_pairs) \<noteq> Inl (DbInvalid ''bad type'')"
  using kv_rows_typed [OF three_pairs_reach, of 5 "''p''" "''n''" "''a''" "''bad type''" 1 None] calm_facts(3) by auto

theorem kv_listing_ends_witness:
  "\<exists>ps. list_walk calm (\<lambda>_. (5, three_pairs)) ''p'' ''n'' 2 (Suc (card {''a'', ''b'', ''c''})) 0 None = Some ps
    \<and> {''a'', ''b'', ''c''} \<subseteq> pr_key ` set ps \<and> sorted_wrt (<) (map pr_key ps)"
proof -
  have "fst ` set (kv_pairs three_pairs (''p'', ''n'')) \<subseteq> {''a'', ''b'', ''c''}" by (simp add: three_pairs_rows)
  then obtain ps where "list_walk calm (\<lambda>_. (5, three_pairs)) ''p'' ''n'' 2 (Suc (card {''a'', ''b'', ''c''})) 0 None = Some ps"
      "sorted_wrt (<) (map pr_key ps)" "\<forall>k. k \<in> fst ` set (live_rows 5 ''p'' ''n'' three_pairs) \<longrightarrow> k \<in> pr_key ` set ps"
    using kv_listing_ends [OF calm_facts, of 2 calm "\<lambda>_. (5, three_pairs)" "{''a'', ''b'', ''c''}" "''p''" "''n''"] three_pairs_reach
    by (auto simp del: list_walk.simps)
  then show ?thesis by (auto simp: live_rows_def three_pairs_rows cell_alive_def simp del: list_walk.simps)
qed


theorem project_deletion_complete_witness:
  "\<exists>s'. rpc_delete_project calm 9 ''p'' three_pairs = (Inr (), s') \<and> kv_pairs s' (''p'', ''n'') = []"
  using project_deletion_complete [of calm three_pairs "''p''" "''p''" 9] calm_facts three_pairs_reach by auto

theorem unregistered_pair_survives_witness:
  "\<exists>s1 s2. kv_set (calm\<lparr>ke_net := (\<lambda>i. if i = Suc (kv_sent empty_kv) then Refused ''down'' else Applied)\<rparr>) 0
      [\<lparr>pr_project = ''p'', pr_namespace = ''n'', pr_type = 0, pr_ttl = None, pr_key = ''k'', pr_value = ''v''\<rparr>] empty_kv = (Inl (DbQuery ''down''), s1)
    \<and> rpc_delete_project (calm\<lparr>ke_net := (\<lambda>i. if i = Suc (kv_sent empty_kv) then Refused ''down'' else Applied)\<rparr>) 0 ''p'' s1 = (Inr (), s2)"
  using unregistered_pair_survives [of "calm\<lparr>ke_net := (\<lambda>i. if i = Suc (kv_sent empty_kv) then Refused ''down'' else Applied)\<rparr>" empty_kv "''down''"
      "\<lparr>pr_project = ''p'', pr_namespace = ''n'', pr_type = 0, pr_ttl = None, pr_key = ''k'', pr_value = ''v''\<rparr>" "''p''" 0]
    kv_reach_wf [OF kv_init] by (auto simp: calm_def empty_kv_def)

end
