(* ===== verification/Publishing.thy ===== *)
theory Publishing
  imports Http_Serving
begin

text \<open>
  The publishing side of the command line tool (\<open>actias-cli/src/script.rs\<close>, \<open>capabilities.rs\<close> and
  \<open>handlers/publish.rs\<close>): which files of a project directory go into the bundle, the local declaration
  pass, the negotiation of contents by hash, and the request. Walking a glob pattern and reading a file
  are parameters; the api in between passes the bundle on unchanged.
\<close>

section \<open>The bundle of a directory\<close>

text \<open>Paths are relative to the project. A pattern that does not parse walks to \<open>None\<close>; an unreadable file
  reads as its error.\<close>

record project_dir =
  pd_walk :: "string \<Rightarrow> string list option"
  pd_is_file :: "string \<Rightarrow> bool"
  pd_read :: "string \<Rightarrow> string + string"

definition file_name :: "string \<Rightarrow> string" where
  "file_name path = last (split_char CHR ''/'' path)"

fun walk_all :: "project_dir \<Rightarrow> string list \<Rightarrow> string + string list" where
  "walk_all dir [] = Inr []"
| "walk_all dir (g # gs) =
     (case pd_walk dir g of
        None \<Rightarrow> Inl ''Failed to read glob pattern''
      | Some entries \<Rightarrow> (case walk_all dir gs of Inl e \<Rightarrow> Inl e | Inr rest \<Rightarrow> Inr (entries @ rest)))"

definition glob_includes :: "script_config \<Rightarrow> project_dir \<Rightarrow> string + string list" where
  "glob_includes cfg dir =
     (case walk_all dir (cf_ignore cfg) of
        Inl e \<Rightarrow> Inl e
      | Inr ignores \<Rightarrow>
          (case walk_all dir (cf_includes cfg) of
             Inl e \<Rightarrow> Inl e
           | Inr entries \<Rightarrow>
               Inr (filter (\<lambda>p. p \<notin> set ignores) (filter (\<lambda>p. pd_is_file dir p \<and> file_name p \<noteq> ''project.json'') entries))))"

text \<open>\<open>Path::extension\<close>: what follows the last dot of the file name, unless that dot starts it.\<close>

definition path_extension :: "string \<Rightarrow> string" where
  "path_extension path =
     (let parts = split_char CHR ''.'' (file_name path) in
      if length parts < 2 \<or> butlast parts = [''''] then '''' else last parts)"

definition content_type_for :: "string \<Rightarrow> string" where
  "content_type_for path =
     (let ext = path_extension path in
      if ext \<in> {''html'', ''htm''} then ''text/html; charset=utf-8''
      else if ext = ''css'' then ''text/css; charset=utf-8''
      else if ext \<in> {''js'', ''mjs''} then ''text/javascript; charset=utf-8''
      else if ext = ''json'' then ''application/json''
      else if ext \<in> {''txt'', ''md''} then ''text/plain; charset=utf-8''
      else if ext = ''svg'' then ''image/svg+xml''
      else if ext = ''png'' then ''image/png''
      else if ext \<in> {''jpg'', ''jpeg''} then ''image/jpeg''
      else if ext = ''gif'' then ''image/gif''
      else if ext = ''ico'' then ''image/x-icon''
      else if ext = ''wasm'' then ''application/wasm''
      else if ext = ''lua'' then ''text/x-lua''
      else ''application/octet-stream'')"

text \<open>\<open>hash\<close> is blake3, the one the store computes.\<close>

definition bundle_entry :: "(string \<Rightarrow> string) \<Rightarrow> string \<Rightarrow> string \<Rightarrow> bundle_file" where
  "bundle_entry hash path bytes =
     \<lparr>f_path = path, f_content = bytes, f_hash = hash bytes, f_size = 0, f_content_type = content_type_for path,
      f_kind = (if ends_with path ''.lua'' then Module else Asset)\<rparr>"

fun read_files :: "(string \<Rightarrow> string) \<Rightarrow> project_dir \<Rightarrow> string list \<Rightarrow> string + bundle_file list" where
  "read_files hash dir [] = Inr []"
| "read_files hash dir (p # ps) =
     (case pd_read dir p of
        Inl e \<Rightarrow> Inl (p @ '': '' @ e)
      | Inr bytes \<Rightarrow> (case read_files hash dir ps of Inl e \<Rightarrow> Inl e | Inr fs \<Rightarrow> Inr (bundle_entry hash p bytes # fs)))"

definition to_bundle :: "(string \<Rightarrow> string) \<Rightarrow> script_config \<Rightarrow> project_dir \<Rightarrow> string + script_bundle" where
  "to_bundle hash cfg dir =
     (case glob_includes cfg dir of
        Inl e \<Rightarrow> Inl e
      | Inr paths \<Rightarrow>
          (case read_files hash dir paths of
             Inl e \<Rightarrow> Inl e
           | Inr fs \<Rightarrow> Inr \<lparr>b_entry_point = cf_entry_point cfg, b_files = fs\<rparr>))"

section \<open>The local pass\<close>

text \<open>Every text of the bundle; a later entry of the same path replaces an earlier one.\<close>

fun local_sources :: "bundle_file list \<Rightarrow> (string \<times> string) list" where
  "local_sources [] = []"
| "local_sources (f # fs) =
     (case from_utf8 (f_content f) of
        Some src \<Rightarrow> if f_path f \<in> fst ` set (local_sources fs) then local_sources fs else (f_path f, src) # local_sources fs
      | None \<Rightarrow> local_sources fs)"

definition preflight :: "'v service \<Rightarrow> script_config \<Rightarrow> project_dir \<Rightarrow> string + capabilities" where
  "preflight sv cfg dir =
     (case to_bundle (sv_hash sv) cfg dir of
        Inl e \<Rightarrow> Inl e
      | Inr b \<Rightarrow> extract_contract (sv_lua sv) (sv_cron sv) (sv_budget sv) (local_sources (b_files b)) (cf_entry_point cfg))"

section \<open>Publishing\<close>

text \<open>A file whose hash the store holds travels without its content.\<close>

definition strip_stored :: "string list \<Rightarrow> bundle_file \<Rightarrow> bundle_file" where
  "strip_stored missing f = (if f_hash f \<in> set missing then f else f\<lparr>f_content := ''''\<rparr>)"

datatype cli_error = ScriptError string | ApiError status

text \<open>\<open>asked\<close> is the store when the hashes were asked for; requests of others may come between that and
  the publish itself.\<close>

definition publish_dir :: "'v service \<Rightarrow> string \<Rightarrow> int \<Rightarrow> script_config \<Rightarrow> project_dir \<Rightarrow> script_store \<Rightarrow> script_store
    \<Rightarrow> (cli_error + revision_row) \<times> script_store" where
  "publish_dir sv rid now cfg dir asked s =
     (case get_script_info sv (ById (cf_id cfg)) asked of
        Inl e \<Rightarrow> (Inl (ApiError e), s)
      | Inr script \<Rightarrow>
     (case preflight sv cfg dir of
        Inl e \<Rightarrow> (Inl (ScriptError e), s)
      | Inr declared \<Rightarrow>
     (case to_bundle (sv_hash sv) cfg dir of
        Inl e \<Rightarrow> (Inl (ScriptError e), s)
      | Inr b \<Rightarrow>
          (let missing = missing_blobs (map f_hash (b_files b)) asked;
               sent = b\<lparr>b_files := map (strip_stored missing) (b_files b)\<rparr> in
           case create_revision sv rid now (sc_id script) (Some (cfg\<lparr>cf_capabilities := Some declared\<rparr>)) (Some sent) s of
             (Inl e, s1) \<Rightarrow> (Inl (ApiError e), s1)
           | (Inr r, s1) \<Rightarrow> (Inr r, s1)))))"

section \<open>What arrives\<close>

text \<open>A blob lies under the hash of its bytes, and the hash tells apart what the store holds and what is
  being sent.\<close>

definition blobs_addressed :: "(string \<Rightarrow> string) \<Rightarrow> script_store \<Rightarrow> bool" where
  "blobs_addressed hash s \<longleftrightarrow> (\<forall>h b. st_blobs s h = Some b \<longrightarrow> hash b = h)"

definition content_addressed :: "(string \<Rightarrow> string) \<Rightarrow> string set \<Rightarrow> script_store \<Rightarrow> bool" where
  "content_addressed hash fresh s \<longleftrightarrow> blobs_addressed hash s \<and> inj_on hash (fresh \<union> Map.ran (st_blobs s))"

text \<open>No request removes a blob or stores one under another name.\<close>

lemma store_files_blobs:
  "(blobs_addressed hash s \<longrightarrow> blobs_addressed hash (snd (store_files hash fs s))) \<and> dom (st_blobs s) \<subseteq> dom (st_blobs (snd (store_files hash fs s)))"
proof (induction hash fs s rule: store_files.induct)
  case (2 hash f fs s)
  have put: "blobs_addressed hash s \<longrightarrow> blobs_addressed hash (blob_put (hash (f_content f)) (f_content f) s)"
      "dom (st_blobs s) \<subseteq> dom (st_blobs (blob_put (hash (f_content f)) (f_content f) s))"
    by (auto simp: blobs_addressed_def blob_put_def)
  show ?case
  proof (cases "inline f")
    case True
    then show ?thesis using 2(1) [OF True refl] put unfolding store_inline_Cons [OF True] by blast
  next
    case False
    then have "snd (store_files hash (f # fs) s) \<in> {s, snd (store_files hash fs s)}"
      by (auto split: prod.splits sum.splits option.splits)
    then show ?thesis
    proof
      assume s: "snd (store_files hash (f # fs) s) = s"
      show ?thesis unfolding s by simp
    next
      assume "snd (store_files hash (f # fs) s) \<in> {snd (store_files hash fs s)}"
      then have s: "snd (store_files hash (f # fs) s) = snd (store_files hash fs s)" by blast
      show ?thesis unfolding s
      proof (cases "blob_head (f_hash f) s")
        case (Some sz)
        from 2(2) [OF False Some] show "(blobs_addressed hash s \<longrightarrow> blobs_addressed hash (snd (store_files hash fs s)))
            \<and> dom (st_blobs s) \<subseteq> dom (st_blobs (snd (store_files hash fs s)))" .
      qed (use False s in simp)
    qed
  qed
qed simp

lemma create_revision_blobs:
  "(blobs_addressed (sv_hash sv) s \<longrightarrow> blobs_addressed (sv_hash sv) (snd (create_revision sv rid now v cfg b s)))
     \<and> dom (st_blobs s) \<subseteq> dom (st_blobs (snd (create_revision sv rid now v cfg b s)))"
proof -
  have db: "st_blobs (snd (create_db_revision sv rid now script c b' s)) \<in> {st_blobs s, st_blobs (snd (store_files (sv_hash sv) (b_files b') s))}"
    for script c b'
    by (auto simp: create_db_revision_def insert_revision_def Let_def split: sum.splits option.splits prod.splits)
  have "\<exists>fs. st_blobs (snd (create_revision sv rid now v cfg b s)) = st_blobs (snd (store_files (sv_hash sv) fs s))"
  proof (cases "st_blobs (snd (create_revision sv rid now v cfg b s)) = st_blobs s")
    case True
    then show ?thesis by (intro exI [of _ "[]"]) simp
  next
    case False
    then obtain script c b' where "create_revision sv rid now v cfg b s = create_db_revision sv rid now script c b' s"
      by (auto simp: create_revision_def split: sum.splits option.splits)
    with False db [of script c b'] show ?thesis by auto
  qed
  then show ?thesis using store_files_blobs [of "sv_hash sv" s] unfolding blobs_addressed_def by metis
qed

lemma script_step_blobs:
  "script_step sv s s' \<Longrightarrow> (blobs_addressed (sv_hash sv) s \<longrightarrow> blobs_addressed (sv_hash sv) s') \<and> dom (st_blobs s) \<subseteq> dom (st_blobs s')"
proof (induction rule: script_step.induct)
  case (published rid s now v cfg b)
  show ?case by (rule create_revision_blobs)
qed (auto simp: blobs_addressed_def create_script_def delete_revision_def set_script_revision_def delete_script_def delete_project_def set_alias_def
    delete_scripts_def Let_def split: sum.splits option.splits status.splits)

lemma script_reach_blobs:
  "script_reach sv s s' \<Longrightarrow> (blobs_addressed (sv_hash sv) s \<longrightarrow> blobs_addressed (sv_hash sv) s') \<and> dom (st_blobs s) \<subseteq> dom (st_blobs s')"
  by (induction rule: script_reach.induct) (auto dest!: script_step_blobs)

lemma put_addressed:
  assumes "content_addressed hash fresh s" "b \<in> fresh"
  shows "content_addressed hash fresh (blob_put (hash b) b s)" "st_blobs s \<subseteq>\<^sub>m st_blobs (blob_put (hash b) b s)"
proof -
  have "Map.ran ((st_blobs s)(hash b \<mapsto> b)) \<subseteq> insert b (Map.ran (st_blobs s))" by (auto simp: Map.ran_def)
  then have "fresh \<union> Map.ran ((st_blobs s)(hash b \<mapsto> b)) \<subseteq> fresh \<union> Map.ran (st_blobs s)" using assms(2) by blast
  then show "content_addressed hash fresh (blob_put (hash b) b s)"
    using assms(1) unfolding content_addressed_def blobs_addressed_def blob_put_def by (auto intro: inj_on_subset split: if_splits)
  have "st_blobs (blob_put (hash b) b s) h = Some c" if h: "st_blobs s h = Some c" for h c
  proof -
    from h have "hash c = h" "c \<in> Map.ran (st_blobs s)" using assms(1) by (auto simp: content_addressed_def blobs_addressed_def Map.ran_def)
    with assms have "h = hash b \<Longrightarrow> c = b" by (auto simp: content_addressed_def blobs_addressed_def dest: inj_onD)
    with h show ?thesis by (auto simp: blob_put_def)
  qed
  then show "st_blobs s \<subseteq>\<^sub>m st_blobs (blob_put (hash b) b s)" by (auto simp: map_le_def)
qed

text \<open>Files read from the directory, sent with or without their contents: each is taken, its blob is there
  afterwards, and no blob is lost.\<close>

definition named_by :: "(string \<Rightarrow> string) \<Rightarrow> bundle_file \<Rightarrow> bool" where
  "named_by hash f \<longleftrightarrow> f_content f \<noteq> '''' \<and> f_hash f = hash (f_content f) \<and> f_hash f \<noteq> ''''"

lemma sent_addressed:
  assumes "content_addressed hash fresh s" "f_content f \<in> fresh" "f_hash f = hash (f_content f)" "f_hash f \<in> dom (st_blobs s)"
  shows "st_blobs s (f_hash f) = Some (f_content f)"
proof -
  from assms(4) obtain c where c: "st_blobs s (f_hash f) = Some c" by blast
  then have "hash c = f_hash f" "c \<in> Map.ran (st_blobs s)" using assms(1) by (auto simp: content_addressed_def blobs_addressed_def Map.ran_def)
  with assms(1-3) have "c = f_content f" by (auto simp: content_addressed_def blobs_addressed_def dest: inj_onD)
  with c show ?thesis by simp
qed

lemma store_negotiated:
  assumes "content_addressed hash fresh s" "\<forall>f \<in> set fs. named_by hash f \<and> f_content f \<in> fresh"
    and "\<forall>f \<in> set fs. f_hash f \<notin> set missing \<longrightarrow> f_hash f \<in> dom (st_blobs s)"
  shows "\<exists>s'. store_files hash (map (strip_stored missing) fs) s = (Inr (map (\<lambda>f. (manifest_of hash f)\<lparr>f_content := ''''\<rparr>) fs), s')
      \<and> content_addressed hash fresh s' \<and> st_blobs s \<subseteq>\<^sub>m st_blobs s'
      \<and> (\<forall>f \<in> set fs. st_blobs s' (f_hash f) = Some (f_content f))"
  using assms
proof (induction fs arbitrary: s)
  case (Cons f fs)
  have f: "f_content f \<noteq> ''''" "f_hash f = hash (f_content f)" "f_hash f \<noteq> ''''" "f_content f \<in> fresh"
    using Cons.prems(2) by (auto simp: named_by_def)
  let ?s = "if f_hash f \<in> set missing then blob_put (hash (f_content f)) (f_content f) s else s"
  have s1: "content_addressed hash fresh ?s" "st_blobs s \<subseteq>\<^sub>m st_blobs ?s"
    using put_addressed [OF Cons.prems(1) f(4)] Cons.prems(1) by auto
  have there: "st_blobs ?s (f_hash f) = Some (f_content f)"
    using sent_addressed [OF Cons.prems(1) f(4,2)] Cons.prems(3) f(2) by (auto simp: blob_put_def)
  have "\<forall>f \<in> set fs. f_hash f \<notin> set missing \<longrightarrow> f_hash f \<in> dom (st_blobs ?s)"
    using Cons.prems(3) map_le_implies_dom_le [OF s1(2)] by (metis list.set_intros(2) subsetD)
  with Cons.IH [OF s1(1)] Cons.prems(2) obtain s' where s': "store_files hash (map (strip_stored missing) fs) ?s
      = (Inr (map (\<lambda>f. (manifest_of hash f)\<lparr>f_content := ''''\<rparr>) fs), s')"
    "content_addressed hash fresh s'" "st_blobs ?s \<subseteq>\<^sub>m st_blobs s'" "\<forall>f \<in> set fs. st_blobs s' (f_hash f) = Some (f_content f)"
    by auto
  have "st_blobs s' (f_hash f) = Some (f_content f)" using there s'(3) by (metis domI map_le_def)
  moreover have "store_files hash (map (strip_stored missing) (f # fs)) s
      = (Inr (map (\<lambda>f. (manifest_of hash f)\<lparr>f_content := ''''\<rparr>) (f # fs)), s')"
    using s'(1) f there by (auto simp: strip_stored_def inline_def manifest_of_def blob_head_def split: if_splits)
  ultimately show ?case using s' map_le_trans [OF s1(2) s'(3)] by (intro exI [of _ s']) auto
qed simp


lemma read_entries:
  "read_files hash dir ps = Inr fs \<Longrightarrow> map f_path fs = ps \<and> (\<forall>f \<in> set fs. pd_read dir (f_path f) = Inr (f_content f) \<and> f_hash f = hash (f_content f))"
  by (induction hash dir ps arbitrary: fs rule: read_files.induct) (auto simp: bundle_entry_def split: sum.splits)

text \<open>The hash is trusted to be a non-empty word without blanks around it, and to tell the files and the
  stored blobs apart; the command reads no empty file.\<close>

definition sound_tree :: "'v service \<Rightarrow> project_dir \<Rightarrow> script_store \<Rightarrow> bool" where
  "sound_tree sv dir s \<longleftrightarrow>
     (\<forall>p x. pd_read dir p = Inr x \<longrightarrow> x \<noteq> '''' \<and> sv_hash sv x \<noteq> '''' \<and> trim (sv_hash sv x) = sv_hash sv x)
     \<and> inj_on (sv_hash sv) ({x. \<exists>p. pd_read dir p = Inr x} \<union> Map.ran (st_blobs s))"

lemma tree_files:
  assumes "sound_tree sv dir s" "read_files (sv_hash sv) dir paths = Inr fs"
  shows "\<forall>f \<in> set fs. named_by (sv_hash sv) f \<and> f_content f \<in> {x. \<exists>p. pd_read dir p = Inr x} \<and> trim (f_hash f) = f_hash f"
  using read_entries [OF assms(2)] assms(1) by (auto simp: named_by_def sound_tree_def)

text \<open>A publish that was answered, with the requests of others between the question and it.\<close>

lemma published_files:
  assumes "script_reach sv empty_store asked" "script_reach sv asked s" "rid \<notin> rv_id ` set (st_revisions s)"
    and "publish_dir sv rid now cfg dir asked s = (Inr r, s')" "sound_tree sv dir s" "sv_parse sv rid = Some rid"
  obtains paths fs declared v where "glob_includes cfg dir = Inr paths" "read_files (sv_hash sv) dir paths = Inr fs"
    "to_bundle (sv_hash sv) cfg dir = Inr \<lparr>b_entry_point = cf_entry_point cfg, b_files = fs\<rparr>" "preflight sv cfg dir = Inr declared"
    "create_revision sv rid now v (Some (cfg\<lparr>cf_capabilities := Some declared\<rparr>)) (Some \<lparr>b_entry_point = cf_entry_point cfg,
       b_files = map (strip_stored (missing_blobs (map f_hash fs) asked)) fs\<rparr>) s = (Inr r, s')"
    "content_addressed (sv_hash sv) {x. \<exists>p. pd_read dir p = Inr x} s" "dom (st_blobs asked) \<subseteq> dom (st_blobs s)"
    "get_revision sv rid True False s' = Inr (r, Some \<lparr>b_entry_point = cf_entry_point cfg, b_files = map (manifest_of (sv_hash sv)) fs\<rparr>)"
proof -
  let ?h = "sv_hash sv" and ?fresh = "{x. \<exists>p. pd_read dir p = Inr x}"
  from assms(4) obtain v declared b where b: "to_bundle ?h cfg dir = Inr b" "preflight sv cfg dir = Inr declared"
    and cr: "create_revision sv rid now v (Some (cfg\<lparr>cf_capabilities := Some declared\<rparr>))
        (Some (b\<lparr>b_files := map (strip_stored (missing_blobs (map f_hash (b_files b)) asked)) (b_files b)\<rparr>)) s = (Inr r, s')"
    by (auto simp: publish_dir_def Let_def split: sum.splits prod.splits)
  from b obtain paths fs where paths: "glob_includes cfg dir = Inr paths" "read_files ?h dir paths = Inr fs"
      "b = \<lparr>b_entry_point = cf_entry_point cfg, b_files = fs\<rparr>"
    by (auto simp: to_bundle_def split: sum.splits)
  let ?miss = "missing_blobs (map f_hash fs) asked"
  note files = read_entries [OF paths(2)] and named = tree_files [OF assms(5) paths(2)]
  have "blobs_addressed ?h empty_store" by (simp add: blobs_addressed_def empty_store_def)
  then have "blobs_addressed ?h s" and grown: "dom (st_blobs asked) \<subseteq> dom (st_blobs s)"
    using script_reach_blobs [OF assms(1)] script_reach_blobs [OF assms(2)] by blast+
  then have ca: "content_addressed ?h ?fresh s" using assms(5) by (simp add: content_addressed_def sound_tree_def)
  have "\<forall>f \<in> set fs. f_hash f \<notin> set ?miss \<longrightarrow> f_hash f \<in> dom (st_blobs s)"
    using grown by (auto simp: missing_blobs_def blob_head_def)
  then obtain s1 where
    s1: "store_files ?h (map (strip_stored ?miss) fs) s = (Inr (map (\<lambda>f. (manifest_of ?h f)\<lparr>f_content := ''''\<rparr>) fs), s1)"
      "\<forall>f \<in> set fs. st_blobs s1 (f_hash f) = Some (f_content f)" using store_negotiated [OF ca] named by blast
  have ok: "store_ok s" using script_reach_ok assms(1,2) by (blast intro: empty_store_ok)
  have "get_revision sv rid True False s' = Inr (r, Some \<lparr>b_entry_point = cf_entry_point cfg, b_files = map (manifest_of ?h) fs\<rparr>)"
    using read_back [OF ok assms(3) cr, of fs s1] s1 files named assms(6) paths(3) by simp
  with paths b cr ca grown show thesis by (intro that) simp_all
qed

text \<open>C21. A published directory comes back: once the command has been answered, reading the new revision
  gives every file the configuration includes, in order, with the bytes on disk, although files whose
  hash the service already held travelled without their bytes and other requests ran between the
  question and the publish.\<close>

theorem published_tree_round_trip:
  assumes "script_reach sv empty_store asked" "script_reach sv asked s" "rid \<notin> rv_id ` set (st_revisions s)"
    and "publish_dir sv rid now cfg dir asked s = (Inr r, s')" "sound_tree sv dir s" "sv_parse sv rid = Some rid"
  shows "\<exists>files. glob_includes cfg dir = Inr (map f_path files) \<and> (\<forall>f \<in> set files. pd_read dir (f_path f) = Inr (f_content f))
     \<and> get_revision sv rid True False s' = Inr (r, Some \<lparr>b_entry_point = cf_entry_point cfg, b_files = files\<rparr>)"
proof -
  obtain paths fs where p: "glob_includes cfg dir = Inr paths" "read_files (sv_hash sv) dir paths = Inr fs"
    "get_revision sv rid True False s' = Inr (r, Some \<lparr>b_entry_point = cf_entry_point cfg, b_files = map (manifest_of (sv_hash sv)) fs\<rparr>)"
    by (rule published_files [OF assms])
  with read_entries [OF p(2)] show ?thesis
    by (intro exI [of _ "map (manifest_of (sv_hash sv)) fs"]) (auto simp: manifest_of_def comp_def)
qed

text \<open>The command twice on the same directory: the second time the file is known and travels as its hash.\<close>

definition demo_dir :: project_dir where
  "demo_dir = \<lparr>pd_walk = (\<lambda>g. Some [''main.lua'']), pd_is_file = (\<lambda>p. True), pd_read = (\<lambda>p. Inr ''C'')\<rparr>"

definition demo_script_json :: script_config where
  "demo_script_json = \<lparr>cf_id = ''a'', cf_entry_point = ''main.lua'', cf_includes = [''*''], cf_ignore = [], cf_capabilities = None\<rparr>"

definition published_once :: script_store where
  "published_once = demo_publish ''r1'' 2 ''a'' ''C'' two_scripts"

lemma demo_bundle:
  "to_bundle (sv_hash demo_service) demo_script_json demo_dir = Inr \<lparr>b_entry_point = ''main.lua'',
     b_files = [\<lparr>f_path = ''main.lua'', f_content = ''C'', f_hash = ''hC'', f_size = 0, f_content_type = ''text/x-lua'', f_kind = Module\<rparr>]\<rparr>"
  by (simp add: to_bundle_def glob_includes_def demo_script_json_def demo_dir_def demo_service_def bundle_entry_def content_type_for_def
      path_extension_def file_name_def ends_with_def Let_def)

lemma two_scripts_reached: "script_reach demo_service empty_store two_scripts"
proof -
  let ?one = "snd (create_script demo_service ''a'' 0 ''first'' ''p'' empty_store)"
  have "script_step demo_service empty_store ?one" by (rule script_step.made) (simp add: empty_store_def)
  moreover have "script_step demo_service ?one two_scripts"
    unfolding two_scripts_def
    by (rule script_step.made) (simp add: create_script_def demo_service_def get_script_info_def empty_store_def Let_def fits_def utf8_len_def is_cont_def)
  ultimately show ?thesis by (blast intro: script_reach.intros)
qed

lemma published_once_tables:
  "st_scripts published_once = [demo_script ''a'' ''first'' 2 (Some ''r1''), demo_script ''b'' ''second'' 1 None]"
  "st_revisions published_once = [demo_row ''r1'' 2 ''a'' ''C'']" "st_blobs published_once = (st_blobs two_scripts)(''hC'' \<mapsto> ''C'')"
proof -
  have f: "refuse_contract_conflicts ''a'' (class_contract ''C'') two_scripts = None"
    by (rule conflict_free) (auto simp: two_scripts_tables demo_script_def current_contract_def)
  have c: "''C'' \<in> {''C'', ''other''}" "''a'' \<in> sc_id ` set (st_scripts two_scripts)" by (simp_all add: two_scripts_tables demo_script_def)
  note t = published_tables [OF c f]
  show "st_scripts published_once = [demo_script ''a'' ''first'' 2 (Some ''r1''), demo_script ''b'' ''second'' 1 None]"
    "st_revisions published_once = [demo_row ''r1'' 2 ''a'' ''C'']"
    by (simp_all add: published_once_def t two_scripts_tables demo_script_def)
  show "st_blobs published_once = (st_blobs two_scripts)(''hC'' \<mapsto> ''C'')"
    by (simp add: published_once_def demo_publish_def demo_created [OF c f])
qed

lemma published_once_reached: "script_reach demo_service empty_store published_once"
proof -
  have "script_step demo_service two_scripts published_once"
    unfolding published_once_def demo_publish_def by (rule script_step.published) (simp add: two_scripts_tables)
  then show ?thesis using two_scripts_reached by (rule script_reach.more [rotated])
qed

lemma demo_again:
  "\<exists>r s'. publish_dir demo_service ''r2'' 3 demo_script_json demo_dir published_once published_once = (Inr r, s')"
proof -
  let ?sent = "\<lparr>b_entry_point = ''main.lua'',
     b_files = [\<lparr>f_path = ''main.lua'', f_content = '''', f_hash = ''hC'', f_size = 0, f_content_type = ''text/x-lua'', f_kind = Module\<rparr>]\<rparr>"
  have steps: "scan_step_literals [(''main.lua'', ''C'')] = []" by code_simp
  have x: "extract_contract (small_lua class_prog) no_cron 9 [(''main.lua'', ''C'')] ''main.lua'' = Inr (class_contract ''C'')"
    by (simp add: class_contract_extracted steps class_contract_def no_capabilities_def)
  have f: "refuse_contract_conflicts ''a'' (class_contract ''C'') published_once = None"
    by (rule conflict_free) (auto simp: published_once_tables demo_script_def current_contract_def)
  have utf: "from_utf8 ''C'' = Some ''C''" by (simp add: from_utf8_def ascii_is_utf8)
  have fits: "utf8_len ''main.lua'' = 8" "utf8_len ''hC'' = 2" "utf8_len ''text/x-lua'' = 10" by (simp_all add: utf8_len_def is_cont_def)
  have pre: "preflight demo_service demo_script_json demo_dir = Inr (class_contract ''C'')"
    using demo_bundle x by (simp add: preflight_def utf demo_service_def demo_script_json_def)
  have src: "collect_sources (b_files ?sent) published_once = Inr [(''main.lua'', ''C'')]"
    by (simp add: ends_with_def source_bytes_def inline_def blob_get_def published_once_tables utf)
  obtain r s' where "create_revision demo_service ''r2'' 3 ''a'' (Some (demo_script_json\<lparr>cf_capabilities := Some (class_contract ''C'')\<rparr>))
      (Some ?sent) published_once = (Inr r, s')"
    using that f x src fits published_once_tables
    by (simp add: create_revision_def get_script_info_def demo_service_def demo_script_json_def parse_config_def demo_script_def
        create_db_revision_def inline_def blob_head_def Let_def insert_revision_def row_error_def fits_def)
  then show ?thesis
    using pre demo_bundle published_once_tables
    by (simp add: publish_dir_def get_script_info_def demo_service_def demo_script_json_def demo_script_def missing_blobs_def blob_head_def
        strip_stored_def Let_def split: prod.splits sum.splits)
qed

lemma demo_sound: "sound_tree demo_service demo_dir published_once"
proof -
  have "Map.ran (st_blobs published_once) \<subseteq> {''C''}"
    by (auto simp: published_once_tables Map.ran_def two_scripts_def create_script_def demo_service_def get_script_info_def empty_store_def Let_def
        fits_def utf8_len_def is_cont_def split: if_splits)
  then show ?thesis
    by (auto simp: sound_tree_def inj_on_def demo_service_def demo_dir_def trim_def is_space_def)
qed

theorem published_tree_round_trip_witness:
  "\<exists>r s' files. publish_dir demo_service ''r2'' 3 demo_script_json demo_dir published_once published_once = (Inr r, s')
     \<and> glob_includes demo_script_json demo_dir = Inr (map f_path files) \<and> (\<forall>f \<in> set files. pd_read demo_dir (f_path f) = Inr (f_content f))
     \<and> get_revision demo_service ''r2'' True False s' = Inr (r, Some \<lparr>b_entry_point = ''main.lua'', b_files = files\<rparr>)"
proof -
  obtain r s' where p: "publish_dir demo_service ''r2'' 3 demo_script_json demo_dir published_once published_once = (Inr r, s')"
    using demo_again by blast
  show ?thesis
    using published_tree_round_trip [OF published_once_reached script_reach.here _ p demo_sound] p
    by (force simp: published_once_tables demo_row_def demo_service_def demo_script_json_def)
qed

section \<open>Empty files\<close>

text \<open>An empty file names its hash and has no content, which the service takes for a file whose bytes it
  already holds. No publish stores the empty blob, so a directory with an empty file cannot be published.\<close>

lemma store_unsent:
  assumes "f \<in> set fs" "\<not> inline f" "st_blobs s (f_hash f) = None" "\<forall>g \<in> set fs. inline g \<longrightarrow> hash (f_content g) \<noteq> f_hash f"
  shows "\<exists>e. fst (store_files hash fs s) = Inl e"
  using assms
proof (induction hash fs s rule: store_files.induct)
  case (2 hash g fs s)
  show ?case
  proof (cases "inline g")
    case True
    then have "f \<in> set fs" "f_hash f \<noteq> hash (f_content g)" using "2.prems" by auto
    then have "\<exists>e. fst (store_files hash fs (blob_put (hash (f_content g)) (f_content g) s)) = Inl e"
      using "2.IH"(1) [OF True refl] "2.prems" by (simp add: blob_put_def)
    with True show ?thesis by (auto simp: Let_def split: prod.splits sum.splits)
  next
    case False
    show ?thesis
    proof (cases "blob_head (f_hash g) s")
      case (Some sz)
      then have "f \<in> set fs" using "2.prems" by (auto simp: blob_head_def)
      with "2.IH"(2) [OF False Some] "2.prems" False Some show ?thesis by (auto split: prod.splits sum.splits)
    qed (use False in simp)
  qed
qed simp

lemma empty_file_refused:
  assumes "glob_includes cfg dir = Inr paths" "p \<in> set paths" "pd_read dir p = Inr ''''"
    and "\<forall>x. sv_hash sv x \<noteq> ''''" "\<forall>x. sv_hash sv x = sv_hash sv '''' \<longrightarrow> x = ''''" "st_blobs s (sv_hash sv '''') = None"
  shows "fst (publish_dir sv rid now cfg dir asked s) \<noteq> Inr r"
proof
  assume ok: "fst (publish_dir sv rid now cfg dir asked s) = Inr r"
  from ok obtain v declared b s' where b: "to_bundle (sv_hash sv) cfg dir = Inr b"
    and cr: "create_revision sv rid now v (Some (cfg\<lparr>cf_capabilities := Some declared\<rparr>))
        (Some (b\<lparr>b_files := map (strip_stored (missing_blobs (map f_hash (b_files b)) asked)) (b_files b)\<rparr>)) s = (Inr r, s')"
    by (auto simp: publish_dir_def Let_def split: sum.splits prod.splits)
  let ?sent = "map (strip_stored (missing_blobs (map f_hash (b_files b)) asked)) (b_files b)"
  from b assms(1) have read: "read_files (sv_hash sv) dir paths = Inr (b_files b)" by (auto simp: to_bundle_def split: sum.splits)
  note files = read_entries [OF read]
  then obtain f where f: "f \<in> set (b_files b)" "f_path f = p" using assms(2) by auto
  then have e: "f_content f = ''''" "f_hash f = sv_hash sv ''''" using files assms(3) by auto
  let ?f = "strip_stored (missing_blobs (map f_hash (b_files b)) asked) f"
  have "?f \<in> set ?sent" "\<not> inline ?f" "st_blobs s (f_hash ?f) = None" using f(1) e assms(4,6) by (auto simp: strip_stored_def inline_def)
  moreover have "\<forall>g \<in> set ?sent. inline g \<longrightarrow> sv_hash sv (f_content g) \<noteq> f_hash ?f"
    using files e assms(4,5) by (auto simp: strip_stored_def inline_def)
  ultimately have err: "\<exists>e. fst (store_files (sv_hash sv) ?sent s) = Inl e" by (rule store_unsent)
  show False by (rule created_revision [OF cr]) (use err in auto)
qed

end
