(* ===== verification/Testing.thy ===== *)
theory Testing
  imports Kv_Spec Publishing "HOL-Library.AList"
begin

text \<open>
  The stand-ins of \<open>actias test\<close> (\<open>actias-cli/src/testing.rs\<close>): the key value service over a hash map, the
  secret service over one, the revision under test and the run over a project's test files. A script's handle is the code of
  \<open>extensions/kv.rs\<close> over whichever client it was given; the locale states what it needs of a client, and
  both the worker's service and the stand-in provide it.
\<close>

section \<open>The stand-ins\<close>

text \<open>A hash map is the list of its entries in some order.\<close>

type_synonym pair_key = "string \<times> string \<times> string"

record fake_kv =
  fk_pairs :: "(pair_key \<times> pair) list"

definition fake_insert :: "pair \<Rightarrow> fake_kv \<Rightarrow> fake_kv" where
  "fake_insert p s = s\<lparr>fk_pairs := AList.update (pr_project p, pr_namespace p, pr_key p) p (fk_pairs s)\<rparr>"

definition fake_get_pair :: "pair_request \<Rightarrow> (fake_kv, status, pair) fallible" where
  "fake_get_pair q s =
     (case map_of (fk_pairs s) (pq_project q, pq_namespace q, pq_key q) of
        Some p \<Rightarrow> (Inr p, s)
      | None \<Rightarrow> (Inl (NotFound ''No pair with that key.''), s))"

definition fake_set_pairs :: "pair list \<Rightarrow> (fake_kv, status, unit) fallible" where
  "fake_set_pairs ps = writeE (fold fake_insert ps)"

definition fake_list_pairs :: "string \<Rightarrow> string \<Rightarrow> fake_kv \<Rightarrow> list_response" where
  "fake_list_pairs p ns s =
     (let pairs = filter (\<lambda>x. pr_project x = p \<and> pr_namespace x = ns) (map snd (fk_pairs s)) in
      \<lparr>lr_page_size = as_i32 (int (length pairs)), lr_token = None, lr_pairs = pairs\<rparr>)"

definition fake_remove :: "pair_request \<Rightarrow> fake_kv \<Rightarrow> fake_kv" where
  "fake_remove q s = s\<lparr>fk_pairs := AList.delete (pq_project q, pq_namespace q, pq_key q) (fk_pairs s)\<rparr>"

definition fake_delete_pairs :: "pair_request list \<Rightarrow> (fake_kv, status, unit) fallible" where
  "fake_delete_pairs qs = writeE (fold fake_remove qs)"

definition fake_create_namespace :: "string \<Rightarrow> string \<Rightarrow> kv_namespace" where
  "fake_create_namespace p ns = \<lparr>kn_project = p, kn_name = ns, kn_count = 0\<rparr>"

definition fake_list_namespaces :: "string \<Rightarrow> fake_kv \<Rightarrow> kv_namespace list" where
  "fake_list_namespaces p s =
     map (fake_create_namespace p) (remdups_adj (sort (map pr_namespace (filter (\<lambda>x. pr_project x = p) (map snd (fk_pairs s))))))"

definition fake_delete_project :: "string \<Rightarrow> fake_kv \<Rightarrow> fake_kv" where
  "fake_delete_project p s = s\<lparr>fk_pairs := filter (\<lambda>((q, _, _), _). q \<noteq> p) (fk_pairs s)\<rparr>"

definition fake_delete_namespace :: "string \<Rightarrow> string \<Rightarrow> fake_kv \<Rightarrow> fake_kv" where
  "fake_delete_namespace p ns s = s\<lparr>fk_pairs := filter (\<lambda>((q, n, _), _). q \<noteq> p \<or> n \<noteq> ns) (fk_pairs s)\<rparr>"

definition TEST_PROJECT :: string where
  "TEST_PROJECT = ''test-project''"

section \<open>A handle over any client\<close>

record 's kv_client =
  kc_get :: "pair_request \<Rightarrow> ('s, status, pair) fallible"
  kc_set :: "pair list \<Rightarrow> ('s, status, unit) fallible"
  kc_delete :: "pair_request list \<Rightarrow> ('s, status, unit) fallible"

definition fake_client :: "fake_kv kv_client" where
  "fake_client = \<lparr>kc_get = fake_get_pair, kc_set = fake_set_pairs, kc_delete = fake_delete_pairs\<rparr>"

definition worker_client :: "kv_env \<Rightarrow> int \<Rightarrow> kv_store kv_client" where
  "worker_client ke now = \<lparr>kc_get = (\<lambda>q. remote ke (rpc_get_pair ke now q)), kc_set = (\<lambda>ps. remote ke (rpc_set_pairs ke now ps)),
     kc_delete = (\<lambda>qs. remote ke (rpc_delete_pairs ke now qs))\<rparr>"

definition effect :: "bool \<Rightarrow> ('s, lua_error, 'a) fallible \<Rightarrow> ('s, lua_error, 'a) fallible" where
  "effect effects m = (if effects then m else failE (RuntimeError FORBIDDEN))"

definition lua_errors :: "('s, status, 'a) fallible \<Rightarrow> ('s, lua_error, 'a) fallible" where
  "lua_errors m = map_errE (\<lambda>st. RuntimeError (status_message st)) m"

definition client_get :: "'s kv_client \<Rightarrow> codec \<Rightarrow> float_text \<Rightarrow> bool \<Rightarrow> kv_handle \<Rightarrow> string \<Rightarrow> ('s, lua_error, lua_value) fallible" where
  "client_get c J F effects h k = effect effects (\<lambda>s.
     case kc_get c (handle_request h k) s of
       (Inr p, s') \<Rightarrow> (pair_into_lua J F (value_type_of_code (pr_type p)) (pr_value p), s')
     | (Inl (NotFound m), s') \<Rightarrow> (Inr LNil, s')
     | (Inl st, s') \<Rightarrow> (Inl (RuntimeError (status_message st)), s'))"

definition client_set :: "'s kv_client \<Rightarrow> codec \<Rightarrow> float_text \<Rightarrow> bool \<Rightarrow> kv_handle \<Rightarrow> string \<Rightarrow> lua_value \<Rightarrow> ('s, lua_error, unit) fallible" where
  "client_set c J F effects h k v = effect effects
     (case into_service_value J F v of
        Inl e \<Rightarrow> failE e
      | Inr (Some tv) \<Rightarrow> lua_errors (kc_set c [handle_pair h k tv])
      | Inr None \<Rightarrow> lua_errors (kc_delete c [handle_request h k]))"

definition client_set_batch :: "'s kv_client \<Rightarrow> codec \<Rightarrow> float_text \<Rightarrow> bool \<Rightarrow> kv_handle \<Rightarrow> (string + string \<times> lua_value) list
    \<Rightarrow> ('s, lua_error, unit) fallible" where
  "client_set_batch c J F effects h es = effect effects
     (case batch_split J F h es of
        Inl e \<Rightarrow> failE e
      | Inr (ps, qs) \<Rightarrow>
          thenE (if ps \<noteq> [] then lua_errors (kc_set c ps) else okE ())
            (if qs \<noteq> [] then lua_errors (kc_delete c qs) else okE ()))"

definition client_delete :: "'s kv_client \<Rightarrow> bool \<Rightarrow> kv_handle \<Rightarrow> (string + string) list \<Rightarrow> ('s, lua_error, unit) fallible" where
  "client_delete c effects h ks = effect effects
     (case collect_keys h ks of
        Inl e \<Rightarrow> failE e
      | Inr qs \<Rightarrow> lua_errors (kc_delete c qs))"

text \<open>On a worker's client these are the operations of the handle.\<close>

lemma effect_thenE: "thenE (assert_effects_allowed effects) m = effect effects m"
  by (rule ext) (simp add: assert_effects_allowed_def effect_def thenE_def bindE_def okE_def failE_def)

lemma worker_handle:
  "client_get (worker_client ke now) J F effects h k = handle_get ke J F now effects h k"
  "client_set (worker_client ke now) J F effects h k v = handle_set ke J F now effects h k v"
  "client_set_batch (worker_client ke now) J F effects h es = handle_set_batch ke J F now effects h es"
  "client_delete (worker_client ke now) effects h ks = handle_delete ke now effects h ks"
proof -
  have a: "lua_errors m = as_lua m" for m :: "(kv_store, status, 'a) fallible" by (simp add: lua_errors_def as_lua_def)
  note defs = client_get_def client_set_def client_set_batch_def client_delete_def handle_get_def handle_set_def handle_set_batch_def
    handle_delete_def effect_thenE worker_client_def kv_client.simps a
  show "client_get (worker_client ke now) J F effects h k = handle_get ke J F now effects h k" unfolding defs ..
  show "client_set (worker_client ke now) J F effects h k v = handle_set ke J F now effects h k v" unfolding defs ..
  show "client_set_batch (worker_client ke now) J F effects h es = handle_set_batch ke J F now effects h es" unfolding defs ..
  show "client_delete (worker_client ke now) effects h ks = handle_delete ke now effects h ks" unfolding defs ..
qed

section \<open>What a script does\<close>

text \<open>The operations of a script in order, each on a namespace of its project, and what they answer.\<close>

datatype kv_op =
    OpGet string string
  | OpSet string string lua_value
  | OpSetBatch string "(string + string \<times> lua_value) list"
  | OpDelete string "(string + string) list"

definition unit_answer :: "('s, lua_error, unit) fallible \<Rightarrow> ('s, lua_error, lua_value) fallible" where
  "unit_answer m = thenE m (okE LNil)"

definition in_project :: "string \<Rightarrow> string \<Rightarrow> kv_handle" where
  "in_project p ns = \<lparr>kh_project = p, kh_namespace = ns\<rparr>"

fun run_op :: "'s kv_client \<Rightarrow> codec \<Rightarrow> float_text \<Rightarrow> bool \<Rightarrow> string \<Rightarrow> kv_op \<Rightarrow> ('s, lua_error, lua_value) fallible" where
  "run_op c J F effects p (OpGet ns k) = client_get c J F effects (in_project p ns) k"
| "run_op c J F effects p (OpSet ns k v) = unit_answer (client_set c J F effects (in_project p ns) k v)"
| "run_op c J F effects p (OpSetBatch ns es) = unit_answer (client_set_batch c J F effects (in_project p ns) es)"
| "run_op c J F effects p (OpDelete ns ks) = unit_answer (client_delete c effects (in_project p ns) ks)"

text \<open>Each operation runs at its own time.\<close>

fun run_ops :: "(int \<Rightarrow> 's kv_client) \<Rightarrow> codec \<Rightarrow> float_text \<Rightarrow> bool \<Rightarrow> string \<Rightarrow> (int \<times> kv_op) list \<Rightarrow> 's \<Rightarrow> (lua_error + lua_value) list \<times> 's" where
  "run_ops c J F effects p [] s = ([], s)"
| "run_ops c J F effects p ((now, op) # ops) s =
     (case run_op (c now) J F effects p op s of
        (r, s1) \<Rightarrow> (case run_ops c J F effects p ops s1 of (rs, s2) \<Rightarrow> (r # rs, s2)))"

lemmas call_defs = effect_def lua_errors_def map_errE_def unit_answer_def thenE_def bindE_def okE_def failE_def

section \<open>The memory a script observes\<close>

type_synonym kv_memory = "string \<times> string \<rightharpoonup> value_type \<times> string"

definition mem_put :: "pair \<Rightarrow> kv_memory \<Rightarrow> kv_memory" where
  "mem_put p m = m((pr_namespace p, pr_key p) \<mapsto> (value_type_of_code (pr_type p), pr_value p))"

definition mem_drop :: "pair_request \<Rightarrow> kv_memory \<Rightarrow> kv_memory" where
  "mem_drop q m = m((pq_namespace q, pq_key q) := None)"

fun mem_op :: "codec \<Rightarrow> float_text \<Rightarrow> string \<Rightarrow> kv_op \<Rightarrow> kv_memory \<Rightarrow> (lua_error + lua_value) \<times> kv_memory" where
  "mem_op J F p (OpGet ns k) m = (case m (ns, k) of Some (t, v) \<Rightarrow> pair_into_lua J F t v | None \<Rightarrow> Inr LNil, m)"
| "mem_op J F p (OpSet ns k v) m =
     (case into_service_value J F v of
        Inl e \<Rightarrow> (Inl e, m)
      | Inr (Some tv) \<Rightarrow> (Inr LNil, mem_put (handle_pair (in_project p ns) k tv) m)
      | Inr None \<Rightarrow> (Inr LNil, mem_drop (handle_request (in_project p ns) k) m))"
| "mem_op J F p (OpSetBatch ns es) m =
     (case batch_split J F (in_project p ns) es of
        Inl e \<Rightarrow> (Inl e, m)
      | Inr (ps, qs) \<Rightarrow> (Inr LNil, fold mem_drop qs (fold mem_put ps m)))"
| "mem_op J F p (OpDelete ns ks) m =
     (case collect_keys (in_project p ns) ks of
        Inl e \<Rightarrow> (Inl e, m)
      | Inr qs \<Rightarrow> (Inr LNil, fold mem_drop qs m))"

text \<open>What a handle needs of the service behind it, for one project.\<close>

locale kv_backend =
  fixes c :: "'s kv_client" and p :: string and inv :: "'s \<Rightarrow> bool" and look :: "'s \<Rightarrow> kv_memory"
  assumes get_hit: "inv s \<Longrightarrow> pq_project q = p \<Longrightarrow> look s (pq_namespace q, pq_key q) = Some (t, v) \<Longrightarrow>
      \<exists>x s'. kc_get c q s = (Inr x, s') \<and> value_type_of_code (pr_type x) = t \<and> pr_value x = v \<and> inv s' \<and> look s' = look s"
    and get_miss: "inv s \<Longrightarrow> pq_project q = p \<Longrightarrow> look s (pq_namespace q, pq_key q) = None \<Longrightarrow>
      \<exists>m s'. kc_get c q s = (Inl (NotFound m), s') \<and> inv s' \<and> look s' = look s"
    and set_all: "inv s \<Longrightarrow> \<forall>x \<in> set ps. pr_project x = p \<and> pr_ttl x = None \<Longrightarrow>
      \<exists>s'. kc_set c ps s = (Inr (), s') \<and> inv s' \<and> look s' = fold mem_put ps (look s)"
    and delete_all: "inv s \<Longrightarrow> \<forall>q \<in> set qs. pq_project q = p \<Longrightarrow>
      \<exists>s'. kc_delete c qs s = (Inr (), s') \<and> inv s' \<and> look s' = fold mem_drop qs (look s)"
begin

lemma batch_parts: "batch_split J F (in_project p ns) es = Inr (ps, qs) \<Longrightarrow>
    (\<forall>x \<in> set ps. pr_project x = p \<and> pr_ttl x = None) \<and> (\<forall>q \<in> set qs. pq_project q = p)"
  by (induction J F "in_project p ns" es arbitrary: ps qs rule: batch_split.induct)
     (fastforce simp: handle_pair_def handle_request_def in_project_def split: sum.splits option.splits prod.splits)+

lemma collect_parts: "collect_keys (in_project p ns) ks = Inr qs \<Longrightarrow> \<forall>q \<in> set qs. pq_project q = p"
  by (induction "in_project p ns" ks arbitrary: qs rule: collect_keys.induct)
     (fastforce simp: handle_request_def in_project_def split: sum.splits)+

text \<open>One operation of a script does to the memory what the specification says, and answers so.\<close>

lemma op_refines:
  assumes "inv s"
  shows "\<exists>s'. run_op c J F True p op s = (fst (mem_op J F p op (look s)), s') \<and> inv s' \<and> look s' = snd (mem_op J F p op (look s))"
proof (cases op)
  case (OpGet ns k)
  have q: "pq_project (handle_request (in_project p ns) k) = p" "pq_namespace (handle_request (in_project p ns) k) = ns"
    "pq_key (handle_request (in_project p ns) k) = k" by (simp_all add: handle_request_def in_project_def)
  show ?thesis
  proof (cases "look s (ns, k)")
    case None
    from get_miss [OF assms q(1)] None q show ?thesis by (auto simp: OpGet client_get_def effect_def)
  next
    case (Some tv)
    from get_hit [OF assms q(1), of "fst tv" "snd tv"] Some q show ?thesis by (auto simp: OpGet client_get_def effect_def case_prod_beta)
  qed
next
  case (OpSet ns k v)
  have pr: "pr_project (handle_pair (in_project p ns) k tv) = p \<and> pr_ttl (handle_pair (in_project p ns) k tv) = None" for tv
    by (simp add: handle_pair_def in_project_def)
  have q: "pq_project (handle_request (in_project p ns) k) = p" by (simp add: handle_request_def in_project_def)
  consider e where "into_service_value J F v = Inl e" | tv where "into_service_value J F v = Inr (Some tv)" | "into_service_value J F v = Inr None"
    by (metis option.exhaust sumE)
  then show ?thesis
  proof cases
    case 1
    with assms show ?thesis by (simp add: OpSet client_set_def call_defs)
  next
    case (2 tv)
    with set_all [OF assms, of "[handle_pair (in_project p ns) k tv]"] pr show ?thesis by (auto simp: OpSet client_set_def call_defs)
  next
    case 3
    with delete_all [OF assms, of "[handle_request (in_project p ns) k]"] q show ?thesis by (auto simp: OpSet client_set_def call_defs)
  qed
next
  case (OpSetBatch ns es)
  show ?thesis
  proof (cases "batch_split J F (in_project p ns) es")
    case (Inl e)
    with assms show ?thesis by (simp add: OpSetBatch client_set_batch_def call_defs)
  next
    case (Inr pq)
    obtain ps qs where pq: "pq = (ps, qs)" by (cases pq)
    with Inr have parts: "\<forall>x \<in> set ps. pr_project x = p \<and> pr_ttl x = None" "\<forall>q \<in> set qs. pq_project q = p" using batch_parts by blast+
    obtain s1 where s1: "(if ps \<noteq> [] then lua_errors (kc_set c ps) else okE ()) s = (Inr (), s1)" "inv s1" "look s1 = fold mem_put ps (look s)"
      using set_all [OF assms parts(1)] assms by (cases "ps = []") (auto simp: call_defs)
    obtain s2 where "(if qs \<noteq> [] then lua_errors (kc_delete c qs) else okE ()) s1 = (Inr (), s2)" "inv s2" "look s2 = fold mem_drop qs (look s1)"
      using delete_all [OF s1(2) parts(2)] s1(2) by (cases "qs = []") (auto simp: call_defs)
    with s1 Inr pq show ?thesis by (simp add: OpSetBatch client_set_batch_def effect_def unit_answer_def thenE_def bindE_def okE_def)
  qed
next
  case (OpDelete ns ks)
  show ?thesis
  proof (cases "collect_keys (in_project p ns) ks")
    case (Inl e)
    with assms show ?thesis by (simp add: OpDelete client_delete_def call_defs)
  next
    case (Inr qs)
    with delete_all [OF assms collect_parts [OF Inr]] show ?thesis by (auto simp: OpDelete client_delete_def call_defs)
  qed
qed

end

text \<open>Runs of operations on two backends that start with the same memory answer alike.\<close>

fun mem_ops :: "codec \<Rightarrow> float_text \<Rightarrow> string \<Rightarrow> (int \<times> kv_op) list \<Rightarrow> kv_memory \<Rightarrow> (lua_error + lua_value) list" where
  "mem_ops J F p [] m = []"
| "mem_ops J F p ((now, op) # ops) m = (case mem_op J F p op m of (r, m') \<Rightarrow> r # mem_ops J F p ops m')"

lemma ops_refine:
  assumes "\<And>now. kv_backend (c now) p ok look" "ok s"
  shows "fst (run_ops c J F True p ops s) = mem_ops J F p ops (look s)"
  using assms(2)
proof (induction ops arbitrary: s)
  case (Cons x ops)
  obtain now op where x: "x = (now, op)" by (cases x)
  from kv_backend.op_refines [OF assms(1) Cons.prems, of now J F op] obtain s' where
    "run_op (c now) J F True p op s = (fst (mem_op J F p op (look s)), s')" "ok s'" "look s' = snd (mem_op J F p op (look s))" by blast
  with Cons.IH [of s'] show ?case by (simp add: x case_prod_beta)
qed simp

text \<open>The project a run names does not show in its answers.\<close>

lemma batch_project: "batch_split J F (in_project p ns) es =
    map_sum id (\<lambda>(ps, qs). (map (pr_project_update (\<lambda>_. p)) ps, map (pq_project_update (\<lambda>_. p)) qs)) (batch_split J F (in_project p' ns) es)"
  by (induction J F "in_project p ns" es rule: batch_split.induct)
     (auto simp: handle_pair_def handle_request_def in_project_def split: sum.splits option.splits prod.splits)

lemma collect_project: "collect_keys (in_project p ns) ks = map_sum id (map (pq_project_update (\<lambda>_. p))) (collect_keys (in_project p' ns) ks)"
  by (induction "in_project p ns" ks rule: collect_keys.induct) (auto simp: handle_request_def in_project_def split: sum.splits)

lemma mem_put_project: "fold mem_put (map (pr_project_update f) ps) m = fold mem_put ps m"
  by (induction ps arbitrary: m) (simp_all add: mem_put_def)

lemma mem_drop_project: "fold mem_drop (map (pq_project_update f) qs) m = fold mem_drop qs m"
  by (induction qs arbitrary: m) (simp_all add: mem_drop_def)

lemma mem_op_project: "mem_op J F p op m = mem_op J F p' op m"
proof (cases op)
  case (OpSetBatch ns es)
  then show ?thesis
    using batch_project [of J F p ns es p'] by (auto simp: mem_put_project mem_drop_project split: sum.split)
next
  case (OpDelete ns ks)
  then show ?thesis
    using collect_project [of p ns ks p'] by (auto simp: mem_drop_project split: sum.split)
qed (auto simp: mem_put_def mem_drop_def handle_pair_def handle_request_def in_project_def split: sum.split option.split)

lemma mem_ops_project: "mem_ops J F p ops m = mem_ops J F p' ops m"
proof (induction ops arbitrary: m)
  case (Cons x ops)
  then show ?case by (cases x) (simp add: mem_op_project [of J F p _ _ p'])
qed simp

section \<open>Both services are such a backend\<close>

definition fake_look :: "fake_kv \<Rightarrow> kv_memory" where
  "fake_look s = (\<lambda>(ns, k). map_option (\<lambda>x. (value_type_of_code (pr_type x), pr_value x)) (map_of (fk_pairs s) (TEST_PROJECT, ns, k)))"

lemma fake_look_insert: "pr_project x = TEST_PROJECT \<Longrightarrow> fake_look (fake_insert x s) = mem_put x (fake_look s)"
  by (auto simp: fake_look_def fake_insert_def mem_put_def update_conv' fun_eq_iff)

lemma fake_look_remove: "pq_project q = TEST_PROJECT \<Longrightarrow> fake_look (fake_remove q s) = mem_drop q (fake_look s)"
  by (auto simp: fake_look_def fake_remove_def mem_drop_def delete_conv' fun_eq_iff)

interpretation fake: kv_backend fake_client TEST_PROJECT "\<lambda>_. True" fake_look
proof
  show "\<exists>x s'. kc_get fake_client q s = (Inr x, s') \<and> value_type_of_code (pr_type x) = t \<and> pr_value x = v \<and> True \<and> fake_look s' = fake_look s"
    if "pq_project q = TEST_PROJECT" "fake_look s (pq_namespace q, pq_key q) = Some (t, v)" for q s t v
    using that by (auto simp: fake_client_def fake_get_pair_def fake_look_def)
  show "\<exists>m s'. kc_get fake_client q s = (Inl (NotFound m), s') \<and> True \<and> fake_look s' = fake_look s"
    if "pq_project q = TEST_PROJECT" "fake_look s (pq_namespace q, pq_key q) = None" for q s
    using that by (auto simp: fake_client_def fake_get_pair_def fake_look_def)
  show "\<exists>s'. kc_set fake_client ps s = (Inr (), s') \<and> True \<and> fake_look s' = fold mem_put ps (fake_look s)"
    if "\<forall>x \<in> set ps. pr_project x = TEST_PROJECT \<and> pr_ttl x = None" for ps s
    using that by (induction ps arbitrary: s) (auto simp: fake_client_def fake_set_pairs_def writeE_def fake_look_insert)
  show "\<exists>s'. kc_delete fake_client qs s = (Inr (), s') \<and> True \<and> fake_look s' = fold mem_drop qs (fake_look s)"
    if "\<forall>q \<in> set qs. pq_project q = TEST_PROJECT" for qs s
    using that by (induction qs arbitrary: s) (auto simp: fake_client_def fake_delete_pairs_def writeE_def fake_look_remove)
qed

text \<open>On the worker: rows without a time to live, as every handle writes them.\<close>

definition lasting :: "string \<Rightarrow> kv_store \<Rightarrow> bool" where
  "lasting u s \<longleftrightarrow> kv_wf s \<and> (\<forall>ns. \<forall>r \<in> set (kv_pairs s (u, ns)). c_expires (snd r) = None)"

definition cell_memory :: "kv_cell \<Rightarrow> (value_type \<times> string) option" where
  "cell_memory c = (case value_type_parse (c_type c) of Inr t \<Rightarrow> Some (t, c_value c) | Inl _ \<Rightarrow> None)"

definition worker_look :: "string \<Rightarrow> kv_store \<Rightarrow> kv_memory" where
  "worker_look u s = (\<lambda>(ns, k). Option.bind (map_of (kv_pairs s (u, ns)) k) cell_memory)"

lemma lasting_sending [simp]: "lasting u (sending s) = lasting u s" "worker_look u (sending s) = worker_look u s"
  by (simp_all add: lasting_def worker_look_def fun_eq_iff)

lemma lasting_write: "lasting u s \<Longrightarrow> lasting u (apply_stmt now (WritePair u ns k v (value_type_text t) 0) s)"
  using kv_wf_write [of s now u ns k v t 0] by (auto simp: lasting_def dest!: put_row_set)

lemma look_write: "lasting u s \<Longrightarrow> worker_look u (apply_stmt now (WritePair u ns k v (value_type_text t) 0) s) = (worker_look u s)((ns, k) \<mapsto> (t, v))"
  by (auto simp: worker_look_def cell_memory_def map_of_put_row lasting_def kv_wf_def fun_eq_iff)

lemma lasting_register: "lasting u s \<Longrightarrow> lasting u (apply_stmt now (RegisterName u ns) s)" "worker_look u (apply_stmt now (RegisterName u ns) s) = worker_look u s"
  using kv_wf_other [of s "RegisterName u ns" now] by (auto simp: lasting_def worker_look_def)

lemma lasting_delete: "lasting u s \<Longrightarrow> lasting u (apply_stmt now (DeletePair u ns k) s)"
  using kv_wf_other [of s "DeletePair u ns k" now] by (fastforce simp: lasting_def)

lemma look_delete: "worker_look u (apply_stmt now (DeletePair u ns k) s) = (worker_look u s)((ns, k) := None)"
  by (auto simp: worker_look_def map_of_filter_keys fun_eq_iff)

lemma worker_set:
  assumes "reliable ke" "ke_uuid ke p = Some u"
  shows "lasting u s \<Longrightarrow> \<forall>x \<in> set ps. pr_project x = p \<and> pr_ttl x = None \<Longrightarrow>
    \<exists>s'. kv_set ke now ps s = (Inr (), s') \<and> lasting u s' \<and> worker_look u s' = fold mem_put ps (worker_look u s)"
proof (induction ps arbitrary: s)
  case (Cons x ps)
  let ?w = "WritePair u (pr_namespace x) (pr_key x) (pr_value x) (value_type_text (value_type_of_code (pr_type x))) 0"
  let ?s = "apply_stmt now (RegisterName u (pr_namespace x)) (sending (apply_stmt now ?w (sending s)))"
  have "lasting u (apply_stmt now ?w (sending s))" by (rule lasting_write) (simp add: Cons.prems)
  then have ok: "lasting u ?s" by (intro lasting_register(1)) simp
  have look: "worker_look u ?s = mem_put x (worker_look u s)"
    unfolding lasting_register(2) lasting_sending look_write [OF iffD2 [OF lasting_sending(1) Cons.prems(1)]] by (simp add: mem_put_def)
  have "kv_set ke now (x # ps) s = kv_set ke now ps ?s"
    using Cons.prems(2) assms by (simp add: project_uuid_def execute_reliable thenE_def del: apply_stmt.simps)
  with Cons.IH [OF ok] Cons.prems(2) look show ?case by simp
qed (simp add: okE_def)

lemma worker_delete:
  assumes "reliable ke" "ke_uuid ke p = Some u"
  shows "lasting u s \<Longrightarrow> \<forall>q \<in> set qs. pq_project q = p \<Longrightarrow>
    \<exists>s'. kv_delete ke now qs s = (Inr (), s') \<and> lasting u s' \<and> worker_look u s' = fold mem_drop qs (worker_look u s)"
proof (induction qs arbitrary: s)
  case (Cons q qs)
  let ?s = "apply_stmt now (DeletePair u (pq_namespace q) (pq_key q)) (sending s)"
  have ok: "lasting u ?s" by (rule lasting_delete) (simp add: Cons.prems)
  have look: "worker_look u ?s = mem_drop q (worker_look u s)" unfolding look_delete by (simp add: mem_drop_def)
  have "kv_delete ke now (q # qs) s = kv_delete ke now qs ?s"
    using Cons.prems(2) assms by (simp add: project_uuid_def execute_reliable thenE_def del: apply_stmt.simps)
  with Cons.IH [OF ok] Cons.prems(2) look show ?case by simp
qed (simp add: okE_def)

lemma worker_row:
  assumes "lasting u s"
  shows "find (\<lambda>r. fst r = k) (live_rows now u ns s) = map_option (Pair k) (map_of (kv_pairs s (u, ns)) k)"
    and "map_of (kv_pairs s (u, ns)) k = Some c \<Longrightarrow> typed c \<and> c_expires c = None"
proof -
  have all: "live_rows now u ns s = kv_pairs s (u, ns)"
    using assms by (auto simp: live_rows_def lasting_def cell_alive_def filter_id_conv)
  show "find (\<lambda>r. fst r = k) (live_rows now u ns s) = map_option (Pair k) (map_of (kv_pairs s (u, ns)) k)"
    unfolding all using assms by (simp add: rows_sorted_find lasting_def kv_wf_def)
  show "map_of (kv_pairs s (u, ns)) k = Some c \<Longrightarrow> typed c \<and> c_expires c = None"
    using assms by (fastforce simp: lasting_def kv_wf_def dest: map_of_SomeD)
qed

lemma worker_get:
  assumes "reliable ke" "ke_uuid ke (pq_project q) = Some u" "lasting u s"
  shows "rpc_get_pair ke now q s =
    (case map_of (kv_pairs s (u, pq_namespace q)) (pq_key q) of
       Some c \<Rightarrow> (Inr (pair_of now u (pq_namespace q) (pq_key q, c)), sending s)
     | None \<Rightarrow> (Inl (NotFound (quoted (pq_key q) @ '' was not found in '' @ quoted (pq_namespace q) @ '' namespace.'')), sending s))"
  using assms worker_row(1) [OF assms(3), of "pq_key q" now "pq_namespace q"] worker_row(2) [OF assms(3), of "pq_namespace q" "pq_key q"]
  by (auto simp: rpc_get_pair_def map_errE_def kv_get_def project_uuid_def fetch_reliable bindE_def okE_def failE_def row_into_pair_typed
      split: option.split)

lemma worker_backend:
  assumes "reliable ke" "ke_uuid ke p = Some u"
  shows "kv_backend (worker_client ke now) p (lasting u) (worker_look u)"
proof
  have wire: "remote ke m = m" for m :: "(kv_store, status, 'a) fallible"
    by (rule ext) (use assms(1) in \<open>simp add: remote_def through_def reliable_def\<close>)
  note c = worker_client_def kv_client.simps wire rpc_set_pairs_def rpc_delete_pairs_def map_errE_def
  show "\<exists>x s'. kc_get (worker_client ke now) q s = (Inr x, s') \<and> value_type_of_code (pr_type x) = t \<and> pr_value x = v \<and> lasting u s' \<and> worker_look u s' = worker_look u s"
    if s: "lasting u s" and q: "pq_project q = p" and l: "worker_look u s (pq_namespace q, pq_key q) = Some (t, v)" for s q t v
  proof -
    from l obtain cell where cell: "map_of (kv_pairs s (u, pq_namespace q)) (pq_key q) = Some cell" "cell_memory cell = Some (t, v)"
      by (auto simp: worker_look_def bind_eq_Some_conv)
    with worker_row(2) [OF s cell(1)] worker_get [OF assms(1) _ s, of q now] assms(2) q s show ?thesis
      by (auto simp: c pair_of_def cell_memory_def split: sum.splits)
  qed
  show "\<exists>m s'. kc_get (worker_client ke now) q s = (Inl (NotFound m), s') \<and> lasting u s' \<and> worker_look u s' = worker_look u s"
    if s: "lasting u s" and q: "pq_project q = p" and l: "worker_look u s (pq_namespace q, pq_key q) = None" for s q
  proof -
    have "map_of (kv_pairs s (u, pq_namespace q)) (pq_key q) = None"
    proof (rule ccontr)
      assume "map_of (kv_pairs s (u, pq_namespace q)) (pq_key q) \<noteq> None"
      then obtain cell where cell: "map_of (kv_pairs s (u, pq_namespace q)) (pq_key q) = Some cell" by blast
      with worker_row(2) [OF s cell] l show False by (auto simp: worker_look_def cell_memory_def typed_def)
    qed
    with worker_get [OF assms(1) _ s, of q now] assms(2) q s show ?thesis by (simp add: c)
  qed
  show "\<exists>s'. kc_set (worker_client ke now) ps s = (Inr (), s') \<and> lasting u s' \<and> worker_look u s' = fold mem_put ps (worker_look u s)"
    if "lasting u s" "\<forall>x \<in> set ps. pr_project x = p \<and> pr_ttl x = None" for s ps
    using worker_set [OF assms that, of now] by (auto simp: c)
  show "\<exists>s'. kc_delete (worker_client ke now) qs s = (Inr (), s') \<and> lasting u s' \<and> worker_look u s' = fold mem_drop qs (worker_look u s)"
    if "lasting u s" "\<forall>q \<in> set qs. pq_project q = p" for s qs
    using worker_delete [OF assms that, of now] by (auto simp: c)
qed

text \<open>C39. What a script reads and is refused under \<open>actias test\<close> is what it reads and is refused on a worker:
  for every sequence of operations on its namespaces, at whatever times, the stand-in and the service
  give the same answers from an empty store, while the service's statements are carried out.\<close>

theorem tests_see_the_worker_kv:
  assumes "reliable ke" "ke_uuid ke p = Some u"
  shows "fst (run_ops (\<lambda>_. fake_client) J F True TEST_PROJECT ops \<lparr>fk_pairs = []\<rparr>) = fst (run_ops (worker_client ke) J F True p ops empty_kv)"
proof -
  have "lasting u empty_kv" "worker_look u empty_kv = Map.empty" "fake_look \<lparr>fk_pairs = []\<rparr> = Map.empty"
    by (auto simp: lasting_def kv_wf_def empty_kv_def worker_look_def fake_look_def)
  then show ?thesis
    using ops_refine [where s = empty_kv and J = J and F = F and ops = ops, OF worker_backend [OF assms]]
      ops_refine [where s = "\<lparr>fk_pairs = []\<rparr>" and J = J and F = F and ops = ops, OF fake.kv_backend_axioms]
      mem_ops_project [of J F p ops _ TEST_PROJECT] by simp
qed

theorem tests_see_the_worker_kv_witness:
  "fst (run_ops (\<lambda>_. fake_client) text_codec plain_floats True TEST_PROJECT [(1, OpSet ''n'' ''k'' (LBool True)), (2, OpGet ''n'' ''k''), (3, OpGet ''n'' ''x'')] \<lparr>fk_pairs = []\<rparr>)
     = [Inr LNil, Inr (LBool True), Inr LNil]
   \<and> fst (run_ops (worker_client calm) text_codec plain_floats True ''p'' [(1, OpSet ''n'' ''k'' (LBool True)), (2, OpGet ''n'' ''k''), (3, OpGet ''n'' ''x'')] empty_kv)
     = [Inr LNil, Inr (LBool True), Inr LNil]"
proof -
  have "fst (run_ops (\<lambda>_. fake_client) text_codec plain_floats True TEST_PROJECT [(1, OpSet ''n'' ''k'' (LBool True)), (2, OpGet ''n'' ''k''), (3, OpGet ''n'' ''x'')] \<lparr>fk_pairs = []\<rparr>)
     = [Inr LNil, Inr (LBool True), Inr LNil]"
    by (simp add: call_defs client_set_def client_get_def fake_client_def fake_set_pairs_def fake_get_pair_def fake_insert_def writeE_def into_service_value_def
        handle_pair_def handle_request_def in_project_def TEST_PROJECT_def pair_into_lua_def parse_bool_def value_type_of_code_def)
  then show ?thesis unfolding tests_see_the_worker_kv [OF calm_facts(1) calm_facts(3) [of "''p''"], symmetric] by blast
qed

section \<open>What the tests run\<close>

text \<open>The revision under test: the files of the bundle by path and content alone, as the script and project of
  the tests.\<close>

definition test_file :: "bundle_file \<Rightarrow> bundle_file" where
  "test_file f = \<lparr>f_path = f_path f, f_content = f_content f, f_hash = '''', f_size = 0, f_content_type = '''', f_kind = Module\<rparr>"

definition test_script :: script_row where
  "test_script = \<lparr>sc_id = TEST_PROJECT, sc_project = TEST_PROJECT, sc_identifier = ''test'', sc_updated = 0, sc_current = None\<rparr>"

definition test_prepare :: "'v service \<Rightarrow> script_config \<Rightarrow> project_dir \<Rightarrow> string + prepared" where
  "test_prepare sv cfg dir =
     (case to_bundle (sv_hash sv) cfg dir of
        Inl e \<Rightarrow> Inl e
      | Inr b \<Rightarrow>
          (case preflight sv cfg dir of
             Inl e \<Rightarrow> Inl e
           | Inr declared \<Rightarrow> Inr (prepare test_script '''' (Some declared) \<lparr>b_entry_point = cf_entry_point cfg, b_files = map test_file (b_files b)\<rparr>)))"

text \<open>A worker fetches the manifest and then each content; reading the bundle in one request gives the same.\<close>

lemma manifest_then_contents:
  "hydrate_all False fls s = Inr fs \<Longrightarrow> \<forall>f \<in> set fs. f_hash f \<noteq> '''' \<Longrightarrow>
     \<exists>gs. hydrate_all True fls s = Inr gs \<and> fetch_contents s gs = Inr fs"
proof (induction fls arbitrary: fs)
  case (Cons fl fls)
  from Cons.prems(1) obtain f fs' where f: "hydrate False fl s = Inr f" "hydrate_all False fls s = Inr fs'" "fs = f # fs'"
    by (auto split: sum.splits)
  from Cons.IH [OF f(2)] f(3) Cons.prems(2) obtain gs where gs: "hydrate_all True fls s = Inr gs" "fetch_contents s gs = Inr fs'" by auto
  from f(1) have "f_hash f = trim (fl_hash fl)" "blob_get (f_hash f) s = Inr (f_content f)" "hydrate True fl s = Inr (f\<lparr>f_content := ''''\<rparr>)"
    by (auto simp: hydrate_def Let_def split: sum.splits)
  moreover have "f\<lparr>f_content := '''', f_content := f_content f\<rparr> = f" by simp
  ultimately show ?case using gs f(3) Cons.prems(2) by (intro exI [of _ "f\<lparr>f_content := ''''\<rparr> # gs"]) auto
qed simp

lemma load_matches_read:
  assumes "get_revision sv rid True False s = Inr (r, Some b)" "\<forall>f \<in> set (b_files b). f_hash f \<noteq> ''''" "sc_id row = rv_script r"
  shows "load_revision sv row rid s = Inr (prepare row (rv_id r) (cf_capabilities (rv_config r)) b)"
proof -
  from assms(1) obtain i fs where r: "sv_parse sv rid = Some i" "find (\<lambda>r. rv_id r = i) (st_revisions s) = Some r"
    "hydrate_all False (filter (\<lambda>f. fl_revision f = rv_id r) (st_files s)) s = Inr fs" "b = \<lparr>b_entry_point = rv_entry_point r, b_files = fs\<rparr>"
    by (auto simp: get_revision_def split: option.splits sum.splits)
  from manifest_then_contents [OF r(3)] assms(2) r(4) obtain gs where
    "hydrate_all True (filter (\<lambda>f. fl_revision f = rv_id r) (st_files s)) s = Inr gs" "fetch_contents s gs = Inr fs" by auto
  with r assms(3) show ?thesis by (simp add: load_revision_def get_revision_def)
qed

text \<open>The declaration pass of the service sees the Lua files with their bytes, whichever way they came.\<close>

lemma collect_negotiated:
  assumes "content_addressed hash fresh s" "\<forall>f \<in> set fs. named_by hash f \<and> f_content f \<in> fresh"
    and "\<forall>f \<in> set fs. f_hash f \<notin> set missing \<longrightarrow> f_hash f \<in> dom (st_blobs s)"
  shows "collect_sources (map (strip_stored missing) fs) s = Inr (local_sources (filter (\<lambda>f. ends_with (f_path f) ''.lua'') fs))"
  using assms(2,3)
proof (induction fs)
  case (Cons f fs)
  have "source_bytes (strip_stored missing f) s = Inr (f_content f)"
    using Cons.prems sent_addressed [OF assms(1), of f]
    by (auto simp: source_bytes_def strip_stored_def inline_def named_by_def blob_get_def)
  moreover have "f_path (strip_stored missing f) = f_path f" by (simp add: strip_stored_def)
  ultimately show ?case using Cons by (auto split: option.splits)
qed simp

lemma created_contract:
  assumes "create_revision sv rid now v cfg (Some b) s = (Inr r, s')" "collect_sources (b_files b) s = Inr src"
  shows "\<exists>c. extract_contract (sv_lua sv) (sv_cron sv) (sv_budget sv) src (b_entry_point b) = Inr c \<and> cf_capabilities (rv_config r) = Some c"
  using assms
  by (auto simp: create_revision_def create_db_revision_def insert_revision_def Let_def
      split: sum.splits option.splits prod.splits if_splits)

lemma local_sources_lua:
  "\<forall>f \<in> set fs. \<not> ends_with (f_path f) ''.lua'' \<longrightarrow> from_utf8 (f_content f) = None \<Longrightarrow>
     local_sources (filter (\<lambda>f. ends_with (f_path f) ''.lua'') fs) = local_sources fs"
  by (induction fs) (simp_all split: option.split)

lemma find_contents:
  "map_option f_content (find (\<lambda>f. P (f_path f)) (map test_file fs)) = map_option f_content (find (\<lambda>f. P (f_path f)) (map (manifest_of hash) fs))"
  by (induction fs) (auto simp: test_file_def manifest_of_def)

text \<open>C40. The tests run the code that is published: once a directory has been published, every \<open>require\<close> and the
  entry point find the same source in the revision a worker loads as in the one the tests ran, and when
  nothing but Lua in it is text, both run under the same contract.\<close>

theorem tests_run_what_is_published:
  assumes "script_reach sv empty_store asked" "script_reach sv asked s" "rid \<notin> rv_id ` set (st_revisions s)"
    and "publish_dir sv rid now cfg dir asked s = (Inr r, s')" "sound_tree sv dir s" "sv_parse sv rid = Some rid" "sc_id row = rv_script r"
  shows "\<exists>pp served. test_prepare sv cfg dir = Inr pp \<and> load_revision sv row rid s' = Inr served
    \<and> (\<forall>key. map_option f_content (module_by_key served key) = map_option f_content (module_by_key pp key))
    \<and> map_option f_content (entry_module served) = map_option f_content (entry_module pp)
    \<and> ((\<forall>p x. pd_read dir p = Inr x \<and> from_utf8 x \<noteq> None \<longrightarrow> ends_with p ''.lua'') \<longrightarrow> pp_contract served = pp_contract pp)"
proof -
  let ?h = "sv_hash sv"
  obtain paths fs declared v where p: "read_files ?h dir paths = Inr fs"
    "to_bundle ?h cfg dir = Inr \<lparr>b_entry_point = cf_entry_point cfg, b_files = fs\<rparr>" "preflight sv cfg dir = Inr declared"
    "create_revision sv rid now v (Some (cfg\<lparr>cf_capabilities := Some declared\<rparr>)) (Some \<lparr>b_entry_point = cf_entry_point cfg,
       b_files = map (strip_stored (missing_blobs (map f_hash fs) asked)) fs\<rparr>) s = (Inr r, s')"
    "content_addressed ?h {x. \<exists>p. pd_read dir p = Inr x} s" "dom (st_blobs asked) \<subseteq> dom (st_blobs s)"
    "get_revision sv rid True False s' = Inr (r, Some \<lparr>b_entry_point = cf_entry_point cfg, b_files = map (manifest_of ?h) fs\<rparr>)"
    by (rule published_files [OF assms(1-6)])
  let ?pp = "prepare test_script '''' (Some declared) \<lparr>b_entry_point = cf_entry_point cfg, b_files = map test_file fs\<rparr>"
  let ?served = "prepare row (rv_id r) (cf_capabilities (rv_config r)) \<lparr>b_entry_point = cf_entry_point cfg, b_files = map (manifest_of ?h) fs\<rparr>"
  note named = tree_files [OF assms(5) p(1)] and files = read_entries [OF p(1)]
  have "load_revision sv row rid s' = Inr ?served"
    by (rule load_matches_read [OF p(7) _ assms(7)]) (use named in \<open>auto simp: manifest_of_def named_by_def\<close>)
  moreover have "test_prepare sv cfg dir = Inr ?pp" using p(2,3) by (simp add: test_prepare_def)
  moreover have "map_option f_content (module_by_key ?served key) = map_option f_content (module_by_key ?pp key)" for key
    using find_contents [of "\<lambda>p. module_key p = key" fs ?h] by (simp add: module_by_key_def prepare_def)
  moreover have "map_option f_content (entry_module ?served) = map_option f_content (entry_module ?pp)"
    using find_contents [of "\<lambda>p. p = cf_entry_point cfg" fs ?h]
    by (simp add: entry_module_def module_by_path_def find_file_def prepare_def)
  moreover have "pp_contract ?served = pp_contract ?pp"
    if "\<forall>p x. pd_read dir p = Inr x \<and> from_utf8 x \<noteq> None \<longrightarrow> ends_with p ''.lua''"
  proof -
    have "\<forall>f \<in> set fs. f_hash f \<notin> set (missing_blobs (map f_hash fs) asked) \<longrightarrow> f_hash f \<in> dom (st_blobs s)"
      using p(6) by (auto simp: missing_blobs_def blob_head_def)
    with collect_negotiated [OF p(5), of fs] named
    have "collect_sources (map (strip_stored (missing_blobs (map f_hash fs) asked)) fs) s = Inr (local_sources (filter (\<lambda>f. ends_with (f_path f) ''.lua'') fs))"
      by blast
    moreover have "local_sources (filter (\<lambda>f. ends_with (f_path f) ''.lua'') fs) = local_sources fs"
      by (rule local_sources_lua) (use that files in blast)
    ultimately obtain c where "extract_contract (sv_lua sv) (sv_cron sv) (sv_budget sv) (local_sources fs) (cf_entry_point cfg) = Inr c"
        "cf_capabilities (rv_config r) = Some c"
      using created_contract [OF p(4)] by auto
    with p(2,3) show ?thesis by (simp add: preflight_def prepare_def)
  qed
  ultimately show ?thesis by blast
qed

theorem tests_run_what_is_published_witness:
  "\<exists>r s' pp served. publish_dir demo_service ''r2'' 3 demo_script_json demo_dir published_once published_once = (Inr r, s')
    \<and> test_prepare demo_service demo_script_json demo_dir = Inr pp
    \<and> load_revision demo_service (demo_script (rv_script r) ''first'' 2 None) ''r2'' s' = Inr served
    \<and> map_option f_content (entry_module served) = map_option f_content (entry_module pp)"
proof -
  obtain r s' where p: "publish_dir demo_service ''r2'' 3 demo_script_json demo_dir published_once published_once = (Inr r, s')"
    using demo_again by blast
  have "''r2'' \<notin> rv_id ` set (st_revisions published_once)" "sv_parse demo_service ''r2'' = Some ''r2''"
    "sc_id (demo_script (rv_script r) ''first'' 2 None) = rv_script r"
    by (simp_all add: published_once_tables demo_row_def demo_service_def demo_script_def)
  from tests_run_what_is_published [OF published_once_reached script_reach.here this(1) p demo_sound this(2,3)] p show ?thesis by blast
qed

section \<open>A run of the tests\<close>

text \<open>The entries of the directory \<open>tests\<close>; one that cannot be read has none.\<close>

definition test_files :: "string list \<Rightarrow> string list" where
  "test_files entries = sort (filter (\<lambda>p. path_extension p = ''lua'') entries)"

text \<open>The vm and its stand-ins are parameters: a boot with the entry point and the harness installed, the run of
  a test file, which registers cases, and the run of a case. Each may read and advance the clock offset,
  a static of the process.\<close>

definition advance_clock_for_tests :: "int \<Rightarrow> int \<Rightarrow> int" where
  "advance_clock_for_tests ms offset = offset + max ms 0"

record 'fn test_case_entry =
  tc_name :: "string option"
  tc_fn :: "string + 'fn"

record ('vm, 'fn) test_host =
  th_boot :: "prepared \<Rightarrow> (string \<rightharpoonup> string) \<Rightarrow> int \<Rightarrow> string + 'vm"
  th_source :: "string \<Rightarrow> string + string"
  th_load :: "string \<Rightarrow> string \<Rightarrow> 'vm \<Rightarrow> int \<Rightarrow> (string + 'fn test_case_entry list) \<times> 'vm \<times> int"
  th_call :: "'fn \<Rightarrow> 'vm \<Rightarrow> int \<Rightarrow> (string + unit) \<times> 'vm \<times> int"

record test_summary =
  ts_passed :: nat
  ts_failed :: nat

fun run_cases :: "('vm, 'fn) test_host \<Rightarrow> 'fn test_case_entry list \<Rightarrow> 'vm \<Rightarrow> int \<Rightarrow> test_summary \<Rightarrow> string + test_summary \<times> int" where
  "run_cases h [] vm offset sm = Inr (sm, offset)"
| "run_cases h (c # cs) vm offset sm =
     (case tc_fn c of
        Inl e \<Rightarrow> Inl e
      | Inr fn \<Rightarrow>
          (case th_call h fn vm offset of
             (Inr u, vm1, offset1) \<Rightarrow> run_cases h cs vm1 offset1 (sm\<lparr>ts_passed := ts_passed sm + 1\<rparr>)
           | (Inl e, vm1, offset1) \<Rightarrow> run_cases h cs vm1 offset1 (sm\<lparr>ts_failed := ts_failed sm + 1\<rparr>)))"

fun run_test_files :: "('vm, 'fn) test_host \<Rightarrow> prepared \<Rightarrow> (string \<rightharpoonup> string) \<Rightarrow> string list \<Rightarrow> int \<Rightarrow> test_summary \<Rightarrow> string + test_summary \<times> int" where
  "run_test_files h pp secrets [] offset sm = Inr (sm, offset)"
| "run_test_files h pp secrets (file # files) offset sm =
     (let name = file_name file in
      case th_boot h pp secrets offset of
        Inl e \<Rightarrow> Inl (name @ '': the entry point failed: '' @ e)
      | Inr vm \<Rightarrow>
     (case th_source h file of
        Inl e \<Rightarrow> Inl (file @ '': '' @ e)
      | Inr source \<Rightarrow>
     (case th_load h source name vm offset of
        (Inl e, vm1, offset1) \<Rightarrow> run_test_files h pp secrets files offset1 (sm\<lparr>ts_failed := ts_failed sm + 1\<rparr>)
      | (Inr cases, vm1, offset1) \<Rightarrow>
          (case run_cases h cases vm1 offset1 sm of
             Inl e \<Rightarrow> Inl e
           | Inr (sm1, offset2) \<Rightarrow> run_test_files h pp secrets files offset2 sm1))))"

definition run_tests :: "('vm, 'fn) test_host \<Rightarrow> 'v service \<Rightarrow> script_config \<Rightarrow> project_dir \<Rightarrow> string list \<Rightarrow> string + (string \<rightharpoonup> string)
    \<Rightarrow> string + test_summary" where
  "run_tests h sv cfg dir entries secrets =
     (if test_files entries = [] then Inl ''No tests found; add tests/*.lua to the project.''
      else case test_prepare sv cfg dir of
        Inl e \<Rightarrow> Inl e
      | Inr pp \<Rightarrow>
     (case secrets of
        Inl e \<Rightarrow> Inl e
      | Inr values \<Rightarrow>
          map_sum id fst (run_test_files h pp values (test_files entries) 0 \<lparr>ts_passed = 0, ts_failed = 0\<rparr>)))"

text \<open>A failing case hides no other: every case registered counts once.\<close>

lemma cases_count:
  "run_cases h cs vm offset sm = Inr (sm', offset') \<Longrightarrow> ts_passed sm' + ts_failed sm' = ts_passed sm + ts_failed sm + length cs"
  by (induction h cs vm offset sm arbitrary: sm' offset' rule: run_cases.induct) (auto split: sum.splits prod.splits)

text \<open>Files share nothing but the clock: the run of the later files is their own run, started at the offset the
  earlier ones left.\<close>

lemma run_files_append:
  "run_test_files h pp secrets (fs @ gs) offset sm =
     (case run_test_files h pp secrets fs offset sm of Inl e \<Rightarrow> Inl e | Inr (sm1, offset1) \<Rightarrow> run_test_files h pp secrets gs offset1 sm1)"
proof (induction fs arbitrary: offset sm)
  case (Cons f fs)
  show ?case
  proof (cases "th_boot h pp secrets offset")
    case boot: (Inr vm)
    show ?thesis
    proof (cases "th_source h f")
      case source: (Inr src)
      obtain res vm1 offset1 where load: "th_load h src (file_name f) vm offset = (res, vm1, offset1)" by (metis prod.exhaust)
      show ?thesis
      proof (cases res)
        case (Inl e)
        with boot source load Cons.IH show ?thesis by (simp add: Let_def)
      next
        case cases: (Inr cs)
        show ?thesis
        proof (cases "run_cases h cs vm1 offset1 sm")
          case (Inr x)
          obtain sm1 offset2 where "x = (sm1, offset2)" by (cases x)
          with boot source load cases Inr Cons.IH show ?thesis by (simp add: Let_def)
        qed (use boot source load cases in \<open>simp add: Let_def\<close>)
      qed
    qed (use boot in \<open>simp add: Let_def\<close>)
  qed (simp add: Let_def)
qed simp

text \<open>A case that expects the clock of a fresh process: alone it passes, after a file that advances it fails.\<close>

definition clock_host :: "(unit, string) test_host" where
  "clock_host = \<lparr>th_boot = (\<lambda>_ _ _. Inr ()), th_source = Inr,
     th_load = (\<lambda>source name vm offset. (Inr [\<lparr>tc_name = None, tc_fn = Inr source\<rparr>], vm, offset)),
     th_call = (\<lambda>fn vm offset. if fn = ''a.lua'' then (Inr (), vm, advance_clock_for_tests 1000 offset)
        else (if offset = 0 then Inr () else Inl ''the deadline passed'', vm, offset))\<rparr>"

lemma clock_outlives_file:
  "run_test_files clock_host pp secrets [''b.lua''] 0 \<lparr>ts_passed = 0, ts_failed = 0\<rparr> = Inr (\<lparr>ts_passed = 1, ts_failed = 0\<rparr>, 0)"
  "run_test_files clock_host pp secrets [''a.lua'', ''b.lua''] 0 \<lparr>ts_passed = 0, ts_failed = 0\<rparr> = Inr (\<lparr>ts_passed = 1, ts_failed = 1\<rparr>, 1000)"
  by (simp_all add: clock_host_def advance_clock_for_tests_def)

section \<open>The stand-in for secrets\<close>

definition fake_resolve_secret :: "(string \<rightharpoonup> string) \<Rightarrow> string \<Rightarrow> status + string \<times> nat" where
  "fake_resolve_secret values name =
     (case values name of Some v \<Rightarrow> Inr (v, 1) | None \<Rightarrow> Inl (NotFound ''no secret by that name''))"

end
