(* ===== verification/Blob_Cache.thy ===== *)
theory Blob_Cache
  imports Publishing
begin

text \<open>
  The worker's blob cache (\<open>actias-worker/src/blob_cache.rs\<close>): bytes by hash, from memory or the bucket. What
  the cache library decides, when to drop an entry, is a step of its own. The bucket is the blob table
  of the script service. Entries never expire; that this is right is the property.
\<close>

section \<open>The cache\<close>

record blob_cache =
  bc_entries :: "string \<rightharpoonup> string"

definition no_blobs :: blob_cache where
  "no_blobs = \<lparr>bc_entries = Map.empty\<rparr>"

text \<open>What an entry weighs against the capacity.\<close>

definition blob_weight :: "string \<Rightarrow> 32 word" where
  "blob_weight blob = of_nat (min (max (length blob) 1) (2 ^ 32 - 1))"

text \<open>A request that fails on the way gives its error; one for an absent key the error of the service.\<close>

datatype fetch = Served | Lost string

definition fetch_blob :: "fetch \<Rightarrow> string \<Rightarrow> script_store \<Rightarrow> string + string" where
  "fetch_blob net h s =
     (case net of
        Lost e \<Rightarrow> Inl (''blob '' @ quoted h @ '': '' @ e)
      | Served \<Rightarrow> (case st_blobs s h of None \<Rightarrow> Inl (''blob '' @ quoted h @ '': NoSuchKey'') | Some b \<Rightarrow> Inr b))"

definition cache_get :: "fetch \<Rightarrow> string \<Rightarrow> script_store \<Rightarrow> blob_cache \<Rightarrow> (string + string) \<times> blob_cache" where
  "cache_get net h s bc =
     (case bc_entries bc h of
        Some b \<Rightarrow> (Inr b, bc)
      | None \<Rightarrow>
          (case fetch_blob net h s of
             Inl e \<Rightarrow> (Inl e, bc)
           | Inr b \<Rightarrow> (Inr b, bc\<lparr>bc_entries := (bc_entries bc)(h \<mapsto> b)\<rparr>)))"

text \<open>Loading the files of a revision through it; only a file that names a hash and has no bytes is fetched.\<close>

fun cached_contents :: "fetch \<Rightarrow> script_store \<Rightarrow> blob_cache \<Rightarrow> bundle_file list \<Rightarrow> (load_error + bundle_file list) \<times> blob_cache" where
  "cached_contents net s bc [] = (Inr [], bc)"
| "cached_contents net s bc (f # fs) =
     (case (if f_content f = '''' \<and> f_hash f \<noteq> '''' then cache_get net (f_hash f) s bc else (Inr (f_content f), bc)) of
        (Inl e, bc1) \<Rightarrow> (Inl (Text ''blob''), bc1)
      | (Inr bytes, bc1) \<Rightarrow>
          (case cached_contents net s bc1 fs of
             (Inl e, bc2) \<Rightarrow> (Inl e, bc2) | (Inr gs, bc2) \<Rightarrow> (Inr (f\<lparr>f_content := bytes\<rparr> # gs), bc2)))"

section \<open>Entries are never stale\<close>

text \<open>A worker and the service: requests to the service, reads through the cache, and evictions.\<close>

inductive cache_reach :: "'v service \<Rightarrow> script_store \<Rightarrow> blob_cache \<Rightarrow> bool" for sv where
  cold: "cache_reach sv empty_store no_blobs"
| request: "cache_reach sv s bc \<Longrightarrow> script_step sv s s' \<Longrightarrow> cache_reach sv s' bc"
| load: "cache_reach sv s bc \<Longrightarrow> cache_reach sv s (snd (cache_get net h s bc))"
| evict: "cache_reach sv s bc \<Longrightarrow> cache_reach sv s (bc\<lparr>bc_entries := (bc_entries bc)(h := None)\<rparr>)"

definition cache_true :: "(string \<Rightarrow> string) \<Rightarrow> script_store \<Rightarrow> blob_cache \<Rightarrow> bool" where
  "cache_true hash s bc \<longleftrightarrow> blobs_addressed hash s \<and> (\<forall>h b. bc_entries bc h = Some b \<longrightarrow> hash b = h \<and> h \<in> dom (st_blobs s))"

lemma cache_reach_true: "cache_reach sv s bc \<Longrightarrow> cache_true (sv_hash sv) s bc"
proof (induction rule: cache_reach.induct)
  case cold
  show ?case by (simp add: cache_true_def blobs_addressed_def empty_store_def no_blobs_def)
next
  case (request s bc s')
  from script_step_blobs [OF request.hyps(2)] request.IH show ?case unfolding cache_true_def by blast
next
  case (load s bc net h)
  then show ?case by (auto simp: cache_true_def cache_get_def fetch_blob_def blobs_addressed_def split: option.splits fetch.splits)
next
  case (evict s bc h)
  then show ?case by (auto simp: cache_true_def)
qed

lemma cached_is_stored:
  assumes "cache_true hash s bc" "inj_on hash (Map.ran (bc_entries bc) \<union> Map.ran (st_blobs s))" "bc_entries bc h = Some b"
  shows "st_blobs s h = Some b"
proof -
  from assms(1,3) obtain b' where b': "st_blobs s h = Some b'" "hash b = h" by (auto simp: cache_true_def)
  then have "hash b' = hash b" using assms(1) by (simp add: cache_true_def blobs_addressed_def)
  then have "b' = b" using assms(2,3) b'(1) by (auto simp: Map.ran_def inj_on_def)
  with b'(1) show ?thesis by simp
qed

lemma cache_get_sound:
  assumes "cache_true hash s bc" "inj_on hash (Map.ran (bc_entries bc) \<union> Map.ran (st_blobs s))"
  shows "fst (cache_get net h s bc) = Inr b \<Longrightarrow> st_blobs s h = Some b"
    and "fst (cache_get Served h s bc) = Inl e \<Longrightarrow> st_blobs s h = None"
    and "cache_true hash s (snd (cache_get net h s bc))"
    and "inj_on hash (Map.ran (bc_entries (snd (cache_get net h s bc))) \<union> Map.ran (st_blobs s))"
proof -
  show "fst (cache_get net h s bc) = Inr b \<Longrightarrow> st_blobs s h = Some b"
    using cached_is_stored [OF assms] by (auto simp: cache_get_def fetch_blob_def split: option.splits fetch.splits)
  show "fst (cache_get Served h s bc) = Inl e \<Longrightarrow> st_blobs s h = None"
    by (auto simp: cache_get_def fetch_blob_def split: option.splits)
  show "cache_true hash s (snd (cache_get net h s bc))"
    using assms(1) by (auto simp: cache_true_def cache_get_def fetch_blob_def blobs_addressed_def split: option.splits fetch.splits)
  have "Map.ran (bc_entries (snd (cache_get net h s bc))) \<subseteq> Map.ran (bc_entries bc) \<union> Map.ran (st_blobs s)"
    by (auto simp: cache_get_def fetch_blob_def Map.ran_def split: option.splits fetch.splits if_splits)
  then show "inj_on hash (Map.ran (bc_entries (snd (cache_get net h s bc))) \<union> Map.ran (st_blobs s))"
    by (intro inj_on_subset [OF assms(2)]) blast
qed

lemma cached_contents_match:
  assumes "cache_true hash s bc" "inj_on hash (Map.ran (bc_entries bc) \<union> Map.ran (st_blobs s))"
  shows "fst (cached_contents Served s bc fs) = fetch_contents s fs"
  using assms
proof (induction fs arbitrary: bc)
  case (Cons f fs)
  show ?case
  proof (cases "f_content f = '''' \<and> f_hash f \<noteq> ''''")
    case True
    note sound = cache_get_sound [OF Cons.prems, where h = "f_hash f"]
    obtain r bc1 where g: "cache_get Served (f_hash f) s bc = (r, bc1)" by force
    note IH = Cons.IH [of bc1] sound(3,4) [of Served]
    show ?thesis
    proof (cases r)
      case (Inl e)
      with g True sound(2) show ?thesis by (simp add: blob_get_def)
    next
      case (Inr b)
      with g True sound(1) [of Served b] IH show ?thesis by (auto simp: blob_get_def split: prod.splits sum.splits)
    qed
  next
    case False
    with Cons.IH [OF Cons.prems] show ?thesis by (auto split: prod.splits sum.splits)
  qed
qed simp

text \<open>An entry is what the bucket holds, however long it has been in memory: whatever requests the service
  took and whatever was read and evicted, a read that answers gives the bytes stored under the hash now,
  and a revision loads through the cache exactly as from the bucket.\<close>

theorem cache_never_stale:
  assumes "cache_reach sv s bc" "inj_on (sv_hash sv) (Map.ran (bc_entries bc) \<union> Map.ran (st_blobs s))"
  shows "(\<forall>net h b. fst (cache_get net h s bc) = Inr b \<longrightarrow> st_blobs s h = Some b)
    \<and> fst (cached_contents Served s bc fs) = fetch_contents s fs"
  using cache_get_sound(1) [OF cache_reach_true [OF assms(1)] assms(2)] cached_contents_match [OF cache_reach_true [OF assms(1)] assms(2)]
  by blast

text \<open>On the store of the published directory, with its one blob in memory.\<close>

theorem cache_never_stale_witness:
  "fst (cache_get (Lost ''down'') ''hC'' published_once (snd (cache_get Served ''hC'' published_once no_blobs))) = Inr ''C''
   \<and> fst (cached_contents Served published_once (snd (cache_get Served ''hC'' published_once no_blobs)) fs) = fetch_contents published_once fs"
proof -
  let ?bc = "snd (cache_get Served ''hC'' published_once no_blobs)"
  have bc: "?bc = \<lparr>bc_entries = [''hC'' \<mapsto> ''C'']\<rparr>" by (simp add: cache_get_def fetch_blob_def no_blobs_def published_once_tables)
  have "script_reach sv s0 s \<Longrightarrow> cache_reach sv s0 b \<Longrightarrow> cache_reach sv s b" for sv :: "bool service" and s0 s b
    by (induction rule: script_reach.induct) (auto intro: cache_reach.request)
  then have reach: "cache_reach demo_service published_once ?bc"
    using published_once_reached by (blast intro: cache_reach.intros)
  have "inj_on (sv_hash demo_service) (Map.ran (bc_entries ?bc) \<union> Map.ran (st_blobs published_once))"
    by (auto simp: inj_on_def demo_service_def)
  from cache_never_stale [OF reach this, of fs] bc show ?thesis by (simp add: cache_get_def)
qed

end
