(* ===== verification/Analysis.thy ===== *)
theory Analysis
  imports Kv_Spec Kv_Migrate Publishing
begin

text \<open>
  The type check of the command line tool (\<open>actias-cli/src/analyze.rs\<close>): every Lua file is checked as a shadow
  that opens with typed declarations, and the line numbers in what the analyzer prints are shifted back
  to the user's file. The analyzer is a parameter, and so is the text of the declarations: what is shown
  holds for any.
\<close>

section \<open>Shadows\<close>

definition is_directive :: "string \<Rightarrow> bool" where
  "is_directive l \<longleftrightarrow> starts_with (trim_start l) ''--!''"

definition with_newlines :: "string list \<Rightarrow> string" where
  "with_newlines ls = concat (map (\<lambda>l. l @ [CHR 0x0A]) ls)"

definition shadow_source :: "string \<Rightarrow> string \<Rightarrow> string" where
  "shadow_source prologue source =
     (let directives = takeWhile is_directive (lines_of source);
          rest = drop (length directives) (lines_of source)
      in with_newlines directives @ prologue @ with_newlines rest)"

text \<open>\<open>usize::from_str\<close>.\<close>

definition parse_usize :: "string \<Rightarrow> nat option" where
  "parse_usize s =
     (let digits = (case strip_prefix s ''+'' of Some r \<Rightarrow> r | None \<Rightarrow> s) in
      if all_digits digits \<and> digits_value digits < 2 ^ 64 then Some (nat (digits_value digits)) else None)"

definition shift_line :: "string \<Rightarrow> nat \<Rightarrow> string" where
  "shift_line line offset =
     (case split_once CHR ''('' line of
        None \<Rightarrow> line
      | Some (before, after) \<Rightarrow>
     (case split_once CHR '','' after of
        None \<Rightarrow> line
      | Some (number, rest) \<Rightarrow>
     (case parse_usize number of
        None \<Rightarrow> line
      | Some reported \<Rightarrow> before @ ''('' @ show_nat (reported - offset) @ '','' @ rest)))"

section \<open>The check\<close>

datatype analyzer_run = Missing | Unrunnable string | Ran bool string string

fun shadow_files :: "string \<Rightarrow> bundle_file list \<Rightarrow> (string \<times> string) list" where
  "shadow_files prologue [] = []"
| "shadow_files prologue (f # fs) =
     (if \<not> ends_with (f_path f) ''.lua'' then shadow_files prologue fs
      else case from_utf8 (f_content f) of
        None \<Rightarrow> shadow_files prologue fs
      | Some source \<Rightarrow> (f_path f, shadow_source prologue source) # shadow_files prologue fs)"

text \<open>What the command answers, and what it prints.\<close>

definition analyze :: "(string \<Rightarrow> string) \<Rightarrow> string \<Rightarrow> ((string \<times> string) list \<Rightarrow> analyzer_run) \<Rightarrow> script_config \<Rightarrow> project_dir
    \<Rightarrow> (string + unit) \<times> string list" where
  "analyze hash prologue analyzer cfg dir =
     (case to_bundle hash cfg dir of
        Inl e \<Rightarrow> (Inl e, [])
      | Inr b \<Rightarrow>
          (let targets = shadow_files prologue (b_files b) in
           if targets = [] then (Inr (), [])
           else case analyzer targets of
             Missing \<Rightarrow> (Inr (), [''luau-analyze not found; skipping the type check.''])
           | Unrunnable e \<Rightarrow> (Inl (''luau-analyze could not run: '' @ e), [])
           | Ran success out err \<Rightarrow>
               (if success then Inr () else Inl ''The type check found errors.'',
                map (\<lambda>l. shift_line l (length (lines_of prologue))) (lines_of out @ lines_of err))))"

section \<open>Line numbers\<close>

text \<open>Line \<open>i\<close> of a text, from 1, as an analyzer counts.\<close>

definition line_at :: "string \<Rightarrow> nat \<Rightarrow> string" where
  "line_at s i = split_char CHR 0x0A s ! (i - 1)"

lemma split_line: "d \<notin> set l \<Longrightarrow> split_char d (l @ d # s) = l # split_char d s"
  by (induction l) auto

lemma split_lines: "\<forall>l \<in> set ls. d \<notin> set l \<Longrightarrow> split_char d (concat (map (\<lambda>l. l @ [d]) ls) @ s) = ls @ split_char d s"
  by (induction ls) (auto simp: split_line)

lemma lines_no_newline: "l \<in> set (lines_of s) \<Longrightarrow> CHR 0x0A \<notin> set l"
proof -
  assume "l \<in> set (lines_of s)"
  then obtain p where p: "p \<in> set (split_char CHR 0x0A s)" "l = (case strip_suffix p [CHR 0x0D] of Some r \<Rightarrow> r | None \<Rightarrow> p)"
    by (auto simp: lines_of_def Let_def split: if_splits dest: in_set_butlastD)
  have "set l \<subseteq> set p" using p(2) by (auto simp: strip_suffix_def strip_prefix_Some_iff rev_eq_append_conv split: option.splits)
  with split_char_no_sep [OF p(1)] show ?thesis by blast
qed

lemma shadow_lines:
  assumes "prologue = with_newlines ps" "\<forall>p \<in> set ps. CHR 0x0A \<notin> set p"
  shows "split_char CHR 0x0A (shadow_source prologue source) =
     takeWhile is_directive (lines_of source) @ ps @ dropWhile is_directive (lines_of source) @ [[]]"
proof -
  let ?ds = "takeWhile is_directive (lines_of source)" and ?rest = "dropWhile is_directive (lines_of source)"
  have "\<forall>l \<in> set ?ds. CHR 0x0A \<notin> set l" "\<forall>l \<in> set ?rest. CHR 0x0A \<notin> set l"
    using lines_no_newline [of _ source] by (auto dest: set_takeWhileD set_dropWhileD)
  then show ?thesis
    using assms(2) by (simp add: shadow_source_def Let_def assms(1) with_newlines_def split_lines dropWhile_eq_drop [symmetric]
        split_lines [where s = "[]", simplified])
qed

lemma prologue_length: "\<forall>p \<in> set ps. CHR 0x0A \<notin> set p \<Longrightarrow> length (lines_of (with_newlines ps)) = length ps"
  using split_lines [of ps "CHR 0x0A" "[]"] by (simp add: lines_of_def with_newlines_def Let_def)

lemma parse_shown: "n < 2 ^ 64 \<Longrightarrow> parse_usize (show_nat n) = Some n"
proof -
  assume n: "n < 2 ^ 64"
  have d: "all_digits (show_nat n)" "digits_value (show_nat n) = int n" using show_nat_digits by blast+
  then have "strip_prefix (show_nat n) ''+'' = None" using all_digits_unsigned [of "show_nat n"] by (cases "show_nat n") auto
  with d n show ?thesis by (simp add: parse_usize_def)
qed

lemma digits_no_comma: "all_digits s \<Longrightarrow> CHR '','' \<notin> set s"
  by (auto simp: all_digits_def list_all_iff)

lemma shift_shown:
  assumes "CHR ''('' \<notin> set path" "n < 2 ^ 64"
  shows "shift_line (path @ ''('' @ show_nat n @ '','' @ rest) offset = path @ ''('' @ show_nat (n - offset) @ '','' @ rest"
proof -
  have "CHR '','' \<notin> set (show_nat n)" using show_nat_digits digits_no_comma by blast
  then have "split_once CHR '','' (show_nat n @ '','' @ rest) = Some (show_nat n, rest)" by (simp add: split_once_Some_iff)
  moreover have "split_once CHR ''('' (path @ ''('' @ show_nat n @ '','' @ rest) = Some (path, show_nat n @ '','' @ rest)"
    using assms(1) by (simp add: split_once_Some_iff)
  ultimately show ?thesis using parse_shown [OF assms(2)] by (simp add: shift_line_def)
qed

text \<open>A diagnostic on a line below the leading directives points at the user's own line: the line the analyzer
  reports in the shadow has the text of the user's line, and the printed number is that line's.\<close>

theorem diagnostic_points_home:
  assumes "prologue = with_newlines ps" "\<forall>p \<in> set ps. CHR 0x0A \<notin> set p"
    and "length (takeWhile is_directive (lines_of source)) < i" "i \<le> length (lines_of source)"
    and "CHR ''('' \<notin> set path" "i + length ps < 2 ^ 64"
  shows "line_at (shadow_source prologue source) (i + length (lines_of prologue)) = lines_of source ! (i - 1)
    \<and> shift_line (path @ ''('' @ show_nat (i + length (lines_of prologue)) @ '','' @ rest) (length (lines_of prologue))
        = path @ ''('' @ show_nat i @ '','' @ rest"
proof -
  let ?ds = "takeWhile is_directive (lines_of source)" and ?rest = "dropWhile is_directive (lines_of source)"
  have len: "length (lines_of prologue) = length ps" using prologue_length [OF assms(2)] assms(1) by simp
  obtain j where j: "i = Suc (length ?ds + j)" using assms(3) by (metis add_Suc_right less_imp_Suc_add)
  have all: "lines_of source = ?ds @ ?rest" by simp
  then have "length (lines_of source) = length ?ds + length ?rest" by (metis length_append)
  then have jr: "j < length ?rest" using j assms(4) by linarith
  have "(?ds @ ps @ ?rest @ [[]]) ! (length ?ds + (length ps + j)) = ?rest ! j" using jr by (simp add: nth_append)
  moreover have "i + length ps - 1 = length ?ds + (length ps + j)" using j by simp
  ultimately have "line_at (shadow_source prologue source) (i + length ps) = ?rest ! j"
    unfolding line_at_def shadow_lines [OF assms(1,2)] by metis
  moreover have "lines_of source ! (i - 1) = ?rest ! j"
    by (subst all) (simp add: j nth_append del: takeWhile_dropWhile_id)
  ultimately show ?thesis using shift_shown [OF assms(5,6), of rest "length ps"] len by simp
qed

text \<open>The directives themselves stand above the declarations, but their numbers are shifted all the same: a
  diagnostic on one is printed at line 0.\<close>

lemma directive_at_zero:
  assumes "i \<le> length (lines_of prologue)" "i < 2 ^ 64" "CHR ''('' \<notin> set path"
  shows "shift_line (path @ ''('' @ show_nat i @ '','' @ rest) (length (lines_of prologue)) = path @ ''(0,'' @ rest"
proof -
  have "show_nat 0 = ''0''" by code_simp
  then show ?thesis using shift_shown [OF assms(3,2), of rest "length (lines_of prologue)"] assms(1) by simp
qed

theorem diagnostic_points_home_witness:
  "line_at (shadow_source (with_newlines [''local kv'']) (with_newlines [''--!strict'', ''print(1)''])) 3 = ''print(1)''
   \<and> shift_line ''./main.lua(3,1): bad'' 1 = ''./main.lua(2,1): bad''"
proof -
  have l: "lines_of (with_newlines [''--!strict'', ''print(1)'']) = [''--!strict'', ''print(1)'']"
    "length (lines_of (with_newlines [''local kv''])) = 1" by code_simp+
  have d: "length (takeWhile is_directive [''--!strict'', ''print(1)'']) < 2" by code_simp
  have "show_nat 3 = ''3''" "show_nat 2 = ''2''" by code_simp+
  with diagnostic_points_home [where ps = "[''local kv'']" and prologue = "with_newlines [''local kv'']" and i = 2
      and source = "with_newlines [''--!strict'', ''print(1)'']" and path = "''./main.lua''" and rest = "''1): bad''"] l d
  show ?thesis by simp
qed

end
