(* ===== verification/Spec2Isabelle.thy ===== *)
theory Spec2Isabelle
  imports Reads Sweep Handling Handles Kv_Migrate Secrets_Spec Live_Spec Testing Blob_Cache Analysis
begin

text \<open>
  A verification of the core of actias, a platform that runs Lua scripts and durable objects.

  \<^bold>\<open>The program.\<close> Scripts are published to the \<^emph>\<open>script service\<close>, which derives a revision's
  contract in a stub vm, stores files by content hash and points the script at the revision. A
  \<^emph>\<open>worker\<close> resolves a request's host to a script and a revision and runs it. Scripts call
  \<^emph>\<open>objects\<close>: named instances of a class, each one SQLite file, one mailbox and one pinned vm on the
  node that holds its lease. The \<^emph>\<open>placement store\<close> keeps nodes, leases and epochs; the \<^emph>\<open>bucket\<close> the
  snapshots that let an object move. Four classes are the platform's own: queue, workflow, cron and
  database.

  \<^bold>\<open>Shared ground.\<close> \<open>Prelude\<close> has the shape of a fallible function that changes its receiver
  (\<open>cmd\<close>: the new state and an error or a value), the string functions the sources call, and the
  collections of simplification rules. \<open>Json\<close> is \<open>serde_json::Value\<close>; its text form is a parameter
  (\<open>codec\<close>) whose documented round trip is the named hypothesis \<open>codec_round_trips\<close>, met by the
  concrete \<open>Text_Codec\<close>.

  \<^bold>\<open>One object\<close> (\<open>actias-worker-core\<close>).
  \<^item> \<open>Storage\<close> (\<open>storage.rs\<close>): a file is its committed contents and, inside a transaction, a working
    copy. \<open>Script_Sql\<close> is \<open>exec\<close> and \<open>query\<close> around the SQL engine, a parameter.
  \<^item> \<open>Home\<close> (\<open>objects.rs\<close>): \<open>ObjectHome\<close>, \<open>guarded_dispatch\<close>, \<open>fire_alarm\<close>, the host registry. The task
    loop is the step relation \<open>task_step\<close> with the mailbox bound 64. \<open>Dispatch\<close> states what the guard
    gives a class as locales (\<open>object_body\<close>, \<open>atomic_body\<close>, \<open>object_task\<close>, \<open>task_invariant\<close>), which every
    class below interprets.
  \<^item> \<open>Platform\<close> (\<open>platform/mod.rs\<close>) decodes calls and fires listeners.
  \<^item> \<open>Queue\<close> (\<open>platform/queue.rs\<close>); \<open>Queue_Props\<close>, \<open>Queue_Delivery\<close> and \<open>Queue_Spec\<close> refine it to a ledger of
    numbered messages: nothing unacknowledged is lost, attempts are bounded, an alarm is armed while
    messages wait.
  \<^item> \<open>Journal\<close> and \<open>Workflow\<close> (\<open>platform/workflow.rs\<close>): guest code is a tree of verbs, an attempt walks
    the journal. \<open>Workflow_Keeps\<close>: the journal only grows. \<open>Workflow_Replay\<close>, \<open>Workflow_Record\<close>,
    \<open>Workflow_Exact\<close> and \<open>Workflow_Spec\<close>: what an attempt recorded, the next replays to the same point.
  \<^item> \<open>Cron\<close>, \<open>Database\<close>, \<open>User_Class\<close> (\<open>platform/cron.rs\<close>, \<open>platform/database.rs\<close>, \<open>install_dispatch\<close> of
    \<open>extensions/objects.rs\<close>), joined by \<open>Classes\<close> into the node's dispatch and its task invariants.
  \<^item> \<open>Handles\<close> (the rest of \<open>extensions/objects.rs\<close>): the handles of other objects and runs and the surface of
    the object's own state. A method is a tree over them: every one is all or nothing under the guard,
    and its calls carry the chain that lets the router refuse a ring.

  \<^bold>\<open>The fleet.\<close>
  \<^item> \<open>Identity\<close> (\<open>identity.rs\<close>): keys and their canonical strings.
  \<^item> \<open>Registry\<close> (\<open>node_registry.rs\<close>): every rpc on the tables; a claim is its sequence of statements, so
    claims interleave. \<open>Registry_Spec\<close>: leases belong to registered nodes, epochs grow.
  \<^item> \<open>Shipping\<close> (\<open>object_store.rs\<close>): shipping as its three requests, restoring, the fence.
  \<^item> \<open>Routing\<close> (\<open>routing.rs\<close>, \<open>data_plane.rs\<close>): from a call on any node to a mailbox; \<open>Routing_Spec\<close>: at
    most one hop, the right object, one home. \<open>Reads\<close>: dashboard reads. \<open>Sweep\<close> (\<open>sweeper.rs\<close>,
    \<open>heartbeat.rs\<close>): orphaned alarms and membership, in batches of 256.

  \<^bold>\<open>Publishing and serving.\<close>
  \<^item> \<open>Bundles\<close>, \<open>Declarations\<close> (\<open>actias-declarations\<close>, \<open>runtime/mod.rs\<close>): guest chunks are trees over the
    declaration forms and the loaders; the interrupt of the pass is a step budget, and every statement
    is for any budget. \<open>Declarations_Spec\<close>: what the pass accepts runs under its contract.
  \<^item> \<open>Script_Service\<close> (\<open>script_service.rs\<close>): every rpc with its cascades; \<open>Script_Spec\<close>: consistent tables,
    one owner per class, bundles that come back.
  \<^item> \<open>Publishing\<close> (\<open>actias-cli\<close>: \<open>script.rs\<close>, \<open>capabilities.rs\<close>, \<open>handlers/publish.rs\<close>): the bundle of a
    directory, the local pass and the negotiation of contents by hash: a published tree comes back.
  \<^item> \<open>Http_Serving\<close> (\<open>server.rs\<close>): addressing, caches and revision loading. \<open>Handling\<close> (the rest of
    \<open>server.rs\<close>, \<open>logging.rs\<close>, \<open>metrics.rs\<close>): the request a listener gets, the response, the counters, and the
    arming of cron events at first touch. \<open>Blob_Cache\<close> (\<open>blob_cache.rs\<close>): bytes by hash, never stale.
  \<^item> \<open>Egress\<close> (\<open>egress.rs\<close>) and \<open>Outbound\<close> (\<open>extensions/http.rs\<close>): addresses at their widths, the policy, the
    resolver and the redirect rule; the client is a parameter that honours them, with at most six hops.
  \<^item> \<open>Testing\<close> (\<open>actias-cli/src/testing.rs\<close>): the stand-ins of \<open>actias test\<close>. A locale states what a script's
    handle needs of a key value service; the stand-in and the worker's service both provide it, so tests
    see the answers of the worker, and they run the code that is published. \<open>Analysis\<close> (\<open>analyze.rs\<close>): the
    type check over shadows, whose diagnostics point at the user's lines.

  \<^bold>\<open>Data beside the objects.\<close>
  \<^item> \<open>Kv\<close> (\<open>actias-kv\<close> and the handle of \<open>extensions/kv.rs\<close>): a partition is its rows in key order, a
    request the statements it sends, each of which the network may lose or the store refuse.
    \<open>Kv_Spec\<close>: rows stay typed, a listing started anywhere ends (one page more than there are keys is
    enough fuel), values come back. \<open>Kv_Migrate\<close> (\<open>migrate.rs\<close>): a boot may stop anywhere and be rerun.
  \<^item> \<open>Secrets\<close> (\<open>envelope.rs\<close>, \<open>secret_service.rs\<close>, \<open>extensions/secrets.rs\<close>): AES-256-GCM and the random
    source are parameters; setting a secret is its sequence of statements, so writers interleave.
    \<open>Secrets_Spec\<close>: versions count up, an answered version resolves, a rotation ends, a run keeps the
    version it read.
  \<^item> \<open>Live\<close> (\<open>live_script.rs\<close>): sessions as Redis keys with expiry; \<open>Live_Spec\<close>: what is saved is served
    for two minutes, and deleting a script ends its sessions.

  \<^bold>\<open>Not modelled.\<close> The Lua vm, SQLite, tonic, Redis, S3 and the cron expression parser are code outside
  the repository: they appear as parameters. Timers and budgets in seconds are environment choices.
  The crypto, jwt and log bindings of a script wrap libraries. The rest of the command line tool (arguments, prompts, listings, the workflow harness
  of the tests), start-up and configuration, and the TypeScript api and web front end carry none of the
  logic above.
\<close>

end
